(* ===== verification/Prelude.thy ===== *)
theory Prelude
  imports Main "HOL-Library.Word" "HOL-Library.Multiset"
begin

text \<open>
  What the components share: machine integer types, aborting computations and the intrusive
  linked lists both allocators thread through the memory they manage.

  The kernel is modelled in the profile that \<^verbatim>\<open>cargo run\<close> builds (the dev profile): a
  \<^verbatim>\<open>debug_assert!\<close> that fails, an array index out of range and an integer overflow in
  \<^verbatim>\<open>+\<close>, \<^verbatim>\<open>-\<close> or \<^verbatim>\<open>*\<close> all panic. A computation that may panic, or that stops the
  machine in a \<^verbatim>\<open>loop { hlt }\<close>, returns \<open>Inl\<close> of an \<open>abort\<close>.
\<close>

unbundle bit_operations_syntax

type_synonym u8 = "8 word"
type_synonym u32 = "32 word"
type_synonym u64 = "64 word"

section \<open>Bit counting on \<^verbatim>\<open>u64\<close>\<close>

text \<open>
  \<^verbatim>\<open>u64::trailing_zeros\<close> (64 on zero) and \<^verbatim>\<open>63 - leading_zeros\<close>, on a value below $2^{64}$.
\<close>

fun u64_trailing_zeros :: "nat \<Rightarrow> nat" where
  "u64_trailing_zeros n =
     (if n = 0 then 64 else if odd n then 0 else Suc (u64_trailing_zeros (n div 2)))"

declare u64_trailing_zeros.simps [simp del]

fun u64_ilog2 :: "nat \<Rightarrow> nat" where
  "u64_ilog2 n = (if n < 2 then 0 else Suc (u64_ilog2 (n div 2)))"

declare u64_ilog2.simps [simp del]

lemma trailing_zeros_dvd: "k \<le> u64_trailing_zeros n \<Longrightarrow> 2 ^ k dvd n"
proof (induction n arbitrary: k rule: u64_trailing_zeros.induct)
  case (1 n)
  show ?case
  proof (cases "n = 0 \<or> odd n \<or> k = 0")
    case True
    with "1.prems" show ?thesis by (auto simp: u64_trailing_zeros.simps [of n] split: if_splits)
  next
    case False
    with "1.prems" obtain j where j: "k = Suc j" "j \<le> u64_trailing_zeros (n div 2)"
      by (cases k) (auto simp: u64_trailing_zeros.simps [of n])
    with False "1.IH" have "2 ^ j dvd n div 2" by auto
    with False j show ?thesis by (auto elim!: dvdE evenE)
  qed
qed

lemma dvd_trailing_zeros: "2 ^ k dvd n \<Longrightarrow> 0 < n \<Longrightarrow> k \<le> u64_trailing_zeros n"
proof (induction n arbitrary: k rule: u64_trailing_zeros.induct)
  case (1 n)
  show ?case
  proof (cases k)
    case 0
    then show ?thesis by simp
  next
    case (Suc j)
    with "1.prems" have "even n" by (auto dest: dvd_mult_left)
    with Suc "1.prems" have "2 ^ j dvd n div 2" "0 < n div 2"
      by (auto elim!: evenE)
    with "1.IH" "1.prems" \<open>even n\<close> Suc show ?thesis
      by (auto simp: u64_trailing_zeros.simps [of n])
  qed
qed

lemma ilog2_le: "0 < n \<Longrightarrow> 2 ^ u64_ilog2 n \<le> n"
proof (induction n rule: u64_ilog2.induct)
  case (1 n)
  then show ?case by (cases "n < 2") (auto simp: u64_ilog2.simps [of n])
qed

lemma less_ilog2: "n < 2 * 2 ^ u64_ilog2 n"
proof (induction n rule: u64_ilog2.induct)
  case (1 n)
  then show ?case by (cases "n < 2") (auto simp: u64_ilog2.simps [of n])
qed

section \<open>Aborting computations\<close>

datatype abort = Panic | Halt

type_synonym 'a res = "abort + 'a"

definition bindR :: "'a res \<Rightarrow> ('a \<Rightarrow> 'b res) \<Rightarrow> 'b res" where
  "bindR m f = (case m of Inl e \<Rightarrow> Inl e | Inr x \<Rightarrow> f x)"

definition assertR :: "bool \<Rightarrow> unit res" where
  "assertR b = (if b then Inr () else Inl Panic)"

lemma bindR_Inr [simp]: "bindR (Inr x) f = f x"
  by (simp add: bindR_def)

lemma bindR_Inl [simp]: "bindR (Inl e) f = Inl e"
  by (simp add: bindR_def)

lemma assertR_True [simp]: "b \<Longrightarrow> assertR b = Inr ()"
  by (simp add: assertR_def)

lemma assertR_False [simp]: "\<not> b \<Longrightarrow> assertR b = Inl Panic"
  by (simp add: assertR_def)

lemma bindR_eq_Inr: "bindR m f = Inr y \<longleftrightarrow> (\<exists>x. m = Inr x \<and> f x = Inr y)"
  by (cases m) simp_all

lemma bindR_cong [fundef_cong]:
  "m = m' \<Longrightarrow> (\<And>x. m' = Inr x \<Longrightarrow> f x = f' x) \<Longrightarrow> bindR m f = bindR m' f'"
  by (cases m') simp_all

text \<open>What every result that is not an abort satisfies.\<close>

definition okR :: "('a \<Rightarrow> bool) \<Rightarrow> 'a res \<Rightarrow> bool" where
  "okR P r = (case r of Inl _ \<Rightarrow> True | Inr x \<Rightarrow> P x)"

lemma okR_simps [simp]:
  "okR P (Inr x) = P x" "okR P (Inl e)" "okR P (bindR m f) = okR (\<lambda>x. okR P (f x)) m" "okR (\<lambda>x. True) r"
  by (cases m; simp add: okR_def bindR_def split: sum.splits)+

lemma okR_mono: "okR P r \<Longrightarrow> (\<And>x. P x \<Longrightarrow> Q x) \<Longrightarrow> okR Q r"
  by (simp add: okR_def split: sum.splits)

lemma okRI: "(\<And>x. r = Inr x \<Longrightarrow> P x) \<Longrightarrow> okR P r"
  by (cases r) simp_all

lemma okRD: "okR P r \<Longrightarrow> r = Inr x \<Longrightarrow> P x"
  by simp

text \<open>\<^verbatim>\<open>u64\<close> and \<^verbatim>\<open>usize\<close> arithmetic: an overflow panics.\<close>

definition add64 :: "nat \<Rightarrow> nat \<Rightarrow> nat res" where
  "add64 a b = (if a + b < 2 ^ 64 then Inr (a + b) else Inl Panic)"

definition sub64 :: "nat \<Rightarrow> nat \<Rightarrow> nat res" where
  "sub64 a b = (if b \<le> a then Inr (a - b) else Inl Panic)"

definition mul64 :: "nat \<Rightarrow> nat \<Rightarrow> nat res" where
  "mul64 a b = (if a * b < 2 ^ 64 then Inr (a * b) else Inl Panic)"

lemma add64_ok [simp]: "a + b < 2 ^ 64 \<Longrightarrow> add64 a b = Inr (a + b)"
  by (simp add: add64_def)

lemma sub64_ok [simp]: "b \<le> a \<Longrightarrow> sub64 a b = Inr (a - b)"
  by (simp add: sub64_def)

lemma mul64_ok [simp]: "a * b < 2 ^ 64 \<Longrightarrow> mul64 a b = Inr (a * b)"
  by (simp add: mul64_def)

lemma add64_eq_Inr: "add64 a b = Inr c \<longleftrightarrow> c = a + b \<and> a + b < 2 ^ 64"
  by (auto simp: add64_def)

section \<open>First matching element of a list\<close>

text \<open>
  \<^verbatim>\<open>position\<close> followed by \<^verbatim>\<open>remove\<close>: take the first element that satisfies the predicate out of the
  list; and \<^verbatim>\<open>iter_mut().find\<close>: update it in place.
\<close>

fun take_first :: "('a \<Rightarrow> bool) \<Rightarrow> 'a list \<Rightarrow> ('a \<times> 'a list) option" where
  "take_first p [] = None"
| "take_first p (x # xs) = (if p x then Some (x, xs) else map_option (\<lambda>(y, ys). (y, x # ys)) (take_first p xs))"

fun upd_first :: "('a \<Rightarrow> bool) \<Rightarrow> ('a \<Rightarrow> 'a) \<Rightarrow> 'a list \<Rightarrow> 'a list option" where
  "upd_first p f [] = None"
| "upd_first p f (x # xs) = (if p x then Some (f x # xs) else map_option ((#) x) (upd_first p f xs))"

lemma take_first_None: "take_first p xs = None \<longleftrightarrow> (\<forall>x \<in> set xs. \<not> p x)"
  by (induction xs) auto

lemma take_first_Some:
  "take_first p xs = Some (y, ys) \<Longrightarrow> p y \<and> (\<exists>us vs. xs = us @ y # vs \<and> ys = us @ vs \<and> (\<forall>u \<in> set us. \<not> p u))"
proof (induction xs arbitrary: ys)
  case (Cons x xs)
  show ?case
  proof (cases "p x")
    case True
    with Cons.prems have "p y \<and> x # xs = [] @ y # xs \<and> ys = [] @ xs \<and> (\<forall>u \<in> set []. \<not> p u)" by simp
    then show ?thesis by blast
  next
    case False
    with Cons.prems obtain zs where zs: "take_first p xs = Some (y, zs)" "ys = x # zs" by auto
    with Cons.IH obtain us vs where "p y" "xs = us @ y # vs" "zs = us @ vs" "\<forall>u \<in> set us. \<not> p u" by blast
    with False zs have "p y \<and> x # xs = (x # us) @ y # vs \<and> ys = (x # us) @ vs \<and> (\<forall>u \<in> set (x # us). \<not> p u)" by simp
    then show ?thesis by blast
  qed
qed simp

lemma take_first_unique: "\<forall>u \<in> set us. \<not> p u \<Longrightarrow> p x \<Longrightarrow> take_first p (us @ x # vs) = Some (x, us @ vs)"
  by (induction us) auto

lemma take_first_mset: "take_first p xs = Some (y, ys) \<Longrightarrow> mset xs = add_mset y (mset ys)"
  by (auto dest: take_first_Some)

lemma upd_first_None: "upd_first p f xs = None \<longleftrightarrow> (\<forall>x \<in> set xs. \<not> p x)"
  by (induction xs) auto

lemma upd_first_Some:
  "upd_first p f xs = Some ys \<Longrightarrow> \<exists>us x vs. xs = us @ x # vs \<and> ys = us @ f x # vs \<and> p x \<and> (\<forall>u \<in> set us. \<not> p u)"
proof (induction xs arbitrary: ys)
  case (Cons x xs)
  show ?case
  proof (cases "p x")
    case True
    with Cons.prems have "x # xs = [] @ x # xs \<and> ys = [] @ f x # xs \<and> p x \<and> (\<forall>u \<in> set []. \<not> p u)" by simp
    then show ?thesis by blast
  next
    case False
    with Cons.prems obtain zs where zs: "upd_first p f xs = Some zs" "ys = x # zs" by auto
    with Cons.IH obtain us y vs where "xs = us @ y # vs" "zs = us @ f y # vs" "p y" "\<forall>u \<in> set us. \<not> p u" by blast
    with False zs have "x # xs = (x # us) @ y # vs \<and> ys = (x # us) @ f y # vs \<and> p y \<and> (\<forall>u \<in> set (x # us). \<not> p u)" by simp
    then show ?thesis by blast
  qed
qed simp

section \<open>Intrusive linked lists\<close>

text \<open>
  \<open>chain h p xs\<close>: following the \<^verbatim>\<open>next\<close> fields stored in memory \<open>h\<close> from the head pointer
  \<open>p\<close> visits exactly the nodes \<open>xs\<close> and then ends.
\<close>

primrec chain :: "('a \<Rightarrow> 'a option) \<Rightarrow> 'a option \<Rightarrow> 'a list \<Rightarrow> bool" where
  "chain h p [] \<longleftrightarrow> p = None"
| "chain h p (x # xs) \<longleftrightarrow> p = Some x \<and> chain h (h x) xs"

lemma chain_None [simp]: "chain h None xs \<longleftrightarrow> xs = []"
  by (cases xs) auto

lemma chain_Some: "chain h (Some x) xs \<longleftrightarrow> (\<exists>ys. xs = x # ys \<and> chain h (h x) ys)"
  by (cases xs) auto

lemma chain_unique: "chain h p xs \<Longrightarrow> chain h p ys \<Longrightarrow> xs = ys"
  by (induction xs arbitrary: p ys) (auto simp: chain_Some)

lemma chain_upd [simp]: "x \<notin> set xs \<Longrightarrow> chain (h(x := v)) p xs \<longleftrightarrow> chain h p xs"
  by (induction xs arbitrary: p) auto

lemma chain_cong: "(\<And>x. x \<in> set xs \<Longrightarrow> h x = h' x) \<Longrightarrow> chain h p xs \<longleftrightarrow> chain h' p xs"
  by (induction xs arbitrary: p) auto

lemma chain_append_split:
  "chain h p (xs @ y # ys) \<Longrightarrow> chain h (Some y) (y # ys)"
  by (induction xs arbitrary: p) auto

text \<open>A list that ends cannot visit a node twice.\<close>

lemma chain_distinct: "chain h p xs \<Longrightarrow> distinct xs"
proof (induction xs arbitrary: p)
  case Nil
  then show ?case by simp
next
  case (Cons x xs)
  have "x \<notin> set xs"
  proof
    assume "x \<in> set xs"
    then obtain us vs where xs: "xs = us @ x # vs"
      by (meson split_list)
    with Cons.prems have "chain h (Some x) (x # vs)"
      by (auto dest: chain_append_split)
    with Cons.prems have "x # vs = x # xs"
      by (auto dest: chain_unique)
    with xs show False by simp
  qed
  with Cons show ?case by auto
qed

text \<open>Unlinking the node after \<open>p\<close>.\<close>

lemma chain_unlink:
  "chain h q (xs @ p # x # ys) \<Longrightarrow> chain (h(p := h x)) q (xs @ p # ys)"
proof (induction xs arbitrary: q)
  case Nil
  then have "distinct (p # x # ys)"
    by (metis append_Nil chain_distinct)
  with Nil show ?case by (auto simp del: fun_upd_apply simp: fun_upd_same)
next
  case (Cons y xs)
  then have "distinct (y # xs @ p # x # ys)"
    by (metis append_Cons chain_distinct)
  with Cons show ?case by (auto simp del: fun_upd_apply simp: fun_upd_same fun_upd_other)
qed

lemma and_mask_self: "unat x < 2 ^ n \<Longrightarrow> and x (mask n) = (x :: 'a :: len word)"
proof -
  assume "unat x < 2 ^ n"
  then have "take_bit n (unat x) = unat x" by (simp add: take_bit_nat_eq_self_iff)
  then have "take_bit n x = x" by (metis unsigned_take_bit_eq unsigned_word_eqI)
  then show ?thesis by (simp add: take_bit_eq_mask)
qed

end
