(* ===== verification/Bytes.thy ===== *)
theory Bytes
  imports Prelude
begin

text \<open>
  Byte-addressed memory and little-endian integers: what the components that lay data out in raw memory
  (the slab allocator's free objects, on-disk structures) share.
\<close>

section \<open>Little-endian integers\<close>

primrec le_val :: "u8 list \<Rightarrow> nat" where
  "le_val [] = 0"
| "le_val (b # bs) = unat b + 256 * le_val bs"

primrec le_bytes :: "nat \<Rightarrow> nat \<Rightarrow> u8 list" where
  "le_bytes 0 v = []"
| "le_bytes (Suc n) v = of_nat v # le_bytes n (v div 256)"

lemma length_le_bytes [simp]: "length (le_bytes n v) = n"
  by (induction n arbitrary: v) simp_all

lemma le_val_bound: "le_val bs < 256 ^ length bs"
proof (induction bs)
  case Nil
  then show ?case by simp
next
  case (Cons b bs)
  have "unat b < 256" using unsigned_less [of b] by simp
  moreover have "256 * le_val bs + 256 \<le> 256 * 256 ^ length bs"
    using Cons by simp
  ultimately show ?case by simp
qed

lemma unat_of_nat_u8 [simp]: "unat (of_nat v :: u8) = v mod 256"
  by (simp add: unat_of_nat)

lemma le_val_le_bytes: "le_val (le_bytes n v) = v mod 256 ^ n"
proof (induction n arbitrary: v)
  case 0
  then show ?case by simp
next
  case (Suc n)
  have "v mod (256 * 256 ^ n) = 256 * (v div 256 mod 256 ^ n) + v mod 256"
    by (rule mod_mult2_eq)
  with Suc show ?case by simp
qed

lemma le_bytes_le_val: "le_bytes (length bs) (le_val bs) = bs"
proof (induction bs)
  case Nil
  then show ?case by simp
next
  case (Cons b bs)
  have "unat b < 256" using unsigned_less [of b] by simp
  then have "unat (of_nat (unat b + 256 * le_val bs) :: u8) = unat b"
    by (simp only: unat_of_nat_u8) simp
  then have "of_nat (unat b + 256 * le_val bs) = b" by (rule unsigned_word_eqI)
  with \<open>unat b < 256\<close> Cons show ?case by simp
qed

section \<open>Memory\<close>

type_synonym bytes = "nat \<Rightarrow> u8"

definition peek :: "bytes \<Rightarrow> nat \<Rightarrow> nat \<Rightarrow> u8 list" where
  "peek m a n = map m [a ..< a + n]"

definition poke :: "bytes \<Rightarrow> nat \<Rightarrow> u8 list \<Rightarrow> bytes" where
  "poke m a bs = (\<lambda>x. if a \<le> x \<and> x < a + length bs then bs ! (x - a) else m x)"

lemma length_peek [simp]: "length (peek m a n) = n"
  by (simp add: peek_def)

lemma peek_poke [simp]: "peek (poke m a bs) a (length bs) = bs"
  by (rule nth_equalityI) (simp_all add: peek_def poke_def)

lemma poke_other: "x < a \<or> a + length bs \<le> x \<Longrightarrow> poke m a bs x = m x"
  by (auto simp: poke_def)

lemma peek_cong: "(\<And>x. a \<le> x \<Longrightarrow> x < a + n \<Longrightarrow> m x = m' x) \<Longrightarrow> peek m a n = peek m' a n"
  by (simp add: peek_def)

lemma peek_poke_other:
  "b + n \<le> a \<or> a + length bs \<le> b \<Longrightarrow> peek (poke m a bs) b n = peek m b n"
  by (rule peek_cong) (auto simp: poke_def)

lemma peek_append: "peek m a i @ peek m (a + i) j = peek m a (i + j)"
  by (rule nth_equalityI) (auto simp: peek_def nth_append)

lemma poke_Nil [simp]: "poke m a [] = m"
  by (rule ext) (auto simp: poke_def)

end
