(* ===== verification/Phys_Iface.thy ===== *)
theory Phys_Iface
  imports Prelude
begin

text \<open>
  The contract between the physical allocator and its clients (\<^verbatim>\<open>phys_alloc\<close> and
  \<^verbatim>\<open>phys_free\<close> of \<^verbatim>\<open>kernel/src/allocator/mod.rs\<close>), as a locale: \<open>pmem\<close> is the memory the
  provider considers free, \<open>pready\<close> the condition under which a block can be given back.
\<close>

locale phys_allocator =
  fixes palloc :: "nat \<Rightarrow> 's \<Rightarrow> (nat option \<times> 's) res"
    and pfree :: "nat \<Rightarrow> nat \<Rightarrow> 's \<Rightarrow> 's res"
    and pinv :: "'s \<Rightarrow> bool"
    and pready :: "'s \<Rightarrow> bool"
    and pmem :: "'s \<Rightarrow> nat set"
    and porder :: "nat \<Rightarrow> bool"
    and plimit :: nat
  assumes palloc_total: "pinv s \<Longrightarrow> porder n \<Longrightarrow> \<exists>r s'. palloc n s = Inr (r, s')"
    and palloc_none: "pinv s \<Longrightarrow> palloc n s = Inr (None, s') \<Longrightarrow> s' = s"
    and palloc_some: "pinv s \<Longrightarrow> palloc n s = Inr (Some a, s') \<Longrightarrow>
          pinv s' \<and> porder n \<and> 2 ^ n dvd a \<and> {a ..< a + 2 ^ n} \<subseteq> pmem s \<and>
          pmem s' = pmem s - {a ..< a + 2 ^ n}"
    and pfree_ok: "pinv s \<Longrightarrow> pready s \<Longrightarrow> porder n \<Longrightarrow> 2 ^ n dvd a \<Longrightarrow> a + 2 ^ n \<le> plimit \<Longrightarrow>
          disjnt {a ..< a + 2 ^ n} (pmem s) \<Longrightarrow>
          \<exists>s'. pfree a n s = Inr s' \<and> pinv s' \<and> pmem s' = pmem s \<union> {a ..< a + 2 ^ n}"
    and pmem_limit: "pinv s \<Longrightarrow> pmem s \<subseteq> {..< plimit}"
begin

lemma palloc_block_limit:
  assumes "pinv s" "palloc n s = Inr (Some a, s')"
  shows "a + 2 ^ n \<le> plimit"
proof (rule ccontr)
  assume "\<not> ?thesis"
  then have "max a plimit \<in> {a ..< a + 2 ^ n}" by simp
  with palloc_some [OF assms] have "max a plimit \<in> pmem s" by blast
  with pmem_limit [OF assms(1)] show False by auto
qed

text \<open>A block just allocated is disjoint from anything not free, in particular from what others hold.\<close>

lemma palloc_disjoint:
  assumes "pinv s" "palloc n s = Inr (Some a, s')" "disjnt X (pmem s)"
  shows "disjnt {a ..< a + 2 ^ n} X" "disjnt {a ..< a + 2 ^ n} (pmem s')" "disjnt X (pmem s')"
  using palloc_some [OF assms(1,2)] assms(3) by (auto simp: disjnt_def)

lemma palloc_pfree:
  assumes "pinv s" "palloc n s = Inr (Some a, s')" "pready s'"
  shows "\<exists>s''. pfree a n s' = Inr s'' \<and> pinv s'' \<and> pmem s'' = pmem s"
proof -
  note post = palloc_some [OF assms(1,2)]
  have "disjnt {a ..< a + 2 ^ n} (pmem s')" using post by (auto simp: disjnt_def)
  with post palloc_block_limit [OF assms(1,2)] assms(3)
  obtain s'' where "pfree a n s' = Inr s''" "pinv s''" "pmem s'' = pmem s' \<union> {a ..< a + 2 ^ n}"
    using pfree_ok [of s' n a] by blast
  moreover have "pmem s' \<union> {a ..< a + 2 ^ n} = pmem s" using post by blast
  ultimately show ?thesis by simp
qed

end

end
