(* ===== verification/Slab.thy ===== *)
theory Slab
  imports Bytes Phys_Iface
begin

text \<open>
  The kernel heap, \<^verbatim>\<open>kernel/src/allocator/slab.rs\<close>: size classes served from pages of the
  physical allocator, larger requests passed on to it.

  Memory is byte addressed; a free object's first eight bytes hold its \<^verbatim>\<open>next\<close> pointer, as
  \<^verbatim>\<open>Option<NonNull<FreeObject>>\<close> is laid out (zero is \<^verbatim>\<open>None\<close>). The physical allocator is the
  parameter \<open>palloc\<close>, \<open>pfree\<close> with the contract \<open>phys_allocator\<close>; \<open>off\<close> is
  \<^verbatim>\<open>physical_memory_offset()\<close>, a constant once the boot code has set it.
\<close>

section \<open>Size classes\<close>

definition SLAB_SIZES :: "nat list" where
  "SLAB_SIZES = [8, 16, 32, 64, 128, 256, 512, 1024, 2048]"

definition NUM_SLABS :: nat where "NUM_SLABS = length SLAB_SIZES"
definition MAX_SLAB_SIZE :: nat where "MAX_SLAB_SIZE = 2048"
definition PAGE_SIZE :: nat where "PAGE_SIZE = 4096"
definition PAGE_ORDER :: nat where "PAGE_ORDER = 12"

text \<open>\<^verbatim>\<open>usize::next_power_of_two\<close>: the smallest power of two not below its argument.\<close>

definition next_power_of_two :: "nat \<Rightarrow> nat" where
  "next_power_of_two n = (if n \<le> 1 then 1 else 2 ^ Suc (u64_ilog2 (n - 1)))"

definition size_to_buddy_order :: "nat \<Rightarrow> nat" where
  "size_to_buddy_order sz =
     (let pages = (sz + PAGE_SIZE - 1) div PAGE_SIZE in
      if pages \<le> 1 then PAGE_ORDER
      else PAGE_ORDER + u64_trailing_zeros (next_power_of_two pages))"

primrec position_from :: "nat \<Rightarrow> nat list \<Rightarrow> nat \<Rightarrow> nat option" where
  "position_from i [] sz = None"
| "position_from i (x # xs) sz = (if x \<ge> sz then Some i else position_from (Suc i) xs sz)"

definition slab_index :: "nat \<Rightarrow> nat option" where
  "slab_index sz = position_from 0 SLAB_SIZES sz"

section \<open>State\<close>

record slab_cache =
  free_list :: "nat option"
  total_objects :: nat
  used_objects :: nat

definition cache_new :: slab_cache where
  "cache_new = \<lparr>free_list = None, total_objects = 0, used_objects = 0\<rparr>"

record 's heap =
  caches :: "nat \<Rightarrow> slab_cache"
  mem_bytes :: bytes
  phys :: 's

definition slab_new :: "bytes \<Rightarrow> 's \<Rightarrow> 's heap" where
  "slab_new m p = \<lparr>caches = (\<lambda>_. cache_new), mem_bytes = m, phys = p\<rparr>"

definition read_next :: "bytes \<Rightarrow> nat \<Rightarrow> nat option" where
  "read_next m a = (let v = le_val (peek m a 8) in if v = 0 then None else Some v)"

definition write_next :: "bytes \<Rightarrow> nat \<Rightarrow> nat option \<Rightarrow> bytes" where
  "write_next m a p = poke m a (le_bytes 8 (case p of None \<Rightarrow> 0 | Some x \<Rightarrow> x))"

section \<open>One cache\<close>

type_synonym 's cache_state = "slab_cache \<times> bytes \<times> 's"

primrec expand_loop :: "nat list \<Rightarrow> nat \<Rightarrow> nat \<Rightarrow> nat option \<times> bytes \<Rightarrow> nat option \<times> bytes" where
  "expand_loop [] page object_size st = st"
| "expand_loop (i # is) page object_size st =
     (case st of (head, m) \<Rightarrow>
        let obj = page + i * object_size in
        expand_loop is page object_size (Some obj, write_next m obj head))"

definition cache_expand ::
  "(nat \<Rightarrow> 's \<Rightarrow> (nat option \<times> 's) res) \<Rightarrow> nat \<Rightarrow> nat \<Rightarrow> 's cache_state \<Rightarrow> (bool \<times> 's cache_state) res" where
  "cache_expand palloc off object_size st =
     (case st of (c, m, p) \<Rightarrow>
        bindR (palloc 12 p) (\<lambda>(r, p').
          case r of
            None \<Rightarrow> Inr (False, (c, m, p'))
          | Some page_phys \<Rightarrow>
              let objects_per_page = 4096 div object_size;
                  (head, m') = expand_loop [0 ..< objects_per_page] (off + page_phys) object_size
                                 (free_list c, m)
              in Inr (True, (c\<lparr>free_list := head,
                               total_objects := total_objects c + objects_per_page\<rparr>, m', p'))))"

text \<open>The check for the allocation poison that debug builds make, and the poison itself.\<close>

definition looks_poisoned :: "bytes \<Rightarrow> nat \<Rightarrow> nat \<Rightarrow> bool" where
  "looks_poisoned m ptr object_size = (\<exists>i \<in> {0 ..< min object_size 8}. m (ptr + i) = 0xAA)"

definition cache_allocate ::
  "(nat \<Rightarrow> 's \<Rightarrow> (nat option \<times> 's) res) \<Rightarrow> nat \<Rightarrow> nat \<Rightarrow> 's cache_state \<Rightarrow> (nat option \<times> 's cache_state) res" where
  "cache_allocate palloc off object_size st =
     (case st of (c0, _, _) \<Rightarrow>
        bindR (if free_list c0 = None then cache_expand palloc off object_size st else Inr (True, st))
          (\<lambda>(ok, (c, m, p)).
             if \<not> ok then Inr (None, (c, m, p))
             else case free_list c of
                    None \<Rightarrow> Inl Panic
                  | Some obj \<Rightarrow>
                      if looks_poisoned m obj object_size then Inl Panic
                      else let c' = c\<lparr>free_list := read_next m obj,
                                      used_objects := used_objects c + 1\<rparr>;
                               m' = poke m obj (replicate (min object_size 256) 0xAA)
                           in Inr (Some obj, (c', m', p))))"

definition cache_deallocate :: "nat \<Rightarrow> nat \<Rightarrow> 's cache_state \<Rightarrow> 's cache_state" where
  "cache_deallocate ptr object_size st =
     (case st of (c, m, p) \<Rightarrow>
        let m1 = poke m ptr (replicate (min object_size 256) 0xDD);
            m2 = write_next m1 ptr (free_list c)
        in (c\<lparr>free_list := Some ptr, used_objects := used_objects c - 1\<rparr>, m2, p))"

section \<open>The allocator\<close>

definition allocate_large ::
  "(nat \<Rightarrow> 's \<Rightarrow> (nat option \<times> 's) res) \<Rightarrow> nat \<Rightarrow> nat \<Rightarrow> nat \<Rightarrow> 's heap \<Rightarrow> (nat option \<times> 's heap) res" where
  "allocate_large palloc off sz align h =
     (let total_size = max sz align;
          order = size_to_buddy_order total_size
      in bindR (palloc order (phys h)) (\<lambda>(r, p').
           Inr (map_option (\<lambda>a. off + a) r, h\<lparr>phys := p'\<rparr>)))"

definition deallocate_large ::
  "(nat \<Rightarrow> nat \<Rightarrow> 's \<Rightarrow> 's res) \<Rightarrow> nat \<Rightarrow> nat \<Rightarrow> nat \<Rightarrow> 's heap \<Rightarrow> 's heap res" where
  "deallocate_large pfree off ptr sz h =
     (let order = size_to_buddy_order sz in
      bindR (assertR (off \<le> ptr)) (\<lambda>_.
      bindR (pfree (ptr - off) order (phys h)) (\<lambda>p'. Inr (h\<lparr>phys := p'\<rparr>))))"

definition slab_allocate ::
  "(nat \<Rightarrow> 's \<Rightarrow> (nat option \<times> 's) res) \<Rightarrow> nat \<Rightarrow> nat \<Rightarrow> nat \<Rightarrow> 's heap \<Rightarrow> (nat option \<times> 's heap) res" where
  "slab_allocate palloc off layout_size align h =
     (let sz = max layout_size align in
      if sz > MAX_SLAB_SIZE then allocate_large palloc off sz align h
      else case slab_index sz of
             None \<Rightarrow> Inr (None, h)
           | Some idx \<Rightarrow>
               bindR (cache_allocate palloc off (SLAB_SIZES ! idx) (caches h idx, mem_bytes h, phys h))
                 (\<lambda>(r, (c, m, p)).
                    Inr (r, h\<lparr>caches := (caches h)(idx := c), mem_bytes := m, phys := p\<rparr>)))"

text \<open>A null pointer is \<open>None\<close>, as \<open>slab_allocate\<close> returns it.\<close>

definition slab_deallocate ::
  "(nat \<Rightarrow> nat \<Rightarrow> 's \<Rightarrow> 's res) \<Rightarrow> nat \<Rightarrow> nat option \<Rightarrow> nat \<Rightarrow> nat \<Rightarrow> 's heap \<Rightarrow> 's heap res" where
  "slab_deallocate pfree off ptr layout_size align h =
     (case ptr of
        None \<Rightarrow> Inr h
      | Some a \<Rightarrow>
          let sz = max layout_size align in
          if sz > MAX_SLAB_SIZE then deallocate_large pfree off a sz h
          else case slab_index sz of
                 None \<Rightarrow> Inr h
               | Some idx \<Rightarrow>
                   (case cache_deallocate a (SLAB_SIZES ! idx) (caches h idx, mem_bytes h, phys h) of
                      (c, m, p) \<Rightarrow>
                        Inr (h\<lparr>caches := (caches h)(idx := c), mem_bytes := m, phys := p\<rparr>)))"

section \<open>Free objects in memory\<close>

lemma slab_consts: "NUM_SLABS = 9" "MAX_SLAB_SIZE = 2048" "PAGE_SIZE = 4096" "PAGE_ORDER = 12"
  by (simp_all add: NUM_SLABS_def SLAB_SIZES_def MAX_SLAB_SIZE_def PAGE_SIZE_def PAGE_ORDER_def)

definition class_size :: "nat \<Rightarrow> bool" where
  "class_size s \<longleftrightarrow> 8 \<le> s \<and> s dvd 4096"

lemma class_size_le: "class_size s \<Longrightarrow> s \<le> 4096"
  by (auto simp: class_size_def dest: dvd_imp_le)

lemma read_next_cong:
  "(\<And>x. a \<le> x \<Longrightarrow> x < a + 8 \<Longrightarrow> m x = m' x) \<Longrightarrow> read_next m a = read_next m' a"
  using peek_cong [of a 8 m m'] by (simp add: read_next_def)

lemma read_next_write:
  assumes "\<forall>x. q = Some x \<longrightarrow> 0 < x \<and> x < 2 ^ 64"
  shows "read_next (write_next m a q) a = q"
proof -
  have "peek (write_next m a q) a 8 = le_bytes 8 (case q of None \<Rightarrow> 0 | Some x \<Rightarrow> x)"
    using peek_poke [of m a "le_bytes 8 (case q of None \<Rightarrow> 0 | Some x \<Rightarrow> x)"]
    by (simp add: write_next_def)
  then show ?thesis using assms
    by (cases q) (auto simp: read_next_def le_val_le_bytes Let_def)
qed

lemma write_next_other: "x < a \<or> a + 8 \<le> x \<Longrightarrow> write_next m a q x = m x"
  by (simp add: write_next_def poke_other)

text \<open>Objects of one class are multiples of its size, so two of them do not overlap.\<close>

lemma multiples_apart:
  fixes a b s :: nat
  assumes "s dvd a" "s dvd b" "a \<noteq> b"
  shows "a + s \<le> b \<or> b + s \<le> a"
proof -
  obtain i j where ij: "a = s * i" "b = s * j" using assms by (auto elim!: dvdE)
  with assms(3) consider "Suc i \<le> j" | "Suc j \<le> i" by (metis Suc_leI nat_neq_iff)
  then show ?thesis
  proof cases
    case 1
    from mult_le_mono2 [OF this, of s] show ?thesis by (simp add: ij)
  next
    case 2
    from mult_le_mono2 [OF this, of s] show ?thesis by (simp add: ij)
  qed
qed

definition page_objects :: "nat \<Rightarrow> nat \<Rightarrow> nat set" where
  "page_objects sz page = (\<lambda>i. page + i * sz) ` {0 ..< 4096 div sz}"

definition page_ok :: "nat \<Rightarrow> bool" where
  "page_ok p \<longleftrightarrow> 4096 dvd p \<and> 0 < p \<and> p + 4096 \<le> 2 ^ 64"

lemma page_objectsD:
  assumes "x \<in> page_objects sz page" "class_size sz"
  shows "page \<le> x" "x + sz \<le> page + 4096" "sz dvd x - page"
proof -
  obtain i where i: "x = page + i * sz" and "i \<in> {0 ..< 4096 div sz}"
    using assms(1) unfolding page_objects_def by (rule imageE)
  then have lt: "i < 4096 div sz" by simp
  have "Suc i * sz \<le> 4096 div sz * sz" using lt by (intro mult_le_mono1 Suc_leI)
  also have "\<dots> = 4096" using assms(2) unfolding class_size_def by (intro dvd_div_mult_self) simp
  finally have "sz + i * sz \<le> 4096" by (simp only: mult_Suc)
  then show "x + sz \<le> page + 4096" using i by linarith
  show "page \<le> x" "sz dvd x - page" using i by simp_all
qed

lemma page_objects_dvd:
  assumes "x \<in> page_objects sz page" "class_size sz" "page_ok page"
  shows "sz dvd x"
proof -
  have "sz dvd page" using assms by (auto simp: class_size_def page_ok_def dest: dvd_trans)
  with page_objectsD [OF assms(1,2)] show ?thesis by (intro dvd_diffD [of sz x page])
qed

lemma page_objects_card: "class_size sz \<Longrightarrow> card (page_objects sz page) = 4096 div sz"
  unfolding page_objects_def by (subst card_image) (auto simp: inj_on_def class_size_def)

lemma page_objects_finite [simp]: "finite (page_objects sz page)"
  by (simp add: page_objects_def)

section \<open>The invariant of one cache\<close>

definition pages_objects :: "nat \<Rightarrow> nat set \<Rightarrow> nat set" where
  "pages_objects sz pages = (\<Union>p \<in> pages. page_objects sz p)"

text \<open>
  The pages of a cache are cut into objects; every object is either on the free list or live, and
  the counters count them.
\<close>

definition cache_ok :: "nat \<Rightarrow> slab_cache \<Rightarrow> bytes \<Rightarrow> nat set \<Rightarrow> nat set \<Rightarrow> bool" where
  "cache_ok sz c m pages live \<longleftrightarrow>
     finite pages \<and> (\<forall>p \<in> pages. page_ok p) \<and>
     (\<exists>xs. chain (read_next m) (free_list c) xs \<and> set xs \<inter> live = {} \<and>
           set xs \<union> live = pages_objects sz pages) \<and>
     used_objects c = card live \<and> total_objects c = card (pages_objects sz pages)"

lemma cache_ok_new: "cache_ok sz cache_new m {} {}"
  by (auto simp: cache_ok_def cache_new_def pages_objects_def)

lemma pages_objectsD:
  assumes "x \<in> pages_objects sz pages" "class_size sz" "\<forall>p \<in> pages. page_ok p"
  shows "sz dvd x" "0 < x" "x < 2 ^ 64" "\<exists>p \<in> pages. p \<le> x \<and> x + sz \<le> p + 4096"
proof -
  obtain p where p: "p \<in> pages" "x \<in> page_objects sz p"
    using assms(1) by (auto simp: pages_objects_def)
  then have ok: "page_ok p" using assms(3) by blast
  note pos = page_objectsD [OF p(2) assms(2)]
  show "sz dvd x" by (rule page_objects_dvd [OF p(2) assms(2) ok])
  show "0 < x" "x < 2 ^ 64" using pos ok assms(2) by (simp_all add: page_ok_def class_size_def)
  show "\<exists>p \<in> pages. p \<le> x \<and> x + sz \<le> p + 4096" using p(1) pos by blast
qed

text \<open>Only the bytes of free objects matter to a cache.\<close>

lemma cache_ok_frame:
  assumes "cache_ok sz c m pages live" "class_size sz"
    and "\<And>a x. a \<in> pages_objects sz pages - live \<Longrightarrow> a \<le> x \<Longrightarrow> x < a + 8 \<Longrightarrow> m x = m' x"
  shows "cache_ok sz c m' pages live"
proof -
  obtain xs where xs: "chain (read_next m) (free_list c) xs" "set xs \<inter> live = {}"
      "set xs \<union> live = pages_objects sz pages"
    using assms(1) by (auto simp: cache_ok_def)
  have "read_next m a = read_next m' a" if "a \<in> set xs" for a
    using that xs(2,3) assms(3) by (intro read_next_cong) blast
  with xs(1) have "chain (read_next m') (free_list c) xs"
    using chain_cong [of xs "read_next m" "read_next m'"] by blast
  with xs assms(1) show ?thesis unfolding cache_ok_def by blast
qed

section \<open>The operations of one cache keep it\<close>

lemma chain_push:
  assumes "chain (read_next m) q xs" "\<forall>x \<in> set xs. 0 < x \<and> x < 2 ^ 64 \<and> (x + 8 \<le> obj \<or> obj + 8 \<le> x)"
  shows "chain (read_next (write_next m obj q)) (Some obj) (obj # xs)"
proof -
  have "\<forall>x. q = Some x \<longrightarrow> 0 < x \<and> x < 2 ^ 64"
    using assms by (cases xs) auto
  then have "read_next (write_next m obj q) obj = q" by (rule read_next_write)
  moreover have "read_next m x = read_next (write_next m obj q) x" if "x \<in> set xs" for x
    using assms(2) that by (intro read_next_cong write_next_other [symmetric]) fastforce
  then have "chain (read_next (write_next m obj q)) q xs"
    using assms(1) chain_cong [of xs "read_next m" "read_next (write_next m obj q)"] by blast
  ultimately show ?thesis by simp
qed

lemma expand_loop_append:
  "expand_loop (is @ js) page sz st = expand_loop js page sz (expand_loop is page sz st)"
  by (induction "is" arbitrary: st) (auto simp: Let_def split: prod.splits)

lemma expand_loop_ok:
  assumes "class_size sz" "page_ok page" "chain (read_next m) q xs"
    and "\<forall>x \<in> set xs. 0 < x \<and> x < 2 ^ 64 \<and> (x + 8 \<le> page \<or> page + 4096 \<le> x)"
    and "n \<le> 4096 div sz"
  shows "\<exists>q' m'. expand_loop [0 ..< n] page sz (q, m) = (q', m') \<and>
           chain (read_next m') q' (rev (map (\<lambda>i. page + i * sz) [0 ..< n]) @ xs) \<and>
           (\<forall>x. x < page \<or> page + 4096 \<le> x \<longrightarrow> m' x = m x)"
  using assms(5)
proof (induction n)
  case 0
  then show ?case using assms(3) by simp
next
  case (Suc n)
  then obtain q' m' where IH: "expand_loop [0 ..< n] page sz (q, m) = (q', m')"
      "chain (read_next m') q' (rev (map (\<lambda>i. page + i * sz) [0 ..< n]) @ xs)"
      "\<forall>x. x < page \<or> page + 4096 \<le> x \<longrightarrow> m' x = m x"
    by auto
  define obj where "obj = page + n * sz"
  have inpage: "page \<le> page + i * sz" "page + i * sz + sz \<le> page + 4096" if "i \<le> n" for i
    using that Suc.prems page_objectsD [of "page + i * sz" sz page] assms(1)
    unfolding page_objects_def by force+
  note obj = inpage [OF order.refl, folded obj_def]
  have sz: "8 \<le> sz" using assms(1) by (simp add: class_size_def)
  have "0 < x \<and> x < 2 ^ 64 \<and> (x + 8 \<le> obj \<or> obj + 8 \<le> x)"
    if "x \<in> set (rev (map (\<lambda>i. page + i * sz) [0 ..< n]) @ xs)" for x
  proof (cases "x \<in> set xs")
    case True
    with assms(4) obj sz show ?thesis by fastforce
  next
    case False
    with that have "x \<in> (\<lambda>i. page + i * sz) ` {0 ..< n}" by simp
    then obtain i where i: "x = page + i * sz" and "i \<in> {0 ..< n}" by (rule imageE)
    then have "i < n" by simp
    then have "Suc i * sz \<le> n * sz" by (intro mult_le_mono1 Suc_leI)
    then have "x + sz \<le> obj" by (simp add: i obj_def)
    with sz i \<open>i < n\<close> inpage [of i] assms(2) show ?thesis by (simp add: page_ok_def)
  qed
  with IH(2) have "chain (read_next (write_next m' obj q')) (Some obj)
      (obj # rev (map (\<lambda>i. page + i * sz) [0 ..< n]) @ xs)"
    by (intro chain_push) blast+
  moreover have "write_next m' obj q' x = m x" if "x < page \<or> page + 4096 \<le> x" for x
    using that IH(3) obj sz by (subst write_next_other) auto
  ultimately show ?case
    using IH(1)
    by (intro exI [of _ "Some obj"] exI [of _ "write_next m' obj q'"]) (simp add: expand_loop_append obj_def Let_def)
qed

lemma cache_expand_ok:
  assumes "cache_ok sz c m pages live" "class_size sz" "palloc 12 p = Inr (Some a, p')"
    and "page_ok (off + a)" "off + a \<notin> pages"
  shows "\<exists>c' m'. cache_expand palloc off sz (c, m, p) = Inr (True, (c', m', p')) \<and>
           free_list c' \<noteq> None \<and> cache_ok sz c' m' (insert (off + a) pages) live \<and>
           (\<forall>x. x < off + a \<or> off + a + 4096 \<le> x \<longrightarrow> m' x = m x)"
proof -
  define page where "page = off + a"
  define n where "n = 4096 div sz"
  obtain xs where xs: "chain (read_next m) (free_list c) xs" "set xs \<inter> live = {}"
      "set xs \<union> live = pages_objects sz pages" and ok: "\<forall>p \<in> pages. page_ok p" "finite pages"
    using assms(1) by (auto simp: cache_ok_def)
  have apart: "x + sz \<le> page \<or> page + 4096 \<le> x" if x: "x \<in> pages_objects sz pages" for x
  proof -
    obtain p where p: "p \<in> pages" "p \<le> x" "x + sz \<le> p + 4096"
      using pages_objectsD(4) [OF x assms(2) ok(1)] by blast
    with assms(4,5) ok(1) multiples_apart [of 4096 p page] show ?thesis
      by (fastforce simp: page_ok_def page_def)
  qed
  have sz: "8 \<le> sz" using assms(2) by (simp add: class_size_def)
  have n0: "0 < n" using class_size_le [OF assms(2)] sz by (simp add: n_def div_greater_zero_iff)
  have "\<forall>x \<in> set xs. 0 < x \<and> x < 2 ^ 64 \<and> (x + 8 \<le> page \<or> page + 4096 \<le> x)"
    using apart pages_objectsD(2,3) [OF _ assms(2) ok(1)] xs(3) sz by fastforce
  then obtain q' m' where ex: "expand_loop [0 ..< n] page sz (free_list c, m) = (q', m')"
      "chain (read_next m') q' (rev (map (\<lambda>i. page + i * sz) [0 ..< n]) @ xs)"
      "\<forall>x. x < page \<or> page + 4096 \<le> x \<longrightarrow> m' x = m x"
    using expand_loop_ok [OF assms(2) _ xs(1), of page n] assms(4) by (auto simp: page_def n_def)
  have set: "set (rev (map (\<lambda>i. page + i * sz) [0 ..< n]) @ xs) = page_objects sz page \<union> set xs"
    by (auto simp: page_objects_def n_def)
  have dis: "page_objects sz page \<inter> pages_objects sz pages = {}"
    using apart page_objectsD(1,2) [OF _ assms(2), of _ page] sz by fastforce
  have "q' \<noteq> None" using ex(2) n0 by (cases q') auto
  moreover have "cache_ok sz (c\<lparr>free_list := q', total_objects := total_objects c + n\<rparr>) m'
      (insert page pages) live"
    unfolding cache_ok_def
  proof (intro conjI exI)
    show "chain (read_next m') (free_list (c\<lparr>free_list := q', total_objects := total_objects c + n\<rparr>))
        (rev (map (\<lambda>i. page + i * sz) [0 ..< n]) @ xs)" using ex(2) by simp
    show "set (rev (map (\<lambda>i. page + i * sz) [0 ..< n]) @ xs) \<inter> live = {}"
      "set (rev (map (\<lambda>i. page + i * sz) [0 ..< n]) @ xs) \<union> live = pages_objects sz (insert page pages)"
      unfolding set using xs(2,3) dis by (auto simp: pages_objects_def)
    have "card (pages_objects sz (insert page pages)) = n + card (pages_objects sz pages)"
      using dis ok(2) page_objects_card [OF assms(2), of page]
      by (simp add: pages_objects_def card_Un_disjoint n_def)
    then show "total_objects (c\<lparr>free_list := q', total_objects := total_objects c + n\<rparr>) =
        card (pages_objects sz (insert page pages))"
      using assms(1) by (simp add: cache_ok_def)
  qed (use assms(1,4) ok in \<open>auto simp: cache_ok_def page_def\<close>)
  moreover have "cache_expand palloc off sz (c, m, p) =
      Inr (True, (c\<lparr>free_list := q', total_objects := total_objects c + n\<rparr>, m', p'))"
    using ex(1) assms(3) by (simp add: cache_expand_def Let_def page_def n_def)
  ultimately show ?thesis using ex(3) by (auto simp: page_def)
qed

lemma cache_objects_apart:
  assumes "x \<in> pages_objects sz pages" "y \<in> pages_objects sz pages" "x \<noteq> y" "class_size sz"
    and "\<forall>p \<in> pages. page_ok p"
  shows "x + sz \<le> y \<or> y + sz \<le> x"
  using pages_objectsD(1) [OF assms(1,4,5)] pages_objectsD(1) [OF assms(2,4,5)] assms(3)
  by (rule multiples_apart)

lemma cache_ok_live:
  assumes "cache_ok sz c m pages live"
  shows "live \<subseteq> pages_objects sz pages" "finite live" "\<forall>p \<in> pages. page_ok p"
proof -
  show sub: "live \<subseteq> pages_objects sz pages" "\<forall>p \<in> pages. page_ok p"
    using assms by (auto simp: cache_ok_def)
  have "finite (pages_objects sz pages)" using assms by (auto simp: cache_ok_def pages_objects_def)
  with sub(1) show "finite live" by (rule finite_subset)
qed

definition poison_alloc :: "bytes \<Rightarrow> nat \<Rightarrow> nat \<Rightarrow> bytes" where
  "poison_alloc m obj sz = poke m obj (replicate (min sz 256) 0xAA)"

lemma poison_alloc_other: "x < obj \<or> obj + sz \<le> x \<Longrightarrow> poison_alloc m obj sz x = m x"
  by (auto simp: poison_alloc_def intro!: poke_other)

lemma cache_take_ok:
  assumes "cache_ok sz c m pages live" "class_size sz" "free_list c = Some obj"
  shows "obj \<in> pages_objects sz pages - live"
    "cache_ok sz (c\<lparr>free_list := read_next m obj, used_objects := used_objects c + 1\<rparr>)
       (poison_alloc m obj sz) pages (insert obj live)"
proof -
  obtain xs where xs: "chain (read_next m) (Some obj) xs" "set xs \<inter> live = {}"
      "set xs \<union> live = pages_objects sz pages"
    using assms(1) unfolding cache_ok_def assms(3) by blast
  then obtain ys where "xs = obj # ys" "chain (read_next m) (read_next m obj) ys"
    by (auto simp: chain_Some)
  with xs chain_distinct [OF xs(1)] have ys: "chain (read_next m) (read_next m obj) ys"
      "set (obj # ys) \<inter> live = {}" "set (obj # ys) \<union> live = pages_objects sz pages" "obj \<notin> set ys"
    by simp_all
  show obj: "obj \<in> pages_objects sz pages - live" using ys by auto
  let ?c = "c\<lparr>free_list := read_next m obj, used_objects := used_objects c + 1\<rparr>"
  have "cache_ok sz ?c m pages (insert obj live)"
    unfolding cache_ok_def
  proof (intro conjI exI)
    show "chain (read_next m) (free_list ?c) ys" using ys(1) by simp
    show "set ys \<inter> insert obj live = {}" "set ys \<union> insert obj live = pages_objects sz pages"
      using ys by auto
    show "used_objects ?c = card (insert obj live)"
      using assms(1) obj cache_ok_live(2) [OF assms(1)] by (simp add: cache_ok_def)
  qed (use assms(1) in \<open>simp_all add: cache_ok_def\<close>)
  then show "cache_ok sz ?c (poison_alloc m obj sz) pages (insert obj live)"
  proof (rule cache_ok_frame [OF _ assms(2)])
    fix a x assume a: "a \<in> pages_objects sz pages - insert obj live" and x: "a \<le> x" "x < a + 8"
    with obj have "a + sz \<le> obj \<or> obj + sz \<le> a"
      by (intro cache_objects_apart [OF _ _ _ assms(2) cache_ok_live(3) [OF assms(1)]]) auto
    with x assms(2) show "m x = poison_alloc m obj sz x"
      by (intro poison_alloc_other [symmetric]) (auto simp: class_size_def)
  qed
qed

lemma cache_allocate_take:
  "free_list c = Some obj \<Longrightarrow> cache_allocate palloc off sz (c, m, p) =
     (if looks_poisoned m obj sz then Inl Panic
      else Inr (Some obj, (c\<lparr>free_list := read_next m obj, used_objects := used_objects c + 1\<rparr>,
                           poison_alloc m obj sz, p)))"
  by (simp add: cache_allocate_def poison_alloc_def Let_def)

lemma cache_allocate_expand:
  assumes "free_list c = None" "cache_expand palloc off sz (c, m, p) = Inr (True, (c', m', p'))"
    and "free_list c' \<noteq> None"
  shows "cache_allocate palloc off sz (c, m, p) = cache_allocate palloc off sz (c', m', p')"
  using assms by (auto simp: cache_allocate_def)

lemma cache_deallocate_ok:
  assumes "cache_ok sz c m pages live" "class_size sz" "ptr \<in> live"
    and "cache_deallocate ptr sz (c, m, p) = (c', m', p')"
  shows "cache_ok sz c' m' pages (live - {ptr})" "p' = p"
    "\<And>x. x < ptr \<or> ptr + sz \<le> x \<Longrightarrow> m' x = m x"
proof -
  obtain xs where xs: "chain (read_next m) (free_list c) xs" "set xs \<inter> live = {}"
      "set xs \<union> live = pages_objects sz pages"
    using assms(1) by (auto simp: cache_ok_def)
  note live = cache_ok_live [OF assms(1)]
  have sz: "8 \<le> sz" using assms(2) by (simp add: class_size_def)
  define m1 where "m1 = poke m ptr (replicate (min sz 256) 0xDD)"
  have c': "c' = c\<lparr>free_list := Some ptr, used_objects := used_objects c - 1\<rparr>"
    "m' = write_next m1 ptr (free_list c)"
    using assms(4) by (simp_all add: cache_deallocate_def m1_def Let_def)
  show "p' = p" using assms(4) by (simp add: cache_deallocate_def Let_def)
  have m1: "m1 x = m x" if "x < ptr \<or> ptr + sz \<le> x" for x
    using that by (auto simp: m1_def intro!: poke_other)
  then show "m' x = m x" if "x < ptr \<or> ptr + sz \<le> x" for x
    using that sz by (auto simp: c' write_next_other)
  have apart: "a + sz \<le> ptr \<or> ptr + sz \<le> a" if "a \<in> set xs" for a
    using that xs live(1) assms(3)
    by (intro cache_objects_apart [OF _ _ _ assms(2) live(3)]) auto
  have "read_next m a = read_next m1 a" if "a \<in> set xs" for a
    using apart [OF that] sz by (intro read_next_cong m1 [symmetric]) auto
  then have "chain (read_next m1) (free_list c) xs"
    using xs(1) chain_cong [of xs "read_next m" "read_next m1"] by blast
  moreover have "\<forall>x \<in> set xs. 0 < x \<and> x < 2 ^ 64 \<and> (x + 8 \<le> ptr \<or> ptr + 8 \<le> x)"
    using apart pages_objectsD(2,3) [OF _ assms(2) live(3)] xs(3) sz by fastforce
  ultimately have "chain (read_next m') (Some ptr) (ptr # xs)"
    unfolding c' by (rule chain_push)
  then show "cache_ok sz c' m' pages (live - {ptr})"
    unfolding cache_ok_def
  proof (intro conjI exI)
    show "chain (read_next m') (free_list c') (ptr # xs)" if "chain (read_next m') (Some ptr) (ptr # xs)"
      using that by (simp add: c'(1) del: chain.simps)
    show "set (ptr # xs) \<inter> (live - {ptr}) = {}" "set (ptr # xs) \<union> (live - {ptr}) = pages_objects sz pages"
      using xs(2,3) assms(3) by auto
    show "used_objects c' = card (live - {ptr})"
      using assms(1,3) live(2) by (simp add: cache_ok_def c'(1))
  qed (use assms(1) in \<open>simp_all add: cache_ok_def c'(1)\<close>)
qed

section \<open>Layouts and live objects\<close>

definition layout_class :: "nat \<Rightarrow> nat \<Rightarrow> nat option" where
  "layout_class s al = (if max s al > MAX_SLAB_SIZE then None else slab_index (max s al))"

definition layout_order :: "nat \<Rightarrow> nat \<Rightarrow> nat" where
  "layout_order s al = size_to_buddy_order (max s al)"

text \<open>The bytes an allocation for a layout really takes.\<close>

definition extent :: "nat \<Rightarrow> nat \<Rightarrow> nat" where
  "extent s al = (case layout_class s al of Some i \<Rightarrow> SLAB_SIZES ! i | None \<Rightarrow> 2 ^ layout_order s al)"

lemma position_from_Some:
  "position_from k xs n = Some i \<Longrightarrow>
     k \<le> i \<and> i < k + length xs \<and> n \<le> xs ! (i - k) \<and> (\<forall>j < i - k. xs ! j < n)"
proof (induction xs arbitrary: k)
  case Nil
  then show ?case by simp
next
  case (Cons x xs)
  show ?case
  proof (cases "n \<le> x")
    case True
    with Cons.prems show ?thesis by auto
  next
    case False
    with Cons.prems have "position_from (Suc k) xs n = Some i" by simp
    note IH = Cons.IH [OF this]
    then have "i - k = Suc (i - Suc k)" by linarith
    with IH False show ?thesis by (auto simp: less_Suc_eq_0_disj nth_Cons split: nat.splits)
  qed
qed

lemma slab_index_Some: "n \<le> 2048 \<Longrightarrow> \<exists>i. slab_index n = Some i"
  by (auto simp: slab_index_def SLAB_SIZES_def)

lemma slab_index_bounds:
  assumes "slab_index n = Some i"
  shows "i < 9" "n \<le> SLAB_SIZES ! i" "\<forall>j < i. SLAB_SIZES ! j < n"
  using position_from_Some [OF assms [unfolded slab_index_def]] by (simp_all add: SLAB_SIZES_def)

lemma SLAB_SIZES_nth: "i < 9 \<Longrightarrow> SLAB_SIZES ! i = 2 ^ (i + 3)"
proof -
  assume "i < 9"
  then have "i \<in> {0, 1, 2, 3, 4, 5, 6, 7, 8}" by (simp add: eval_nat_numeral less_Suc_eq)
  then show ?thesis by (auto simp: SLAB_SIZES_def)
qed

lemma class_size_nth: "i < 9 \<Longrightarrow> class_size (SLAB_SIZES ! i)"
proof -
  assume i: "i < 9"
  have "(2::nat) ^ 3 \<le> 2 ^ (i + 3)" by (intro power_increasing) auto
  moreover have "(2::nat) ^ (i + 3) dvd 2 ^ 12" using i by (intro le_imp_power_dvd) simp
  ultimately show ?thesis by (simp add: class_size_def SLAB_SIZES_nth [OF i])
qed

lemma layout_class_bounds:
  assumes "layout_class s al = Some i"
  shows "i < 9" "max s al \<le> SLAB_SIZES ! i"
  using slab_index_bounds [of "max s al" i] assms by (auto simp: layout_class_def split: if_splits)

lemma layout_class_None: "layout_class s al = None \<longleftrightarrow> MAX_SLAB_SIZE < max s al"
  using slab_index_Some [of "max s al"] unfolding layout_class_def slab_consts by (metis leI option.simps(3))

lemma next_power_of_two_bounds:
  assumes "1 < n"
  shows "next_power_of_two n = 2 ^ Suc (u64_ilog2 (n - 1))" "n \<le> next_power_of_two n"
    "next_power_of_two n < 2 * n"
proof -
  show eq: "next_power_of_two n = 2 ^ Suc (u64_ilog2 (n - 1))"
    using assms by (simp add: next_power_of_two_def)
  show "n \<le> next_power_of_two n" using less_ilog2 [of "n - 1"] eq by simp
  show "next_power_of_two n < 2 * n" using ilog2_le [of "n - 1"] assms eq by simp
qed

lemma trailing_zeros_power: "u64_trailing_zeros (2 ^ k) = k"
proof (rule antisym)
  have "2 ^ u64_trailing_zeros (2 ^ k) dvd (2 ^ k :: nat)" by (rule trailing_zeros_dvd) simp
  then show "u64_trailing_zeros (2 ^ k) \<le> k"
    by (metis dvd_power_iff_le order_refl)
qed (rule dvd_trailing_zeros, simp_all)

lemma size_to_buddy_order_le: "n \<le> 2 ^ size_to_buddy_order n"
  and size_to_buddy_order_least: "12 \<le> k \<Longrightarrow> n \<le> 2 ^ k \<Longrightarrow> size_to_buddy_order n \<le> k"
  and size_to_buddy_order_ge: "12 \<le> size_to_buddy_order n"
proof -
  define pages where "pages = (n + PAGE_SIZE - 1) div PAGE_SIZE"
  then have pages: "pages = (n + 4095) div 4096" by (simp add: slab_consts add.commute)
  have n: "n \<le> 4096 * pages" "\<And>k. n \<le> 4096 * k \<Longrightarrow> pages \<le> k"
    unfolding pages by linarith+
  let ?e = "u64_ilog2 (pages - 1)"
  have order: "size_to_buddy_order n = (if pages \<le> 1 then 12 else 12 + Suc ?e)"
    using next_power_of_two_bounds(1) [of pages] trailing_zeros_power [of "Suc ?e"]
    unfolding size_to_buddy_order_def pages_def [symmetric] Let_def by (auto simp: slab_consts)
  show "12 \<le> size_to_buddy_order n" by (simp add: order)
  show "n \<le> 2 ^ size_to_buddy_order n"
    using n(1) next_power_of_two_bounds(1,2) [of pages]
    by (cases "pages \<le> 1") (auto simp: order power_add)
  assume k: "12 \<le> k" "n \<le> 2 ^ k"
  then have "2 ^ k = 4096 * (2 ^ (k - 12) :: nat)"
    using power_add [of "2::nat" 12 "k - 12"] by simp
  with k n(2) have le: "pages \<le> 2 ^ (k - 12)" by simp
  show "size_to_buddy_order n \<le> k"
  proof (cases "pages \<le> 1")
    case True
    with k show ?thesis by (simp add: order)
  next
    case False
    then have "2 ^ ?e \<le> pages - 1" by (intro ilog2_le) simp
    with False le have "2 ^ ?e < (2 ^ (k - 12) :: nat)" by linarith
    then have "?e < k - 12" by (rule power_less_imp_less_exp [rotated]) simp
    with False show ?thesis by (simp add: order)
  qed
qed

lemma extent_ge: "max s al \<le> extent s al"
  using layout_class_bounds(2) size_to_buddy_order_le [of "max s al"]
  by (auto simp: extent_def layout_order_def split: option.splits)

section \<open>The invariant of the heap\<close>

text \<open>
  The ghost state: the set of live allocations (pointer and layout), and the pages of each class.
  \<open>held\<close> lists the blocks the heap has from the physical allocator: a page of class \<open>i\<close> has
  the tag \<open>i\<close>, a large allocation the tag 9.
\<close>

type_synonym objs = "(nat \<times> nat \<times> nat) set"
type_synonym held_blocks = "(nat \<times> nat \<times> nat) set"

definition class_live :: "objs \<Rightarrow> nat \<Rightarrow> nat set" where
  "class_live objs i = {p. \<exists>s al. (p, s, al) \<in> objs \<and> layout_class s al = Some i}"

definition held :: "(nat \<Rightarrow> nat set) \<Rightarrow> objs \<Rightarrow> held_blocks" where
  "held pages objs = {(i, p, n). i < 9 \<and> p \<in> pages i \<and> n = 12} \<union>
     {(t, p, n). t = 9 \<and> (\<exists>s al. (p, s, al) \<in> objs \<and> layout_class s al = None \<and> n = layout_order s al)}"

definition held_ok :: "nat set \<Rightarrow> (nat \<Rightarrow> bool) \<Rightarrow> nat \<Rightarrow> nat \<Rightarrow> held_blocks \<Rightarrow> bool" where
  "held_ok mem porder plimit off H \<longleftrightarrow>
     (\<forall>t a n. (t, a, n) \<in> H \<longrightarrow> off \<le> a \<and> porder n \<and> 2 ^ n dvd a - off \<and> a - off + 2 ^ n \<le> plimit \<and>
        disjnt {a - off ..< a - off + 2 ^ n} mem) \<and>
     (\<forall>t a n u b k. (t, a, n) \<in> H \<longrightarrow> (u, b, k) \<in> H \<longrightarrow> (t, a, n) \<noteq> (u, b, k) \<longrightarrow>
        disjnt {a ..< a + 2 ^ n} {b ..< b + 2 ^ k})"

definition heap_inv ::
  "('s \<Rightarrow> bool) \<Rightarrow> ('s \<Rightarrow> nat set) \<Rightarrow> (nat \<Rightarrow> bool) \<Rightarrow> nat \<Rightarrow> nat \<Rightarrow> 's heap \<Rightarrow> objs \<Rightarrow> bool" where
  "heap_inv pinv pmem porder plimit off h objs \<longleftrightarrow>
     pinv (phys h) \<and> inj_on fst objs \<and>
     (\<exists>pages. held_ok (pmem (phys h)) porder plimit off (held pages objs) \<and>
        (\<forall>i < 9. cache_ok (SLAB_SIZES ! i) (caches h i) (mem_bytes h) (pages i) (class_live objs i)))"

lemma class_live_empty [simp]: "class_live {} i = {}"
  by (simp add: class_live_def)

lemma class_live_insert:
  "class_live (insert (p, s, al) objs) i =
     (if layout_class s al = Some i then insert p (class_live objs i) else class_live objs i)"
  by (auto simp: class_live_def)

lemma objs_unique:
  "inj_on fst objs \<Longrightarrow> (p, s, al) \<in> objs \<Longrightarrow> (p, s', al') \<in> objs \<Longrightarrow> s' = s \<and> al' = al"
  using inj_onD [of fst objs "(p, s, al)" "(p, s', al')"] by simp

lemma class_live_remove:
  assumes "inj_on fst objs" "(p, s, al) \<in> objs"
  shows "class_live (objs - {(p, s, al)}) i =
     (if layout_class s al = Some i then class_live objs i - {p} else class_live objs i)"
  using objs_unique [OF assms] by (auto simp: class_live_def)

lemma held_insert_slab: "layout_class s al = Some i \<Longrightarrow> held pages (insert (p, s, al) objs) = held pages objs"
  by (auto simp: held_def)

lemma held_insert_large:
  "layout_class s al = None \<Longrightarrow>
     held pages (insert (p, s, al) objs) = insert (9, p, layout_order s al) (held pages objs)"
  by (auto simp: held_def)

lemma held_insert_page:
  "i < 9 \<Longrightarrow> held (pages(i := insert p (pages i))) objs = insert (i, p, 12) (held pages objs)"
  unfolding held_def by (auto split: if_splits)

lemma held_remove_slab:
  assumes "layout_class s al = Some i"
  shows "held pages (objs - {(p, s, al)}) = held pages objs"
proof -
  have "(q, s', al') \<in> objs - {(p, s, al)} \<longleftrightarrow> (q, s', al') \<in> objs" if "layout_class s' al' = None" for q s' al'
    using that assms by auto
  then show ?thesis unfolding held_def by blast
qed

lemma held_remove_large:
  assumes "inj_on fst objs" "(p, s, al) \<in> objs" "layout_class s al = None"
  shows "held pages (objs - {(p, s, al)}) = held pages objs - {(9, p, layout_order s al)}"
proof -
  have "(\<exists>s' al'. (q, s', al') \<in> objs - {(p, s, al)} \<and> layout_class s' al' = None \<and> n = layout_order s' al') \<longleftrightarrow>
      (\<exists>s' al'. (q, s', al') \<in> objs \<and> layout_class s' al' = None \<and> n = layout_order s' al') \<and>
      (q, n) \<noteq> (p, layout_order s al)" for q n
    using objs_unique [OF assms(1,2)] assms by blast
  then show ?thesis unfolding held_def by auto
qed

lemma held_okD:
  assumes "held_ok mem porder plimit off H" "(t, a, n) \<in> H"
  shows "off \<le> a" "porder n" "2 ^ n dvd a - off" "a - off + 2 ^ n \<le> plimit"
    "disjnt {a - off ..< a - off + 2 ^ n} mem"
  using assms(1) [unfolded held_ok_def, THEN conjunct1, rule_format, OF assms(2)] by auto

lemma held_ok_disjnt:
  assumes "held_ok mem porder plimit off H" "(t, a, n) \<in> H" "(u, b, k) \<in> H" "(t, a, n) \<noteq> (u, b, k)"
  shows "disjnt {a ..< a + 2 ^ n} {b ..< b + 2 ^ k}"
  by (rule assms(1) [unfolded held_ok_def, THEN conjunct2, rule_format, OF assms(2-4)])

lemma held_ok_insert:
  assumes ok: "held_ok mem porder plimit off H"
    and "porder n" "2 ^ n dvd a" "a + 2 ^ n \<le> plimit"
    and sub: "{a ..< a + 2 ^ n} \<subseteq> mem" and mem': "mem' = mem - {a ..< a + 2 ^ n}"
  shows "held_ok mem' porder plimit off (insert (t, off + a, n) H)"
    "\<And>u b k. (u, b, k) \<in> H \<Longrightarrow> disjnt {off + a ..< off + a + 2 ^ n} {b ..< b + 2 ^ k}"
proof -
  show new: "disjnt {off + a ..< off + a + 2 ^ n} {b ..< b + 2 ^ k}" if "(u, b, k) \<in> H" for u b k
    unfolding disjnt_iff
  proof (intro allI notI)
    fix x assume x: "x \<in> {off + a ..< off + a + 2 ^ n} \<and> x \<in> {b ..< b + 2 ^ k}"
    note b = held_okD [OF ok that]
    from x have "x - off \<in> {a ..< a + 2 ^ n}" by auto
    with sub have "x - off \<in> mem" by blast
    moreover from x b(1) have "x - off \<in> {b - off ..< b - off + 2 ^ k}" by auto
    ultimately show False using b(5) by (auto simp: disjnt_iff)
  qed
  have one: "off \<le> b \<and> porder k \<and> 2 ^ k dvd b - off \<and> b - off + 2 ^ k \<le> plimit \<and>
      disjnt {b - off ..< b - off + 2 ^ k} mem'" if "(u, b, k) \<in> insert (t, off + a, n) H" for u b k
  proof (cases "(u, b, k) \<in> H")
    case True
    with held_okD [OF ok True] show ?thesis unfolding mem' by (auto simp: disjnt_iff)
  next
    case False
    with that have "b = off + a" "k = n" by auto
    with assms(2-4) show ?thesis unfolding mem' by (auto simp: disjnt_iff)
  qed
  have two: "disjnt {b ..< b + 2 ^ k} {b' ..< b' + 2 ^ k'}"
    if "(u, b, k) \<in> insert (t, off + a, n) H" "(u', b', k') \<in> insert (t, off + a, n) H"
      "(u, b, k) \<noteq> (u', b', k')" for u b k u' b' k'
  proof (cases "(u, b, k) \<in> H")
    case True
    with that held_ok_disjnt [OF ok True] new [OF True] show ?thesis
      by (cases "(u', b', k') \<in> H") (auto simp: disjnt_sym)
  next
    case False
    with that have "b = off + a" "k = n" "(u', b', k') \<in> H" by auto
    with new show ?thesis by blast
  qed
  show "held_ok mem' porder plimit off (insert (t, off + a, n) H)"
    unfolding held_ok_def by (intro conjI allI impI) (use one in blast, use one in blast, use one in blast, use one in blast, use one in blast, rule two)
qed

lemma held_ok_subset: "held_ok mem porder plimit off H \<Longrightarrow> H' \<subseteq> H \<Longrightarrow> held_ok mem porder plimit off H'"
  unfolding held_ok_def by (meson subsetD)

section \<open>The operations of the heap keep it\<close>

lemma heap_invE:
  assumes "heap_inv pinv pmem porder plimit off h objs"
  obtains pages where "pinv (phys h)" "inj_on fst objs"
    "held_ok (pmem (phys h)) porder plimit off (held pages objs)"
    "\<And>i. i < 9 \<Longrightarrow> cache_ok (SLAB_SIZES ! i) (caches h i) (mem_bytes h) (pages i) (class_live objs i)"
  using assms unfolding heap_inv_def by blast

lemma heap_invI:
  assumes "pinv (phys h)" "inj_on fst objs"
    and "held_ok (pmem (phys h)) porder plimit off (held pages objs)"
    and "\<And>i. i < 9 \<Longrightarrow> cache_ok (SLAB_SIZES ! i) (caches h i) (mem_bytes h) (pages i) (class_live objs i)"
  shows "heap_inv pinv pmem porder plimit off h objs"
  using assms unfolding heap_inv_def by blast

lemma held_page: "i < 9 \<Longrightarrow> p \<in> pages i \<Longrightarrow> (i, p, 12) \<in> held pages objs"
  by (simp add: held_def)

lemma held_large: "(p, s, al) \<in> objs \<Longrightarrow> layout_class s al = None \<Longrightarrow> (9, p, layout_order s al) \<in> held pages objs"
  by (auto simp: held_def)

lemma pages_apart:
  assumes "held_ok mem porder plimit off (held pages objs)" "i < 9" "j < 9" "i \<noteq> j" "p \<in> pages i" "q \<in> pages j"
  shows "p + 4096 \<le> q \<or> q + 4096 \<le> p"
proof -
  have "disjnt {p ..< p + 2 ^ 12} {q ..< q + 2 ^ 12}"
    using held_ok_disjnt [OF assms(1) held_page held_page, of i p j q] assms by simp
  then show ?thesis by (auto simp: disjnt_iff not_le dest: spec [of _ "max p q"])
qed

text \<open>A write inside the pages of one class is not seen by the others.\<close>

lemma other_cache_frame:
  assumes ok: "held_ok mem porder plimit off (held pages objs)"
    and "i < 9" "j < 9" "i \<noteq> j" "page \<in> pages i"
    and c: "cache_ok (SLAB_SIZES ! j) c m (pages j) live"
    and m': "\<And>x. x < page \<or> page + 4096 \<le> x \<Longrightarrow> m' x = m x"
  shows "cache_ok (SLAB_SIZES ! j) c m' (pages j) live"
proof (rule cache_ok_frame [OF c class_size_nth [OF \<open>j < 9\<close>]])
  fix a x assume "a \<in> pages_objects (SLAB_SIZES ! j) (pages j) - live" and x: "a \<le> x" "x < a + 8"
  then obtain q where q: "q \<in> pages j" "q \<le> a" "a + SLAB_SIZES ! j \<le> q + 4096"
    using pages_objectsD(4) [OF _ class_size_nth [OF \<open>j < 9\<close>] cache_ok_live(3) [OF c]] by blast
  with pages_apart [OF ok assms(2-5) q(1)] x class_size_nth [OF \<open>j < 9\<close>]
  show "m x = m' x" by (intro m' [symmetric]) (auto simp: class_size_def)
qed

lemma heap_inv_new: "pinv p \<Longrightarrow> heap_inv pinv pmem porder plimit off (slab_new m p) {}"
  unfolding heap_inv_def slab_new_def
  by (auto intro!: exI [of _ "\<lambda>_. {}"] cache_ok_new simp: held_def held_ok_def)

lemma slab_allocate_class:
  assumes "layout_class s al = Some i"
  shows "slab_allocate palloc off s al h =
    bindR (cache_allocate palloc off (SLAB_SIZES ! i) (caches h i, mem_bytes h, phys h))
      (\<lambda>(r, (c, m, p)). Inr (r, h\<lparr>caches := (caches h)(i := c), mem_bytes := m, phys := p\<rparr>))"
  using assms by (auto simp: slab_allocate_def layout_class_def Let_def split: if_splits)

lemma slab_allocate_large:
  assumes "layout_class s al = None"
  shows "slab_allocate palloc off s al h =
    bindR (palloc (layout_order s al) (phys h)) (\<lambda>(r, p'). Inr (map_option (\<lambda>a. off + a) r, h\<lparr>phys := p'\<rparr>))"
  using assms [unfolded layout_class_None]
  by (simp add: slab_allocate_def allocate_large_def Let_def layout_order_def max.assoc)

lemma slab_deallocate_class:
  assumes "layout_class s al = Some i"
  shows "slab_deallocate pfree off (Some a) s al h =
    (case cache_deallocate a (SLAB_SIZES ! i) (caches h i, mem_bytes h, phys h) of
       (c, m, p) \<Rightarrow> Inr (h\<lparr>caches := (caches h)(i := c), mem_bytes := m, phys := p\<rparr>))"
  using assms by (auto simp: slab_deallocate_def layout_class_def Let_def split: if_splits)

lemma slab_deallocate_large:
  assumes "layout_class s al = None" "off \<le> a"
  shows "slab_deallocate pfree off (Some a) s al h =
    bindR (pfree (a - off) (layout_order s al) (phys h)) (\<lambda>p'. Inr (h\<lparr>phys := p'\<rparr>))"
  using assms(1) [unfolded layout_class_None] assms(2)
  by (simp add: slab_deallocate_def deallocate_large_def Let_def layout_order_def)

lemma heap_inv_take:
  assumes "heap_inv pinv pmem porder plimit off h objs" and cls: "layout_class s al = Some i"
    and fl: "free_list (caches h i) = Some obj"
  shows "heap_inv pinv pmem porder plimit off
    (h\<lparr>caches := (caches h)(i := (caches h i)\<lparr>free_list := read_next (mem_bytes h) obj,
                                               used_objects := used_objects (caches h i) + 1\<rparr>),
       mem_bytes := poison_alloc (mem_bytes h) obj (SLAB_SIZES ! i)\<rparr>) (insert (obj, s, al) objs)"
    (is "heap_inv _ _ _ _ _ ?h _")
    and "obj \<notin> fst ` objs"
proof -
  obtain pages where inv: "pinv (phys h)" "inj_on fst objs"
    "held_ok (pmem (phys h)) porder plimit off (held pages objs)"
    "\<And>i. i < 9 \<Longrightarrow> cache_ok (SLAB_SIZES ! i) (caches h i) (mem_bytes h) (pages i) (class_live objs i)"
    using assms(1) by (rule heap_invE) blast
  note i = layout_class_bounds(1) [OF cls] and sz = class_size_nth [OF layout_class_bounds(1) [OF cls]]
  note take = cache_take_ok [OF inv(4) [OF i] sz fl]
  obtain page where page: "page \<in> pages i" "page \<le> obj" "obj + SLAB_SIZES ! i \<le> page + 4096"
    using pages_objectsD(4) [OF _ sz cache_ok_live(3) [OF inv(4) [OF i]]] take(1) by blast
  have obj: "obj \<noteq> p" if "(p, s', al') \<in> objs" for p s' al'
  proof (cases "layout_class s' al'")
    case None
    then have "disjnt {page ..< page + 2 ^ 12} {p ..< p + 2 ^ layout_order s' al'}"
      using held_ok_disjnt [OF inv(3) held_page held_large [OF that None], of i page] i page(1) by auto
    then show ?thesis using page sz by (auto simp: disjnt_iff class_size_def dest: spec [of _ p])
  next
    case (Some j)
    note j = layout_class_bounds(1) [OF Some]
    have p: "p \<in> class_live objs j" using that Some by (auto simp: class_live_def)
    show ?thesis
    proof (cases "j = i")
      case True
      with p take(1) show ?thesis by auto
    next
      case False
      obtain q where "q \<in> pages j" "q \<le> p" "p + SLAB_SIZES ! j \<le> q + 4096"
        using pages_objectsD(4) [OF _ class_size_nth [OF j] cache_ok_live(3) [OF inv(4) [OF j]]]
          cache_ok_live(1) [OF inv(4) [OF j]] p by blast
      with pages_apart [OF inv(3) i j _ page(1)] False page sz class_size_nth [OF j] show ?thesis
        by (fastforce simp: class_size_def)
    qed
  qed
  then show new: "obj \<notin> fst ` objs" by force
  have c: "cache_ok (SLAB_SIZES ! j) (caches ?h j) (mem_bytes ?h) (pages j) (class_live (insert (obj, s, al) objs) j)"
    if j: "j < 9" for j
  proof (cases "j = i")
    case True
    with take(2) cls show ?thesis by (simp add: class_live_insert)
  next
    case False
    have "cache_ok (SLAB_SIZES ! j) (caches h j) (poison_alloc (mem_bytes h) obj (SLAB_SIZES ! i)) (pages j) (class_live objs j)"
      using False by (intro other_cache_frame [OF inv(3) i j _ page(1) inv(4) [OF j]] poison_alloc_other)
        (use page in auto)
    with False cls show ?thesis by (simp add: class_live_insert)
  qed
  show "heap_inv pinv pmem porder plimit off ?h (insert (obj, s, al) objs)"
  proof (rule heap_invI [OF _ _ _ c])
    show "inj_on fst (insert (obj, s, al) objs)" using inv(2) new by (auto simp: inj_on_insert)
    show "held_ok (pmem (phys ?h)) porder plimit off (held pages (insert (obj, s, al) objs))"
      using inv(3) by (simp add: held_insert_slab [OF cls])
  qed (use inv(1) in simp_all)
qed

text \<open>
  The poison check reads the bytes of the \<^verbatim>\<open>next\<close> pointer of the free object.
\<close>

lemma looks_poisoned_next:
  assumes "8 \<le> sz"
  shows "looks_poisoned m obj sz \<longleftrightarrow>
    0xAA \<in> set (le_bytes 8 (case read_next m obj of None \<Rightarrow> 0 | Some x \<Rightarrow> x))"
proof -
  have "le_bytes 8 (le_val (peek m obj 8)) = peek m obj 8"
    using le_bytes_le_val [of "peek m obj 8"] by simp
  then have "le_bytes 8 (case read_next m obj of None \<Rightarrow> 0 | Some x \<Rightarrow> x) = peek m obj 8"
    by (cases "le_val (peek m obj 8) = 0") (simp_all add: read_next_def Let_def)
  moreover have "looks_poisoned m obj sz \<longleftrightarrow> 0xAA \<in> set (peek m obj 8)"
  proof -
    have "(\<exists>i \<in> {0 ..< 8}. m (obj + i) = 0xAA) \<longleftrightarrow> 0xAA \<in> m ` {obj ..< obj + 8}"
    proof
      assume "\<exists>i \<in> {0 ..< 8}. m (obj + i) = 0xAA"
      then obtain i where "i < 8" "m (obj + i) = 0xAA" by auto
      then show "0xAA \<in> m ` {obj ..< obj + 8}" by (intro image_eqI [of _ _ "obj + i"]) auto
    next
      assume "0xAA \<in> m ` {obj ..< obj + 8}"
      then obtain y where "y \<in> {obj ..< obj + 8}" "m y = 0xAA" by (metis imageE)
      then show "\<exists>i \<in> {0 ..< 8}. m (obj + i) = 0xAA" by (intro bexI [of _ "y - obj"]) auto
    qed
    then show ?thesis using assms by (simp add: looks_poisoned_def peek_def min_absorb2)
  qed
  ultimately show ?thesis by simp
qed

lemma le_bytes_8: "le_bytes 8 v = of_nat v # of_nat (v div 256) # le_bytes 6 (v div 65536)"
proof -
  have "(8::nat) = Suc (Suc 6)" by simp
  then have "le_bytes 8 v = of_nat v # of_nat (v div 256) # le_bytes 6 (v div 256 div 256)"
    by (simp only: le_bytes.simps)
  then show ?thesis by (simp add: div_mult2_eq [symmetric])
qed

lemma le_bytes_6:
  "le_bytes 6 v = [of_nat v, of_nat (v div 256), of_nat (v div 65536), of_nat (v div 16777216),
     of_nat (v div 4294967296), of_nat (v div 1099511627776)]"
proof -
  have six: "(6::nat) = Suc (Suc (Suc (Suc (Suc (Suc 0)))))" by simp
  show ?thesis unfolding six le_bytes.simps by (simp add: div_mult2_eq [symmetric])
qed

text \<open>The free list of a cache after its first page.\<close>

lemma cache_first_page:
  assumes "class_size sz" "free_list c = None" "palloc 12 p = Inr (Some a, p')" "page_ok (off + a)"
  shows "\<exists>c' m'. cache_expand palloc off sz (c, m, p) = Inr (True, (c', m', p')) \<and>
    chain (read_next m') (free_list c') (rev (map (\<lambda>i. off + a + i * sz) [0 ..< 4096 div sz]))"
proof -
  obtain q' m' where "expand_loop [0 ..< 4096 div sz] (off + a) sz (None, m) = (q', m')"
      "chain (read_next m') q' (rev (map (\<lambda>i. off + a + i * sz) [0 ..< 4096 div sz]) @ [])"
    using expand_loop_ok [OF assms(1,4), of m None "[]" "4096 div sz"] by auto
  with assms(2,3) show ?thesis by (auto simp: cache_expand_def Let_def)
qed

text \<open>What the invariant says of live objects.\<close>

lemma live_object_page:
  assumes "(p, s, al) \<in> objs" "layout_class s al = Some i"
    and "cache_ok (SLAB_SIZES ! i) c m pgs (class_live objs i)"
  shows "p \<in> class_live objs i" "p \<in> pages_objects (SLAB_SIZES ! i) pgs"
    "\<exists>page \<in> pgs. page \<le> p \<and> p + SLAB_SIZES ! i \<le> page + 4096"
proof -
  show 1: "p \<in> class_live objs i" using assms by (auto simp: class_live_def)
  then show 2: "p \<in> pages_objects (SLAB_SIZES ! i) pgs" using cache_ok_live(1) [OF assms(3)] by blast
  show "\<exists>page \<in> pgs. page \<le> p \<and> p + SLAB_SIZES ! i \<le> page + 4096"
    using 2 class_size_nth [OF layout_class_bounds(1) [OF assms(2)]] cache_ok_live(3) [OF assms(3)]
    by (rule pages_objectsD(4))
qed

lemma live_object_block:
  assumes "(p, s, al) \<in> objs"
    and "\<And>i. i < 9 \<Longrightarrow> cache_ok (SLAB_SIZES ! i) (cs i) m (pages i) (class_live objs i)"
  obtains a n where "(case layout_class s al of None \<Rightarrow> 9 | Some i \<Rightarrow> i, a, n) \<in> held pages objs"
    "a \<le> p" "p + extent s al \<le> a + 2 ^ n" "layout_class s al = None \<Longrightarrow> a = p \<and> n = layout_order s al"
    "layout_class s al \<noteq> None \<Longrightarrow> n = 12"
proof (cases "layout_class s al")
  case None
  with held_large [OF assms(1) None, of pages] that [of p "layout_order s al"] show ?thesis
    by (simp add: extent_def)
next
  case (Some i)
  note i = layout_class_bounds(1) [OF Some]
  obtain page where "page \<in> pages i" "page \<le> p" "p + SLAB_SIZES ! i \<le> page + 4096"
    using live_object_page(3) [OF assms(1) Some assms(2) [OF i]] by blast
  with that [of page 12] held_page [OF i, of page pages objs] Some show ?thesis
    by (simp add: extent_def)
qed

lemma live_objects_disjoint:
  assumes inv: "heap_inv pinv pmem porder plimit off h objs"
    and x: "(p, s, al) \<in> objs" and y: "(q, s', al') \<in> objs" and ne: "(p, s, al) \<noteq> (q, s', al')"
  shows "disjnt {p ..< p + extent s al} {q ..< q + extent s' al'}"
proof -
  obtain pages where pg: "pinv (phys h)" "inj_on fst objs"
    "held_ok (pmem (phys h)) porder plimit off (held pages objs)"
    "\<And>i. i < 9 \<Longrightarrow> cache_ok (SLAB_SIZES ! i) (caches h i) (mem_bytes h) (pages i) (class_live objs i)"
    using inv by (rule heap_invE) blast
  have pq: "p \<noteq> q" using objs_unique [OF pg(2) x, of s' al'] y ne by blast
  obtain a n where a: "(case layout_class s al of None \<Rightarrow> 9 | Some i \<Rightarrow> i, a, n) \<in> held pages objs"
    "a \<le> p" "p + extent s al \<le> a + 2 ^ n" "layout_class s al = None \<Longrightarrow> a = p \<and> n = layout_order s al"
    using live_object_block [OF x pg(4)] by blast
  obtain b k where b: "(case layout_class s' al' of None \<Rightarrow> 9 | Some i \<Rightarrow> i, b, k) \<in> held pages objs"
    "b \<le> q" "q + extent s' al' \<le> b + 2 ^ k" "layout_class s' al' = None \<Longrightarrow> b = q \<and> k = layout_order s' al'"
    using live_object_block [OF y pg(4)] by blast
  show ?thesis
  proof (cases "\<exists>i. layout_class s al = Some i \<and> layout_class s' al' = Some i")
    case True
    then obtain i where i: "layout_class s al = Some i" "layout_class s' al' = Some i" by blast
    note c = pg(4) [OF layout_class_bounds(1) [OF i(1)]]
    have "p + SLAB_SIZES ! i \<le> q \<or> q + SLAB_SIZES ! i \<le> p"
      using live_object_page(2) [OF x i(1) c] live_object_page(2) [OF y i(2) c] pq
        class_size_nth [OF layout_class_bounds(1) [OF i(1)]] cache_ok_live(3) [OF c]
      by (rule cache_objects_apart)
    with i show ?thesis by (auto simp: extent_def disjnt_iff)
  next
    case False
    have "(case layout_class s al of None \<Rightarrow> 9 | Some i \<Rightarrow> i) = (case layout_class s' al' of None \<Rightarrow> 9 | Some i \<Rightarrow> i) \<Longrightarrow> a \<noteq> b"
      using False a(4) b(4) pq layout_class_bounds(1) [of s al] layout_class_bounds(1) [of s' al']
      by (auto split: option.splits)
    with held_ok_disjnt [OF pg(3) a(1) b(1)] have "disjnt {a ..< a + 2 ^ n} {b ..< b + 2 ^ k}" by auto
    moreover have "{p ..< p + extent s al} \<subseteq> {a ..< a + 2 ^ n}" "{q ..< q + extent s' al'} \<subseteq> {b ..< b + 2 ^ k}"
      using a(2,3) b(2,3) by auto
    ultimately show ?thesis by (meson disjnt_subset1 disjnt_subset2)
  qed
qed

lemma live_object_aligned:
  assumes inv: "heap_inv pinv pmem porder plimit off h objs" and x: "(p, s, 2 ^ e) \<in> objs" and off: "2 ^ e dvd off"
  shows "2 ^ e dvd p"
proof -
  obtain pages where pg: "held_ok (pmem (phys h)) porder plimit off (held pages objs)"
    "\<And>i. i < 9 \<Longrightarrow> cache_ok (SLAB_SIZES ! i) (caches h i) (mem_bytes h) (pages i) (class_live objs i)"
    using inv by (rule heap_invE) blast
  show ?thesis
  proof (cases "layout_class s (2 ^ e)")
    case None
    let ?n = "layout_order s (2 ^ e)"
    have "(2::nat) ^ e \<le> 2 ^ ?n" using extent_ge [of s "2 ^ e"] None by (simp add: extent_def)
    then have "(2::nat) ^ e dvd 2 ^ ?n" by (intro le_imp_power_dvd) (rule power_le_imp_le_exp [of 2], simp_all)
    with held_okD [OF pg(1) held_large [OF x None]] off show ?thesis
      by (metis dvd_diffD dvd_trans)
  next
    case (Some i)
    note i = layout_class_bounds [OF Some]
    have "(2::nat) ^ e \<le> 2 ^ (i + 3)" using i by (simp add: SLAB_SIZES_nth)
    then have "e \<le> i + 3" by (rule power_le_imp_le_exp [rotated]) simp
    then have "2 ^ e dvd SLAB_SIZES ! i" by (simp add: SLAB_SIZES_nth [OF i(1)] le_imp_power_dvd del: power_Suc)
    moreover have "SLAB_SIZES ! i dvd p"
      using live_object_page(2) [OF x Some pg(2) [OF i(1)]] class_size_nth [OF i(1)]
        cache_ok_live(3) [OF pg(2) [OF i(1)]] by (rule pages_objectsD(1))
    ultimately show ?thesis by (rule dvd_trans)
  qed
qed

text \<open>Live objects lie in memory the physical allocator does not consider free.\<close>

lemma live_object_not_free:
  assumes inv: "heap_inv pinv pmem porder plimit off h objs" and x: "(p, s, al) \<in> objs"
  shows "off \<le> p" "disjnt {p - off ..< p - off + extent s al} (pmem (phys h))"
proof -
  obtain pages where pg: "held_ok (pmem (phys h)) porder plimit off (held pages objs)"
    "\<And>i. i < 9 \<Longrightarrow> cache_ok (SLAB_SIZES ! i) (caches h i) (mem_bytes h) (pages i) (class_live objs i)"
    using inv by (rule heap_invE) blast
  obtain a n where a: "(case layout_class s al of None \<Rightarrow> 9 | Some i \<Rightarrow> i, a, n) \<in> held pages objs"
    "a \<le> p" "p + extent s al \<le> a + 2 ^ n"
    using live_object_block [OF x pg(2)] by blast
  note b = held_okD [OF pg(1) a(1)]
  show "off \<le> p" using a(2) b(1) by simp
  have "{p - off ..< p - off + extent s al} \<subseteq> {a - off ..< a - off + 2 ^ n}" using a b(1) by auto
  with b(5) show "disjnt {p - off ..< p - off + extent s al} (pmem (phys h))" by (meson disjnt_subset1)
qed

lemma disjnt_shift:
  fixes a p off :: nat
  assumes "disjnt {a ..< a + n} {p ..< p + k}" "off \<le> a" "off \<le> p"
  shows "disjnt {a - off ..< a - off + n} {p - off ..< p - off + k}"
  unfolding disjnt_iff
proof (intro allI notI)
  fix x assume "x \<in> {a - off ..< a - off + n} \<and> x \<in> {p - off ..< p - off + k}"
  with assms(2,3) have "x + off \<in> {a ..< a + n} \<and> x + off \<in> {p ..< p + k}" by auto
  with assms(1) show False by (meson disjnt_iff)
qed

definition off_ok :: "nat \<Rightarrow> nat \<Rightarrow> bool" where
  "off_ok plimit off \<longleftrightarrow> 0 < off \<and> 4096 dvd off \<and> off + plimit \<le> 2 ^ 64"

text \<open>The slab allocator needs a physical allocator that serves single pages.\<close>

locale slab_backend = phys_allocator palloc pfree pinv pready pmem porder plimit
  for palloc :: "nat \<Rightarrow> 's \<Rightarrow> (nat option \<times> 's) res"
    and pfree :: "nat \<Rightarrow> nat \<Rightarrow> 's \<Rightarrow> 's res"
    and pinv pready :: "'s \<Rightarrow> bool" and pmem :: "'s \<Rightarrow> nat set"
    and porder :: "nat \<Rightarrow> bool" and plimit :: nat +
  assumes page_order: "porder 12"
begin

abbreviation "hinv \<equiv> heap_inv pinv pmem porder plimit"

lemma heap_expand:
  assumes "hinv off h objs" "off_ok plimit off" and i: "i < 9" and pa: "palloc 12 (phys h) = Inr (Some a, p')"
  shows "\<exists>c m. cache_expand palloc off (SLAB_SIZES ! i) (caches h i, mem_bytes h, phys h) = Inr (True, (c, m, p')) \<and>
    free_list c \<noteq> None \<and> hinv off (h\<lparr>caches := (caches h)(i := c), mem_bytes := m, phys := p'\<rparr>) objs"
proof -
  obtain pages where inv: "pinv (phys h)" "inj_on fst objs"
    "held_ok (pmem (phys h)) porder plimit off (held pages objs)"
    "\<And>i. i < 9 \<Longrightarrow> cache_ok (SLAB_SIZES ! i) (caches h i) (mem_bytes h) (pages i) (class_live objs i)"
    using assms(1) by (rule heap_invE) blast
  note sz = class_size_nth [OF i]
  note post = palloc_some [OF inv(1) pa] and lim = palloc_block_limit [OF inv(1) pa]
  let ?pages = "pages(i := insert (off + a) (pages i))"
  have "4096 dvd off + a" using post assms(2) by (auto simp: off_ok_def)
  then have page: "page_ok (off + a)" using lim assms(2) by (simp add: page_ok_def off_ok_def)
  have "held_ok (pmem p') porder plimit off (insert (i, off + a, 12) (held pages objs))"
    and dis: "\<And>u b k. (u, b, k) \<in> held pages objs \<Longrightarrow> disjnt {off + a ..< off + a + 2 ^ 12} {b ..< b + 2 ^ k}"
    using held_ok_insert [OF inv(3), where n = 12 and a = a and mem' = "pmem p'"] post lim by blast+
  then have held: "held_ok (pmem p') porder plimit off (held ?pages objs)"
    using held_insert_page [OF i, of pages "off + a" objs] by simp
  have new: "off + a \<notin> pages i"
  proof
    assume "off + a \<in> pages i"
    with dis [OF held_page [OF i, of "off + a" pages]] show False by (auto simp: disjnt_iff dest: spec [of _ "off + a"])
  qed
  obtain c m where ex: "cache_expand palloc off (SLAB_SIZES ! i) (caches h i, mem_bytes h, phys h) = Inr (True, (c, m, p'))"
      "free_list c \<noteq> None" "cache_ok (SLAB_SIZES ! i) c m (insert (off + a) (pages i)) (class_live objs i)"
      "\<forall>x. x < off + a \<or> off + a + 4096 \<le> x \<longrightarrow> m x = mem_bytes h x"
    using cache_expand_ok [OF inv(4) [OF i] sz, of palloc "phys h" a p' off] pa page new by blast
  let ?h = "h\<lparr>caches := (caches h)(i := c), mem_bytes := m, phys := p'\<rparr>"
  have "cache_ok (SLAB_SIZES ! j) (caches ?h j) (mem_bytes ?h) (?pages j) (class_live objs j)" if j: "j < 9" for j
  proof (cases "j = i")
    case True
    with ex(3) show ?thesis by simp
  next
    case False
    with inv(4) [OF j] have "cache_ok (SLAB_SIZES ! j) (caches h j) (mem_bytes h) (?pages j) (class_live objs j)"
      by simp
    from other_cache_frame [OF held i j _ _ this, of "off + a" m] False ex(4) show ?thesis by simp
  qed
  with inv(2) held post have "hinv off ?h objs" by (intro heap_invI [where pages = ?pages]) auto
  with ex(1,2) show ?thesis by blast
qed

text \<open>The outcomes of \<open>slab_allocate\<close>.\<close>

lemma slab_allocate_outcomes:
  assumes inv: "hinv off h objs" and off: "off_ok plimit off"
    and large: "layout_class s al = None \<longrightarrow> porder (layout_order s al)"
  shows "(\<exists>i. slab_allocate palloc off s al h = Inl Panic \<and> layout_class s al = Some i) \<or>
    slab_allocate palloc off s al h = Inr (None, h) \<or>
    (\<exists>p h'. slab_allocate palloc off s al h = Inr (Some p, h') \<and>
       p \<notin> fst ` objs \<and> hinv off h' (insert (p, s, al) objs))"
proof (cases "layout_class s al")
  case None
  obtain pages where pg: "pinv (phys h)" "inj_on fst objs"
    "held_ok (pmem (phys h)) porder plimit off (held pages objs)"
    "\<And>i. i < 9 \<Longrightarrow> cache_ok (SLAB_SIZES ! i) (caches h i) (mem_bytes h) (pages i) (class_live objs i)"
    using inv by (rule heap_invE) blast
  let ?n = "layout_order s al"
  obtain r p' where pa: "palloc ?n (phys h) = Inr (r, p')"
    using palloc_total [OF pg(1)] large None by blast
  show ?thesis
  proof (cases r)
    case r: None
    then have "p' = phys h" using palloc_none [OF pg(1)] pa by blast
    with pa r show ?thesis by (simp add: slab_allocate_large [OF None])
  next
    case (Some a)
    note post = palloc_some [OF pg(1) pa [unfolded Some]] and lim = palloc_block_limit [OF pg(1) pa [unfolded Some]]
    have held: "held_ok (pmem p') porder plimit off (insert (9, off + a, ?n) (held pages objs))"
      and dis: "\<And>u b k. (u, b, k) \<in> held pages objs \<Longrightarrow> disjnt {off + a ..< off + a + 2 ^ ?n} {b ..< b + 2 ^ k}"
      using held_ok_insert [OF pg(3), where n = ?n and a = a and mem' = "pmem p'"] post lim by blast+
    have fresh: "off + a \<noteq> q" if "(q, s', al') \<in> objs" for q s' al'
    proof (cases "layout_class s' al'")
      case None
      with dis [OF held_large [OF that None]] show ?thesis
        by (auto simp: disjnt_iff dest: spec [of _ q])
    next
      case (Some j)
      note j = layout_class_bounds(1) [OF Some] and c = pg(4) [OF layout_class_bounds(1) [OF Some]]
      have "q \<in> class_live objs j" using that Some by (auto simp: class_live_def)
      then obtain pp where pp: "pp \<in> pages j" "pp \<le> q" "q + SLAB_SIZES ! j \<le> pp + 4096"
        using pages_objectsD(4) [OF _ class_size_nth [OF j] cache_ok_live(3) [OF c]] cache_ok_live(1) [OF c] by blast
      have "disjnt {off + a ..< off + a + 2 ^ ?n} {pp ..< pp + 2 ^ 12}"
        using dis [OF held_page [OF j, of pp pages]] pp(1) by blast
      then show ?thesis using pp class_size_nth [OF j] by (auto simp: class_size_def disjnt_iff dest: spec [of _ q])
    qed
    then have "off + a \<notin> fst ` objs" by force
    moreover have "hinv off (h\<lparr>phys := p'\<rparr>) (insert (off + a, s, al) objs)"
    proof (rule heap_invI)
      show "held_ok (pmem (phys (h\<lparr>phys := p'\<rparr>))) porder plimit off (held pages (insert (off + a, s, al) objs))"
        using held by (simp add: held_insert_large [OF None])
      show "inj_on fst (insert (off + a, s, al) objs)" using pg(2) calculation by (auto simp: inj_on_insert)
    qed (use pg(4) post None in \<open>simp_all add: class_live_insert\<close>)
    moreover have "slab_allocate palloc off s al h = Inr (Some (off + a), h\<lparr>phys := p'\<rparr>)"
      using pa Some by (simp add: slab_allocate_large [OF None])
    ultimately show ?thesis by blast
  qed
next
  case (Some i)
  note i = layout_class_bounds(1) [OF Some]
  have taken: ?thesis if g: "hinv off g objs" "free_list (caches g i) = Some obj"
    "cache_allocate palloc off (SLAB_SIZES ! i) (caches h i, mem_bytes h, phys h) =
     cache_allocate palloc off (SLAB_SIZES ! i) (caches g i, mem_bytes g, phys g)"
    "\<And>c m. h\<lparr>caches := (caches h)(i := c), mem_bytes := m, phys := phys g\<rparr> =
            g\<lparr>caches := (caches g)(i := c), mem_bytes := m\<rparr>" for g obj
    using heap_inv_take [OF g(1) Some g(2)] g(2-4) Some
    by (auto simp: slab_allocate_class [OF Some] cache_allocate_take)
  show ?thesis
  proof (cases "free_list (caches h i)")
    case (Some obj)
    then show ?thesis using taken [OF inv, of obj] by simp
  next
    case None
    have pinv: "pinv (phys h)" using inv by (simp add: heap_inv_def)
    obtain r p' where pa: "palloc 12 (phys h) = Inr (r, p')"
      using palloc_total [OF pinv page_order] by blast
    show ?thesis
    proof (cases r)
      case r: None
      then have "p' = phys h" using palloc_none [OF pinv] pa by blast
      with pa r None show ?thesis
        by (simp add: slab_allocate_class [OF \<open>layout_class s al = Some i\<close>] cache_allocate_def cache_expand_def)
    next
      case r: (Some a)
      from heap_expand [OF inv off i pa [unfolded r]] obtain c m where
        ex: "cache_expand palloc off (SLAB_SIZES ! i) (caches h i, mem_bytes h, phys h) = Inr (True, (c, m, p'))"
          "free_list c \<noteq> None" "hinv off (h\<lparr>caches := (caches h)(i := c), mem_bytes := m, phys := p'\<rparr>) objs"
        by blast
      then obtain obj where "free_list c = Some obj" by blast
      with ex cache_allocate_expand [OF None ex(1,2)] show ?thesis
        by (intro taken [OF ex(3), of obj]) auto
    qed
  qed
qed

text \<open>\<open>slab_deallocate\<close> of a live object, with the layout it was allocated with.\<close>

lemma slab_deallocate_live:
  assumes inv: "hinv off h objs" and x: "(p, s, al) \<in> objs"
    and ready: "layout_class s al = None \<Longrightarrow> pready (phys h)"
  shows "\<exists>h'. slab_deallocate pfree off (Some p) s al h = Inr h' \<and> hinv off h' (objs - {(p, s, al)})"
proof -
  obtain pages where pg: "pinv (phys h)" "inj_on fst objs"
    "held_ok (pmem (phys h)) porder plimit off (held pages objs)"
    "\<And>i. i < 9 \<Longrightarrow> cache_ok (SLAB_SIZES ! i) (caches h i) (mem_bytes h) (pages i) (class_live objs i)"
    using inv by (rule heap_invE) blast
  have inj: "inj_on fst (objs - {(p, s, al)})" using pg(2) by (rule inj_on_subset) auto
  show ?thesis
  proof (cases "layout_class s al")
    case None
    let ?n = "layout_order s al" and ?H = "held pages objs"
    note b = held_okD [OF pg(3) held_large [OF x None]]
    obtain p' where p': "pfree (p - off) ?n (phys h) = Inr p'" "pinv p'"
        "pmem p' = pmem (phys h) \<union> {p - off ..< p - off + 2 ^ ?n}"
      using pfree_ok [OF pg(1) ready [OF None] b(2-5)] by blast
    have "held_ok (pmem p') porder plimit off (?H - {(9, p, ?n)})"
      unfolding held_ok_def
    proof (intro conjI allI impI)
      fix t a n assume "(t, a, n) \<in> ?H - {(9, p, ?n)}"
      then have mem: "(t, a, n) \<in> ?H" "(t, a, n) \<noteq> (9, p, ?n)" by auto
      note c = held_okD [OF pg(3) mem(1)]
      have "disjnt {a ..< a + 2 ^ n} {p ..< p + 2 ^ ?n}"
        using mem held_large [OF x None] by (intro held_ok_disjnt [OF pg(3)])
      then have "disjnt {a - off ..< a - off + 2 ^ n} {p - off ..< p - off + 2 ^ ?n}"
        using b(1) c(1) by (intro disjnt_shift)
      with c(5) show "disjnt {a - off ..< a - off + 2 ^ n} (pmem p')"
        unfolding p'(3) by (auto simp: disjnt_iff)
      show "off \<le> a" "porder n" "2 ^ n dvd a - off" "a - off + 2 ^ n \<le> plimit" using c by auto
    next
      fix t a n u b k
      assume "(t, a, n) \<in> ?H - {(9, p, ?n)}" "(u, b, k) \<in> ?H - {(9, p, ?n)}" "(t, a, n) \<noteq> (u, b, k)"
      then show "disjnt {a ..< a + 2 ^ n} {b ..< b + 2 ^ k}" by (intro held_ok_disjnt [OF pg(3)]) auto
    qed
    then have "hinv off (h\<lparr>phys := p'\<rparr>) (objs - {(p, s, al)})"
      using p'(2) inj pg(4) None
      by (intro heap_invI [where pages = pages])
        (simp_all add: held_remove_large [OF pg(2) x None] class_live_remove [OF pg(2) x])
    then show ?thesis using p'(1) by (simp add: slab_deallocate_large [OF None b(1)])
  next
    case (Some i)
    note i = layout_class_bounds(1) [OF Some] and sz = class_size_nth [OF layout_class_bounds(1) [OF Some]]
    note live = live_object_page [OF x Some pg(4) [OF i]]
    obtain page where page: "page \<in> pages i" "page \<le> p" "p + SLAB_SIZES ! i \<le> page + 4096"
      using live(3) by blast
    obtain c m q where cd: "cache_deallocate p (SLAB_SIZES ! i) (caches h i, mem_bytes h, phys h) = (c, m, q)"
      by (metis prod_cases3)
    note ok = cache_deallocate_ok [OF pg(4) [OF i] sz live(1) cd]
    let ?h = "h\<lparr>caches := (caches h)(i := c), mem_bytes := m, phys := q\<rparr>"
    have "cache_ok (SLAB_SIZES ! j) (caches ?h j) (mem_bytes ?h) (pages j) (class_live (objs - {(p, s, al)}) j)"
      if j: "j < 9" for j
    proof (cases "j = i")
      case True
      with ok(1) Some show ?thesis by (simp add: class_live_remove [OF pg(2) x])
    next
      case False
      then have "cache_ok (SLAB_SIZES ! j) (caches h j) m (pages j) (class_live objs j)"
        using page ok(3) by (intro other_cache_frame [OF pg(3) i j _ page(1) pg(4) [OF j]]) auto
      with False Some show ?thesis by (simp add: class_live_remove [OF pg(2) x])
    qed
    then have "hinv off ?h (objs - {(p, s, al)})"
      using pg(1,3) inj ok(2)
      by (intro heap_invI [where pages = pages]) (simp_all add: held_remove_slab [OF Some])
    then show ?thesis by (simp add: slab_deallocate_class [OF Some] cd)
  qed
qed

text \<open>The holder of a live object may write anything into it.\<close>

lemma owner_write:
  assumes inv: "hinv off h objs" and x: "(p, s, al) \<in> objs"
    and m': "\<And>y. y < p \<or> p + extent s al \<le> y \<Longrightarrow> m' y = mem_bytes h y"
  shows "hinv off (h\<lparr>mem_bytes := m'\<rparr>) objs"
proof -
  obtain pages where pg: "pinv (phys h)" "inj_on fst objs"
    "held_ok (pmem (phys h)) porder plimit off (held pages objs)"
    "\<And>i. i < 9 \<Longrightarrow> cache_ok (SLAB_SIZES ! i) (caches h i) (mem_bytes h) (pages i) (class_live objs i)"
    using inv by (rule heap_invE) blast
  obtain a n where a: "(case layout_class s al of None \<Rightarrow> 9 | Some i \<Rightarrow> i, a, n) \<in> held pages objs"
    "a \<le> p" "p + extent s al \<le> a + 2 ^ n"
    using live_object_block [OF x pg(4)] by blast
  have "cache_ok (SLAB_SIZES ! j) (caches h j) m' (pages j) (class_live objs j)" if j: "j < 9" for j
  proof (rule cache_ok_frame [OF pg(4) [OF j] class_size_nth [OF j]])
    fix b y assume b: "b \<in> pages_objects (SLAB_SIZES ! j) (pages j) - class_live objs j" and y: "b \<le> y" "y < b + 8"
    note sz = class_size_nth [OF j] and ok = cache_ok_live(3) [OF pg(4) [OF j]]
    obtain page where page: "page \<in> pages j" "page \<le> b" "b + SLAB_SIZES ! j \<le> page + 4096"
      using pages_objectsD(4) [OF _ sz ok] b by blast
    show "mem_bytes h y = m' y"
    proof (cases "layout_class s al = Some j")
      case True
      have "b + SLAB_SIZES ! j \<le> p \<or> p + SLAB_SIZES ! j \<le> b"
        using b live_object_page(1,2) [OF x True pg(4) [OF j]]
        by (intro cache_objects_apart [OF _ _ _ sz ok]) auto
      with y sz True show ?thesis by (intro m' [symmetric]) (auto simp: extent_def class_size_def)
    next
      case False
      then have "disjnt {a ..< a + 2 ^ n} {page ..< page + 2 ^ 12}"
        using j held_ok_disjnt [OF pg(3) a(1) held_page [of j page]] page(1)
        by (auto split: option.splits)
      moreover have "y \<in> {page ..< page + 2 ^ 12}" using page y sz by (auto simp: class_size_def)
      ultimately have "\<not> (a \<le> y \<and> y < a + 2 ^ n)" by (auto simp: disjnt_iff)
      with a(2,3) show ?thesis by (intro m' [symmetric]) linarith
    qed
  qed
  with pg show ?thesis by (intro heap_invI [where pages = pages]) simp_all
qed

end

end
