(* ===== verification/Buddy.thy ===== *)
theory Buddy
  imports Phys_Iface
begin

text \<open>
  The physical memory allocator, \<^verbatim>\<open>kernel/src/allocator/buddy_allocator.rs\<close>.

  Addresses and sizes are naturals: \<open>buddy_inv\<close> keeps every block below $2^{52}$, the range of
  \<^verbatim>\<open>PhysAddr\<close>, so no \<^verbatim>\<open>u64\<close> operation of the code wraps. The fixed arrays of the struct
  are functions on their index; an index out of range aborts. The \<^verbatim>\<open>FreeBlock\<close> header at the start
  of a free block is what \<open>mem\<close> holds at the block's address, and \<open>mem\<close> elsewhere is the owners'
  data, which the allocator never reads.
\<close>

section \<open>Constants and state\<close>

definition MIN_ORDER :: nat where "MIN_ORDER = 12"
definition MAX_ORDER :: nat where "MAX_ORDER = 28"
definition NUM_ORDERS :: nat where "NUM_ORDERS = MAX_ORDER - MIN_ORDER + 1"
definition MAX_PHYS_ADDR :: nat where "MAX_PHYS_ADDR = 512 * 1024 * 1024"

lemmas buddy_consts = MIN_ORDER_def MAX_ORDER_def NUM_ORDERS_def MAX_PHYS_ADDR_def

definition order_bytes :: "nat \<Rightarrow> nat" where
  "order_bytes order = (MAX_PHYS_ADDR div 2 ^ order + 7) div 8"

function bitmap_total_loop :: "nat \<Rightarrow> nat \<Rightarrow> nat" where
  "bitmap_total_loop order tot =
     (if order \<le> MAX_ORDER then bitmap_total_loop (order + 1) (tot + order_bytes order)
      else tot)"
  by pat_completeness auto
termination
  by (relation "measure (\<lambda>(order, tot). MAX_ORDER + 1 - order)") auto

declare bitmap_total_loop.simps [simp del]

definition bitmap_total_bytes :: nat where
  "bitmap_total_bytes = bitmap_total_loop MIN_ORDER 0"

primrec bitmap_offset :: "nat \<Rightarrow> nat" where
  "bitmap_offset 0 = 0"
| "bitmap_offset (Suc i) = bitmap_offset i + order_bytes (MIN_ORDER + i)"

record buddy =
  free_lists :: "nat \<Rightarrow> nat option"
  bitmap :: "nat \<Rightarrow> u8"
  total_memory :: nat
  mem :: "nat \<Rightarrow> nat option"

definition buddy_new :: "(nat \<Rightarrow> nat option) \<Rightarrow> buddy" where
  "buddy_new m = \<lparr>free_lists = (\<lambda>_. None), bitmap = (\<lambda>_. 0), total_memory = 0, mem = m\<rparr>"

section \<open>Operations\<close>

definition order_to_index :: "nat \<Rightarrow> nat res" where
  "order_to_index order = (if order < MIN_ORDER then Inl Panic else Inr (order - MIN_ORDER))"

definition free_list_head :: "nat \<Rightarrow> buddy \<Rightarrow> nat option res" where
  "free_list_head idx s = (if idx < NUM_ORDERS then Inr (free_lists s idx) else Inl Panic)"

definition bitmap_pos :: "nat \<Rightarrow> nat \<Rightarrow> (nat \<times> u8) option" where
  "bitmap_pos order a =
     (if a \<ge> MAX_PHYS_ADDR then None
      else let idx = order - MIN_ORDER;
               bit_index = a div 2 ^ order;
               byte_offset = bitmap_offset idx + bit_index div 8;
               bit_mask = push_bit (bit_index mod 8) 1
           in Some (byte_offset, bit_mask))"

definition bitmap_read :: "buddy \<Rightarrow> nat \<Rightarrow> u8 res" where
  "bitmap_read s byte = (if byte < bitmap_total_bytes then Inr (bitmap s byte) else Inl Panic)"

definition bitmap_set :: "nat \<Rightarrow> nat \<Rightarrow> buddy \<Rightarrow> buddy res" where
  "bitmap_set order a s =
     (case bitmap_pos order a of
        None \<Rightarrow> Inr s
      | Some (byte, msk) \<Rightarrow>
          bindR (bitmap_read s byte) (\<lambda>b.
            if b AND msk \<noteq> 0 then Inl Halt
            else Inr (s\<lparr>bitmap := (bitmap s)(byte := b OR msk)\<rparr>)))"

definition bitmap_clear :: "nat \<Rightarrow> nat \<Rightarrow> buddy \<Rightarrow> buddy res" where
  "bitmap_clear order a s =
     (case bitmap_pos order a of
        None \<Rightarrow> Inr s
      | Some (byte, msk) \<Rightarrow>
          bindR (bitmap_read s byte) (\<lambda>b.
          bindR (assertR (b AND msk \<noteq> 0)) (\<lambda>_.
            Inr (s\<lparr>bitmap := (bitmap s)(byte := b AND NOT msk)\<rparr>))))"

definition is_free :: "nat \<Rightarrow> nat \<Rightarrow> buddy \<Rightarrow> bool res" where
  "is_free order a s =
     (case bitmap_pos order a of
        Some (byte, msk) \<Rightarrow> bindR (bitmap_read s byte) (\<lambda>b. Inr (b AND msk \<noteq> 0))
      | None \<Rightarrow> Inr False)"

definition add_block :: "nat \<Rightarrow> nat \<Rightarrow> buddy \<Rightarrow> buddy res" where
  "add_block order a s =
     bindR (order_to_index order) (\<lambda>idx.
     bindR (free_list_head idx s) (\<lambda>head.
       bitmap_set order a
         (s\<lparr>mem := (mem s)(a := head), free_lists := (free_lists s)(idx := Some a)\<rparr>)))"

definition remove_from_head :: "nat \<Rightarrow> nat \<Rightarrow> buddy \<Rightarrow> buddy res" where
  "remove_from_head order a s =
     bindR (order_to_index order) (\<lambda>idx.
     bindR (free_list_head idx s) (\<lambda>head.
     bindR (assertR (head = Some a)) (\<lambda>_.
       bitmap_clear order a (s\<lparr>free_lists := (free_lists s)(idx := mem s a)\<rparr>))))"

text \<open>
  The scan of \<^verbatim>\<open>remove_arbitrary_block\<close>: the first argument counts the iterations the guard
  \<^verbatim>\<open>iters > 4096\<close> still allows.
\<close>

fun unlink_loop :: "nat \<Rightarrow> nat \<Rightarrow> nat \<Rightarrow> nat \<Rightarrow> buddy \<Rightarrow> (bool \<times> buddy) res" where
  "unlink_loop 0 order a prev s = bindR (bitmap_clear order a s) (\<lambda>s'. Inr (False, s'))"
| "unlink_loop (Suc left) order a prev s =
     (case mem s prev of
        Some next_addr \<Rightarrow>
          if next_addr = a
          then bindR (bitmap_clear order a (s\<lparr>mem := (mem s)(prev := mem s a)\<rparr>))
                 (\<lambda>s'. Inr (True, s'))
          else unlink_loop left order a next_addr s
      | None \<Rightarrow> bindR (bitmap_clear order a s) (\<lambda>s'. Inr (False, s')))"

definition MAX_SCAN :: nat where "MAX_SCAN = 4096"

definition remove_arbitrary_block :: "nat \<Rightarrow> nat \<Rightarrow> buddy \<Rightarrow> (bool \<times> buddy) res" where
  "remove_arbitrary_block order a s =
     bindR (order_to_index order) (\<lambda>idx.
     bindR (free_list_head idx s) (\<lambda>head.
       if head = Some a
       then bindR (remove_from_head order a s) (\<lambda>s'. Inr (True, s'))
       else case head of
              Some h \<Rightarrow> unlink_loop MAX_SCAN order a h s
            | None \<Rightarrow> bindR (bitmap_clear order a s) (\<lambda>s'. Inr (False, s'))))"

fun split_block :: "nat \<Rightarrow> nat \<Rightarrow> nat \<Rightarrow> buddy \<Rightarrow> buddy res" where
  "split_block current_order a to_order s =
     (if to_order < current_order
      then bindR (add_block (current_order - 1) (a + 2 ^ (current_order - 1)) s)
             (\<lambda>s'. split_block (current_order - 1) a to_order s')
      else Inr s)"

declare split_block.simps [simp del]

definition buddy_of :: "nat \<Rightarrow> nat \<Rightarrow> nat" where
  "buddy_of a order = a XOR 2 ^ order"

fun allocate_larger :: "nat \<Rightarrow> nat list \<Rightarrow> buddy \<Rightarrow> (nat option \<times> buddy) res" where
  "allocate_larger order [] s = Inr (None, s)"
| "allocate_larger order (larger # rest) s =
     bindR (order_to_index larger) (\<lambda>idx.
     bindR (free_list_head idx s) (\<lambda>head.
       case head of
         Some a \<Rightarrow> bindR (remove_from_head larger a s) (\<lambda>s'.
                   bindR (split_block larger a order s') (\<lambda>s''. Inr (Some a, s'')))
       | None \<Rightarrow> allocate_larger order rest s))"

definition allocate :: "nat \<Rightarrow> buddy \<Rightarrow> (nat option \<times> buddy) res" where
  "allocate order s =
     bindR (assertR (MIN_ORDER \<le> order)) (\<lambda>_.
     bindR (assertR (order \<le> MAX_ORDER)) (\<lambda>_.
     bindR (order_to_index order) (\<lambda>idx.
     bindR (free_list_head idx s) (\<lambda>head.
       case head of
         Some a \<Rightarrow> bindR (remove_from_head order a s) (\<lambda>s'. Inr (Some a, s'))
       | None \<Rightarrow> allocate_larger order [order + 1 ..< MAX_ORDER + 1] s))))"

function (sequential) coalesce :: "nat \<Rightarrow> nat \<Rightarrow> buddy \<Rightarrow> (nat \<times> nat \<times> buddy) res" where
  "coalesce current_addr current_order s =
     (if current_order < MAX_ORDER
      then bindR (is_free current_order (buddy_of current_addr current_order) s) (\<lambda>free.
             if \<not> free then Inr (current_addr, current_order, s)
             else bindR (remove_arbitrary_block current_order (buddy_of current_addr current_order) s)
                    (\<lambda>(removed, s').
                      if \<not> removed then Inr (current_addr, current_order, s')
                      else coalesce (min current_addr (buddy_of current_addr current_order))
                             (current_order + 1) s'))
      else Inr (current_addr, current_order, s))"
  by pat_completeness auto
termination
  by (relation "measure (\<lambda>(a, order, s). MAX_ORDER - order)") auto

declare coalesce.simps [simp del]

definition deallocate :: "nat \<Rightarrow> nat \<Rightarrow> buddy \<Rightarrow> buddy res" where
  "deallocate a order s =
     bindR (assertR (MIN_ORDER \<le> order)) (\<lambda>_.
     bindR (assertR (order \<le> MAX_ORDER)) (\<lambda>_.
     bindR (assertR (a mod 2 ^ order = 0)) (\<lambda>_.
     bindR (coalesce a order s) (\<lambda>(current_addr, current_order, s').
       add_block current_order current_addr s'))))"

text \<open>
  \<^verbatim>\<open>add_region\<close>: \<^verbatim>\<open>end - start\<close> panics when it underflows; every turn of the loop adds the
  largest block that the alignment of the current address and the remaining size allow.
\<close>

definition region_order :: "nat \<Rightarrow> nat \<Rightarrow> nat" where
  "region_order current_addr remaining =
     max (min (min (u64_trailing_zeros current_addr) (u64_ilog2 remaining)) MAX_ORDER) MIN_ORDER"

function add_region_loop :: "nat \<Rightarrow> nat \<Rightarrow> buddy \<Rightarrow> buddy res" where
  "add_region_loop current_addr end_addr s =
     (if current_addr < end_addr
      then let remaining = end_addr - current_addr in
           if remaining < 2 ^ MIN_ORDER then Inr s
           else let order = region_order current_addr remaining in
                bindR (add_block order current_addr s) (\<lambda>s'.
                  add_region_loop (current_addr + 2 ^ order) end_addr s')
      else Inr s)"
  by pat_completeness auto
termination
  by (relation "measure (\<lambda>(a, e, s). e - a)") (auto simp: Let_def intro: diff_less_mono2)

declare add_region_loop.simps [simp del]

definition add_region :: "nat \<Rightarrow> nat \<Rightarrow> buddy \<Rightarrow> buddy res" where
  "add_region start end_addr s =
     bindR (assertR (start \<le> end_addr)) (\<lambda>_.
       add_region_loop start end_addr (s\<lparr>total_memory := total_memory s + (end_addr - start)\<rparr>))"

text \<open>
  \<^verbatim>\<open>free_bytes\<close> walks every free list to its end; on a cyclic list it would not return, so the
  walk is a partial function.
\<close>

partial_function (option) count_blocks :: "(nat \<Rightarrow> nat option) \<Rightarrow> nat option \<Rightarrow> nat \<Rightarrow> nat option" where
  "count_blocks m current n =
     (case current of None \<Rightarrow> Some n | Some a \<Rightarrow> count_blocks m (m a) (n + 1))"

primrec free_bytes_loop :: "nat list \<Rightarrow> buddy \<Rightarrow> nat \<Rightarrow> nat option" where
  "free_bytes_loop [] s acc = Some acc"
| "free_bytes_loop (order # rest) s acc =
     (case count_blocks (mem s) (free_lists s (order - MIN_ORDER)) 0 of
        None \<Rightarrow> None
      | Some n \<Rightarrow> free_bytes_loop rest s (acc + n * 2 ^ order))"

definition free_bytes :: "buddy \<Rightarrow> nat option" where
  "free_bytes s = free_bytes_loop [MIN_ORDER ..< MAX_ORDER + 1] s 0"

definition total_bytes :: "buddy \<Rightarrow> nat" where
  "total_bytes s = total_memory s"

section \<open>The bitmap\<close>

abbreviation valid_order :: "nat \<Rightarrow> bool" where
  "valid_order order \<equiv> MIN_ORDER \<le> order \<and> order \<le> MAX_ORDER"

definition bit_on :: "buddy \<Rightarrow> nat \<Rightarrow> nat \<Rightarrow> bool" where
  "bit_on s order a =
     (case bitmap_pos order a of None \<Rightarrow> False | Some (byte, msk) \<Rightarrow> bitmap s byte AND msk \<noteq> 0)"

definition bm_byte :: "nat \<Rightarrow> nat \<Rightarrow> nat" where
  "bm_byte order a = bitmap_offset (order - MIN_ORDER) + a div 2 ^ order div 8"

definition bm_bit :: "nat \<Rightarrow> nat \<Rightarrow> nat" where
  "bm_bit order a = a div 2 ^ order mod 8"

lemma bitmap_pos_eq:
  "bitmap_pos order a =
     (if a < MAX_PHYS_ADDR then Some (bm_byte order a, push_bit (bm_bit order a) 1) else None)"
  by (simp add: bitmap_pos_def bm_byte_def bm_bit_def Let_def)

lemma mask_test: "(b :: u8) AND push_bit n 1 \<noteq> 0 \<longleftrightarrow> bit b n"
  by (simp add: bit_iff_and_push_bit_not_eq_0)

lemma bit_on_iff:
  "bit_on s order a \<longleftrightarrow> a < MAX_PHYS_ADDR \<and> bit (bitmap s (bm_byte order a)) (bm_bit order a)"
  by (simp add: bit_on_def bitmap_pos_eq mask_test del: push_bit_of_1)

lemma bitmap_offset_mono: "i \<le> j \<Longrightarrow> bitmap_offset i \<le> bitmap_offset j"
  by (induction j) (auto simp: le_Suc_eq)

lemma bitmap_total_loop_eq:
  "MIN_ORDER \<le> order \<Longrightarrow> order \<le> MAX_ORDER + 1 \<Longrightarrow>
   bitmap_total_loop order tot + bitmap_offset (order - MIN_ORDER) = tot + bitmap_offset NUM_ORDERS"
proof (induction order tot rule: bitmap_total_loop.induct)
  case (1 order tot)
  show ?case
  proof (cases "order \<le> MAX_ORDER")
    case True
    have "order + 1 - MIN_ORDER = Suc (order - MIN_ORDER)" "MIN_ORDER + (order - MIN_ORDER) = order"
      using "1.prems" by simp_all
    with True "1.IH" "1.prems" show ?thesis
      by (simp add: bitmap_total_loop.simps [of order])
  next
    case False
    with "1.prems" have "order - MIN_ORDER = NUM_ORDERS"
      by (simp add: buddy_consts)
    with False show ?thesis by (simp add: bitmap_total_loop.simps [of order])
  qed
qed

lemma bitmap_total_bytes_eq: "bitmap_total_bytes = bitmap_offset NUM_ORDERS"
  using bitmap_total_loop_eq [of MIN_ORDER 0]
  by (simp add: bitmap_total_bytes_def buddy_consts)

lemma bm_index_bound:
  assumes "a < MAX_PHYS_ADDR" and "order \<le> MAX_ORDER"
  shows "a div 2 ^ order div 8 < order_bytes order"
proof -
  have "MAX_PHYS_ADDR = 2 ^ 29" by (simp add: MAX_PHYS_ADDR_def)
  also have "\<dots> = 2 ^ order * 2 ^ (29 - order)"
    using assms(2) by (simp add: MAX_ORDER_def flip: power_add)
  finally have eq: "MAX_PHYS_ADDR = 2 ^ order * 2 ^ (29 - order)" .
  with assms(1) have "a div 2 ^ order < 2 ^ (29 - order)"
    by (metis less_mult_imp_div_less mult.commute)
  then have "a div 2 ^ order < MAX_PHYS_ADDR div 2 ^ order" by (simp only: eq) simp
  then show ?thesis unfolding order_bytes_def by linarith
qed

lemma bm_byte_between:
  assumes "a < MAX_PHYS_ADDR" and "valid_order order"
  shows "bitmap_offset (order - MIN_ORDER) \<le> bm_byte order a"
    and "bm_byte order a < bitmap_offset (Suc (order - MIN_ORDER))"
  using bm_index_bound [of a order] assms by (simp_all add: bm_byte_def)

lemma bm_byte_in_range:
  assumes "a < MAX_PHYS_ADDR" and "valid_order order"
  shows "bm_byte order a < bitmap_total_bytes"
proof -
  have "Suc (order - MIN_ORDER) \<le> NUM_ORDERS"
    using assms by (auto simp: buddy_consts)
  then have "bitmap_offset (Suc (order - MIN_ORDER)) \<le> bitmap_total_bytes"
    unfolding bitmap_total_bytes_eq by (rule bitmap_offset_mono)
  with bm_byte_between(2) [OF assms] show ?thesis by simp
qed

text \<open>Different blocks have different bits: the ranges of the orders do not overlap.\<close>

lemma bm_pos_inj:
  assumes "a < MAX_PHYS_ADDR" "a' < MAX_PHYS_ADDR" "valid_order order" "valid_order order'"
    and "2 ^ order dvd a" "2 ^ order' dvd a'"
    and byte: "bm_byte order a = bm_byte order' a'" and bt: "bm_bit order a = bm_bit order' a'"
  shows "order = order' \<and> a = a'"
proof -
  have mono: False if "order < order'" "valid_order order" "valid_order order'"
    "a < MAX_PHYS_ADDR" "a' < MAX_PHYS_ADDR" "bm_byte order a = bm_byte order' a'"
    for order order' a a'
  proof -
    have "Suc (order - MIN_ORDER) \<le> order' - MIN_ORDER" using that by simp
    then have "bitmap_offset (Suc (order - MIN_ORDER)) \<le> bitmap_offset (order' - MIN_ORDER)"
      by (rule bitmap_offset_mono)
    with bm_byte_between(1) [of a' order'] bm_byte_between(2) [of a order] that show False
      by simp
  qed
  have eq: "order = order'"
    using mono [of order order' a a'] mono [of order' order a' a] assms
    by (metis linorder_neqE_nat)
  with byte bt have "a div 2 ^ order = a' div 2 ^ order"
    unfolding bm_byte_def bm_bit_def by (metis add_left_cancel div_mod_decomp)
  with eq assms(5,6) show ?thesis by (metis dvd_div_mult_self)
qed

lemma bitmap_read_ok [simp]:
  "a < MAX_PHYS_ADDR \<Longrightarrow> valid_order order \<Longrightarrow>
   bitmap_read s (bm_byte order a) = Inr (bitmap s (bm_byte order a))"
  by (simp add: bitmap_read_def bm_byte_in_range)

lemma is_free_eq: "valid_order order \<Longrightarrow> is_free order a s = Inr (bit_on s order a)"
  by (auto simp: is_free_def bit_on_def bitmap_pos_eq mask_test simp del: push_bit_of_1)

text \<open>\<open>bitmap_put\<close> is what setting and clearing a bit have in common.\<close>

definition bitmap_put :: "nat \<Rightarrow> nat \<Rightarrow> bool \<Rightarrow> buddy \<Rightarrow> buddy" where
  "bitmap_put order a v s =
     (if a < MAX_PHYS_ADDR
      then s\<lparr>bitmap := (bitmap s)(bm_byte order a :=
             (if v then set_bit else unset_bit) (bm_bit order a) (bitmap s (bm_byte order a)))\<rparr>
      else s)"

lemma bitmap_put_fields [simp]:
  "free_lists (bitmap_put order a v s) = free_lists s"
  "mem (bitmap_put order a v s) = mem s"
  "total_memory (bitmap_put order a v s) = total_memory s"
  by (simp_all add: bitmap_put_def)

lemma bitmap_set_eq:
  "valid_order order \<Longrightarrow>
   bitmap_set order a s = (if bit_on s order a then Inl Halt else Inr (bitmap_put order a True s))"
  by (auto simp: bitmap_set_def bit_on_def bitmap_pos_eq mask_test bitmap_put_def set_bit_eq_or
      simp del: push_bit_of_1)

lemma bitmap_clear_eq:
  "valid_order order \<Longrightarrow>
   bitmap_clear order a s =
     (if a < MAX_PHYS_ADDR \<and> \<not> bit_on s order a then Inl Panic
      else Inr (bitmap_put order a False s))"
  by (auto simp: bitmap_clear_def bit_on_def bitmap_pos_eq mask_test bitmap_put_def
      unset_bit_eq_and_not simp del: push_bit_of_1)

lemma bm_bit_less [simp]: "bm_bit order a < 8"
  by (simp add: bm_bit_def)

lemma bit_on_put:
  assumes "valid_order order" "valid_order order'" "2 ^ order dvd a" "2 ^ order' dvd a'"
  shows "bit_on (bitmap_put order a v s) order' a' \<longleftrightarrow>
     (if order' = order \<and> a' = a then v \<and> a < MAX_PHYS_ADDR else bit_on s order' a')"
proof (cases "order' = order \<and> a' = a")
  case True
  then show ?thesis
    by (simp add: bit_on_iff bitmap_put_def bit_set_bit_iff bit_unset_bit_iff)
next
  case False
  have "bm_byte order a \<noteq> bm_byte order' a' \<or> bm_bit order a \<noteq> bm_bit order' a'"
    if "a < MAX_PHYS_ADDR" "a' < MAX_PHYS_ADDR"
    using bm_pos_inj [of a a' order order'] assms that False by blast
  then show ?thesis
    using False
    by (cases "bm_byte order' a' = bm_byte order a")
      (auto simp: bit_on_iff bitmap_put_def bit_set_bit_iff bit_unset_bit_iff)
qed

section \<open>The invariant\<close>

text \<open>
  The abstraction of a state is \<open>fl\<close>: for every order, the addresses on its free list, in list
  order. \<open>rep\<close> relates the pointers and the bitmap to it; \<open>wf_blocks\<close> says the blocks are aligned,
  in range and pairwise disjoint.
\<close>

type_synonym blocks = "nat \<Rightarrow> nat list"

definition block :: "nat \<Rightarrow> nat \<Rightarrow> nat set" where
  "block order a = {a ..< a + 2 ^ order}"

definition rep :: "buddy \<Rightarrow> blocks \<Rightarrow> bool" where
  "rep s fl \<longleftrightarrow>
     (\<forall>order. valid_order order \<longrightarrow> chain (mem s) (free_lists s (order - MIN_ORDER)) (fl order)) \<and>
     (\<forall>order a. valid_order order \<longrightarrow> 2 ^ order dvd a \<longrightarrow>
        (bit_on s order a \<longleftrightarrow> a < MAX_PHYS_ADDR \<and> a \<in> set (fl order)))"

definition wf_blocks :: "blocks \<Rightarrow> bool" where
  "wf_blocks fl \<longleftrightarrow>
     (\<forall>order. \<forall>a \<in> set (fl order).
        valid_order order \<and> 2 ^ order dvd a \<and> a + 2 ^ order \<le> 2 ^ 52) \<and>
     (\<forall>order order'. \<forall>a \<in> set (fl order). \<forall>a' \<in> set (fl order').
        (order, a) \<noteq> (order', a') \<longrightarrow> disjnt (block order a) (block order' a'))"

definition mem_of :: "blocks \<Rightarrow> nat set" where
  "mem_of fl = (\<Union>order. \<Union>a \<in> set (fl order). block order a)"

definition buddy_inv :: "buddy \<Rightarrow> bool" where
  "buddy_inv s \<longleftrightarrow> (\<exists>fl. rep s fl \<and> wf_blocks fl)"

text \<open>The blocks on the free lists of a state, and the memory they cover.\<close>

definition free_blocks :: "buddy \<Rightarrow> nat \<Rightarrow> nat set" where
  "free_blocks s order =
     {a. valid_order order \<and>
         (\<exists>xs. chain (mem s) (free_lists s (order - MIN_ORDER)) xs \<and> a \<in> set xs)}"

definition free_mem :: "buddy \<Rightarrow> nat set" where
  "free_mem s = (\<Union>order. \<Union>a \<in> free_blocks s order. block order a)"

lemma block_nonempty [simp]: "a \<in> block order a"
  by (simp add: block_def)

lemma rep_chain: "rep s fl \<Longrightarrow> valid_order order \<Longrightarrow>
    chain (mem s) (free_lists s (order - MIN_ORDER)) (fl order)"
  by (simp add: rep_def)

lemma rep_distinct: "rep s fl \<Longrightarrow> valid_order order \<Longrightarrow> distinct (fl order)"
  by (blast dest: rep_chain chain_distinct)

lemma wf_blocksD:
  assumes "wf_blocks fl" and "a \<in> set (fl order)"
  shows "valid_order order" "2 ^ order dvd a" "a + 2 ^ order \<le> 2 ^ 52"
  using assms by (auto simp: wf_blocks_def)

lemma wf_blocks_disjnt:
  "wf_blocks fl \<Longrightarrow> a \<in> set (fl order) \<Longrightarrow> a' \<in> set (fl order') \<Longrightarrow>
   (order, a) \<noteq> (order', a') \<Longrightarrow> disjnt (block order a) (block order' a')"
  unfolding wf_blocks_def by blast

text \<open>Two free blocks never start at the same address.\<close>

lemma wf_blocks_start:
  assumes "wf_blocks fl" "a \<in> set (fl order)" "a \<in> set (fl order')"
  shows "order = order'"
proof (rule ccontr)
  assume "order \<noteq> order'"
  then have "disjnt (block order a) (block order' a)"
    using assms wf_blocks_disjnt by blast
  then show False by (metis block_nonempty disjnt_iff)
qed

lemma rep_free_blocks:
  assumes "rep s fl" "wf_blocks fl"
  shows "free_blocks s order = set (fl order)"
proof (cases "valid_order order")
  case True
  with assms(1) have "chain (mem s) (free_lists s (order - MIN_ORDER)) (fl order)"
    by (rule rep_chain)
  with True show ?thesis by (auto simp: free_blocks_def dest: chain_unique)
next
  case False
  with assms(2) have "set (fl order) = {}"
    by (metis all_not_in_conv wf_blocksD(1))
  with False show ?thesis by (auto simp: free_blocks_def)
qed

lemma rep_free_mem: "rep s fl \<Longrightarrow> wf_blocks fl \<Longrightarrow> free_mem s = mem_of fl"
  by (simp add: free_mem_def mem_of_def rep_free_blocks)

lemma mem_of_iff: "x \<in> mem_of fl \<longleftrightarrow> (\<exists>order a. a \<in> set (fl order) \<and> x \<in> block order a)"
  by (auto simp: mem_of_def)

lemma mem_of_upd:
  "mem_of (fl(order := xs)) =
     (\<Union>a \<in> set xs. block order a) \<union> (\<Union>order' \<in> - {order}. \<Union>a \<in> set (fl order'). block order' a)"
proof -
  have "mem_of (fl(order := xs)) =
      (\<Union>order' \<in> insert order (- {order}). \<Union>a \<in> set ((fl(order := xs)) order'). block order' a)"
    unfolding mem_of_def by (rule arg_cong2 [where f = "\<lambda>A B. \<Union> (A ` B)"]) auto
  also have "\<dots> = (\<Union>a \<in> set xs. block order a) \<union>
      (\<Union>order' \<in> - {order}. \<Union>a \<in> set (fl order'). block order' a)"
    by simp
  finally show ?thesis .
qed

lemma mem_of_split:
  "mem_of fl =
     (\<Union>a \<in> set (fl order). block order a) \<union>
     (\<Union>order' \<in> - {order}. \<Union>a \<in> set (fl order'). block order' a)"
  by (metis fun_upd_triv mem_of_upd)

lemma block_subset_mem_of: "a \<in> set (fl order) \<Longrightarrow> block order a \<subseteq> mem_of fl"
  by (auto simp: mem_of_def)

lemma not_in_free_list:
  "disjnt (block order a) (mem_of fl) \<Longrightarrow> a \<notin> set (fl order')"
  by (metis block_nonempty block_subset_mem_of disjnt_iff subsetD)

section \<open>Adding and removing a block\<close>

lemma wf_blocks_add:
  assumes "wf_blocks fl" "valid_order order" "2 ^ order dvd a" "a + 2 ^ order \<le> 2 ^ 52"
    and dis: "disjnt (block order a) (mem_of fl)"
  shows "wf_blocks (fl(order := a # fl order))"
    and "mem_of (fl(order := a # fl order)) = mem_of fl \<union> block order a"
proof -
  have dis': "disjnt (block order a) (block order' a') \<and> disjnt (block order' a') (block order a)"
    if "a' \<in> set (fl order')" for order' a'
    using dis that by (auto simp: disjnt_iff mem_of_iff)
  then show "wf_blocks (fl(order := a # fl order))"
    using assms(1-4) unfolding wf_blocks_def by (simp add: fun_upd_apply)
  show "mem_of (fl(order := a # fl order)) = mem_of fl \<union> block order a"
    unfolding mem_of_upd mem_of_split [of fl order] by auto
qed

lemma wf_blocks_remove:
  assumes "wf_blocks fl" "a \<in> set (fl order)" and set_eq: "set xs = set (fl order) - {a}"
  shows "wf_blocks (fl(order := xs))"
    and "mem_of (fl(order := xs)) = mem_of fl - block order a"
proof -
  show "wf_blocks (fl(order := xs))"
    using assms(1) set_eq unfolding wf_blocks_def by (simp add: fun_upd_apply) blast
  have same: "block order a' \<inter> block order a = {}" if "a' \<in> set xs" for a'
    using that assms(2) set_eq wf_blocks_disjnt [OF assms(1), of a' order a order]
    by (auto simp: disjnt_def)
  have other: "block order' a' \<inter> block order a = {}"
    if "a' \<in> set (fl order')" "order' \<noteq> order" for order' a'
    using that assms(2) wf_blocks_disjnt [OF assms(1), of a' order' a order]
    by (auto simp: disjnt_def)
  have "(\<Union>a \<in> set (fl order). block order a) = (\<Union>a \<in> set xs. block order a) \<union> block order a"
    using assms(2) set_eq by auto
  with same other show "mem_of (fl(order := xs)) = mem_of fl - block order a"
    unfolding mem_of_upd mem_of_split [of fl order] by fastforce
qed

lemma order_to_index_ok [simp]: "valid_order order \<Longrightarrow> order_to_index order = Inr (order - MIN_ORDER)"
  by (simp add: order_to_index_def)

lemma free_list_head_ok [simp]:
  "valid_order order \<Longrightarrow> free_list_head (order - MIN_ORDER) s = Inr (free_lists s (order - MIN_ORDER))"
  by (auto simp: free_list_head_def buddy_consts)

lemma order_index_inj:
  "valid_order order \<Longrightarrow> valid_order order' \<Longrightarrow>
   order - MIN_ORDER = order' - MIN_ORDER \<longleftrightarrow> order = order'"
  by auto

lemma bit_on_other_fields [simp]:
  "bit_on (s\<lparr>mem := m\<rparr>) = bit_on s"
  "bit_on (s\<lparr>free_lists := f\<rparr>) = bit_on s"
  "bit_on (s\<lparr>total_memory := t\<rparr>) = bit_on s"
  by (simp_all add: fun_eq_iff bit_on_iff)

lemma repI:
  assumes "\<And>order. valid_order order \<Longrightarrow> chain (mem s) (free_lists s (order - MIN_ORDER)) (fl order)"
    and "\<And>order a. valid_order order \<Longrightarrow> 2 ^ order dvd a \<Longrightarrow>
           bit_on s order a \<longleftrightarrow> a < MAX_PHYS_ADDR \<and> a \<in> set (fl order)"
  shows "rep s fl"
  using assms by (auto simp: rep_def)

lemma rep_bit:
  "rep s fl \<Longrightarrow> valid_order order \<Longrightarrow> 2 ^ order dvd a \<Longrightarrow>
   bit_on s order a \<longleftrightarrow> a < MAX_PHYS_ADDR \<and> a \<in> set (fl order)"
  by (simp add: rep_def)

lemma add_block_rep:
  assumes rep: "rep s fl" and ord: "valid_order order" and al: "2 ^ order dvd a"
    and fresh: "\<And>order'. a \<notin> set (fl order')"
  obtains s' where "add_block order a s = Inr s'" "rep s' (fl(order := a # fl order))"
    "total_memory s' = total_memory s"
proof -
  let ?s1 = "s\<lparr>mem := (mem s)(a := free_lists s (order - MIN_ORDER)),
                free_lists := (free_lists s)(order - MIN_ORDER := Some a)\<rparr>"
  let ?s' = "bitmap_put order a True ?s1"
  have "\<not> bit_on ?s1 order a"
    using rep_bit [OF rep ord al] fresh by simp
  then have "add_block order a s = Inr ?s'"
    using ord by (simp add: add_block_def bitmap_set_eq)
  moreover have "rep ?s' (fl(order := a # fl order))"
  proof (rule repI)
    fix order' assume o': "valid_order order'"
    show "chain (mem ?s') (free_lists ?s' (order' - MIN_ORDER)) ((fl(order := a # fl order)) order')"
      using rep_chain [OF rep ord] rep_chain [OF rep o'] fresh order_index_inj [OF ord o']
      by (cases "order' = order") (simp_all del: fun_upd_apply add: fun_upd_same fun_upd_other)
  next
    fix order' a' :: nat assume o': "valid_order order'" and al': "2 ^ order' dvd a'"
    show "bit_on ?s' order' a' \<longleftrightarrow>
        a' < MAX_PHYS_ADDR \<and> a' \<in> set ((fl(order := a # fl order)) order')"
      using bit_on_put [OF ord o' al al', of True ?s1] rep_bit [OF rep o' al'] by auto
  qed
  moreover have "total_memory ?s' = total_memory s" by simp
  ultimately show thesis by (rule that)
qed

text \<open>What unlinking a block leaves: the list without it, its bit cleared.\<close>

lemma clear_unlinked_rep:
  assumes rep: "rep s fl" and ord: "valid_order order" and al: "2 ^ order dvd a"
    and bits: "bitmap s1 = bitmap s"
    and mem: "a \<in> set (fl order)" "set xs = set (fl order) - {a}"
    and chains: "\<And>order'. valid_order order' \<Longrightarrow>
        chain (mem s1) (free_lists s1 (order' - MIN_ORDER)) ((fl(order := xs)) order')"
  obtains s' where "bitmap_clear order a s1 = Inr s'" "rep s' (fl(order := xs))"
    "total_memory s' = total_memory s1"
proof -
  let ?s' = "bitmap_put order a False s1"
  have b1: "bit_on s1 = bit_on s"
    using bits by (simp add: fun_eq_iff bit_on_iff)
  then have "bitmap_clear order a s1 = Inr ?s'"
    using rep_bit [OF rep ord al] mem ord by (simp add: bitmap_clear_eq)
  moreover have "rep ?s' (fl(order := xs))"
  proof (rule repI)
    fix order' assume "valid_order order'"
    then show "chain (mem ?s') (free_lists ?s' (order' - MIN_ORDER)) ((fl(order := xs)) order')"
      using chains by simp
  next
    fix order' a' :: nat assume o': "valid_order order'" and al': "2 ^ order' dvd a'"
    show "bit_on ?s' order' a' \<longleftrightarrow> a' < MAX_PHYS_ADDR \<and> a' \<in> set ((fl(order := xs)) order')"
      using bit_on_put [OF ord o' al al', of False s1] rep_bit [OF rep o' al'] mem b1 by auto
  qed
  ultimately show thesis by (rule that) simp
qed

lemma remove_from_head_rep:
  assumes rep: "rep s fl" and ord: "valid_order order" and al: "2 ^ order dvd a"
    and fl: "fl order = a # as"
  obtains s' where "remove_from_head order a s = Inr s'" "rep s' (fl(order := as))"
    "total_memory s' = total_memory s"
proof -
  let ?s1 = "s\<lparr>free_lists := (free_lists s)(order - MIN_ORDER := mem s a)\<rparr>"
  have hd: "free_lists s (order - MIN_ORDER) = Some a" "chain (mem s) (mem s a) as"
    using rep_chain [OF rep ord] fl by simp_all
  have set_as: "set as = set (fl order) - {a}"
    using rep_distinct [OF rep ord] fl by auto
  have chains: "chain (mem ?s1) (free_lists ?s1 (order' - MIN_ORDER)) ((fl(order := as)) order')"
    if o': "valid_order order'" for order'
    using hd rep_chain [OF rep o'] order_index_inj [OF ord o'] by auto
  obtain s' where "bitmap_clear order a ?s1 = Inr s'" "rep s' (fl(order := as))"
    "total_memory s' = total_memory ?s1"
    by (rule clear_unlinked_rep [OF rep ord al, of ?s1 as]) (use fl set_as chains in auto)
  moreover from this have "remove_from_head order a s = Inr s'"
    using ord hd by (simp add: remove_from_head_def)
  ultimately show thesis using that by simp
qed

lemma unlink_loop_found:
  "chain (mem s) q (prev # vs @ a # ws) \<Longrightarrow> length vs < left \<Longrightarrow>
   unlink_loop left order a prev s =
     bindR (bitmap_clear order a (s\<lparr>mem := (mem s)(last (prev # vs) := mem s a)\<rparr>))
       (\<lambda>s'. Inr (True, s'))"
proof (induction vs arbitrary: left prev q)
  case Nil
  then show ?case by (cases left) (auto simp: fun_upd_def)
next
  case (Cons v vs)
  have "v \<noteq> a"
    using chain_distinct [OF Cons.prems(1)] by auto
  with Cons show ?case by (cases left) auto
qed

lemma remove_arbitrary_block_rep:
  assumes rep: "rep s fl" and wf: "wf_blocks fl" and ord: "valid_order order"
    and a: "a \<in> set (fl order)" and len: "length (fl order) \<le> MAX_SCAN + 1"
  obtains s' where "remove_arbitrary_block order a s = Inr (True, s')"
    "rep s' (fl(order := remove1 a (fl order)))" "total_memory s' = total_memory s"
proof -
  have al: "2 ^ order dvd a" using wf a by (rule wf_blocksD)
  note ch = rep_chain [OF rep ord]
  have dist: "distinct (fl order)" by (rule rep_distinct [OF rep ord])
  from a obtain us ws where split: "fl order = us @ a # ws"
    by (meson split_list)
  show thesis
  proof (cases us)
    case Nil
    with split have fl: "fl order = a # ws" by simp
    obtain s' where "remove_from_head order a s = Inr s'" "rep s' (fl(order := ws))"
      "total_memory s' = total_memory s"
      by (rule remove_from_head_rep [OF rep ord al fl])
    with that fl ch ord show thesis by (simp add: remove_arbitrary_block_def)
  next
    case (Cons h vs)
    let ?p = "last (h # vs)"
    let ?s1 = "s\<lparr>mem := (mem s)(?p := mem s a)\<rparr>"
    have pre: "h # vs = butlast (h # vs) @ [?p]" by simp
    have list: "fl order = butlast (h # vs) @ ?p # a # ws"
      using split Cons by (metis append_Cons append_Nil append_assoc pre)
    have r1: "remove1 a (fl order) = butlast (h # vs) @ ?p # ws"
      using list dist by (simp add: remove1_append)
    have chains: "chain (mem ?s1) (free_lists ?s1 (order' - MIN_ORDER))
        ((fl(order := remove1 a (fl order))) order')" if o': "valid_order order'" for order'
    proof (cases "order' = order")
      case True
      have "chain ((mem s)(?p := mem s a)) (free_lists s (order - MIN_ORDER))
          (butlast (h # vs) @ ?p # ws)"
        using ch list by (intro chain_unlink) simp
      with True r1 show ?thesis by simp
    next
      case False
      have "?p \<in> set (fl order)" using list by simp
      with False wf have "?p \<notin> set (fl order')" by (metis wf_blocks_start)
      with rep_chain [OF rep o'] False show ?thesis by simp
    qed
    obtain s' where s': "bitmap_clear order a ?s1 = Inr s'"
      "rep s' (fl(order := remove1 a (fl order)))" "total_memory s' = total_memory ?s1"
      by (rule clear_unlinked_rep [OF rep ord al, of ?s1 "remove1 a (fl order)"])
        (use a dist chains in auto)
    have "chain (mem s) (Some h) (h # vs @ a # ws)" "free_lists s (order - MIN_ORDER) = Some h"
      using ch split Cons by simp_all
    moreover have "length vs < MAX_SCAN" using len split Cons by simp
    moreover have "h \<noteq> a" using dist split Cons by auto
    ultimately have "remove_arbitrary_block order a s = Inr (True, s')"
      using ord s'(1) unlink_loop_found [of s "Some h" h vs a ws MAX_SCAN order]
      by (simp add: remove_arbitrary_block_def)
    with s' that show thesis by simp
  qed
qed

section \<open>Buddies\<close>

lemma block_halves:
  "block (Suc order) a = block order a \<union> block order (a + 2 ^ order)"
  "disjnt (block order a) (block order (a + 2 ^ order))"
  by (auto simp: block_def disjnt_def)

lemma xor_one_nat: "(k :: nat) XOR 1 = (if even k then k + 1 else k - 1)"
  by (auto simp: xor_nat_def xor_one_eq elim!: oddE evenE)

lemma buddy_of_eq:
  assumes "2 ^ order dvd a"
  shows "buddy_of a order = (if 2 ^ Suc order dvd a then a + 2 ^ order else a - 2 ^ order)"
proof -
  from assms obtain k where k: "a = 2 ^ order * k" by (auto elim: dvdE)
  have "a XOR 2 ^ order = push_bit order k XOR push_bit order 1"
    by (simp add: k push_bit_eq_mult mult.commute)
  also have "\<dots> = 2 ^ order * (k XOR 1)"
    by (simp only: flip: push_bit_xor) (simp add: push_bit_eq_mult mult.commute)
  finally show ?thesis
    unfolding buddy_of_def xor_one_nat
    by (auto simp: k algebra_simps elim!: oddE evenE)
qed

lemma buddy_of_cases:
  assumes "2 ^ order dvd a"
  obtains (lower) "2 ^ Suc order dvd a" "buddy_of a order = a + 2 ^ order"
        | (upper) b where "2 ^ Suc order dvd b" "a = b + 2 ^ order" "buddy_of a order = b"
proof (cases "2 ^ Suc order dvd a")
  case True
  with assms show thesis by (intro lower) (simp_all add: buddy_of_eq)
next
  case False
  from assms obtain k where k: "a = 2 ^ order * k" by (auto elim: dvdE)
  with False have "odd k" by auto
  then obtain j where j: "k = 2 * j + 1" by (auto elim: oddE)
  with k have a: "a = 2 ^ Suc order * j + 2 ^ order" by (simp add: algebra_simps)
  with assms False show thesis by (intro upper [of "2 ^ Suc order * j"]) (auto simp: buddy_of_eq)
qed

lemma buddy_of_involutive: "2 ^ order dvd a \<Longrightarrow> buddy_of (buddy_of a order) order = a"
  by (simp add: buddy_of_def xor.assoc)

lemma buddy_merge:
  assumes "2 ^ order dvd a"
  shows "2 ^ Suc order dvd min a (buddy_of a order)"
    and "block (Suc order) (min a (buddy_of a order)) = block order a \<union> block order (buddy_of a order)"
    and "2 ^ order dvd buddy_of a order"
proof -
  let ?b = "buddy_of a order"
  have "2 ^ Suc order dvd min a ?b \<and> block (Suc order) (min a ?b) = block order a \<union> block order ?b
      \<and> 2 ^ order dvd ?b"
    using assms
  proof (cases rule: buddy_of_cases)
    case lower
    with assms show ?thesis by (simp add: block_halves)
  next
    case (upper b)
    with assms show ?thesis by (auto simp: block_halves dvd_mult_right)
  qed
  then show "2 ^ Suc order dvd min a ?b" "2 ^ order dvd ?b"
    "block (Suc order) (min a ?b) = block order a \<union> block order ?b"
    by simp_all
qed

lemma buddy_block_disjnt:
  assumes "2 ^ order dvd a"
  shows "disjnt (block order a) (block order (buddy_of a order))"
  using assms
proof (cases rule: buddy_of_cases)
  case lower
  then show ?thesis by (simp add: block_halves)
next
  case (upper b)
  then show ?thesis using block_halves(2) [of order b] by (simp add: disjnt_sym)
qed

section \<open>Maximal coalescing\<close>

text \<open>No two tracked buddies are free at the same time.\<close>

definition coalesced :: "buddy \<Rightarrow> bool" where
  "coalesced s \<longleftrightarrow>
     (\<forall>order a. order < MAX_ORDER \<longrightarrow> a < MAX_PHYS_ADDR \<longrightarrow> a \<in> free_blocks s order \<longrightarrow>
        buddy_of a order \<notin> free_blocks s order)"

lemma coalesced_rep:
  "rep s fl \<Longrightarrow> wf_blocks fl \<Longrightarrow>
   coalesced s \<longleftrightarrow> (\<forall>order < MAX_ORDER. \<forall>a \<in> set (fl order). a < MAX_PHYS_ADDR \<longrightarrow>
                    buddy_of a order \<notin> set (fl order))"
  by (auto simp: coalesced_def rep_free_blocks)

lemma buddy_tracked:
  assumes "a < MAX_PHYS_ADDR" "order < MAX_ORDER" "2 ^ order dvd a"
  shows "buddy_of a order < MAX_PHYS_ADDR"
proof -
  have "a div 2 ^ 29 = 0" "(2::nat) ^ order div 2 ^ 29 = 0"
    using assms(1,2) power_strict_increasing [of order 29 "2::nat"]
    by (simp_all add: MAX_PHYS_ADDR_def MAX_ORDER_def)
  then have "drop_bit 29 (a XOR 2 ^ order) = 0"
    by (simp add: drop_bit_xor) (simp add: drop_bit_eq_div)
  then show ?thesis
    by (simp add: buddy_of_def MAX_PHYS_ADDR_def drop_bit_eq_div div_eq_0_iff)
qed

section \<open>Allocation\<close>

lemma split_block_rep:
  assumes "rep s fl" "wf_blocks fl" "valid_order cur" "MIN_ORDER \<le> to" "to \<le> cur"
    and "2 ^ cur dvd a" "a + 2 ^ cur \<le> 2 ^ 52" "disjnt (block cur a) (mem_of fl)"
  shows "\<exists>s' fl'. split_block cur a to s = Inr s' \<and> rep s' fl' \<and> wf_blocks fl' \<and>
    mem_of fl' = mem_of fl \<union> (block cur a - block to a) \<and> total_memory s' = total_memory s \<and>
    (\<forall>l. set (fl' l) \<subseteq> set (fl l) \<union> (if to \<le> l \<and> l < cur then {a + 2 ^ l} else {}))"
  using assms
proof (induction cur a to s arbitrary: fl rule: split_block.induct)
  case (1 cur a to s)
  show ?case
  proof (cases "to < cur")
    case False
    with "1.prems" show ?thesis
      by (intro exI [of _ s] exI [of _ fl]) (simp add: split_block.simps [of cur])
  next
    case True
    define c where "c = cur - 1"
    then have cur: "cur = Suc c" using True by simp
    let ?u = "a + 2 ^ c"
    have c: "valid_order c" "to \<le> c" using "1.prems" True cur by auto
    have dvds: "2 ^ c dvd a" "2 ^ c dvd ?u"
      using "1.prems"(6) cur by (auto simp: dvd_mult_right)
    have halves: "block cur a = block c a \<union> block c ?u" "disjnt (block c a) (block c ?u)"
      unfolding cur by (rule block_halves)+
    have dis: "disjnt (block c ?u) (mem_of fl)" "disjnt (block c a) (mem_of fl)"
      using "1.prems"(8) halves(1) by (auto simp: disjnt_def)
    have top: "?u + 2 ^ c \<le> 2 ^ 52" using "1.prems"(7) cur by simp
    define fl1 where "fl1 = fl(c := ?u # fl c)"
    obtain s1 where s1: "add_block c ?u s = Inr s1" "rep s1 fl1" "total_memory s1 = total_memory s"
      unfolding fl1_def
      by (rule add_block_rep [OF "1.prems"(1) c(1) dvds(2)]) (use not_in_free_list [OF dis(1)] in auto)
    have wf1: "wf_blocks fl1" "mem_of fl1 = mem_of fl \<union> block c ?u"
      unfolding fl1_def by (rule wf_blocks_add [OF "1.prems"(2) c(1) dvds(2) top dis(1)])+
    have dis1: "disjnt (block c a) (mem_of fl1)"
      using dis halves(2) by (auto simp: wf1(2) disjnt_def)
    have "a + 2 ^ c \<le> 2 ^ 52" using top by simp
    from "1.IH" [folded c_def, OF True s1(1,2) wf1(1) c(1) "1.prems"(4) c(2) dvds(1) this dis1]
    obtain s' fl' where s': "split_block c a to s1 = Inr s'" "rep s' fl'" "wf_blocks fl'"
      "mem_of fl' = mem_of fl1 \<union> (block c a - block to a)" "total_memory s' = total_memory s1"
      "\<And>l. set (fl' l) \<subseteq> set (fl1 l) \<union> (if to \<le> l \<and> l < c then {a + 2 ^ l} else {})"
      by blast
    have "block c ?u \<inter> block to a = {}"
    proof -
      have "(2::nat) ^ to \<le> 2 ^ c" using c(2) by simp
      then show ?thesis by (auto simp: block_def)
    qed
    then have "mem_of fl' = mem_of fl \<union> (block cur a - block to a)"
      unfolding s'(4) wf1(2) halves(1) by blast
    moreover have "split_block cur a to s = Inr s'"
      unfolding split_block.simps [of cur] c_def [symmetric] using True s1(1) s'(1) by simp
    moreover have "set (fl' l) \<subseteq> set (fl l) \<union> (if to \<le> l \<and> l < cur then {a + 2 ^ l} else {})" for l
      using s'(6) [of l] True cur by (auto simp: fl1_def split: if_splits)
    ultimately show ?thesis
      using s1(3) s'(2,3,5) by (intro exI [of _ s'] exI [of _ fl'] conjI allI) simp_all
  qed
qed

text \<open>
  What \<^verbatim>\<open>allocate\<close> promises of its result \<open>r\<close>: an aligned block of free memory that is no
  longer free afterwards; on \<^verbatim>\<open>None\<close> nothing changed.
\<close>

definition alloc_post :: "nat \<Rightarrow> buddy \<Rightarrow> nat option \<Rightarrow> buddy \<Rightarrow> bool" where
  "alloc_post order s r s' \<longleftrightarrow>
     buddy_inv s' \<and> total_memory s' = total_memory s \<and> (coalesced s \<longrightarrow> coalesced s') \<and>
     (case r of
        None \<Rightarrow> s' = s
      | Some a \<Rightarrow> 2 ^ order dvd a \<and> block order a \<subseteq> free_mem s \<and>
                  free_mem s' = free_mem s - block order a)"

lemma split_coalesced:
  assumes fl': "wf_blocks fl'" and base: "wf_blocks fl" and sub: "\<And>l. set (xs l) \<subseteq> set (fl l)"
    and split: "\<And>l. set (fl' l) \<subseteq> set (xs l) \<union> (if to \<le> l \<and> l < cur then {a + 2 ^ l} else {})"
    and co: "\<forall>order < MAX_ORDER. \<forall>b \<in> set (fl order). b < MAX_PHYS_ADDR \<longrightarrow> buddy_of b order \<notin> set (fl order)"
    and a: "2 ^ cur dvd a" "a \<notin> mem_of fl'"
    and l: "l < MAX_ORDER" "b \<in> set (fl' l)" "b < MAX_PHYS_ADDR"
  shows "buddy_of b l \<notin> set (fl' l)"
proof
  assume b': "buddy_of b l \<in> set (fl' l)"
  have al: "2 ^ l dvd b" by (rule wf_blocksD(2) [OF fl' l(2)])
  have no_a: "a \<notin> set (fl' l)"
    using a(2) block_subset_mem_of [of a fl' l] block_nonempty [of a l] by blast
  have fresh: "buddy_of (a + 2 ^ l) l = a" if "l < cur"
  proof -
    have "2 ^ Suc l dvd a" using a(1) that by (metis Suc_leI dvd_trans le_imp_power_dvd)
    then have "buddy_of a l = a + 2 ^ l" "2 ^ l dvd a"
      by (auto simp: buddy_of_eq dvd_mult_right)
    then show ?thesis using buddy_of_involutive by metis
  qed
  show False
  proof (cases "b \<in> set (xs l) \<and> buddy_of b l \<in> set (xs l)")
    case True
    with co sub l show False by blast
  next
    case False
    then have "l < cur \<and> (b = a + 2 ^ l \<or> buddy_of b l = a + 2 ^ l)"
      using split [of l] l(2) b' by (auto split: if_splits)
    with fresh have "buddy_of b l = a \<or> b = a"
      using buddy_of_involutive [OF al] by auto
    with no_a l(2) b' show False by auto
  qed
qed

lemma take_and_split_rep:
  assumes rep: "rep s fl" and wf: "wf_blocks fl" and ord: "MIN_ORDER \<le> order" "order \<le> larger"
    and hd: "free_lists s (larger - MIN_ORDER) = Some a" and lo: "valid_order larger"
  shows "\<exists>s'. bindR (remove_from_head larger a s) (\<lambda>s1. split_block larger a order s1) = Inr s'
    \<and> alloc_post order s (Some a) s'"
proof -
  from rep_chain [OF rep lo] hd obtain as where fl: "fl larger = a # as"
    by (auto simp: chain_Some)
  then have a: "a \<in> set (fl larger)" by simp
  note wfa = wf_blocksD [OF wf a]
  have set_as: "set as = set (fl larger) - {a}"
    using rep_distinct [OF rep lo] fl by auto
  obtain s1 where s1: "remove_from_head larger a s = Inr s1" "rep s1 (fl(larger := as))"
    "total_memory s1 = total_memory s"
    by (rule remove_from_head_rep [OF rep lo wfa(2) fl])
  note wf1 = wf_blocks_remove [OF wf a set_as]
  have "disjnt (block larger a) (mem_of (fl(larger := as)))"
    by (auto simp: wf1(2) disjnt_def)
  from split_block_rep [OF s1(2) wf1(1) lo ord wfa(2,3) this]
  obtain s' fl' where s': "split_block larger a order s1 = Inr s'" "rep s' fl'" "wf_blocks fl'"
    "mem_of fl' = mem_of (fl(larger := as)) \<union> (block larger a - block order a)"
    "total_memory s' = total_memory s1"
    and split: "\<And>l. set (fl' l) \<subseteq> set ((fl(larger := as)) l) \<union>
      (if order \<le> l \<and> l < larger then {a + 2 ^ l} else {})"
    by blast
  have sub: "block order a \<subseteq> block larger a" "block larger a \<subseteq> mem_of fl"
    using ord(2) block_subset_mem_of [of a fl larger] a by (auto simp: block_def)
  have "mem_of fl' = mem_of fl - block order a"
    unfolding s'(4) wf1(2) using sub by blast
  moreover have "2 ^ order dvd a"
    using wfa(2) ord(2) by (metis dvd_trans le_imp_power_dvd)
  moreover have "coalesced s'" if co: "coalesced s"
  proof -
    have sub': "set ((fl(larger := as)) l) \<subseteq> set (fl l)" for l
      using set_as by auto
    have "a \<notin> mem_of fl'" using calculation(1) by simp
    with split_coalesced [OF s'(3) wf sub' split co [unfolded coalesced_rep [OF rep wf]] wfa(2)]
    show ?thesis unfolding coalesced_rep [OF s'(2,3)] by blast
  qed
  ultimately have "alloc_post order s (Some a) s'"
    using rep wf s' s1(3) sub unfolding alloc_post_def buddy_inv_def by (auto simp: rep_free_mem)
  with s1(1) s'(1) show ?thesis by auto
qed

lemma allocate_larger_ok:
  assumes "rep s fl" "wf_blocks fl" "MIN_ORDER \<le> order"
    and "\<forall>l \<in> set ls. valid_order l \<and> order \<le> l"
  shows "\<exists>r s'. allocate_larger order ls s = Inr (r, s') \<and> alloc_post order s r s' \<and>
    (r = None \<longrightarrow> (\<forall>l \<in> set ls. fl l = []))"
  using assms
proof (induction ls)
  case Nil
  then show ?case by (auto simp: alloc_post_def buddy_inv_def)
next
  case (Cons l ls)
  then have l: "valid_order l" "order \<le> l" by auto
  show ?case
  proof (cases "free_lists s (l - MIN_ORDER)")
    case None
    then have "fl l = []" using rep_chain [OF Cons.prems(1) l(1)] by simp
    with Cons None l show ?thesis by auto
  next
    case (Some a)
    from take_and_split_rep [OF Cons.prems(1-3) l(2) Some l(1)] Some l
    show ?thesis by (auto simp: bindR_eq_Inr)
  qed
qed

lemma allocate_ok:
  assumes "rep s fl" "wf_blocks fl" and ord: "valid_order order"
  shows "\<exists>r s'. allocate order s = Inr (r, s') \<and> alloc_post order s r s' \<and>
    (r = None \<longrightarrow> (\<forall>l. order \<le> l \<longrightarrow> fl l = []))"
proof (cases "free_lists s (order - MIN_ORDER)")
  case None
  have range: "\<forall>l \<in> set [order + 1 ..< MAX_ORDER + 1]. valid_order l \<and> order \<le> l"
    using ord by auto
  from None have "fl order = []" using rep_chain [OF assms(1) ord] by simp
  moreover have "fl l = []" if "MAX_ORDER < l" for l
    using assms(2) that by (metis empty_iff leD list.set(1) wf_blocksD(1) list.set_intros(1) neq_Nil_conv)
  ultimately have "\<forall>l. order \<le> l \<longrightarrow> fl l = []"
    if "\<forall>l \<in> set [order + 1 ..< MAX_ORDER + 1]. fl l = []"
    using that by (metis Suc_eq_plus1 atLeastLessThan_iff le_antisym not_less_eq not_less_eq_eq set_upt)
  with None ord allocate_larger_ok [OF assms(1,2) _ range] show ?thesis
    by (fastforce simp: allocate_def)
next
  case (Some a)
  from take_and_split_rep [OF assms(1,2) _ order_refl Some ord] ord
  show ?thesis
    using Some by (auto simp: allocate_def bindR_eq_Inr split_block.simps [of order])
qed

section \<open>Deallocation\<close>

text \<open>
  \<open>scan_ok\<close>: no free list is longer than what the guarded scan of
  \<^verbatim>\<open>remove_arbitrary_block\<close> can reach, the head and \<open>MAX_SCAN\<close> successors.
\<close>

definition scan_ok :: "buddy \<Rightarrow> bool" where
  "scan_ok s \<longleftrightarrow>
     (\<forall>order xs. valid_order order \<longrightarrow> chain (mem s) (free_lists s (order - MIN_ORDER)) xs \<longrightarrow>
        length xs \<le> MAX_SCAN + 1)"

lemma scan_ok_rep: "rep s fl \<Longrightarrow> scan_ok s \<Longrightarrow> valid_order order \<Longrightarrow> length (fl order) \<le> MAX_SCAN + 1"
  by (auto simp: scan_ok_def dest: rep_chain)

lemma coalesce_rep:
  assumes "rep s fl" "wf_blocks fl" "\<forall>l. length (fl l) \<le> MAX_SCAN + 1" "valid_order order"
    and "2 ^ order dvd a" "a + 2 ^ order \<le> 2 ^ 52" "disjnt (block order a) (mem_of fl)"
  shows "\<exists>a' order' s' fl'. coalesce a order s = Inr (a', order', s') \<and> rep s' fl' \<and> wf_blocks fl' \<and>
    valid_order order' \<and> 2 ^ order' dvd a' \<and> a' + 2 ^ order' \<le> 2 ^ 52 \<and>
    disjnt (block order' a') (mem_of fl') \<and>
    mem_of fl' \<union> block order' a' = mem_of fl \<union> block order a \<and>
    total_memory s' = total_memory s \<and> (\<forall>l. set (fl' l) \<subseteq> set (fl l)) \<and>
    (order' < MAX_ORDER \<longrightarrow> \<not> bit_on s' order' (buddy_of a' order'))"
  using assms
proof (induction a order s arbitrary: fl rule: coalesce.induct)
  case (1 a order s)
  let ?b = "buddy_of a order"
  show ?case
  proof (cases "order < MAX_ORDER \<and> bit_on s order ?b")
    case False
    then have "coalesce a order s = Inr (a, order, s)"
      using "1.prems"(4) by (auto simp: coalesce.simps [of a order] is_free_eq)
    with False "1.prems" show ?thesis
      by (intro exI [of _ a] exI [of _ order] exI [of _ s] exI [of _ fl]) auto
  next
    case True
    note merge = buddy_merge [OF "1.prems"(5)]
    have b: "?b \<in> set (fl order)"
      using True rep_bit [OF "1.prems"(1,4) merge(3)] by simp
    define fl1 where "fl1 = fl(order := remove1 ?b (fl order))"
    obtain s1 where s1: "remove_arbitrary_block order ?b s = Inr (True, s1)" "rep s1 fl1"
      "total_memory s1 = total_memory s"
      unfolding fl1_def
      using remove_arbitrary_block_rep [OF "1.prems"(1,2,4) b] "1.prems"(3) by metis
    have set1: "set (remove1 ?b (fl order)) = set (fl order) - {?b}"
      using rep_distinct [OF "1.prems"(1,4)] by simp
    have wf1: "wf_blocks fl1" "mem_of fl1 = mem_of fl - block order ?b"
      unfolding fl1_def by (rule wf_blocks_remove [OF "1.prems"(2) b set1])+
    have sub1: "set (fl1 l) \<subseteq> set (fl l)" "length (fl1 l) \<le> MAX_SCAN + 1" for l
      using "1.prems"(3) set1 by (auto simp: fl1_def length_remove1 intro: le_trans [OF diff_le_self])
    have b_free: "block order ?b \<subseteq> mem_of fl" by (rule block_subset_mem_of [of _ fl, OF b])
    let ?m = "min a ?b"
    have m_top: "?m + 2 ^ (order + 1) \<le> 2 ^ 52"
    proof -
      have "1 \<le> (2::nat) ^ order" by simp
      then have "?m + 2 ^ (order + 1) - 1 \<in> block (Suc order) ?m"
        unfolding block_def atLeastLessThan_iff power_Suc Suc_eq_plus1 [symmetric] by linarith
      then have "?m + 2 ^ (order + 1) - 1 \<in> block order a \<union> block order ?b"
        unfolding merge(2) .
      moreover have "?b + 2 ^ order \<le> 2 ^ 52" using "1.prems"(2) b by (rule wf_blocksD)
      ultimately show ?thesis using "1.prems"(6) by (auto simp: block_def)
    qed
    have m_dis: "disjnt (block (order + 1) ?m) (mem_of fl1)"
      using "1.prems"(7) merge(2) by (auto simp: wf1(2) disjnt_def)
    have vo: "valid_order (order + 1)" using True "1.prems"(4) by auto
    have free: "is_free order ?b s = Inr True" using True "1.prems"(4) by (simp add: is_free_eq)
    have m_dvd: "2 ^ (order + 1) dvd ?m" using merge(1) by simp
    have "coalesce a order s = coalesce ?m (order + 1) s1"
      using True free s1(1) by (simp add: coalesce.simps [of a order])
    moreover
    from "1.IH" [OF _ free _ s1(1) refl _ s1(2) wf1(1) _ vo m_dvd m_top m_dis] True sub1(2)
    obtain a' order' s' fl' where IH: "coalesce ?m (order + 1) s1 = Inr (a', order', s')" "rep s' fl'"
      "wf_blocks fl'" "valid_order order'" "2 ^ order' dvd a'" "a' + 2 ^ order' \<le> 2 ^ 52"
      "disjnt (block order' a') (mem_of fl')"
      "mem_of fl' \<union> block order' a' = mem_of fl1 \<union> block (order + 1) ?m"
      "total_memory s' = total_memory s1" "\<forall>l. set (fl' l) \<subseteq> set (fl1 l)"
      "order' < MAX_ORDER \<longrightarrow> \<not> bit_on s' order' (buddy_of a' order')"
      by auto
    moreover have "mem_of fl1 \<union> block (order + 1) ?m = mem_of fl \<union> block order a"
      using merge(2) b_free by (auto simp: wf1(2))
    moreover have "\<forall>l. set (fl' l) \<subseteq> set (fl l)"
      using IH(10) sub1(1) by blast
    ultimately show ?thesis
      using s1(3) by (intro exI [of _ a'] exI [of _ order'] exI [of _ s'] exI [of _ fl']) simp
  qed
qed

lemma deallocate_rep:
  assumes rep: "rep s fl" and wf: "wf_blocks fl" and scan: "scan_ok s" and ord: "valid_order order"
    and al: "2 ^ order dvd a" and top: "a + 2 ^ order \<le> 2 ^ 52"
    and dis: "disjnt (block order a) (mem_of fl)"
  obtains s' fl' order' a' where "deallocate a order s = Inr s'"
    "rep s' (fl'(order' := a' # fl' order'))" "wf_blocks (fl'(order' := a' # fl' order'))"
    "mem_of (fl'(order' := a' # fl' order')) = mem_of fl \<union> block order a"
    "total_memory s' = total_memory s" "\<forall>l. set (fl' l) \<subseteq> set (fl l)" "valid_order order'"
    "2 ^ order' dvd a'"
    "order' < MAX_ORDER \<longrightarrow> buddy_of a' order' < MAX_PHYS_ADDR \<longrightarrow> buddy_of a' order' \<notin> set (fl' order')"
proof -
  have len: "\<forall>l. length (fl l) \<le> MAX_SCAN + 1"
  proof
    fix l show "length (fl l) \<le> MAX_SCAN + 1"
      using scan_ok_rep [OF rep scan, of l] wf_blocksD(1) [OF wf, of _ l]
      by (cases "fl l") auto
  qed
  from coalesce_rep [OF rep wf len ord al top dis]
  obtain a' order' s1 fl' where co: "coalesce a order s = Inr (a', order', s1)" "rep s1 fl'"
      "wf_blocks fl'" "valid_order order'" "2 ^ order' dvd a'" "a' + 2 ^ order' \<le> 2 ^ 52"
      "disjnt (block order' a') (mem_of fl')"
      "mem_of fl' \<union> block order' a' = mem_of fl \<union> block order a"
      "total_memory s1 = total_memory s" "\<forall>l. set (fl' l) \<subseteq> set (fl l)"
      "order' < MAX_ORDER \<longrightarrow> \<not> bit_on s1 order' (buddy_of a' order')"
    by auto
  obtain s' where s': "add_block order' a' s1 = Inr s'" "rep s' (fl'(order' := a' # fl' order'))"
    "total_memory s' = total_memory s1"
    by (rule add_block_rep [OF co(2,4,5)]) (use not_in_free_list [OF co(7)] in auto)
  note wf' = wf_blocks_add [OF co(3-7)]
  have "deallocate a order s = Inr s'"
    using ord al co(1) s'(1) by (simp add: deallocate_def)
  moreover have "buddy_of a' order' \<notin> set (fl' order')"
    if "order' < MAX_ORDER" "buddy_of a' order' < MAX_PHYS_ADDR"
    using co(11) rep_bit [OF co(2,4) buddy_merge(3) [OF co(5)]] that by simp
  ultimately show thesis
    using that [of s' fl' order' a'] s' wf' co by simp
qed

lemma deallocate_coalesced:
  assumes rep: "rep s fl" and wf: "wf_blocks fl" and scan: "scan_ok s" and ord: "valid_order order"
    and al: "2 ^ order dvd a" and top: "a + 2 ^ order \<le> 2 ^ 52"
    and dis: "disjnt (block order a) (mem_of fl)" and co: "coalesced s"
    and run: "deallocate a order s = Inr s'"
  shows "coalesced s'"
proof -
  obtain s'' fl' order' a' where d: "deallocate a order s = Inr s''"
    "rep s'' (fl'(order' := a' # fl' order'))" "wf_blocks (fl'(order' := a' # fl' order'))"
    "\<forall>l. set (fl' l) \<subseteq> set (fl l)" "valid_order order'" "2 ^ order' dvd a'"
    and nb: "order' < MAX_ORDER \<longrightarrow> buddy_of a' order' < MAX_PHYS_ADDR \<longrightarrow>
      buddy_of a' order' \<notin> set (fl' order')"
    by (rule deallocate_rep [OF rep wf scan ord al top dis]) blast
  have old: "buddy_of b l \<notin> set (fl' l)" if "l < MAX_ORDER" "b \<in> set (fl' l)" "b < MAX_PHYS_ADDR" for b l
    using that co d(4) unfolding coalesced_rep [OF rep wf] by blast
  have "buddy_of b l \<notin> set ((fl'(order' := a' # fl' order')) l)"
    if l: "l < MAX_ORDER" "b \<in> set ((fl'(order' := a' # fl' order')) l)" "b < MAX_PHYS_ADDR" for b l
  proof
    assume in': "buddy_of b l \<in> set ((fl'(order' := a' # fl' order')) l)"
    have al_b: "2 ^ l dvd b" by (rule wf_blocksD(2) [OF d(3) l(2)])
    have neq: "buddy_of b l \<noteq> b"
      using buddy_block_disjnt [OF al_b] by (metis block_nonempty disjnt_iff)
    have lt: "buddy_of b l < MAX_PHYS_ADDR" using l(1,3) al_b buddy_tracked by blast
    show False
    proof (cases "l = order'")
      case False
      with old l in' show False by simp
    next
      case True
      with l(2) in' consider "b = a'" "buddy_of b l \<in> set (fl' l)"
        | "b \<in> set (fl' l)" "buddy_of b l = a'" | "b \<in> set (fl' l)" "buddy_of b l \<in> set (fl' l)"
        using neq by auto
      then show False
      proof cases
        case 1
        with nb True l lt show False by simp
      next
        case 2
        then have "buddy_of a' l = b" using buddy_of_involutive [OF al_b] by simp
        with nb True 2 l show False by simp
      next
        case 3
        with old l show False by blast
      qed
    qed
  qed
  then have "coalesced s''" unfolding coalesced_rep [OF d(2,3)] by blast
  with run d(1) show ?thesis by simp
qed

section \<open>Adding a region and counting free memory\<close>

text \<open>The memory \<^verbatim>\<open>add_region\<close> really adds: whole pages.\<close>

definition region_mem :: "nat \<Rightarrow> nat \<Rightarrow> nat set" where
  "region_mem start end_addr = {start ..< start + (end_addr - start) div 2 ^ MIN_ORDER * 2 ^ MIN_ORDER}"

lemma region_order_bounds:
  assumes "2 ^ MIN_ORDER dvd a" "2 ^ MIN_ORDER \<le> remaining"
  shows "valid_order (region_order a remaining)" "2 ^ region_order a remaining dvd a"
    "2 ^ region_order a remaining \<le> remaining"
proof -
  have tz: "MIN_ORDER \<le> u64_trailing_zeros a"
    using assms(1) dvd_trailing_zeros [of MIN_ORDER a]
    by (cases "a = 0") (auto simp: u64_trailing_zeros.simps [of 0] MIN_ORDER_def)
  have lg: "MIN_ORDER \<le> u64_ilog2 remaining"
  proof (rule ccontr)
    assume "\<not> ?thesis"
    then have "2 * 2 ^ u64_ilog2 remaining \<le> (2::nat) ^ MIN_ORDER"
      by (metis not_less_eq_eq one_le_numeral power_Suc power_increasing)
    with less_ilog2 [of remaining] assms(2) show False by simp
  qed
  have eq: "region_order a remaining =
      min (min (u64_trailing_zeros a) (u64_ilog2 remaining)) MAX_ORDER"
    using tz lg by (simp add: region_order_def buddy_consts)
  show "valid_order (region_order a remaining)"
    using tz lg by (auto simp: eq buddy_consts)
  show "2 ^ region_order a remaining dvd a"
    by (rule trailing_zeros_dvd) (simp add: eq)
  have "(2::nat) ^ region_order a remaining \<le> 2 ^ u64_ilog2 remaining"
    by (rule power_increasing) (auto simp: eq)
  also have "\<dots> \<le> remaining"
  proof (rule ilog2_le)
    have "0 < (2::nat) ^ MIN_ORDER" by simp
    with assms(2) show "0 < remaining" by linarith
  qed
  finally show "2 ^ region_order a remaining \<le> remaining" .
qed

lemma region_mem_step:
  assumes "2 ^ MIN_ORDER dvd p" "p \<le> end_addr - a" "a \<le> end_addr"
  shows "region_mem a end_addr = {a ..< a + p} \<union> region_mem (a + p) end_addr"
    and "disjnt {a ..< a + p} (region_mem (a + p) end_addr)"
proof -
  from assms(1) obtain k where k: "p = k * 2 ^ MIN_ORDER" by (auto elim: dvdE simp: mult.commute)
  have "(end_addr - a) div 2 ^ MIN_ORDER = k + (end_addr - (a + p)) div 2 ^ MIN_ORDER"
  proof -
    have "end_addr - a = (end_addr - (a + p)) + k * 2 ^ MIN_ORDER" using assms k by simp
    then show ?thesis by (metis add.commute div_mult_self3 power_not_zero zero_neq_numeral)
  qed
  then show "region_mem a end_addr = {a ..< a + p} \<union> region_mem (a + p) end_addr"
    unfolding region_mem_def by (auto simp: k algebra_simps)
  show "disjnt {a ..< a + p} (region_mem (a + p) end_addr)"
    by (auto simp: region_mem_def disjnt_def)
qed

lemma add_region_loop_rep:
  assumes "rep s fl" "wf_blocks fl" "2 ^ MIN_ORDER dvd a" "end_addr \<le> 2 ^ 52"
    and "disjnt (region_mem a end_addr) (mem_of fl)"
  shows "\<exists>s' fl'. add_region_loop a end_addr s = Inr s' \<and> rep s' fl' \<and> wf_blocks fl' \<and>
    mem_of fl' = mem_of fl \<union> region_mem a end_addr \<and> total_memory s' = total_memory s"
  using assms
proof (induction a end_addr s arbitrary: fl rule: add_region_loop.induct)
  case (1 a e s)
  show ?case
  proof (cases "a < e \<and> 2 ^ MIN_ORDER \<le> e - a")
    case False
    then have "add_region_loop a e s = Inr s" "region_mem a e = {}"
      by (auto simp: add_region_loop.simps [of a] region_mem_def Let_def)
    with "1.prems" show ?thesis by auto
  next
    case True
    define order where "order = region_order a (e - a)"
    note ord = region_order_bounds [OF "1.prems"(3), of "e - a", folded order_def]
    have o: "valid_order order" "2 ^ order dvd a" "2 ^ order \<le> e - a" using ord True by auto
    have pg: "2 ^ MIN_ORDER dvd (2::nat) ^ order" using o(1) by (simp add: le_imp_power_dvd)
    have step: "region_mem a e = block order a \<union> region_mem (a + 2 ^ order) e"
      "disjnt (block order a) (region_mem (a + 2 ^ order) e)"
      using region_mem_step [OF pg o(3)] True by (auto simp: block_def)
    have dis: "disjnt (block order a) (mem_of fl)"
      using "1.prems"(5) step(1) by (auto simp: disjnt_def)
    have top: "a + 2 ^ order \<le> 2 ^ 52" using o(3) True "1.prems"(4) by linarith
    define fl1 where "fl1 = fl(order := a # fl order)"
    obtain s1 where s1: "add_block order a s = Inr s1" "rep s1 fl1" "total_memory s1 = total_memory s"
      unfolding fl1_def
      by (rule add_block_rep [OF "1.prems"(1) o(1,2)]) (use not_in_free_list [OF dis] in auto)
    have wf1: "wf_blocks fl1" "mem_of fl1 = mem_of fl \<union> block order a"
      unfolding fl1_def by (rule wf_blocks_add [OF "1.prems"(2) o(1,2) top dis])+
    have dis1: "disjnt (region_mem (a + 2 ^ order) e) (mem_of fl1)"
      using "1.prems"(5) step by (auto simp: wf1(2) disjnt_def)
    have al: "2 ^ MIN_ORDER dvd a + 2 ^ order" using "1.prems"(3) pg by simp
    have run: "add_region_loop a e s = add_region_loop (a + 2 ^ order) e s1"
      using True s1(1) by (simp add: add_region_loop.simps [of a] Let_def order_def)
    from "1.IH" [OF _ refl _ order_def _ s1(2) wf1(1) al "1.prems"(4) dis1] True s1(1)
    obtain s' fl' where "add_region_loop (a + 2 ^ order) e s1 = Inr s'" "rep s' fl'" "wf_blocks fl'"
      "mem_of fl' = mem_of fl1 \<union> region_mem (a + 2 ^ order) e" "total_memory s' = total_memory s1"
      by auto
    with run s1(3) show ?thesis by (auto simp: wf1(2) step(1))
  qed
qed

lemma count_blocks_chain: "chain m p xs \<Longrightarrow> count_blocks m p n = Some (n + length xs)"
  by (induction xs arbitrary: p n) (auto simp: count_blocks.simps)

lemma free_bytes_loop_eq:
  "rep s fl \<Longrightarrow> \<forall>l \<in> set ls. valid_order l \<Longrightarrow>
   free_bytes_loop ls s acc = Some (acc + (\<Sum>l\<leftarrow>ls. length (fl l) * 2 ^ l))"
  by (induction ls arbitrary: acc) (auto simp: count_blocks_chain [OF rep_chain])

lemma card_block [simp]: "card (block order a) = 2 ^ order" "finite (block order a)"
  by (simp_all add: block_def)

lemma card_mem_of:
  assumes "rep s fl" "wf_blocks fl"
  shows "card (mem_of fl) = (\<Sum>l\<leftarrow>[MIN_ORDER ..< MAX_ORDER + 1]. length (fl l) * 2 ^ l)"
proof -
  let ?I = "SIGMA l : {MIN_ORDER ..< MAX_ORDER + 1}. set (fl l)"
  have eq: "mem_of fl = (\<Union>(l, a) \<in> ?I. block l a)"
  proof
    show "mem_of fl \<subseteq> (\<Union>(l, a) \<in> ?I. block l a)"
    proof
      fix x assume "x \<in> mem_of fl"
      then obtain l a where la: "a \<in> set (fl l)" "x \<in> block l a" by (auto simp: mem_of_iff)
      then have "(l, a) \<in> ?I" using wf_blocksD(1) [OF assms(2) la(1)] by auto
      with la(2) show "x \<in> (\<Union>(l, a) \<in> ?I. block l a)" by blast
    qed
  qed (auto simp: mem_of_def)
  have "card (mem_of fl) = (\<Sum>(l, a) \<in> ?I. card (block l a))"
    unfolding eq
  proof (subst card_UN_disjoint)
    show "\<forall>i\<in>?I. \<forall>j\<in>?I. i \<noteq> j \<longrightarrow> (case i of (l, a) \<Rightarrow> block l a) \<inter> (case j of (l, a) \<Rightarrow> block l a) = {}"
      using wf_blocks_disjnt [OF assms(2)] by (auto simp: disjnt_def)
  qed (auto intro!: sum.cong split: prod.splits)
  also have "\<dots> = (\<Sum>l \<in> {MIN_ORDER ..< MAX_ORDER + 1}. \<Sum>a \<in> set (fl l). 2 ^ l)"
    by (subst sum.Sigma [symmetric]) auto
  also have "\<dots> = (\<Sum>l \<in> {MIN_ORDER ..< MAX_ORDER + 1}. length (fl l) * 2 ^ l)"
    using rep_distinct [OF assms(1)] by (intro sum.cong) (auto simp: distinct_card)
  finally show ?thesis
    unfolding sum_list_distinct_conv_sum_set [OF distinct_upt] set_upt .
qed

lemma buddy_inv_new: "buddy_inv (buddy_new m)"
  unfolding buddy_inv_def
  by (rule exI [of _ "\<lambda>_. []"]) (auto simp: rep_def wf_blocks_def buddy_new_def bit_on_iff)

lemma free_mem_new: "free_mem (buddy_new m) = {}"
  by (auto simp: free_mem_def free_blocks_def buddy_new_def)

lemma total_memory_new: "total_memory (buddy_new m) = 0"
  by (simp add: buddy_new_def)

lemma add_region_ok:
  assumes "buddy_inv s" "2 ^ MIN_ORDER dvd start" "start \<le> end_addr" "end_addr \<le> 2 ^ 52"
    and "disjnt (region_mem start end_addr) (free_mem s)"
  shows "\<exists>s'. add_region start end_addr s = Inr s' \<and> buddy_inv s' \<and>
    free_mem s' = free_mem s \<union> region_mem start end_addr \<and>
    total_memory s' = total_memory s + (end_addr - start)"
proof -
  from assms(1) obtain fl where fl: "rep s fl" "wf_blocks fl" by (auto simp: buddy_inv_def)
  let ?s = "s\<lparr>total_memory := total_memory s + (end_addr - start)\<rparr>"
  have "rep ?s fl" using fl(1) by (simp add: rep_def)
  from add_region_loop_rep [OF this fl(2) assms(2,4)] assms(5)
  obtain s' fl' where "add_region_loop start end_addr ?s = Inr s'" "rep s' fl'" "wf_blocks fl'"
    "mem_of fl' = mem_of fl \<union> region_mem start end_addr" "total_memory s' = total_memory ?s"
    by (auto simp: rep_free_mem [OF fl])
  then show ?thesis
    using assms(3) fl by (auto simp: add_region_def buddy_inv_def rep_free_mem)
qed

section \<open>Owners and the allocator\<close>

text \<open>
  The system around the allocator: \<open>L\<close> holds the blocks that have been handed out and not yet
  given back, as pairs of order and address. A step is an allocation, a return of a block by its owner,
  or a write of an owner into its own block.
\<close>

type_synonym live = "(nat \<times> nat) set"

inductive mem_step :: "buddy \<times> live \<Rightarrow> buddy \<times> live \<Rightarrow> bool" where
  alloc: "allocate order s = Inr (Some a, s') \<Longrightarrow> mem_step (s, L) (s', insert (order, a) L)"
| alloc_none: "allocate order s = Inr (None, s') \<Longrightarrow> mem_step (s, L) (s', L)"
| free: "(order, a) \<in> L \<Longrightarrow> scan_ok s \<Longrightarrow> deallocate a order s = Inr s' \<Longrightarrow>
    mem_step (s, L) (s', L - {(order, a)})"
| owner_write: "(order, a) \<in> L \<Longrightarrow> x \<in> block order a \<Longrightarrow>
    mem_step (s, L) (s\<lparr>mem := (mem s)(x := v)\<rparr>, L)"

inductive mem_run :: "buddy \<times> live \<Rightarrow> buddy \<times> live \<Rightarrow> bool" where
  refl: "mem_run x x"
| step: "mem_run x y \<Longrightarrow> mem_step y z \<Longrightarrow> mem_run x z"

definition live_mem :: "live \<Rightarrow> nat set" where
  "live_mem L = (\<Union>(order, a) \<in> L. block order a)"

definition owned_inv :: "nat set \<Rightarrow> buddy \<times> live \<Rightarrow> bool" where
  "owned_inv M x \<longleftrightarrow> (case x of (s, L) \<Rightarrow>
     buddy_inv s \<and> free_mem s \<union> live_mem L = M \<and> disjnt (free_mem s) (live_mem L) \<and>
     (\<forall>(order, a) \<in> L. valid_order order \<and> 2 ^ order dvd a \<and> a + 2 ^ order \<le> 2 ^ 52) \<and>
     pairwise (\<lambda>(l, a) (l', a'). disjnt (block l a) (block l' a')) L)"

lemma buddy_inv_bound:
  assumes "buddy_inv s" "x \<in> free_mem s"
  shows "x < 2 ^ 52"
proof -
  from assms obtain fl order a where "wf_blocks fl" "a \<in> set (fl order)" "x \<in> block order a"
    by (auto simp: buddy_inv_def rep_free_mem mem_of_iff)
  then show ?thesis using wf_blocksD(3) [of fl a order] by (simp add: block_def)
qed

lemma allocate_order: "allocate order s = Inr x \<Longrightarrow> valid_order order"
  by (auto simp: allocate_def assertR_def split: if_splits)

lemma allocate_post:
  assumes "buddy_inv s" "allocate order s = Inr (r, s')"
  shows "alloc_post order s r s'"
proof -
  from assms(1) obtain fl where "rep s fl" "wf_blocks fl" by (auto simp: buddy_inv_def)
  from allocate_ok [OF this allocate_order [OF assms(2)]] assms(2) show ?thesis by auto
qed

lemma deallocate_ok:
  assumes "buddy_inv s" "scan_ok s" "valid_order order" "2 ^ order dvd a" "a + 2 ^ order \<le> 2 ^ 52"
    and "disjnt (block order a) (free_mem s)"
  shows "\<exists>s'. deallocate a order s = Inr s' \<and> buddy_inv s' \<and>
    free_mem s' = free_mem s \<union> block order a \<and> total_memory s' = total_memory s \<and>
    (coalesced s \<longrightarrow> coalesced s')"
proof -
  from assms(1) obtain fl where fl: "rep s fl" "wf_blocks fl" by (auto simp: buddy_inv_def)
  have dis: "disjnt (block order a) (mem_of fl)" using assms(6) by (simp add: rep_free_mem [OF fl])
  obtain s' fl' order' a' where d: "deallocate a order s = Inr s'"
    "rep s' (fl'(order' := a' # fl' order'))" "wf_blocks (fl'(order' := a' # fl' order'))"
    "mem_of (fl'(order' := a' # fl' order')) = mem_of fl \<union> block order a"
    "total_memory s' = total_memory s"
    by (rule deallocate_rep [OF fl assms(2-5) dis]) blast
  have "buddy_inv s'" using d(2,3) unfolding buddy_inv_def by blast
  moreover have "free_mem s' = free_mem s \<union> block order a"
    using d(4) by (simp only: rep_free_mem [OF d(2,3)] rep_free_mem [OF fl])
  moreover have "coalesced s \<longrightarrow> coalesced s'"
    using deallocate_coalesced [OF fl assms(2-5) dis] d(1) by blast
  ultimately show ?thesis using d(1,5) by blast
qed

lemma owner_write_inv:
  assumes "buddy_inv s" "x \<notin> free_mem s"
  shows "buddy_inv (s\<lparr>mem := (mem s)(x := v)\<rparr>)"
    and "free_mem (s\<lparr>mem := (mem s)(x := v)\<rparr>) = free_mem s"
proof -
  from assms(1) obtain fl where fl: "rep s fl" "wf_blocks fl" by (auto simp: buddy_inv_def)
  have "x \<notin> set (fl l)" for l
    using assms(2) block_nonempty [of x l] unfolding rep_free_mem [OF fl] mem_of_iff by blast
  then have rep: "rep (s\<lparr>mem := (mem s)(x := v)\<rparr>) fl"
    using fl(1) by (simp add: rep_def)
  with fl(2) show "buddy_inv (s\<lparr>mem := (mem s)(x := v)\<rparr>)" by (auto simp: buddy_inv_def)
  show "free_mem (s\<lparr>mem := (mem s)(x := v)\<rparr>) = free_mem s"
    by (simp add: rep_free_mem [OF fl] rep_free_mem [OF rep fl(2)])
qed

lemma live_mem_simps:
  "live_mem (insert (order, a) L) = block order a \<union> live_mem L"
  "(order, a) \<in> L \<Longrightarrow> block order a \<subseteq> live_mem L"
  by (auto simp: live_mem_def)

lemma live_mem_remove:
  assumes "pairwise (\<lambda>(l, a) (l', a'). disjnt (block l a) (block l' a')) L"
    and "(order, a) \<in> L"
  shows "live_mem (L - {(order, a)}) = live_mem L - block order a"
  using assms unfolding live_mem_def pairwise_def disjnt_def by fastforce

lemma mem_step_inv:
  assumes "mem_step x y" "owned_inv M x"
  shows "owned_inv M y"
  using assms
proof (induction rule: mem_step.induct)
  case (alloc order s a s' L)
  then have inv: "buddy_inv s" by (simp add: owned_inv_def)
  have post: "buddy_inv s'" "2 ^ order dvd a" "block order a \<subseteq> free_mem s"
    "free_mem s' = free_mem s - block order a"
    using allocate_post [OF inv alloc(1)] by (auto simp: alloc_post_def)
  have top: "a + 2 ^ order \<le> 2 ^ 52"
  proof (rule ccontr)
    assume "\<not> ?thesis"
    then have "max a (2 ^ 52) \<in> block order a" by (simp add: block_def)
    with post(3) have "max a (2 ^ 52) \<in> free_mem s" by blast
    with inv have "max a (2 ^ 52) < 2 ^ 52" by (rule buddy_inv_bound)
    then show False by simp
  qed
  have dis: "disjnt (block order a) (block l b)" "disjnt (block l b) (block order a)"
    if "(l, b) \<in> L" for l b
    using that alloc(2) post(3) live_mem_simps(2) [OF that] by (auto simp: owned_inv_def disjnt_def)
  show ?case
    using alloc(2) post top dis allocate_order [OF alloc(1)]
    by (auto simp: owned_inv_def live_mem_simps disjnt_iff pairwise_insert)
next
  case (alloc_none order s s' L)
  then have "alloc_post order s None s'"
    by (intro allocate_post) (auto simp: owned_inv_def)
  with alloc_none show ?case by (auto simp: alloc_post_def)
next
  case (free order a L s s')
  have blk: "block order a \<subseteq> live_mem L" using free(1) by (rule live_mem_simps)
  have pre: "buddy_inv s" "valid_order order" "2 ^ order dvd a" "a + 2 ^ order \<le> 2 ^ 52"
    "disjnt (block order a) (free_mem s)"
    using free(1,4) blk by (auto simp: owned_inv_def disjnt_def)
  from deallocate_ok [OF pre(1) free(2) pre(2-5)] free(3)
  have post: "buddy_inv s'" "free_mem s' = free_mem s \<union> block order a" by auto
  have "live_mem (L - {(order, a)}) = live_mem L - block order a"
    using free(4) by (intro live_mem_remove [OF _ free(1)]) (simp add: owned_inv_def)
  then show ?case
    using free(4) post blk by (auto simp: owned_inv_def disjnt_def pairwise_def)
next
  case (owner_write order a L x s v)
  then have "x \<notin> free_mem s"
    using live_mem_simps(2) [OF owner_write(1)] by (auto simp: owned_inv_def disjnt_def)
  with owner_write show ?case by (auto simp: owned_inv_def owner_write_inv)
qed

lemma mem_run_inv: "mem_run x y \<Longrightarrow> owned_inv M x \<Longrightarrow> owned_inv M y"
  by (induction rule: mem_run.induct) (auto intro: mem_step_inv)

text \<open>The buddy allocator provides the contract of \<open>phys_allocator\<close>.\<close>

interpretation buddy_phys: phys_allocator allocate deallocate buddy_inv scan_ok free_mem valid_order "2 ^ 52"
proof (unfold_locales, goal_cases)
  case (1 s n)
  then show ?case using allocate_ok by (metis buddy_inv_def)
next
  case (2 s n s')
  then show ?case using allocate_post by (fastforce simp: alloc_post_def)
next
  case (3 s n a s')
  then show ?case
    using allocate_post [OF 3] allocate_order [OF 3(2)] by (simp add: alloc_post_def block_def)
next
  case (4 s n a)
  then show ?case using deallocate_ok [of s n a] unfolding block_def by blast
next
  case (5 s)
  then show ?case using buddy_inv_bound by blast
qed

section \<open>The scan limit\<close>

lemma unlink_loop_exhausted:
  "chain (mem s) q (prev # vs) \<Longrightarrow> a \<notin> set (take left vs) \<Longrightarrow> left \<le> length vs \<Longrightarrow>
   unlink_loop left order a prev s = bindR (bitmap_clear order a s) (\<lambda>s'. Inr (False, s'))"
proof (induction left arbitrary: prev vs q)
  case 0
  then show ?case by simp
next
  case (Suc left)
  then obtain v vs' where vs: "vs = v # vs'" by (cases vs) auto
  with Suc.prems have "mem s prev = Some v" "v \<noteq> a" "chain (mem s) (Some v) (v # vs')"
    "a \<notin> set (take left vs')" "left \<le> length vs'" by auto
  with Suc.IH [of "Some v" v vs'] show ?case by simp
qed

lemma aligned_blocks_disjnt:
  assumes "2 ^ order dvd a" "2 ^ order dvd b" "a \<noteq> b"
  shows "disjnt (block order a) (block order b)"
proof -
  obtain j k where jk: "a = 2 ^ order * j" "b = 2 ^ order * k" using assms(1,2) by (auto elim!: dvdE)
  with assms(3) consider "Suc j \<le> k" | "Suc k \<le> j" by (metis not_less_eq_eq le_antisym Suc_leI linorder_neqE_nat)
  then have "a + 2 ^ order \<le> b \<or> b + 2 ^ order \<le> a"
  proof cases
    case 1
    then have "2 ^ order * Suc j \<le> 2 ^ order * k" by (rule mult_le_mono2)
    then show ?thesis by (simp add: jk)
  next
    case 2
    then have "2 ^ order * Suc k \<le> 2 ^ order * j" by (rule mult_le_mono2)
    then show ?thesis by (simp add: jk)
  qed
  then show ?thesis by (auto simp: block_def disjnt_def)
qed

lemma add_block_list:
  assumes "rep s fl" "wf_blocks fl" "valid_order order" "distinct xs"
    and "\<forall>a \<in> set xs. 2 ^ order dvd a \<and> a + 2 ^ order \<le> 2 ^ 52 \<and> disjnt (block order a) (mem_of fl)"
  shows "\<exists>s' fl'. rep s' fl' \<and> wf_blocks fl' \<and> fl' order = xs @ fl order \<and>
    mem_of fl' = mem_of fl \<union> (\<Union>a \<in> set xs. block order a)"
  using assms(4,5)
proof (induction xs)
  case Nil
  with assms(1,2) show ?case by auto
next
  case (Cons a xs)
  then obtain s1 fl1 where s1: "rep s1 fl1" "wf_blocks fl1" "fl1 order = xs @ fl order"
    "mem_of fl1 = mem_of fl \<union> (\<Union>a \<in> set xs. block order a)"
    by auto
  have al: "2 ^ order dvd a" "a + 2 ^ order \<le> 2 ^ 52" using Cons.prems by auto
  have "disjnt (block order a) (block order b)" if "b \<in> set xs" for b
    using aligned_blocks_disjnt [OF al(1), of b] that Cons.prems by auto
  with Cons.prems s1(4) have dis: "disjnt (block order a) (mem_of fl1)"
    by (auto simp: disjnt_def)
  define fl' where "fl' = fl1(order := a # fl1 order)"
  obtain s' where "rep s' fl'"
    unfolding fl'_def
    by (rule add_block_rep [OF s1(1) assms(3) al(1)]) (use not_in_free_list [OF dis] in auto)
  moreover have "wf_blocks fl'" "mem_of fl' = mem_of fl1 \<union> block order a"
    unfolding fl'_def by (rule wf_blocks_add [OF s1(2) assms(3) al dis])+
  moreover have "fl' order = (a # xs) @ fl order" by (simp add: fl'_def s1(3))
  ultimately show ?case using s1(4) by (intro exI [of _ s'] exI [of _ fl']) auto
qed

section \<open>Properties\<close>

text \<open>
  C1. Allocation is safe and complete. From any state that satisfies the invariant,
  \<^verbatim>\<open>allocate\<close> of a supported order returns without panicking or halting and keeps the invariant. A returned
  block is aligned to its size, was wholly free before and is wholly not free after, and nothing else
  changes hands. \<^verbatim>\<open>None\<close> means that no free block of the order or a larger one exists.
\<close>

theorem allocate_correct:
  assumes "buddy_inv s" "valid_order order"
  shows "\<exists>r s'. allocate order s = Inr (r, s') \<and> buddy_inv s' \<and>
    (case r of
       None \<Rightarrow> s' = s \<and> (\<forall>l. order \<le> l \<longrightarrow> free_blocks s l = {})
     | Some a \<Rightarrow> a mod 2 ^ order = 0 \<and> block order a \<subseteq> free_mem s \<and>
                 free_mem s' = free_mem s - block order a)"
proof -
  from assms(1) obtain fl where fl: "rep s fl" "wf_blocks fl" by (auto simp: buddy_inv_def)
  from allocate_ok [OF fl assms(2)] obtain r s' where
    run: "allocate order s = Inr (r, s')" "alloc_post order s r s'"
      "r = None \<Longrightarrow> \<forall>l. order \<le> l \<longrightarrow> fl l = []"
    by blast
  then show ?thesis
    by (cases r) (auto simp: alloc_post_def rep_free_blocks [OF fl] dvd_eq_mod_eq_0)
qed

text \<open>
  C2. Deallocation. Giving back a block that is aligned, in range and disjoint from the free memory
  never panics or halts (in particular never reports a double free), keeps the invariant and makes exactly
  that block free, whatever coalescing happens, provided no free list is longer than the scan reaches.
\<close>

theorem deallocate_correct:
  assumes "buddy_inv s" "scan_ok s" "valid_order order" "a mod 2 ^ order = 0" "a + 2 ^ order \<le> 2 ^ 52"
    and "disjnt (block order a) (free_mem s)"
  shows "\<exists>s'. deallocate a order s = Inr s' \<and> buddy_inv s' \<and> free_mem s' = free_mem s \<union> block order a"
  using deallocate_ok [OF assms(1-3) _ assms(5,6)] assms(4) by (auto simp: dvd_eq_mod_eq_0)

text \<open>
  C3. Maximal coalescing. Allocation and deallocation keep the state maximally coalesced: no two buddies
  in the tracked range are free at the same order below \<^verbatim>\<open>MAX_ORDER\<close>.
\<close>

theorem coalescing_maximal:
  assumes "buddy_inv s" "coalesced s"
    and "(\<exists>order r. allocate order s = Inr (r, s')) \<or>
         (\<exists>order a. scan_ok s \<and> a + 2 ^ order \<le> 2 ^ 52 \<and> disjnt (block order a) (free_mem s) \<and>
                    deallocate a order s = Inr s')"
  shows "coalesced s'"
  using assms(3)
proof (elim disjE exE conjE)
  fix order r assume "allocate order s = Inr (r, s')"
  from allocate_post [OF assms(1) this] assms(2) show ?thesis by (simp add: alloc_post_def)
next
  fix order a
  assume pre: "scan_ok s" "a + 2 ^ order \<le> 2 ^ 52" "disjnt (block order a) (free_mem s)"
    and run: "deallocate a order s = Inr s'"
  have "valid_order order" "2 ^ order dvd a"
    using run by (auto simp: deallocate_def assertR_def dvd_eq_mod_eq_0 split: if_splits)
  from deallocate_ok [OF assms(1) pre(1) this pre(2,3)] run assms(2) show ?thesis by auto
qed


text \<open>
  C5. Adding a page-aligned region that does not overlap the free memory never aborts, keeps the
  invariant, and makes every whole page of the region free; \<^verbatim>\<open>total_memory\<close> grows by the
  region's size.
\<close>

theorem add_region_correct:
  assumes "buddy_inv s" "start mod 4096 = 0" "start \<le> end_addr" "end_addr \<le> 2 ^ 52"
    and "disjnt {start ..< end_addr} (free_mem s)"
  shows "\<exists>s'. add_region start end_addr s = Inr s' \<and> buddy_inv s' \<and>
    free_mem s' = free_mem s \<union> {start ..< start + (end_addr - start) div 4096 * 4096} \<and>
    total_memory s' = total_memory s + (end_addr - start)"
proof -
  have pg: "(2::nat) ^ MIN_ORDER = 4096" by (simp add: MIN_ORDER_def)
  have "(end_addr - start) div 4096 * 4096 \<le> end_addr - start" by simp
  with assms(3) have "region_mem start end_addr \<subseteq> {start ..< end_addr}"
    unfolding region_mem_def pg by auto
  with assms(5) have "disjnt (region_mem start end_addr) (free_mem s)" by (auto simp: disjnt_def)
  moreover have "2 ^ MIN_ORDER dvd start" using assms(2) pg by (simp add: dvd_eq_mod_eq_0)
  ultimately show ?thesis
    using add_region_ok [OF assms(1) _ assms(3,4)] unfolding region_mem_def pg by blast
qed

text \<open>
  C6. \<^verbatim>\<open>free_bytes\<close> returns (every free list ends) and its result is the number of free bytes.
\<close>

theorem free_bytes_correct:
  assumes "buddy_inv s"
  shows "free_bytes s = Some (card (free_mem s))"
proof -
  from assms obtain fl where fl: "rep s fl" "wf_blocks fl" by (auto simp: buddy_inv_def)
  have "\<forall>l \<in> set [MIN_ORDER ..< MAX_ORDER + 1]. valid_order l" by auto
  from free_bytes_loop_eq [OF fl(1) this, of 0] show ?thesis
    unfolding free_bytes_def rep_free_mem [OF fl] card_mem_of [OF fl] by simp
qed

text \<open>
  The scan limit. When the buddy of the freed block sits beyond position \<^verbatim>\<open>4096\<close> of its free list,
  \<^verbatim>\<open>deallocate\<close> takes its bitmap entry for a phantom: it clears the bit of a block that stays on
  the free list, so list and bitmap disagree from then on.
\<close>

theorem scan_limit_desyncs_bitmap:
  assumes "buddy_inv s" "valid_order order" "order < MAX_ORDER" "a mod 2 ^ order = 0"
    and "disjnt (block order a) (free_mem s)" "buddy_of a order < MAX_PHYS_ADDR"
    and "chain (mem s) (free_lists s (order - MIN_ORDER)) (us @ buddy_of a order # ws)"
    and "4096 < length us"
  shows "\<exists>s'. deallocate a order s = Inr s' \<and> buddy_of a order \<in> free_blocks s' order \<and>
    is_free order (buddy_of a order) s' = Inr False"
proof -
  let ?b = "buddy_of a order"
  from assms(1) obtain fl where fl: "rep s fl" "wf_blocks fl" by (auto simp: buddy_inv_def)
  have al: "2 ^ order dvd a" using assms(4) by (simp add: dvd_eq_mod_eq_0)
  note alb = buddy_merge(3) [OF al]
  have lst: "fl order = us @ ?b # ws" using rep_chain [OF fl(1) assms(2)] assms(7) by (rule chain_unique)
  have on: "bit_on s order ?b" using rep_bit [OF fl(1) assms(2) alb] lst assms(6) by simp
  obtain h vs where us: "us = h # vs" using assms(8) by (cases us) auto
  have dist: "distinct (us @ ?b # ws)" using assms(7) by (rule chain_distinct)
  have hd: "free_lists s (order - MIN_ORDER) = Some h" "h \<noteq> ?b" using assms(7) us dist by auto
  have notin: "?b \<notin> set (take MAX_SCAN (vs @ ?b # ws))" "MAX_SCAN \<le> length (vs @ ?b # ws)"
    using assms(8) us dist by (auto simp: MAX_SCAN_def dest: in_set_takeD)
  let ?s1 = "bitmap_put order ?b False s"
  have clear: "bitmap_clear order ?b s = Inr ?s1" using on assms(2) by (simp add: bitmap_clear_eq)
  have "unlink_loop MAX_SCAN order ?b h s = Inr (False, ?s1)"
    using unlink_loop_exhausted [OF _ notin, of s "Some h" h order] assms(7) us clear by simp
  then have "remove_arbitrary_block order ?b s = Inr (False, ?s1)"
    using hd assms(2) by (simp add: remove_arbitrary_block_def)
  then have co: "coalesce a order s = Inr (a, order, ?s1)"
    using on assms(2,3) by (simp add: coalesce.simps [of a order] is_free_eq)
  have fresh: "a \<notin> set (fl l)" for l
    using not_in_free_list [of order a fl] assms(5) by (simp add: rep_free_mem [OF fl])
  have off: "\<not> bit_on s order a" using rep_bit [OF fl(1) assms(2) al] fresh by simp
  have neq: "a \<noteq> ?b" using buddy_block_disjnt [OF al] by (metis block_nonempty disjnt_iff)
  let ?s2 = "?s1\<lparr>mem := (mem s)(a := Some h), free_lists := (free_lists s)(order - MIN_ORDER := Some a)\<rparr>"
  have "\<not> bit_on ?s2 order a"
    using off neq bit_on_put [OF assms(2,2) alb al, of False s] by simp
  then have run: "deallocate a order s = Inr (bitmap_put order a True ?s2)"
    using co assms(2,4) hd by (simp add: deallocate_def add_block_def bitmap_set_eq)
  have "chain ((mem s)(a := Some h)) (Some a) (a # us @ ?b # ws)"
    using assms(7) hd fresh [of order] lst by (simp del: fun_upd_apply add: fun_upd_same)
  then have "?b \<in> free_blocks (bitmap_put order a True ?s2) order"
    using assms(2) unfolding free_blocks_def by (auto intro!: exI [of _ "a # us @ ?b # ws"])
  moreover have "\<not> bit_on (bitmap_put order a True ?s2) order ?b"
    using bit_on_put [OF assms(2,2) al alb, of True ?s2] bit_on_put [OF assms(2,2) alb alb, of False s] neq
    by simp
  ultimately show ?thesis using run assms(2) by (simp add: is_free_eq)
qed

section \<open>Witnesses\<close>

text \<open>A small allocator: one free block of 8 KiB at address \<open>8192\<close>.\<close>

definition demo_buddy :: buddy where
  "demo_buddy = (case add_block 13 8192 (buddy_new (\<lambda>_. None)) of Inr s \<Rightarrow> s | Inl _ \<Rightarrow> buddy_new (\<lambda>_. None))"

lemma demo_rep:
  "rep demo_buddy ((\<lambda>_. [])(13 := [8192]))" "wf_blocks ((\<lambda>_. [])(13 := [8192]))"
  "mem_of ((\<lambda>_. [])(13 := [8192])) = {8192 ..< 16384}"
proof -
  have new: "rep (buddy_new (\<lambda>_. None)) (\<lambda>_. [])" "wf_blocks (\<lambda>_. [])"
    by (auto simp: rep_def wf_blocks_def buddy_new_def bit_on_iff)
  have ord: "valid_order 13" by (simp add: buddy_consts)
  obtain s where "add_block 13 8192 (buddy_new (\<lambda>_. None)) = Inr s" "rep s ((\<lambda>_. [])(13 := [8192]))"
    by (rule add_block_rep [OF new(1) ord, of 8192]) auto
  then show "rep demo_buddy ((\<lambda>_. [])(13 := [8192]))" by (simp add: demo_buddy_def)
  show "wf_blocks ((\<lambda>_. [])(13 := [8192]))" "mem_of ((\<lambda>_. [])(13 := [8192])) = {8192 ..< 16384}"
    using ord by (auto simp: wf_blocks_def mem_of_def block_def split: if_splits)
qed

lemma demo_facts:
  "buddy_inv demo_buddy" "free_mem demo_buddy = {8192 ..< 16384}" "free_blocks demo_buddy 13 = {8192}"
  "scan_ok demo_buddy" "coalesced demo_buddy"
proof -
  show "buddy_inv demo_buddy" using demo_rep unfolding buddy_inv_def by blast
  show "free_mem demo_buddy = {8192 ..< 16384}" using rep_free_mem [OF demo_rep(1,2)] demo_rep(3) by simp
  show "free_blocks demo_buddy 13 = {8192}" using rep_free_blocks [OF demo_rep(1,2)] by simp
  have "length xs \<le> MAX_SCAN + 1"
    if "valid_order l" "chain (mem demo_buddy) (free_lists demo_buddy (l - MIN_ORDER)) xs" for l xs
    using chain_unique [OF rep_chain [OF demo_rep(1) that(1)] that(2)] by (auto simp: split: if_splits)
  then show "scan_ok demo_buddy" by (simp add: scan_ok_def)
  show "coalesced demo_buddy"
    unfolding coalesced_rep [OF demo_rep(1,2)] by (auto simp: buddy_of_eq split: if_splits)
qed

lemma demo_alloc: "\<exists>a s'. allocate 12 demo_buddy = Inr (Some a, s')"
proof -
  have "valid_order 12" by (simp add: buddy_consts)
  moreover obtain fl where "rep demo_buddy fl" "wf_blocks fl" "fl 13 = [8192]"
    using demo_rep(1,2) by fastforce
  ultimately show ?thesis using allocate_ok [of demo_buddy fl 12] by force
qed

theorem allocate_correct_witness:
  "\<exists>a s'. allocate 12 demo_buddy = Inr (Some a, s') \<and> buddy_inv s' \<and> a mod 4096 = 0 \<and>
     block 12 a \<subseteq> {8192 ..< 16384} \<and> free_mem s' = {8192 ..< 16384} - block 12 a"
proof -
  have "valid_order 12" by (simp add: buddy_consts)
  from allocate_correct [OF demo_facts(1) this] show ?thesis
    using demo_facts(2,3) by (auto split: option.splits)
qed

theorem deallocate_correct_witness:
  "\<exists>s'. deallocate 0 13 demo_buddy = Inr s' \<and> buddy_inv s' \<and> free_mem s' = {0 ..< 16384}"
proof -
  have "valid_order 13" "disjnt (block 13 0) (free_mem demo_buddy)"
    by (auto simp: buddy_consts demo_facts block_def disjnt_def)
  with deallocate_correct [OF demo_facts(1,4), of 13 0] show ?thesis
    by (auto simp: demo_facts block_def)
qed

theorem coalescing_maximal_witness:
  "\<exists>s'. deallocate 0 13 demo_buddy = Inr s' \<and> coalesced s'"
proof -
  have "valid_order 13" "disjnt (block 13 0) (free_mem demo_buddy)"
    by (auto simp: buddy_consts demo_facts block_def disjnt_def)
  then obtain s' where "deallocate 0 13 demo_buddy = Inr s'"
    using deallocate_ok [OF demo_facts(1,4), of 13 0] by auto
  moreover from this have "coalesced s'"
    using coalescing_maximal [OF demo_facts(1,5), of s'] \<open>disjnt (block 13 0) (free_mem demo_buddy)\<close>
      demo_facts(4) by fastforce
  ultimately show ?thesis by blast
qed


theorem add_region_correct_witness:
  "\<exists>s'. add_region 1048576 2097152 (buddy_new (\<lambda>_. None)) = Inr s' \<and> buddy_inv s' \<and>
     free_mem s' = {1048576 ..< 2097152} \<and> total_memory s' = 1048576"
  using add_region_correct [OF buddy_inv_new [of "\<lambda>_. None"], of 1048576 2097152]
  by (auto simp: free_mem_new total_memory_new)

theorem free_bytes_correct_witness: "free_bytes demo_buddy = Some 8192"
  using free_bytes_correct [OF demo_facts(1)] by (simp add: demo_facts)

theorem scan_limit_desyncs_bitmap_witness:
  "\<exists>s s'. buddy_inv s \<and> deallocate 4096 12 s = Inr s' \<and> 0 \<in> free_blocks s' 12 \<and> is_free 12 0 s' = Inr False"
proof -
  let ?xs = "map (\<lambda>i. 8192 * (4097 - i)) [0 ..< 4098]"
  have ord: "valid_order 12" "12 < MAX_ORDER" by (simp_all add: buddy_consts)
  have new: "rep (buddy_new (\<lambda>_. None)) (\<lambda>_. [])" "wf_blocks (\<lambda>_. [])" "mem_of (\<lambda>_. []) = {}"
    by (auto simp: rep_def wf_blocks_def buddy_new_def bit_on_iff mem_of_def)
  have "distinct ?xs" by (auto simp: distinct_map inj_on_def)
  moreover have "\<forall>a \<in> set ?xs. 2 ^ 12 dvd a \<and> a + 2 ^ 12 \<le> 2 ^ 52 \<and> disjnt (block 12 a) (mem_of (\<lambda>_. []))"
    by (auto simp: new(3))
  ultimately obtain s fl where s: "rep s fl" "wf_blocks fl" "fl 12 = ?xs"
    "mem_of fl = (\<Union>a \<in> set ?xs. block 12 a)"
    using add_block_list [OF new(1,2) ord(1), of ?xs] new(3) by auto
  then have inv: "buddy_inv s" by (auto simp: buddy_inv_def)
  have bud: "buddy_of 4096 12 = 0" by (simp add: buddy_of_def)
  have "[0 ..< 4098] = [0 ..< 4097] @ [4097::nat]" by (simp flip: upt_Suc_append)
  then have xs: "?xs = map (\<lambda>i. 8192 * (4097 - i)) [0 ..< 4097] @ buddy_of 4096 12 # []"
    by (simp add: bud)
  have dis: "disjnt (block 12 4096) (free_mem s)"
  proof -
    have "disjnt (block 12 4096) (block 12 a)" if "a \<in> set ?xs" for a
    proof (rule aligned_blocks_disjnt)
      show "4096 \<noteq> a" using that by auto
    qed (use that in auto)
    then show ?thesis unfolding rep_free_mem [OF s(1,2)] s(4) by (auto simp: disjnt_def)
  qed
  have ch: "chain (mem s) (free_lists s (12 - MIN_ORDER))
      (map (\<lambda>i. 8192 * (4097 - i)) [0 ..< 4097] @ buddy_of 4096 12 # [])"
    using rep_chain [OF s(1) ord(1)] s(3) xs by simp
  from scan_limit_desyncs_bitmap [OF inv ord _ dis _ ch] inv bud show ?thesis
    by (auto simp: MAX_PHYS_ADDR_def)
qed

end
