(* ===== verification/Heap.thy ===== *)
theory Heap
  imports Slab Buddy
begin

text \<open>
  The slab allocator over the buddy allocator: the laws of \<open>Slab\<close> at the interpretation
  \<open>buddy_phys\<close>, runs of the heap, and the properties of \<^verbatim>\<open>kernel/src/allocator/slab.rs\<close>.
\<close>

abbreviation "heap_ok \<equiv> heap_inv buddy_inv free_mem valid_order (2 ^ 52)"

interpretation slab_buddy: slab_backend allocate deallocate buddy_inv scan_ok free_mem valid_order "2 ^ 52"
  by unfold_locales (simp add: buddy_consts)

section \<open>Runs\<close>

text \<open>
  What the kernel does with its heap, in any order: allocate, give back a live object with the
  layout it was allocated with, write into a live object. The set collects the live objects.
\<close>

inductive heap_step :: "nat \<Rightarrow> buddy heap \<times> objs \<Rightarrow> buddy heap \<times> objs \<Rightarrow> bool" for off where
  alloc: "slab_allocate allocate off s al h = Inr (Some p, h') \<Longrightarrow>
    heap_step off (h, L) (h', insert (p, s, al) L)"
| alloc_null: "slab_allocate allocate off s al h = Inr (None, h') \<Longrightarrow> heap_step off (h, L) (h', L)"
| free: "(p, s, al) \<in> L \<Longrightarrow> scan_ok (phys h) \<Longrightarrow> slab_deallocate deallocate off (Some p) s al h = Inr h' \<Longrightarrow>
    heap_step off (h, L) (h', L - {(p, s, al)})"
| store: "(p, s, al) \<in> L \<Longrightarrow> (\<forall>y. y < p \<or> p + extent s al \<le> y \<longrightarrow> m' y = mem_bytes h y) \<Longrightarrow>
    heap_step off (h, L) (h\<lparr>mem_bytes := m'\<rparr>, L)"

inductive heap_run :: "nat \<Rightarrow> buddy heap \<times> objs \<Rightarrow> buddy heap \<times> objs \<Rightarrow> bool" for off where
  refl: "heap_run off x x"
| step: "heap_run off x y \<Longrightarrow> heap_step off y z \<Longrightarrow> heap_run off x z"

inductive_cases heap_stepE: "heap_step off (h, L) (h', L')"

lemma invalid_order_abort:
  assumes "buddy_inv s" "\<not> valid_order n" "allocate n s = Inr (r, s')"
  shows "r = None" "s' = s"
proof -
  show "r = None" using buddy_phys.palloc_some [OF assms(1), of n _ s'] assms(2,3) by (cases r) auto
  with assms show "s' = s" using buddy_phys.palloc_none by blast
qed

lemma slab_allocate_inv:
  assumes "heap_ok off h L" "off_ok (2 ^ 52) off" "slab_allocate allocate off s al h = Inr (r, h')"
  shows "case r of None \<Rightarrow> h' = h | Some p \<Rightarrow> heap_ok off h' (insert (p, s, al) L)"
proof (cases "layout_class s al = None \<and> \<not> valid_order (layout_order s al)")
  case True
  then obtain q p' where "allocate (layout_order s al) (phys h) = Inr (q, p')"
      "r = map_option (\<lambda>a. off + a) q" "h' = h\<lparr>phys := p'\<rparr>"
    using assms(3) by (auto simp: slab_allocate_large bindR_eq_Inr)
  with invalid_order_abort [of "phys h" "layout_order s al" q p'] True assms(1) show ?thesis
    by (auto simp: heap_inv_def)
next
  case False
  with slab_buddy.slab_allocate_outcomes [OF assms(1,2), of s al] assms(3) show ?thesis
    by (auto split: option.splits)
qed

lemma heap_step_inv:
  assumes "heap_step off x y" "off_ok (2 ^ 52) off" "heap_ok off (fst x) (snd x)"
  shows "heap_ok off (fst y) (snd y)"
  using assms
proof (induction rule: heap_step.induct)
  case (alloc s al h p h' L)
  then show ?case using slab_allocate_inv [of off h L s al "Some p" h'] by simp
next
  case (alloc_null s al h h' L)
  then show ?case using slab_allocate_inv [of off h L s al None h'] by simp
next
  case (free p s al L h h')
  then show ?case using slab_buddy.slab_deallocate_live [of off h L p s al] by auto
next
  case (store p s al L m' h)
  then show ?case using slab_buddy.owner_write [of off h L p s al m'] by auto
qed

lemma heap_run_inv:
  assumes "heap_run off x y" "off_ok (2 ^ 52) off" "heap_ok off (fst x) (snd x)"
  shows "heap_ok off (fst y) (snd y)"
  using assms by (induction rule: heap_run.induct) (auto dest: heap_step_inv)

section \<open>The poison check\<close>

lemma slab_allocate_first_page:
  assumes cls: "layout_class s al = Some i" and "free_list (caches h i) = None"
    and "allocate 12 (phys h) = Inr (Some a, p')" "page_ok (off + a)"
  shows "\<exists>c m. chain (read_next m) (free_list c)
      (rev (map (\<lambda>j. off + a + j * SLAB_SIZES ! i) [0 ..< 4096 div SLAB_SIZES ! i])) \<and>
    slab_allocate allocate off s al h =
    slab_allocate allocate off s al (h\<lparr>caches := (caches h)(i := c), mem_bytes := m, phys := p'\<rparr>)"
proof -
  have sz: "class_size (SLAB_SIZES ! i)" using layout_class_bounds(1) [OF cls] by (rule class_size_nth)
  let ?objs = "rev (map (\<lambda>j. off + a + j * SLAB_SIZES ! i) [0 ..< 4096 div SLAB_SIZES ! i])"
  obtain c m where cm: "cache_expand allocate off (SLAB_SIZES ! i) (caches h i, mem_bytes h, phys h) = Inr (True, (c, m, p'))"
      "chain (read_next m) (free_list c) ?objs"
    using cache_first_page [where palloc = allocate, OF sz assms(2-4)] by blast
  have "?objs \<noteq> []" using sz class_size_le [OF sz] by (simp add: class_size_def div_greater_zero_iff)
  with cm(2) have "free_list c \<noteq> None" by (cases "free_list c") auto
  from cache_allocate_expand [OF assms(2) cm(1) this] cm(2) show ?thesis
    by (intro exI [of _ c] exI [of _ m]) (simp add: slab_allocate_class [OF cls])
qed

lemma slab_allocate_chain:
  assumes cls: "layout_class s al = Some i" and ch: "chain (read_next (mem_bytes h)) (free_list (caches h i)) (x # y # xs)"
  shows "slab_allocate allocate off s al h =
    (if 0xAA \<in> set (le_bytes 8 y) then Inl Panic
     else Inr (Some x, h\<lparr>caches := (caches h)(i := (caches h i)\<lparr>free_list := Some y,
                                      used_objects := used_objects (caches h i) + 1\<rparr>),
                          mem_bytes := poison_alloc (mem_bytes h) x (SLAB_SIZES ! i)\<rparr>))"
proof -
  have "8 \<le> SLAB_SIZES ! i" using class_size_nth [OF layout_class_bounds(1) [OF cls]] by (simp add: class_size_def)
  from looks_poisoned_next [OF this, of "mem_bytes h" x] ch show ?thesis
    by (simp add: slab_allocate_class [OF cls] cache_allocate_take)
qed

section \<open>Properties\<close>




text \<open>
  \<^verbatim>\<open>size_to_buddy_order\<close> picks the smallest order of at least one page whose block holds the size.
\<close>
theorem size_to_buddy_order_tight:
  "n \<le> 2 ^ size_to_buddy_order n \<and> 12 \<le> size_to_buddy_order n \<and>
   (\<forall>k. 12 \<le> k \<and> n \<le> 2 ^ k \<longrightarrow> size_to_buddy_order n \<le> k)"
  by (simp add: size_to_buddy_order_le size_to_buddy_order_ge size_to_buddy_order_least)

text \<open>
  The use-after-free check of debug builds looks for the byte \<^verbatim>\<open>0xAA\<close> in the first eight
  bytes of a free object, which hold its \<^verbatim>\<open>next\<close> pointer: when the first page of the 512-byte
  class lies at an address ending in \<^verbatim>\<open>0xA000\<close>, the second allocation panics although nothing
  was freed.
\<close>
theorem poison_check_false_positive:
  assumes "free_list (caches h 6) = None" "allocate 12 (phys h) = Inr (Some a, p')" "page_ok (off + a)"
    and "(off + a) mod 65536 = 0xA000" "0xAA \<notin> set (le_bytes 6 ((off + a) div 65536))"
  shows "\<exists>h'. slab_allocate allocate off 512 8 h = Inr (Some (off + a + 0xE00), h') \<and>
    slab_allocate allocate off 512 8 h' = Inl Panic"
proof -
  let ?page = "off + a"
  have cls: "layout_class 512 8 = Some 6" "SLAB_SIZES ! 6 = 512"
    by (simp_all add: layout_class_def slab_consts slab_index_def SLAB_SIZES_def)
  obtain c m where cm: "chain (read_next m) (free_list c) (rev (map (\<lambda>j. ?page + j * 512) [0 ..< 8]))"
      "slab_allocate allocate off 512 8 h =
       slab_allocate allocate off 512 8 (h\<lparr>caches := (caches h)(6 := c), mem_bytes := m, phys := p'\<rparr>)"
  proof -
    have "(4096 :: nat) div 512 = 8" by simp
    with that slab_allocate_first_page [OF cls(1) assms(1-3)] show ?thesis unfolding cls(2) by metis
  qed
  have objs: "rev (map (\<lambda>j. ?page + j * 512) [0 ..< 8]) =
      (?page + 0xE00) # (?page + 0xC00) # (?page + 0xA00) # rev (map (\<lambda>j. ?page + j * 512) [0 ..< 5])"
  proof -
    have "[0 ..< 8] = [0 ..< 5] @ [5, 6, 7 :: nat]" by (simp add: upt_rec)
    then show ?thesis by simp
  qed
  define h0 where "h0 = h\<lparr>caches := (caches h)(6 := c), mem_bytes := m, phys := p'\<rparr>"
  have ch: "chain (read_next (mem_bytes h0)) (free_list (caches h0 6))
      ((?page + 0xE00) # (?page + 0xC00) # (?page + 0xA00) # rev (map (\<lambda>j. ?page + j * 512) [0 ..< 5]))"
    using cm(1) unfolding objs h0_def by (simp del: chain.simps)
  have byte: "unat (of_nat ((?page + 0xC00) div 256) :: u8) = 0xAC" "unat (of_nat ((?page + 0xA00) div 256) :: u8) = 0xAA"
      "unat (of_nat (?page + 0xC00) :: u8) = 0" "(?page + 0xC00) div 65536 = ?page div 65536"
  proof -
    define k where "k = ?page div 65536"
    then have page: "?page = 65536 * k + 0xA000" using assms(4) div_mult_mod_eq [of ?page 65536] by simp
    have c00: "?page + 0xC00 = 256 * (256 * k + 0xAC)" and a00: "?page + 0xA00 = 256 * (256 * k + 0xAA)"
      unfolding page by simp_all
    show "unat (of_nat ((?page + 0xC00) div 256) :: u8) = 0xAC" unfolding unat_of_nat_u8 c00 by simp
    show "unat (of_nat ((?page + 0xA00) div 256) :: u8) = 0xAA" unfolding unat_of_nat_u8 a00 by simp
    show "unat (of_nat (?page + 0xC00) :: u8) = 0" unfolding unat_of_nat_u8 c00 by simp
    show "(?page + 0xC00) div 65536 = ?page div 65536" unfolding page by simp
  qed
  have aa: "b = 0xAA \<longleftrightarrow> unat b = 0xAA" for b :: u8
  proof
    assume "unat b = 0xAA"
    then have "unat b = unat (0xAA :: u8)" by simp
    then show "b = 0xAA" by (rule unsigned_word_eqI)
  qed simp
  have first: "0xAA \<notin> set (le_bytes 8 (?page + 0xC00))"
  proof -
    have "of_nat (?page + 0xC00) \<noteq> (0xAA :: u8)" "of_nat ((?page + 0xC00) div 256) \<noteq> (0xAA :: u8)"
      unfolding aa byte by simp_all
    with assms(5) show ?thesis unfolding le_bytes_8 byte(4) by (metis set_ConsD)
  qed
  have second: "0xAA \<in> set (le_bytes 8 (?page + 0xA00))"
    unfolding le_bytes_8 using aa [of "of_nat ((?page + 0xA00) div 256)"] byte(2)
    by (simp add: byte(2))
  define h1 where "h1 = h0\<lparr>caches := (caches h0)(6 := (caches h0 6)\<lparr>free_list := Some (?page + 0xC00),
      used_objects := used_objects (caches h0 6) + 1\<rparr>),
    mem_bytes := poison_alloc (mem_bytes h0) (?page + 0xE00) (SLAB_SIZES ! 6)\<rparr>"
  have "read_next (mem_bytes h0) (?page + 0xC00) = read_next (mem_bytes h1) (?page + 0xC00)"
    by (intro read_next_cong) (simp add: h1_def cls(2) poison_alloc_other)
  with ch have "read_next (mem_bytes h1) (?page + 0xC00) = Some (?page + 0xA00)" by simp
  then have "looks_poisoned (mem_bytes h1) (?page + 0xC00) 512"
    using second by (simp add: looks_poisoned_next)
  moreover have "free_list (caches h1 6) = Some (?page + 0xC00)" by (simp add: h1_def)
  ultimately have "slab_allocate allocate off 512 8 h1 = Inl Panic"
    by (simp add: slab_allocate_class [OF cls(1)] cache_allocate_take cls(2))
  moreover have "slab_allocate allocate off 512 8 h0 = Inr (Some (?page + 0xE00), h1)"
    using slab_allocate_chain [OF cls(1) ch] first by (simp only: h1_def if_False)
  ultimately show ?thesis using cm(2) unfolding h0_def by (intro exI [of _ h1]) simp
qed

section \<open>Witnesses\<close>

text \<open>A physical allocator with the one free page \<^verbatim>\<open>0xA000\<close>, and the heap over it.\<close>

definition page_buddy :: buddy where
  "page_buddy = (case add_block 12 40960 (buddy_new (\<lambda>_. None)) of Inr s \<Rightarrow> s | Inl _ \<Rightarrow> buddy_new (\<lambda>_. None))"

definition page_heap :: "buddy heap" where
  "page_heap = slab_new (\<lambda>_. 0) page_buddy"

lemma page_buddy_facts:
  "buddy_inv page_buddy" "\<exists>s'. allocate 12 page_buddy = Inr (Some 40960, s') \<and> buddy_inv s' \<and> scan_ok s'"
proof -
  have new: "rep (buddy_new (\<lambda>_. None)) (\<lambda>_. [])" "wf_blocks (\<lambda>_. [])"
    by (auto simp: rep_def wf_blocks_def buddy_new_def bit_on_iff)
  have ord: "valid_order 12" by (simp add: buddy_consts)
  obtain s where "add_block 12 40960 (buddy_new (\<lambda>_. None)) = Inr s" "rep s ((\<lambda>_. [])(12 := [40960]))"
    by (rule add_block_rep [OF new(1) ord, of 40960]) auto
  then have rep: "rep page_buddy ((\<lambda>_. [])(12 := [40960]))" by (simp add: page_buddy_def)
  have wf: "wf_blocks ((\<lambda>_. [])(12 := [40960]))" "mem_of ((\<lambda>_. [])(12 := [40960])) = {40960 ..< 45056}"
    using ord by (auto simp: wf_blocks_def mem_of_def block_def split: if_splits)
  then have free: "free_mem page_buddy = {40960 ..< 45056}" using rep_free_mem [OF rep wf(1)] by simp
  show "buddy_inv page_buddy" using rep wf unfolding buddy_inv_def by blast
  obtain a s' where a: "allocate 12 page_buddy = Inr (Some a, s')" "alloc_post 12 page_buddy (Some a) s'"
    using allocate_ok [OF rep wf(1) ord] by force
  have "{a ..< a + 4096} \<subseteq> {40960 ..< 45056}" using a(2) free by (simp add: alloc_post_def block_def)
  then have aeq: "a = 40960" by simp
  have s': "buddy_inv s'" "free_mem s' = {}" using a(2) free by (simp_all add: alloc_post_def block_def aeq)
  have "xs = []" if "valid_order l" "chain (mem s') (free_lists s' (l - MIN_ORDER)) xs" for l xs
  proof (rule ccontr)
    assume "xs \<noteq> []"
    then have "hd xs \<in> free_blocks s' l" using that unfolding free_blocks_def by (auto intro!: exI [of _ xs])
    then have "hd xs \<in> free_mem s'" unfolding free_mem_def by (auto intro!: exI [of _ l] bexI [of _ "hd xs"])
    with s'(2) show False by simp
  qed
  then have "scan_ok s'" by (fastforce simp: scan_ok_def)
  with a(1) s'(1) aeq show "\<exists>s'. allocate 12 page_buddy = Inr (Some 40960, s') \<and> buddy_inv s' \<and> scan_ok s'" by blast
qed

lemma page_heap_facts:
  "heap_ok (2 ^ 40) page_heap {}" "off_ok (2 ^ 52) (2 ^ 40)" "page_ok (2 ^ 40 + 40960)"
  "free_list (caches page_heap i) = None" "phys page_heap = page_buddy"
proof -
  show "heap_ok (2 ^ 40) page_heap {}"
    unfolding page_heap_def by (rule heap_inv_new [of buddy_inv page_buddy]) (rule page_buddy_facts)
qed (simp_all add: page_heap_def off_ok_def page_ok_def slab_new_def cache_new_def)

lemma page_heap_alloc:
  "\<exists>h'. slab_allocate allocate (2 ^ 40) 2048 8 page_heap = Inr (Some (2 ^ 40 + 43008), h') \<and> scan_ok (phys h')"
proof -
  have cls: "layout_class 2048 8 = Some 8" "SLAB_SIZES ! 8 = 2048"
    by (simp_all add: layout_class_def slab_consts slab_index_def SLAB_SIZES_def)
  obtain b' where b': "allocate 12 (phys page_heap) = Inr (Some 40960, b')" "scan_ok b'"
    using page_buddy_facts(2) page_heap_facts(5) by auto
  obtain c m where cm: "chain (read_next m) (free_list c) (rev (map (\<lambda>j. 2 ^ 40 + 40960 + j * SLAB_SIZES ! 8) [0 ..< 4096 div SLAB_SIZES ! 8]))"
      "slab_allocate allocate (2 ^ 40) 2048 8 page_heap =
       slab_allocate allocate (2 ^ 40) 2048 8 (page_heap\<lparr>caches := (caches page_heap)(8 := c), mem_bytes := m, phys := b'\<rparr>)"
    using slab_allocate_first_page [OF cls(1) page_heap_facts(4) b'(1) page_heap_facts(3)] by blast
  have "[0 ..< 2] = [0, 1 :: nat]" by (simp add: upt_rec)
  then have ch: "chain (read_next m) (free_list c) [2 ^ 40 + 43008, 2 ^ 40 + 40960]"
    using cm(1) by (simp add: cls(2) del: chain.simps)
  have "0xAA \<notin> set (le_bytes 8 (2 ^ 40 + 40960))" by (simp add: le_bytes_8 le_bytes_6)
  with slab_allocate_chain [OF cls(1), of "page_heap\<lparr>caches := (caches page_heap)(8 := c), mem_bytes := m, phys := b'\<rparr>"]
    ch cm(2) b'(2) show ?thesis by (simp del: chain.simps)
qed




theorem size_to_buddy_order_tight_witness: "size_to_buddy_order 12288 \<le> 14 \<and> 12288 \<le> (2::nat) ^ size_to_buddy_order 12288"
  using size_to_buddy_order_tight [of 12288] by simp

theorem poison_check_false_positive_witness:
  "\<exists>h'. slab_allocate allocate (2 ^ 40) 512 8 page_heap = Inr (Some (2 ^ 40 + 0xAE00), h') \<and>
    slab_allocate allocate (2 ^ 40) 512 8 h' = Inl Panic"
proof -
  obtain b' where b': "allocate 12 (phys page_heap) = Inr (Some 40960, b')"
    using page_buddy_facts(2) page_heap_facts(5) by auto
  have "(2 ^ 40 + 40960) mod 65536 = (0xA000 :: nat)" "0xAA \<notin> set (le_bytes 6 ((2 ^ 40 + 40960) div 65536))"
    by (simp_all add: le_bytes_6)
  from poison_check_false_positive [OF page_heap_facts(4) b' page_heap_facts(3) this] show ?thesis by simp
qed

end
