(* ===== verification/Vma.thy ===== *)
theory Vma
  imports Prelude
begin

text \<open>
  Virtual memory areas: the per-process table of \<^verbatim>\<open>kernel/src/memory/vma.rs\<close> and the part of
  \<^verbatim>\<open>kernel/src/memory/address_space.rs\<close> that only moves areas, \<^verbatim>\<open>sys_mmap_anon\<close>. Addresses
  are naturals; every \<^verbatim>\<open>u64\<close> operation that may overflow is checked and panics, as in the dev
  profile. Masking the low bits of an address is written with \<open>div\<close>.
\<close>

section \<open>Areas\<close>

definition MAX_VMAS_PER_PROCESS :: nat where "MAX_VMAS_PER_PROCESS = 64"
definition STACK_GROWTH_GUARD_PAGES :: nat where "STACK_GROWTH_GUARD_PAGES = 64"
definition STACK_MAX_PAGES :: nat where "STACK_MAX_PAGES = 2048"

lemmas vma_consts = MAX_VMAS_PER_PROCESS_def STACK_GROWTH_GUARD_PAGES_def STACK_MAX_PAGES_def

datatype vma_kind = Anonymous | Code | Huge2M | GrowableStack

record vma =
  vma_start :: nat
  size_pages :: nat
  vma_flags :: u64
  kind :: vma_kind

definition vma_end :: "vma \<Rightarrow> nat res" where
  "vma_end v = bindR (mul64 (size_pages v) 4096) (\<lambda>len. add64 (vma_start v) len)"

definition vma_contains :: "vma \<Rightarrow> nat \<Rightarrow> bool res" where
  "vma_contains v addr =
     (if addr \<ge> vma_start v then bindR (vma_end v) (\<lambda>e. Inr (addr < e)) else Inr False)"

section \<open>The table\<close>

type_synonym vmas = "vma option list"

definition vmas_new :: vmas where
  "vmas_new = replicate MAX_VMAS_PER_PROCESS None"

fun vma_add :: "vma \<Rightarrow> vmas \<Rightarrow> string + vmas" where
  "vma_add v [] = Inl ''VMA list full''"
| "vma_add v (None # es) = Inr (Some v # es)"
| "vma_add v (Some w # es) = map_sum id (Cons (Some w)) (vma_add v es)"

fun vma_find :: "nat \<Rightarrow> vmas \<Rightarrow> vma option res" where
  "vma_find addr [] = Inr None"
| "vma_find addr (None # es) = vma_find addr es"
| "vma_find addr (Some v # es) =
     bindR (vma_contains v addr) (\<lambda>c. if c then Inr (Some v) else vma_find addr es)"

fun vma_remove :: "nat \<Rightarrow> vmas \<Rightarrow> string + vma \<times> vmas" where
  "vma_remove s [] = Inl ''VMA not found''"
| "vma_remove s (None # es) = map_sum id (map_prod id (Cons None)) (vma_remove s es)"
| "vma_remove s (Some v # es) =
     (if vma_start v = s then Inr (v, None # es)
      else map_sum id (map_prod id (Cons (Some v))) (vma_remove s es))"

fun any_overlap :: "nat \<Rightarrow> nat \<Rightarrow> vmas \<Rightarrow> bool res" where
  "any_overlap s e [] = Inr False"
| "any_overlap s e (None # es) = any_overlap s e es"
| "any_overlap s e (Some v # es) =
     bindR (if vma_start v < e then bindR (vma_end v) (\<lambda>ve. Inr (ve > s)) else Inr False)
       (\<lambda>b. if b then Inr True else any_overlap s e es)"

definition vma_overlaps :: "nat \<Rightarrow> nat \<Rightarrow> vmas \<Rightarrow> bool res" where
  "vma_overlaps s n es =
     bindR (mul64 n 4096) (\<lambda>len. bindR (add64 s len) (\<lambda>e. any_overlap s e es))"

text \<open>The search of \<^verbatim>\<open>grow_stack\<close> for the area to extend: its slot, old start and new size.\<close>

fun grow_target :: "nat \<Rightarrow> nat \<Rightarrow> vmas \<Rightarrow> (nat \<times> nat \<times> nat) option res" where
  "grow_target page i [] = Inr None"
| "grow_target page i (None # es) = grow_target page (Suc i) es"
| "grow_target page i (Some v # es) =
     (if kind v \<noteq> GrowableStack then grow_target page (Suc i) es
      else if page \<ge> vma_start v then grow_target page (Suc i) es
      else if (vma_start v - page) div 4096 > STACK_GROWTH_GUARD_PAGES then grow_target page (Suc i) es
      else bindR (vma_end v) (\<lambda>e. bindR (sub64 e page) (\<lambda>d.
             let new_size_pages = d div 4096 in
             if new_size_pages > STACK_MAX_PAGES then grow_target page (Suc i) es
             else Inr (Some (i, vma_start v, new_size_pages)))))"

definition grow_stack :: "nat \<Rightarrow> vmas \<Rightarrow> (vma option \<times> vmas) res" where
  "grow_stack addr es =
     (let page_addr = addr div 4096 * 4096 in
      bindR (grow_target page_addr 0 es) (\<lambda>target.
        case target of
          None \<Rightarrow> Inr (None, es)
        | Some (idx, old_start, new_size_pages) \<Rightarrow>
            bindR (any_overlap page_addr old_start (es[idx := None])) (\<lambda>would_overlap.
              if would_overlap then Inr (None, es)
              else case es ! idx of
                     None \<Rightarrow> Inl Panic
                   | Some v \<Rightarrow>
                       let v' = v\<lparr>vma_start := page_addr, size_pages := new_size_pages\<rparr>
                       in Inr (Some v', es[idx := Some v']))))"

definition vmas_clear :: "vmas \<Rightarrow> vmas" where
  "vmas_clear es = map (\<lambda>_. None) es"

section \<open>Anonymous mappings\<close>

definition USER_MMAP_BASE :: nat where "USER_MMAP_BASE = 0x400000000000"
definition HUGE_2M :: nat where "HUGE_2M = 0x200000"

definition PTE_PRESENT :: u64 where "PTE_PRESENT = 1"
definition PTE_WRITABLE :: u64 where "PTE_WRITABLE = 2"
definition PTE_USER_ACCESSIBLE :: u64 where "PTE_USER_ACCESSIBLE = 4"

record mm =
  areas :: vmas
  mmap_base :: nat

definition mm_new :: mm where
  "mm_new = \<lparr>areas = vmas_new, mmap_base = USER_MMAP_BASE\<rparr>"

definition mmap_flags :: "u32 \<Rightarrow> u64" where
  "mmap_flags prot =
     (let flags = PTE_PRESENT OR PTE_USER_ACCESSIBLE in
      if prot AND 2 \<noteq> 0 then flags OR PTE_WRITABLE else flags)"

definition mmap_add :: "vma \<Rightarrow> mm \<Rightarrow> ((string + nat) \<times> mm) res" where
  "mmap_add v m =
     (case vma_add v (areas m) of
        Inl _ \<Rightarrow> Inr (Inl ''mmap: VMA list full'', m)
      | Inr es \<Rightarrow> Inr (Inr (vma_start v), m\<lparr>areas := es\<rparr>))"

definition mmap_huge :: "nat \<Rightarrow> nat \<Rightarrow> u64 \<Rightarrow> mm \<Rightarrow> ((string + nat) \<times> mm) res" where
  "mmap_huge addr len flags m =
     bindR (add64 len HUGE_2M) (\<lambda>l.
     let length_aligned = (l - 1) div HUGE_2M * HUGE_2M;
         n = length_aligned div 4096
     in if addr = 0 then
          bindR (add64 (mmap_base m) HUGE_2M) (\<lambda>b.
          let base = (b - 1) div HUGE_2M * HUGE_2M in
          bindR (add64 base length_aligned) (\<lambda>e. bindR (add64 e HUGE_2M) (\<lambda>mb.
            mmap_add \<lparr>vma_start = base, size_pages = n, vma_flags = flags, kind = Huge2M\<rparr>
              (m\<lparr>mmap_base := mb\<rparr>))))
        else if addr mod HUGE_2M \<noteq> 0 then Inr (Inl ''mmap: huge page addr not 2MB-aligned'', m)
        else bindR (vma_overlaps addr n (areas m)) (\<lambda>ov.
               if ov then Inr (Inl ''mmap: MAP_FIXED conflict with existing VMA'', m)
               else mmap_add \<lparr>vma_start = addr, size_pages = n, vma_flags = flags, kind = Huge2M\<rparr> m))"

definition mmap_small :: "nat \<Rightarrow> nat \<Rightarrow> u64 \<Rightarrow> mm \<Rightarrow> ((string + nat) \<times> mm) res" where
  "mmap_small addr len flags m =
     bindR (add64 len 4095) (\<lambda>l.
     let n = l div 4096
     in if addr = 0 then
          let base = mmap_base m in
          bindR (mul64 n 4096) (\<lambda>sz. bindR (add64 base sz) (\<lambda>e. bindR (add64 e 4096) (\<lambda>mb.
            mmap_add \<lparr>vma_start = base, size_pages = n, vma_flags = flags, kind = Anonymous\<rparr>
              (m\<lparr>mmap_base := mb\<rparr>))))
        else if addr mod 4096 \<noteq> 0 then Inr (Inl ''mmap: addr not page-aligned'', m)
        else bindR (vma_overlaps addr n (areas m)) (\<lambda>ov.
               if ov then Inr (Inl ''mmap: MAP_FIXED conflict with existing VMA'', m)
               else mmap_add \<lparr>vma_start = addr, size_pages = n, vma_flags = flags, kind = Anonymous\<rparr> m))"

definition sys_mmap_anon :: "nat \<Rightarrow> nat \<Rightarrow> u32 \<Rightarrow> mm \<Rightarrow> ((string + nat) \<times> mm) res" where
  "sys_mmap_anon addr len prot m =
     (if len = 0 then Inr (Inl ''mmap: zero length'', m)
      else if len \<ge> HUGE_2M then mmap_huge addr len (mmap_flags prot) m
      else mmap_small addr len (mmap_flags prot) m)"

section \<open>Well-formed tables\<close>

definition area :: "vma \<Rightarrow> nat set" where
  "area v = {vma_start v ..< vma_start v + 4096 * size_pages v}"

definition vma_ok :: "vma \<Rightarrow> bool" where
  "vma_ok v \<longleftrightarrow> 4096 dvd vma_start v \<and> vma_start v + 4096 * size_pages v < 2 ^ 64"

definition vset :: "vmas \<Rightarrow> vma set" where
  "vset es = {v. Some v \<in> set es}"

definition vmas_ok :: "vmas \<Rightarrow> bool" where
  "vmas_ok es \<longleftrightarrow> length es = MAX_VMAS_PER_PROCESS \<and> (\<forall>v \<in> vset es. vma_ok v)"

definition vmas_disjoint :: "vmas \<Rightarrow> bool" where
  "vmas_disjoint es \<longleftrightarrow>
     (\<forall>i j v w. i < length es \<longrightarrow> j < length es \<longrightarrow> i \<noteq> j \<longrightarrow> es ! i = Some v \<longrightarrow> es ! j = Some w \<longrightarrow>
        disjnt (area v) (area w))"

lemma vset_simps [simp]: "vset [] = {}" "vset (None # es) = vset es" "vset (Some v # es) = insert v (vset es)"
  by (auto simp: vset_def)

lemma vset_nth: "i < length es \<Longrightarrow> es ! i = Some v \<Longrightarrow> v \<in> vset es"
  by (metis mem_Collect_eq nth_mem vset_def)

lemma vset_update: "vset (es[i := Some v]) \<subseteq> insert v (vset (es[i := None]))"
proof
  fix u assume "u \<in> vset (es[i := Some v])"
  then obtain j where j: "j < length es" "es[i := Some v] ! j = Some u"
    by (auto simp: vset_def in_set_conv_nth)
  then show "u \<in> insert v (vset (es[i := None]))"
    using vset_nth [of j "es[i := None]" u] by (cases "j = i") auto
qed

lemma vset_update_None: "vset (es[i := None]) \<subseteq> vset es"
  using set_update_subset_insert [of es i None] by (auto simp: vset_def)

lemma vma_end_ok [simp]: "vma_ok v \<Longrightarrow> vma_end v = Inr (vma_start v + 4096 * size_pages v)"
  by (simp add: vma_end_def vma_ok_def mult.commute)

lemma vma_contains_ok: "vma_ok v \<Longrightarrow> vma_contains v addr = Inr (addr \<in> area v)"
  by (simp add: vma_contains_def area_def)

lemma vma_find_ok:
  "\<forall>v \<in> vset es. vma_ok v \<Longrightarrow>
     \<exists>r. vma_find addr es = Inr r \<and>
       (case r of None \<Rightarrow> \<forall>v \<in> vset es. addr \<notin> area v | Some v \<Rightarrow> v \<in> vset es \<and> addr \<in> area v)"
proof (induction es)
  case Nil
  then show ?case by simp
next
  case (Cons x es)
  then obtain r where r: "vma_find addr es = Inr r"
      "case r of None \<Rightarrow> \<forall>v \<in> vset es. addr \<notin> area v | Some v \<Rightarrow> v \<in> vset es \<and> addr \<in> area v"
    by (cases x) auto
  show ?case
  proof (cases "\<exists>v. x = Some v \<and> addr \<in> area v")
    case True
    with Cons show ?thesis by (auto simp: vma_contains_ok)
  next
    case False
    with r Cons.prems show ?thesis
      by (intro exI [of _ r]) (cases x; auto simp: vma_contains_ok split: option.splits)
  qed
qed

lemma vma_add_Inr:
  "vma_add v es = Inr es' \<Longrightarrow> \<exists>i < length es. es ! i = None \<and> es' = es[i := Some v]"
proof (induction v es arbitrary: es' rule: vma_add.induct)
  case (3 v w es)
  then obtain zs where "vma_add v es = Inr zs" "es' = Some w # zs"
    by (cases "vma_add v es") auto
  with 3 obtain i where "i < length es" "es ! i = None" "zs = es[i := Some v]" by blast
  with \<open>es' = Some w # zs\<close> show ?case by (intro exI [of _ "Suc i"]) simp
qed auto

lemma vma_add_Inl: "vma_add v es = Inl e \<Longrightarrow> None \<notin> set es"
proof (induction v es rule: vma_add.induct)
  case (3 v w es)
  then show ?case by (cases "vma_add v es") auto
qed auto

lemma vma_remove_Inr:
  "vma_remove s es = Inr (v, es') \<Longrightarrow>
     \<exists>i < length es. es ! i = Some v \<and> vma_start v = s \<and> es' = es[i := None]"
proof (induction s es arbitrary: es' rule: vma_remove.induct)
  case (2 s es)
  then obtain zs where "vma_remove s es = Inr (v, zs)" "es' = None # zs"
    by (cases "vma_remove s es") auto
  with 2 obtain i where "i < length es" "es ! i = Some v" "vma_start v = s" "zs = es[i := None]" by blast
  with \<open>es' = None # zs\<close> show ?case by (intro exI [of _ "Suc i"]) simp
next
  case (3 s w es)
  show ?case
  proof (cases "vma_start w = s")
    case True
    with 3 show ?thesis by (intro exI [of _ 0]) simp
  next
    case False
    then obtain zs where "vma_remove s es = Inr (v, zs)" "es' = Some w # zs"
      using 3(2) by (cases "vma_remove s es") auto
    with 3 False obtain i where "i < length es" "es ! i = Some v" "vma_start v = s" "zs = es[i := None]" by blast
    with \<open>es' = Some w # zs\<close> show ?thesis by (intro exI [of _ "Suc i"]) simp
  qed
qed simp

lemma vma_remove_Inl: "vma_remove s es = Inl e \<Longrightarrow> \<forall>v \<in> vset es. vma_start v \<noteq> s"
proof (induction s es rule: vma_remove.induct)
  case (2 s es)
  then show ?case by (cases "vma_remove s es") auto
next
  case (3 s w es)
  then show ?case by (cases "vma_remove s es") (auto split: if_splits)
qed auto

lemma any_overlap_ok:
  "\<forall>v \<in> vset es. vma_ok v \<Longrightarrow>
     any_overlap s e es = Inr (\<exists>v \<in> vset es. vma_start v < e \<and> s < vma_start v + 4096 * size_pages v)"
  by (induction s e es rule: any_overlap.induct) auto

lemma no_overlap_disjnt:
  "\<not> (vma_start v < e \<and> s < vma_start v + 4096 * size_pages v) \<Longrightarrow> disjnt {s ..< e} (area v)"
  by (auto simp: disjnt_iff area_def)

lemma vmas_disjointD:
  "vmas_disjoint es \<Longrightarrow> i < length es \<Longrightarrow> j < length es \<Longrightarrow> i \<noteq> j \<Longrightarrow> es ! i = Some v \<Longrightarrow> es ! j = Some w \<Longrightarrow>
     disjnt (area v) (area w)"
  by (simp add: vmas_disjoint_def)

lemma vmas_disjoint_update:
  assumes dis: "vmas_disjoint es" and new: "\<forall>w \<in> vset (es[i := None]). disjnt (area u) (area w)"
  shows "vmas_disjoint (es[i := Some u])"
  unfolding vmas_disjoint_def
proof (intro allI impI)
  fix j k v w
  assume jk: "j < length (es[i := Some u])" "k < length (es[i := Some u])" "j \<noteq> k"
    and v: "es[i := Some u] ! j = Some v" and w: "es[i := Some u] ! k = Some w"
  have other: "x \<in> vset (es[i := None])" if "l < length es" "l \<noteq> i" "es ! l = Some x" for l x
    using that by (intro vset_nth [of l]) auto
  consider "j = i" | "k = i" | "j \<noteq> i" "k \<noteq> i" by blast
  then show "disjnt (area v) (area w)"
  proof cases
    case 1
    with jk v w other [of k w] new show ?thesis by auto
  next
    case 2
    with jk v w other [of j v] new show ?thesis by (auto simp: disjnt_sym)
  next
    case 3
    with jk v w vmas_disjointD [OF dis, of j k v w] show ?thesis by simp
  qed
qed

lemma vmas_disjoint_remove: "vmas_disjoint es \<Longrightarrow> vmas_disjoint (es[i := None])"
  unfolding vmas_disjoint_def
proof (intro allI impI)
  fix j k v w
  assume dis: "\<forall>i j v w. i < length es \<longrightarrow> j < length es \<longrightarrow> i \<noteq> j \<longrightarrow> es ! i = Some v \<longrightarrow> es ! j = Some w \<longrightarrow>
      disjnt (area v) (area w)"
    and jk: "j < length (es[i := None])" "k < length (es[i := None])" "j \<noteq> k"
    and v: "es[i := None] ! j = Some v" and w: "es[i := None] ! k = Some w"
  then have "es ! j = Some v" "es ! k = Some w" by (cases "j = i"; cases "k = i"; simp)+
  with dis jk show "disjnt (area v) (area w)" by simp
qed

section \<open>Stack growth\<close>

lemma grow_target_total:
  "\<forall>v \<in> vset es. vma_ok v \<Longrightarrow> \<exists>r. grow_target page i es = Inr r"
  by (induction page i es rule: grow_target.induct) (auto simp: Let_def)

lemma grow_target_Some:
  "grow_target page i es = Inr (Some (k, s, n)) \<Longrightarrow> \<forall>v \<in> vset es. vma_ok v \<Longrightarrow>
     \<exists>j v. k = i + j \<and> j < length es \<and> es ! j = Some v \<and> kind v = GrowableStack \<and> s = vma_start v \<and>
       page < vma_start v \<and> (vma_start v - page) div 4096 \<le> STACK_GROWTH_GUARD_PAGES \<and>
       n = (vma_start v + 4096 * size_pages v - page) div 4096 \<and> n \<le> STACK_MAX_PAGES"
proof (induction es arbitrary: i)
  case Nil
  then show ?case by simp
next
  case (Cons x es)
  let ?hit = "\<lambda>v. kind v = GrowableStack \<and> page < vma_start v \<and>
    (vma_start v - page) div 4096 \<le> STACK_GROWTH_GUARD_PAGES \<and>
    (vma_start v + 4096 * size_pages v - page) div 4096 \<le> STACK_MAX_PAGES"
  show ?case
  proof (cases "\<exists>v. x = Some v \<and> ?hit v")
    case True
    then obtain v where "x = Some v" "?hit v" by blast
    with Cons.prems show ?thesis by (intro exI [of _ 0] exI [of _ v]) (auto simp: Let_def)
  next
    case False
    with Cons.prems have rec: "grow_target page (Suc i) es = Inr (Some (k, s, n))" "\<forall>v \<in> vset es. vma_ok v"
      by (cases x; auto simp: Let_def split: if_splits)+
    from Cons.IH [OF rec] obtain j w where "k = Suc i + j" "j < length es" "es ! j = Some w" "kind w = GrowableStack"
      "s = vma_start w" "page < vma_start w" "(vma_start w - page) div 4096 \<le> STACK_GROWTH_GUARD_PAGES"
      "n = (vma_start w + 4096 * size_pages w - page) div 4096" "n \<le> STACK_MAX_PAGES" by blast
    then show ?thesis by (intro exI [of _ "Suc j"] exI [of _ w]) simp
  qed
qed

section \<open>Mappings\<close>

definition mm_ok :: "mm \<Rightarrow> bool" where
  "mm_ok m \<longleftrightarrow> vmas_ok (areas m) \<and> 4096 dvd mmap_base m"

text \<open>What \<^verbatim>\<open>sys_mmap_anon\<close> promises of its result.\<close>

definition mmap_post :: "nat \<Rightarrow> nat \<Rightarrow> mm \<Rightarrow> string + nat \<Rightarrow> mm \<Rightarrow> bool" where
  "mmap_post addr len m r m' \<longleftrightarrow>
     (case r of
        Inl _ \<Rightarrow> areas m' = areas m
      | Inr a \<Rightarrow> mm_ok m' \<and> vmas_disjoint (areas m') \<and> (addr \<noteq> 0 \<longrightarrow> a = addr) \<and>
                 vset (areas m) \<subseteq> vset (areas m') \<and>
                 (\<exists>v \<in> vset (areas m'). vma_start v = a \<and> len \<le> 4096 * size_pages v))"

lemma vmas_ok_update: "vmas_ok es \<Longrightarrow> vma_ok v \<Longrightarrow> vmas_ok (es[i := Some v])"
  using vset_update [of es i v] vset_update_None [of es i] by (auto simp: vmas_ok_def)

lemma vmas_ok_remove: "vmas_ok es \<Longrightarrow> vmas_ok (es[i := None])"
  using vset_update_None [of es i] by (auto simp: vmas_ok_def)

lemma vset_add:
  assumes "i < length es" "es ! i = None"
  shows "vset (es[i := None]) = vset es" "vset (es[i := Some v]) = insert v (vset es)"
proof -
  show 1: "vset (es[i := None]) = vset es" using assms by (metis list_update_id)
  have "v \<in> vset (es[i := Some v])" using assms by (intro vset_nth [of i]) auto
  moreover have "vset es \<subseteq> vset (es[i := Some v])"
  proof
    fix u assume "u \<in> vset es"
    then obtain j where "j < length es" "es ! j = Some u" by (auto simp: vset_def in_set_conv_nth)
    with assms show "u \<in> vset (es[i := Some v])" by (intro vset_nth [of j]) (cases "j = i"; simp)+
  qed
  ultimately show "vset (es[i := Some v]) = insert v (vset es)" using vset_update [of es i v] 1 by blast
qed

lemma mmap_add_ok:
  assumes "vmas_ok (areas m)" "vmas_disjoint (areas m)" "vma_ok v" "4096 dvd mmap_base m'"
    and "\<forall>w \<in> vset (areas m). disjnt (area v) (area w)" and "areas m' = areas m"
    and "addr \<noteq> 0 \<longrightarrow> vma_start v = addr" "len \<le> 4096 * size_pages v"
  shows "\<exists>r m''. mmap_add v m' = Inr (r, m'') \<and> mmap_post addr len m r m''"
proof (cases "vma_add v (areas m)")
  case (Inl e)
  with assms(6) show ?thesis by (simp add: mmap_add_def mmap_post_def)
next
  case (Inr es)
  then obtain i where i: "i < length (areas m)" "areas m ! i = None" "es = (areas m)[i := Some v]"
    using vma_add_Inr by blast
  note vs = vset_add [OF i(1,2)]
  have "vmas_ok es" "vmas_disjoint es"
    unfolding i(3) using assms(1-3,5) vs(1) by (auto intro!: vmas_ok_update vmas_disjoint_update)
  moreover have "vset es = insert v (vset (areas m))" unfolding i(3) by (rule vs(2))
  ultimately show ?thesis using Inr assms(4,6-8)
    by (auto simp: mmap_add_def mmap_post_def mm_ok_def)
qed

lemma vma_overlaps_ok:
  assumes "vmas_ok es" "s + 4096 * n < 2 ^ 64"
  shows "\<exists>b. vma_overlaps s n es = Inr b \<and> (\<not> b \<longrightarrow> (\<forall>w \<in> vset es. disjnt {s ..< s + 4096 * n} (area w)))"
  using assms any_overlap_ok [of es s "s + 4096 * n"] no_overlap_disjnt [of _ "s + 4096 * n" s]
  by (auto simp: vma_overlaps_def vmas_ok_def mult.commute)

lemma round_up:
  fixes x k :: nat
  assumes "0 < k"
  shows "x \<le> (x + k - 1) div k * k" "(x + k - 1) div k * k < x + k" "k dvd (x + k - 1) div k * k"
proof -
  have "(x + k - 1) div k * k + (x + k - 1) mod k = x + k - 1" "(x + k - 1) mod k < k"
    using assms by simp_all
  then show "x \<le> (x + k - 1) div k * k" "(x + k - 1) div k * k < x + k" by linarith+
qed simp

section \<open>Properties\<close>

lemma vma_find_vmas_ok:
  assumes "vmas_ok es"
  shows "\<exists>r. vma_find addr es = Inr r \<and>
      (case r of None \<Rightarrow> \<forall>v \<in> vset es. addr \<notin> area v | Some v \<Rightarrow> v \<in> vset es \<and> addr \<in> area v)"
  using assms vma_find_ok [of es addr] by (simp add: vmas_ok_def)

lemma vma_find_member:
  assumes "vmas_ok es" "v \<in> vset es" "addr \<in> area v"
  shows "\<exists>w. vma_find addr es = Inr (Some w) \<and> w \<in> vset es \<and> addr \<in> area w"
  using vma_find_vmas_ok [OF assms(1), of addr] assms(2,3) by (auto split: option.splits)

lemma vma_find_none:
  assumes "vmas_ok es" "\<forall>v \<in> vset es. addr \<notin> area v"
  shows "vma_find addr es = Inr None"
  using vma_find_vmas_ok [OF assms(1), of addr] assms(2) by (auto split: option.splits)

text \<open>
  C10. Lookup in a well-formed table never panics: it returns an area that contains the address
  exactly when one is registered; after a successful \<^verbatim>\<open>add\<close> the new area's addresses are found,
  and after removing it from a table without overlaps they are not.
\<close>
theorem vma_table_correct:
  assumes "vmas_ok es" "vmas_disjoint es"
  shows "(\<forall>addr. \<exists>r. vma_find addr es = Inr r \<and>
      (case r of None \<Rightarrow> \<forall>v \<in> vset es. addr \<notin> area v | Some v \<Rightarrow> v \<in> vset es \<and> addr \<in> area v)) \<and>
    (\<forall>v es'. vma_ok v \<and> vma_add v es = Inr es' \<longrightarrow>
      vmas_ok es' \<and> (\<forall>addr \<in> area v. \<exists>w. vma_find addr es' = Inr (Some w))) \<and>
    (\<forall>s w es'. vma_remove s es = Inr (w, es') \<longrightarrow>
      w \<in> vset es \<and> vma_start w = s \<and> vmas_ok es' \<and> vmas_disjoint es' \<and>
      (\<forall>addr \<in> area w. vma_find addr es' = Inr None))"
proof (intro conjI allI impI)
  show "\<exists>r. vma_find addr es = Inr r \<and>
      (case r of None \<Rightarrow> \<forall>v \<in> vset es. addr \<notin> area v | Some v \<Rightarrow> v \<in> vset es \<and> addr \<in> area v)" for addr
    by (rule vma_find_vmas_ok [OF assms(1)])
next
  fix v es' assume v: "vma_ok v \<and> vma_add v es = Inr es'"
  then obtain i where i: "i < length es" "es' = es[i := Some v]" using vma_add_Inr by blast
  show ok: "vmas_ok es'" unfolding i(2) using v assms(1) by (intro vmas_ok_update) auto
  have "v \<in> vset es'" using i by (intro vset_nth [of i]) auto
  then show "\<forall>addr \<in> area v. \<exists>w. vma_find addr es' = Inr (Some w)"
    using vma_find_member [OF ok] by blast
next
  fix s w es' assume "vma_remove s es = Inr (w, es')"
  then obtain i where i: "i < length es" "es ! i = Some w" "vma_start w = s" "es' = es[i := None]"
    using vma_remove_Inr by blast
  show "w \<in> vset es" "vma_start w = s" "vmas_disjoint es'"
    using i vset_nth vmas_disjoint_remove [OF assms(2)] by auto
  show ok: "vmas_ok es'" unfolding i(4) by (rule vmas_ok_remove [OF assms(1)])
  have "disjnt (area w) (area u)" if u: "u \<in> vset es'" for u
  proof -
    obtain j where "j < length es" "es' ! j = Some u"
      using u i(4) by (auto simp: vset_def in_set_conv_nth)
    with i have "j \<noteq> i" "es ! j = Some u" by (cases "j = i"; simp)+
    with \<open>j < length es\<close> i show ?thesis by (intro vmas_disjointD [OF assms(2), of i j]) auto
  qed
  then show "\<forall>addr \<in> area w. vma_find addr es' = Inr None"
    by (auto intro!: vma_find_none [OF ok] simp: disjnt_iff)
qed

text \<open>
  C11. \<^verbatim>\<open>grow_stack\<close> on a well-formed table of disjoint areas never panics. When it grows an area,
  that area was a growable stack whose bottom was at most the guard distance above the faulting
  page, it now contains the address, its top is unchanged, it is within the cap, and the areas are
  still disjoint. Otherwise the table is unchanged.
\<close>
theorem grow_stack_correct:
  assumes ok: "vmas_ok es" and dis: "vmas_disjoint es"
  shows "\<exists>r es'. grow_stack addr es = Inr (r, es') \<and> vmas_ok es' \<and> vmas_disjoint es' \<and>
    (case r of None \<Rightarrow> es' = es
     | Some v' \<Rightarrow> \<exists>i < length es. \<exists>v. es ! i = Some v \<and> kind v = GrowableStack \<and> es' = es[i := Some v'] \<and>
         addr \<in> area v' \<and> area v \<subseteq> area v' \<and> kind v' = kind v \<and> vma_flags v' = vma_flags v \<and>
         vma_start v' + 4096 * size_pages v' = vma_start v + 4096 * size_pages v \<and>
         vma_start v - vma_start v' \<le> 4096 * STACK_GROWTH_GUARD_PAGES \<and> size_pages v' \<le> STACK_MAX_PAGES)"
proof -
  define page where "page = addr div 4096 * 4096"
  have page: "page \<le> addr" "addr < page + 4096" "4096 dvd page" by (simp_all add: page_def)
  have vok: "\<forall>v \<in> vset es. vma_ok v" using ok by (simp add: vmas_ok_def)
  obtain t where t: "grow_target page 0 es = Inr t" using grow_target_total [OF vok] by blast
  show ?thesis
  proof (cases t)
    case None
    with t ok dis show ?thesis by (intro exI [of _ None] exI [of _ es]) (simp add: grow_stack_def page_def)
  next
    case (Some tr)
    then obtain k s n where tr: "tr = (k, s, n)" by (cases tr)
    obtain v where v: "k < length es" "es ! k = Some v" "kind v = GrowableStack" "s = vma_start v"
      "page < vma_start v" "(vma_start v - page) div 4096 \<le> STACK_GROWTH_GUARD_PAGES"
      "n = (vma_start v + 4096 * size_pages v - page) div 4096" "n \<le> STACK_MAX_PAGES"
      using grow_target_Some [OF _ vok, of page 0 k s n] t Some tr by auto
    have vv: "vma_ok v" using vset_nth [OF v(1,2)] vok by blast
    have vok': "\<forall>w \<in> vset (es[k := None]). vma_ok w" using vok vset_update_None [of es k] by blast
    let ?ov = "\<exists>w \<in> vset (es[k := None]). vma_start w < s \<and> page < vma_start w + 4096 * size_pages w"
    let ?v = "v\<lparr>vma_start := page, size_pages := n\<rparr>"
    have eq: "grow_stack addr es = Inr (if ?ov then (None, es) else (Some ?v, es[k := Some ?v]))"
      using t Some tr v(2) any_overlap_ok [OF vok', of page s]
      by (simp add: grow_stack_def page_def [symmetric] Let_def)
    show ?thesis
    proof (cases ?ov)
      case True
      with eq ok dis show ?thesis by auto
    next
      case False
      obtain a b where ab: "vma_start v = 4096 * a" "page = 4096 * b"
        using vv page(3) by (auto simp: vma_ok_def elim!: dvdE)
      have "4096 * a + 4096 * size_pages v - 4096 * b = 4096 * (a + size_pages v - b)"
        "4096 * a - 4096 * b = 4096 * (a - b)" by simp_all
      then have n: "n = a + size_pages v - b" and gap: "b < a" "a - b \<le> STACK_GROWTH_GUARD_PAGES"
        using v(5-7) unfolding ab by simp_all
      have top: "page + 4096 * n = vma_start v + 4096 * size_pages v" unfolding ab n using gap(1) by simp
      have vok2: "vma_ok ?v" using vv page(3) top by (simp add: vma_ok_def)
      have "disjnt (area ?v) (area w)" if w: "w \<in> vset (es[k := None])" for w
      proof -
        obtain j where j: "j < length es" "es[k := None] ! j = Some w"
          using w by (auto simp: vset_def in_set_conv_nth)
        then have "j \<noteq> k" "es ! j = Some w" by (cases "j = k"; simp)+
        then have "disjnt (area v) (area w)" using j(1) v(1,2) by (intro vmas_disjointD [OF dis]) auto
        moreover have "disjnt {page ..< s} (area w)" using False w by (intro no_overlap_disjnt) blast
        moreover have "area ?v = {page ..< s} \<union> area v" unfolding area_def using top v(4,5) by auto
        ultimately show ?thesis by (auto simp: disjnt_iff)
      qed
      then have "vmas_disjoint (es[k := Some ?v])" using dis by (intro vmas_disjoint_update) blast+
      moreover have "vmas_ok (es[k := Some ?v])" using ok vok2 by (rule vmas_ok_update)
      moreover have "\<exists>i < length es. \<exists>u. es ! i = Some u \<and> kind u = GrowableStack \<and> es[k := Some ?v] = es[i := Some ?v] \<and>
         addr \<in> area ?v \<and> area u \<subseteq> area ?v \<and> kind ?v = kind u \<and> vma_flags ?v = vma_flags u \<and>
         vma_start ?v + 4096 * size_pages ?v = vma_start u + 4096 * size_pages u \<and>
         vma_start u - vma_start ?v \<le> 4096 * STACK_GROWTH_GUARD_PAGES \<and> size_pages ?v \<le> STACK_MAX_PAGES"
      proof (intro exI [of _ k] exI [of _ v] conjI)
        have "page + 4096 \<le> vma_start v" unfolding ab using gap(1) by simp
        then show "addr \<in> area ?v" "area v \<subseteq> area ?v" using page top by (auto simp: area_def)
        show "vma_start v - vma_start ?v \<le> 4096 * STACK_GROWTH_GUARD_PAGES" unfolding ab using gap by (simp add: ab)
      qed (use v top in simp_all)
      moreover have "grow_stack addr es = Inr (Some ?v, es[k := Some ?v])" using eq False by (simp only: if_False)
      ultimately show ?thesis by (intro exI [of _ "Some ?v"] exI [of _ "es[k := Some ?v]"]) (simp only: option.case simp_thms)
    qed
  qed
qed

lemma mmap_huge_ok:
  assumes "mm_ok m" "vmas_disjoint (areas m)" "addr < 2 ^ 47" "len < 2 ^ 47" "mmap_base m < 2 ^ 62"
    and bump: "addr = 0 \<longrightarrow> (\<forall>w \<in> vset (areas m). disjnt {mmap_base m ..< mmap_base m + len + 2 * HUGE_2M} (area w))"
  shows "\<exists>r m'. mmap_huge addr len flags m = Inr (r, m') \<and> mmap_post addr len m r m'"
proof -
  define la where "la = (len + HUGE_2M - 1) div HUGE_2M * HUGE_2M"
  define base where "base = (mmap_base m + HUGE_2M - 1) div HUGE_2M * HUGE_2M"
  have H: "0 < HUGE_2M" "HUGE_2M = 4096 * 512" by (simp_all add: HUGE_2M_def)
  note la = round_up [OF H(1), of len, folded la_def] and base = round_up [OF H(1), of "mmap_base m", folded base_def]
  have pages: "4096 * (la div 4096) = la" "4096 dvd base"
    using la(3) base(3) unfolding H(2) by (auto dest: dvd_mult_left)
  have big: "len + HUGE_2M < 2 ^ 64" "mmap_base m + HUGE_2M < 2 ^ 64" "base + la < 2 ^ 64" "base + la + HUGE_2M < 2 ^ 64"
      "addr + la < 2 ^ 64"
    using assms(3-5) la(2) base(2) by (simp_all add: HUGE_2M_def)
  show ?thesis
  proof (cases "addr = 0")
    case True
    let ?v = "\<lparr>vma_start = base, size_pages = la div 4096, vma_flags = flags, kind = Huge2M\<rparr>"
    have "\<exists>r m''. mmap_add ?v (m\<lparr>mmap_base := base + la + HUGE_2M\<rparr>) = Inr (r, m'') \<and> mmap_post addr len m r m''"
    proof (rule mmap_add_ok)
      have "{base ..< base + la} \<subseteq> {mmap_base m ..< mmap_base m + len + 2 * HUGE_2M}" using la base by auto
      moreover have "area ?v = {base ..< base + la}" by (simp add: area_def pages)
      ultimately show "\<forall>w \<in> vset (areas m). disjnt (area ?v) (area w)" using bump True by (auto simp: disjnt_iff)
      have "4096 dvd la" using pages(1) by (metis dvd_triv_left)
      with pages(2) show "4096 dvd mmap_base (m\<lparr>mmap_base := base + la + HUGE_2M\<rparr>)" by (simp add: H(2))
    qed (use assms(1,2) True pages big la in \<open>simp_all add: vma_ok_def mm_ok_def\<close>)
    with True big show ?thesis
      by (simp add: mmap_huge_def Let_def la_def [symmetric] base_def [symmetric] del: One_nat_def)
  next
    case False
    let ?v = "\<lparr>vma_start = addr, size_pages = la div 4096, vma_flags = flags, kind = Huge2M\<rparr>"
    obtain b where b: "vma_overlaps addr (la div 4096) (areas m) = Inr b"
        "\<not> b \<longrightarrow> (\<forall>w \<in> vset (areas m). disjnt {addr ..< addr + la} (area w))"
      using vma_overlaps_ok [of "areas m" addr "la div 4096"] assms(1) big(5) pages(1) by (auto simp: mm_ok_def)
    have "\<exists>r m''. mmap_add ?v m = Inr (r, m'') \<and> mmap_post addr len m r m''" if "addr mod HUGE_2M = 0" "\<not> b"
    proof (rule mmap_add_ok)
      have "4096 dvd addr" using that(1) unfolding H(2) by (metis dvd_mult_left mod_0_imp_dvd)
      then show "vma_ok ?v" using big(5) pages(1) by (simp add: vma_ok_def)
      show "\<forall>w \<in> vset (areas m). disjnt (area ?v) (area w)" using b(2) that(2) by (simp add: area_def pages)
    qed (use assms(1,2) pages la in \<open>simp_all add: mm_ok_def\<close>)
    with False big b(1) show ?thesis
      by (auto simp: mmap_huge_def Let_def la_def [symmetric] mmap_post_def simp del: One_nat_def)
  qed
qed

lemma mmap_small_ok:
  assumes "mm_ok m" "vmas_disjoint (areas m)" "addr < 2 ^ 47" "len < 2 ^ 47" "mmap_base m < 2 ^ 62"
    and bump: "addr = 0 \<longrightarrow> (\<forall>w \<in> vset (areas m). disjnt {mmap_base m ..< mmap_base m + len + 2 * HUGE_2M} (area w))"
  shows "\<exists>r m'. mmap_small addr len flags m = Inr (r, m') \<and> mmap_post addr len m r m'"
proof -
  define n where "n = (len + 4095) div 4096"
  have n: "len \<le> 4096 * n" "4096 * n < len + 4096"
    using round_up [of 4096 len] by (simp_all add: n_def mult.commute add.commute)
  have big: "len + 4095 < 2 ^ 64" "n * 4096 < 2 ^ 64" "mmap_base m + n * 4096 < 2 ^ 64"
      "mmap_base m + n * 4096 + 4096 < 2 ^ 64" "addr + 4096 * n < 2 ^ 64"
    using assms(3-5) n(2) by (simp_all add: mult.commute)
  have base: "4096 dvd mmap_base m" using assms(1) by (simp add: mm_ok_def)
  show ?thesis
  proof (cases "addr = 0")
    case True
    let ?v = "\<lparr>vma_start = mmap_base m, size_pages = n, vma_flags = flags, kind = Anonymous\<rparr>"
    have "\<exists>r m''. mmap_add ?v (m\<lparr>mmap_base := mmap_base m + n * 4096 + 4096\<rparr>) = Inr (r, m'') \<and> mmap_post addr len m r m''"
    proof (rule mmap_add_ok)
      have "{mmap_base m ..< mmap_base m + 4096 * n} \<subseteq> {mmap_base m ..< mmap_base m + len + 2 * HUGE_2M}"
        using n by (auto simp: HUGE_2M_def)
      then show "\<forall>w \<in> vset (areas m). disjnt (area ?v) (area w)" using bump True by (auto simp: disjnt_iff area_def)
    qed (use assms(1,2) True big base n in \<open>simp_all add: vma_ok_def mm_ok_def mult.commute\<close>)
    with True big show ?thesis by (simp add: mmap_small_def Let_def n_def [symmetric])
  next
    case False
    let ?v = "\<lparr>vma_start = addr, size_pages = n, vma_flags = flags, kind = Anonymous\<rparr>"
    obtain b where b: "vma_overlaps addr n (areas m) = Inr b"
        "\<not> b \<longrightarrow> (\<forall>w \<in> vset (areas m). disjnt {addr ..< addr + 4096 * n} (area w))"
      using vma_overlaps_ok [of "areas m" addr n] assms(1) big(5) by (auto simp: mm_ok_def)
    have "\<exists>r m''. mmap_add ?v m = Inr (r, m'') \<and> mmap_post addr len m r m''" if "addr mod 4096 = 0" "\<not> b"
    proof (rule mmap_add_ok)
      show "vma_ok ?v" using big(5) that(1) by (simp add: vma_ok_def mod_0_imp_dvd)
      show "\<forall>w \<in> vset (areas m). disjnt (area ?v) (area w)" using b(2) that(2) by (simp add: area_def)
    qed (use assms(1,2) n in \<open>simp_all add: mm_ok_def\<close>)
    with False big b(1) show ?thesis
      by (auto simp: mmap_small_def Let_def n_def [symmetric] mmap_post_def)
  qed
qed


lemma mmap_add_Inr:
  assumes "mmap_add v m = Inr (Inr a, m')"
  shows "a = vma_start v \<and> (\<exists>i < length (areas m). areas m ! i = None \<and> m' = m\<lparr>areas := (areas m)[i := Some v]\<rparr>)"
  using assms vma_add_Inr [of v "areas m"] by (auto simp: mmap_add_def split: sum.splits)

text \<open>
  The bump pointer is not checked against existing areas: after a mapping at a fixed address
  equal to the bump pointer, a mapping at a kernel-chosen address returns the same address, and the
  two areas overlap.
\<close>
theorem mmap_bump_overlaps_fixed:
  assumes "mm_ok m" "0 < mmap_base m" "mmap_base m < 2 ^ 47" "0 < len" "len < HUGE_2M"
    and "sys_mmap_anon (mmap_base m) len prot m = Inr (Inr a, m1)" "sys_mmap_anon 0 len prot m1 = Inr (Inr b, m2)"
  shows "b = a \<and> \<not> vmas_disjoint (areas m2)"
proof -
  define n where "n = (len + 4095) div 4096"
  define v where "v = \<lparr>vma_start = mmap_base m, size_pages = n, vma_flags = mmap_flags prot, kind = Anonymous\<rparr>"
  have small: "sys_mmap_anon x len prot k = mmap_small x len (mmap_flags prot) k" for x k
    using assms(4,5) by (simp add: sys_mmap_anon_def)
  have len: "len + 4095 < 2 ^ 64" using assms(5) by (simp add: HUGE_2M_def)
  have "mmap_add v m = Inr (Inr a, m1)"
    using assms(2,6) len unfolding small mmap_small_def
    by (auto simp: Let_def n_def [symmetric] v_def bindR_eq_Inr split: if_splits)
  then obtain i where a: "a = mmap_base m" and i: "i < length (areas m)" "m1 = m\<lparr>areas := (areas m)[i := Some v]\<rparr>"
    using mmap_add_Inr [of v m a m1] by (auto simp: v_def)
  from assms(7) len obtain mb where "mmap_add v (m1\<lparr>mmap_base := mb\<rparr>) = Inr (Inr b, m2)"
    unfolding small mmap_small_def
    by (auto simp: Let_def n_def [symmetric] v_def bindR_eq_Inr i(2))
  then obtain j where b: "b = mmap_base m" and j: "j < length (areas m1)" "areas m1 ! j = None" "areas m2 = (areas m1)[j := Some v]"
    using mmap_add_Inr [of v "m1\<lparr>mmap_base := mb\<rparr>" b m2] by (auto simp: v_def)
  have "i \<noteq> j" using i j(1,2) by auto
  then have two: "areas m2 ! i = Some v" "areas m2 ! j = Some v" "i < length (areas m2)" "j < length (areas m2)"
    using i j by auto
  have "0 < n" using assms(4) by (simp add: n_def div_greater_zero_iff)
  then have "\<not> disjnt (area v) (area v)" by (auto simp: area_def v_def disjnt_iff)
  with \<open>i \<noteq> j\<close> two a b show ?thesis unfolding vmas_disjoint_def by blast
qed

section \<open>Witnesses\<close>

definition demo_stack :: vma where
  "demo_stack = \<lparr>vma_start = 0x710000000000, size_pages = 4, vma_flags = 7, kind = GrowableStack\<rparr>"

definition demo_vmas :: vmas where
  "demo_vmas = Some demo_stack # replicate 63 None"

lemma vset_replicate_None [simp]: "vset (replicate n None) = {}"
  by (auto simp: vset_def)

lemma demo_vmas_facts: "vmas_ok demo_vmas" "vmas_disjoint demo_vmas" "vset demo_vmas = {demo_stack}"
proof -
  show "vset demo_vmas = {demo_stack}" by (simp add: demo_vmas_def)
  then show "vmas_ok demo_vmas" by (simp add: vmas_ok_def demo_vmas_def vma_consts vma_ok_def demo_stack_def)
  show "vmas_disjoint demo_vmas"
    unfolding vmas_disjoint_def demo_vmas_def by (auto simp: nth_Cons split: nat.splits)
qed

lemma mm_new_facts: "mm_ok mm_new" "vmas_disjoint (areas mm_new)" "vset (areas mm_new) = {}"
  by (auto simp: mm_ok_def mm_new_def vmas_ok_def vmas_new_def vma_consts USER_MMAP_BASE_def vmas_disjoint_def)

lemma any_overlap_replicate [simp]: "any_overlap s e (replicate n None) = Inr False"
  by (induction n) simp_all

lemma vma_add_replicate: "0 < n \<Longrightarrow> vma_add v (replicate n None) = Inr (Some v # replicate (n - 1) None)"
  by (cases n) simp_all

theorem vma_table_correct_witness: "\<exists>w. vma_find 0x710000001234 demo_vmas = Inr (Some w) \<and> w = demo_stack"
  using vma_table_correct [OF demo_vmas_facts(1,2), THEN conjunct1, THEN spec, of "0x710000001234"]
  by (auto simp: demo_vmas_facts(3) area_def demo_stack_def split: option.splits)

theorem grow_stack_correct_witness:
  "\<exists>v' es'. grow_stack 0x70FFFFFFF008 demo_vmas = Inr (Some v', es') \<and> size_pages v' = 5 \<and>
     0x70FFFFFFF008 \<in> area v' \<and> vmas_disjoint es'"
proof -
  have "\<exists>v' es'. grow_stack 0x70FFFFFFF008 demo_vmas = Inr (Some v', es') \<and> size_pages v' = 5"
    by (simp add: grow_stack_def demo_vmas_def demo_stack_def vma_consts vma_end_def Let_def)
  then obtain v' es' where g: "grow_stack 0x70FFFFFFF008 demo_vmas = Inr (Some v', es')" "size_pages v' = 5" by blast
  with grow_stack_correct [OF demo_vmas_facts(1,2), of "0x70FFFFFFF008"] show ?thesis by auto
qed


theorem mmap_bump_overlaps_fixed_witness:
  "\<exists>m1 m2. sys_mmap_anon 0x400000000000 4096 3 mm_new = Inr (Inr 0x400000000000, m1) \<and>
     sys_mmap_anon 0 4096 3 m1 = Inr (Inr 0x400000000000, m2) \<and> \<not> vmas_disjoint (areas m2)"
proof -
  note defs = sys_mmap_anon_def mmap_small_def mmap_add_def mm_new_def vmas_new_def vma_consts HUGE_2M_def
    USER_MMAP_BASE_def Let_def vma_add_replicate vma_overlaps_def
  define m1 where "m1 = \<lparr>areas = Some \<lparr>vma_start = 0x400000000000, size_pages = 1, vma_flags = mmap_flags 3,
      kind = Anonymous\<rparr> # replicate 63 None, mmap_base = 0x400000000000\<rparr>"
  have "sys_mmap_anon 0x400000000000 4096 3 mm_new = Inr (Inr 0x400000000000, m1)"
    by (simp add: defs m1_def)
  moreover obtain m2 b where m2: "sys_mmap_anon 0 4096 3 m1 = Inr (Inr b, m2)"
    by (simp add: defs m1_def)
  ultimately show ?thesis
    using mmap_bump_overlaps_fixed [OF mm_new_facts(1), of 4096 3 "0x400000000000" m1 b m2]
    by (simp add: mm_new_def USER_MMAP_BASE_def HUGE_2M_def)
qed

end
