(* ===== verification/File_Types.thy ===== *)
theory File_Types
  imports Bytes
begin

text \<open>
  The errors of file operations and the seek arithmetic (\<^verbatim>\<open>kernel/src/process/file.rs\<close>), which pipes, the file systems
  and the descriptor table share.
\<close>

datatype file_error =
    BadFileDescriptor | InvalidArgument | IOError | NotSupported | EndOfFile | BrokenPipe | NoSpace | WouldBlock

text \<open>The offset arithmetic of \<^verbatim>\<open>lseek\<close>, with the checked addition of 64-bit signed integers.\<close>

definition compute_seek :: "int \<Rightarrow> int \<Rightarrow> int \<Rightarrow> int \<Rightarrow> file_error + int" where
  "compute_seek current sz offset whence =
     (case (if whence = 0 then Some 0 else if whence = 1 then Some current else if whence = 2 then Some sz else None) of
        None \<Rightarrow> Inl InvalidArgument
      | Some base \<Rightarrow>
          if \<not> (- (2 ^ 63) \<le> base + offset \<and> base + offset < 2 ^ 63) then Inl InvalidArgument
          else if base + offset < 0 then Inl InvalidArgument
          else Inr (base + offset))"

lemma compute_seek_range: "compute_seek current sz offset whence = Inr p \<Longrightarrow> 0 \<le> p \<and> p < 2 ^ 63"
  by (simp add: compute_seek_def split: option.splits if_splits)

end
