(* ===== verification/Ring.thy ===== *)
theory Ring
  imports Prelude
begin

text \<open>
  Ring buffers: the list a ring represents, and the contracts of the two kinds of buffers the kernel
  builds on rings, streams of bytes (pipes) and queues of messages (channels). A queue that takes and
  gives one element at a time is also a stream.
\<close>

section \<open>Rings\<close>

definition ring_list :: "nat \<Rightarrow> (nat \<Rightarrow> 'a) \<Rightarrow> nat \<Rightarrow> nat \<Rightarrow> 'a list" where
  "ring_list cap d h n = map (\<lambda>i. d ((h + i) mod cap)) [0 ..< n]"

text \<open>Store a list from position \<open>t\<close> on.\<close>

fun ring_fill :: "nat \<Rightarrow> nat \<Rightarrow> 'a list \<Rightarrow> (nat \<Rightarrow> 'a) \<Rightarrow> (nat \<Rightarrow> 'a)" where
  "ring_fill cap t [] d = d"
| "ring_fill cap t (x # xs) d = ring_fill cap (t + 1) xs (d(t mod cap := x))"

lemma length_ring_list [simp]: "length (ring_list cap d h n) = n"
  by (simp add: ring_list_def)

lemma ring_list_0 [simp]: "ring_list cap d h 0 = []"
  by (simp add: ring_list_def)

lemma mod_apart: "i < j \<Longrightarrow> j < i + cap \<Longrightarrow> (h + i) mod cap \<noteq> (h + j) mod (cap :: nat)"
proof
  assume a: "i < j" "j < i + cap" and "(h + i) mod cap = (h + j) mod cap"
  then have "cap dvd (h + j) - (h + i)" using mod_eq_dvd_iff_nat [of "h + i" "h + j" cap] by simp
  with a show False by (auto dest: dvd_imp_le)
qed

lemma ring_list_push:
  assumes "n < cap"
  shows "ring_list cap (d((h + n) mod cap := x)) h (n + 1) = ring_list cap d h n @ [x]"
proof -
  have "(h + i) mod cap \<noteq> (h + n) mod cap" if "i < n" for i using that assms by (intro mod_apart) auto
  then show ?thesis by (auto simp: ring_list_def)
qed

lemma ring_list_drop: "k \<le> n \<Longrightarrow> ring_list cap d ((h + k) mod cap) (n - k) = drop k (ring_list cap d h n)"
  by (rule nth_equalityI) (auto simp: ring_list_def mod_add_left_eq add.assoc nth_append less_diff_conv add.commute [of k])

lemma ring_list_fill:
  "n + length xs \<le> cap \<Longrightarrow> ring_list cap (ring_fill cap (h + n) xs d) h (n + length xs) = ring_list cap d h n @ xs"
proof (induction xs arbitrary: n d)
  case (Cons x xs)
  have "ring_list cap (ring_fill cap (h + (n + 1)) xs (d((h + n) mod cap := x))) h (n + 1 + length xs) =
      ring_list cap (d((h + n) mod cap := x)) h (n + 1) @ xs"
    by (rule Cons.IH) (use Cons.prems in simp)
  also have "\<dots> = ring_list cap d h n @ x # xs" using Cons.prems ring_list_push [of n cap d h x] by simp
  finally show ?case by (simp add: add.assoc)
qed simp

lemma ring_fill_mod: "ring_fill cap (t mod cap) xs d = ring_fill cap t xs d"
proof (induction xs arbitrary: t d)
  case (Cons x xs)
  have "ring_fill cap (t mod cap + 1) xs e = ring_fill cap ((t mod cap + 1) mod cap) xs e" for e using Cons.IH by simp
  also have "\<dots> e = ring_fill cap (t + 1) xs e" for e using Cons.IH [of "t + 1"] by (simp add: mod_Suc_eq)
  finally show ?case by simp
qed simp

section \<open>Streams\<close>

datatype 'a stream_op = Put "'a list" | Get nat

text \<open>Run a sequence of operations: all that was accepted, all that was received, the final state.\<close>

fun stream_run :: "('a list \<Rightarrow> 's \<Rightarrow> nat \<times> 's) \<Rightarrow> (nat \<Rightarrow> 's \<Rightarrow> 'a list \<times> 's) \<Rightarrow> 'a stream_op list \<Rightarrow> 's \<Rightarrow> 'a list \<times> 'a list \<times> 's" where
  "stream_run put get [] s = ([], [], s)"
| "stream_run put get (Put xs # ops) s =
     (case put xs s of (n, s1) \<Rightarrow> case stream_run put get ops s1 of (a, r, s2) \<Rightarrow> (take n xs @ a, r, s2))"
| "stream_run put get (Get k # ops) s =
     (case get k s of (ys, s1) \<Rightarrow> case stream_run put get ops s1 of (a, r, s2) \<Rightarrow> (a, ys @ r, s2))"

locale stream_buffer =
  fixes content :: "'s \<Rightarrow> 'a list" and valid :: "'s \<Rightarrow> bool" and capacity :: nat
    and put :: "'a list \<Rightarrow> 's \<Rightarrow> nat \<times> 's" and get :: "nat \<Rightarrow> 's \<Rightarrow> 'a list \<times> 's"
  assumes put_law: "valid s \<Longrightarrow> put xs s = (n, s') \<Longrightarrow>
      valid s' \<and> n = min (length xs) (capacity - length (content s)) \<and> content s' = content s @ take n xs"
    and get_law: "valid s \<Longrightarrow> get k s = (ys, s') \<Longrightarrow> valid s' \<and> ys = take k (content s) \<and> content s' = drop k (content s)"
    and bounded: "valid s \<Longrightarrow> length (content s) \<le> capacity"
begin

text \<open>Nothing is lost, duplicated or reordered.\<close>

lemma in_order:
  "valid s \<Longrightarrow> stream_run put get ops s = (a, r, s') \<Longrightarrow> valid s' \<and> content s @ a = r @ content s'"
proof (induction ops arbitrary: s a r)
  case (Cons op ops)
  show ?case
  proof (cases op)
    case (Put xs)
    obtain n s1 where p: "put xs s = (n, s1)" by (cases "put xs s")
    obtain a1 where r: "stream_run put get ops s1 = (a1, r, s')" "a = take n xs @ a1"
      using Cons.prems(2) Put p by (auto split: prod.splits)
    from put_law [OF Cons.prems(1) p] Cons.IH [OF _ r(1)] r(2) show ?thesis by simp
  next
    case (Get k)
    obtain ys s1 where p: "get k s = (ys, s1)" by (cases "get k s")
    obtain r1 where r: "stream_run put get ops s1 = (a, r1, s')" "r = ys @ r1"
      using Cons.prems(2) Get p by (auto split: prod.splits)
    from get_law [OF Cons.prems(1) p] have g: "valid s1" "content s = ys @ content s1" by simp_all
    with Cons.IH [OF g(1) r(1)] r(2) show ?thesis by simp
  qed
qed simp

end

section \<open>Queues of single elements\<close>

fun put_all :: "('a \<Rightarrow> 's \<Rightarrow> bool \<times> 's) \<Rightarrow> 'a list \<Rightarrow> 's \<Rightarrow> nat \<times> 's" where
  "put_all enq [] s = (0, s)"
| "put_all enq (x # xs) s =
     (case enq x s of (True, s1) \<Rightarrow> (case put_all enq xs s1 of (n, s2) \<Rightarrow> (n + 1, s2)) | (False, s1) \<Rightarrow> (0, s1))"

fun get_all :: "('s \<Rightarrow> 'a option \<times> 's) \<Rightarrow> nat \<Rightarrow> 's \<Rightarrow> 'a list \<times> 's" where
  "get_all deq 0 s = ([], s)"
| "get_all deq (Suc k) s =
     (case deq s of (Some x, s1) \<Rightarrow> (case get_all deq k s1 of (xs, s2) \<Rightarrow> (x # xs, s2)) | (None, s1) \<Rightarrow> ([], s1))"

locale bounded_queue =
  fixes content :: "'s \<Rightarrow> 'a list" and valid :: "'s \<Rightarrow> bool" and capacity :: nat
    and enq :: "'a \<Rightarrow> 's \<Rightarrow> bool \<times> 's" and deq :: "'s \<Rightarrow> 'a option \<times> 's"
  assumes enq_room: "valid s \<Longrightarrow> length (content s) < capacity \<Longrightarrow>
      \<exists>s'. enq x s = (True, s') \<and> valid s' \<and> content s' = content s @ [x]"
    and enq_full: "valid s \<Longrightarrow> length (content s) = capacity \<Longrightarrow> enq x s = (False, s)"
    and deq_empty: "valid s \<Longrightarrow> content s = [] \<Longrightarrow> deq s = (None, s)"
    and deq_some: "valid s \<Longrightarrow> content s = x # xs \<Longrightarrow> \<exists>s'. deq s = (Some x, s') \<and> valid s' \<and> content s' = xs"
    and within: "valid s \<Longrightarrow> length (content s) \<le> capacity"
begin

lemma put_all_law:
  "valid s \<Longrightarrow> put_all enq xs s = (n, s') \<Longrightarrow>
   valid s' \<and> n = min (length xs) (capacity - length (content s)) \<and> content s' = content s @ take n xs"
proof (induction xs arbitrary: s n)
  case (Cons x xs)
  show ?case
  proof (cases "length (content s) < capacity")
    case True
    from enq_room [OF Cons.prems(1) this, of x] obtain s1 where
      e: "enq x s = (True, s1)" "valid s1" "content s1 = content s @ [x]" by blast
    with Cons.prems(2) obtain m where m: "put_all enq xs s1 = (m, s')" "n = m + 1" by (auto split: prod.splits)
    from Cons.IH [OF e(2) m(1)] e(3) m(2) True show ?thesis by auto
  next
    case False
    with within [OF Cons.prems(1)] have f: "length (content s) = capacity" by simp
    from enq_full [OF Cons.prems(1) f, of x] Cons.prems f show ?thesis by auto
  qed
qed simp

lemma get_all_law:
  "valid s \<Longrightarrow> get_all deq k s = (ys, s') \<Longrightarrow> valid s' \<and> ys = take k (content s) \<and> content s' = drop k (content s)"
proof (induction k arbitrary: s ys)
  case (Suc k)
  show ?case
  proof (cases "content s")
    case Nil
    from deq_empty [OF Suc.prems(1) Nil] Suc.prems Nil show ?thesis by auto
  next
    case (Cons x xs)
    from deq_some [OF Suc.prems(1) Cons] obtain s1 where e: "deq s = (Some x, s1)" "valid s1" "content s1 = xs" by blast
    with Suc.prems(2) obtain zs where z: "get_all deq k s1 = (zs, s')" "ys = x # zs" by (auto split: prod.splits)
    from Suc.IH [OF e(2) z(1)] e(3) z(2) Cons show ?thesis by simp
  qed
qed simp

end

sublocale bounded_queue \<subseteq> as_stream: stream_buffer content valid capacity "put_all enq" "get_all deq"
  by unfold_locales (rule put_all_law, assumption+, rule get_all_law, assumption+, rule within, assumption)

end
