(* ===== verification/Process.thy ===== *)
theory Process
  imports Bytes
begin

text \<open>
  Processes: \<^verbatim>\<open>kernel/src/process/mod.rs\<close> and the register image of
  \<^verbatim>\<open>kernel/src/process/trapframe.rs\<close>.

  An address space is named by a reference: \<open>as_ptr\<close> stands for the \<^verbatim>\<open>Arc\<close> pointer, \<open>as_root\<close> for
  the frame of its top-level page table. The fields that no modelled operation reads (the name, the
  file table, the working directory, the executable's name) are left out.
\<close>

type_synonym i32 = "32 word"

section \<open>Register image\<close>

record trapframe =
  r15 :: u64
  r14 :: u64
  r13 :: u64
  r12 :: u64
  r11 :: u64
  r10 :: u64
  r9 :: u64
  r8 :: u64
  rbp :: u64
  rdi :: u64
  rsi :: u64
  rdx :: u64
  rcx :: u64
  rbx :: u64
  rax :: u64
  rip :: u64
  cs :: u64
  rflags :: u64
  rsp :: u64
  ss :: u64

definition tf_zero :: trapframe where
  "tf_zero = \<lparr>r15 = 0, r14 = 0, r13 = 0, r12 = 0, r11 = 0, r10 = 0, r9 = 0, r8 = 0, rbp = 0, rdi = 0,
     rsi = 0, rdx = 0, rcx = 0, rbx = 0, rax = 0, rip = 0, cs = 0, rflags = 0, rsp = 0, ss = 0\<rparr>"

definition tf_words :: "trapframe \<Rightarrow> u64 list" where
  "tf_words t = [r15 t, r14 t, r13 t, r12 t, r11 t, r10 t, r9 t, r8 t, rbp t, rdi t, rsi t, rdx t, rcx t,
     rbx t, rax t, rip t, cs t, rflags t, rsp t, ss t]"

fun tf_of_words :: "u64 list \<Rightarrow> trapframe" where
  "tf_of_words [a15, a14, a13, a12, a11, a10, a9, a8, bp, di, si, dx, cx, bx, ax, ip, c, fl, sp, s] =
     \<lparr>r15 = a15, r14 = a14, r13 = a13, r12 = a12, r11 = a11, r10 = a10, r9 = a9, r8 = a8, rbp = bp, rdi = di,
      rsi = si, rdx = dx, rcx = cx, rbx = bx, rax = ax, rip = ip, cs = c, rflags = fl, rsp = sp, ss = s\<rparr>"
| "tf_of_words _ = tf_zero"

lemma tf_of_words_words [simp]: "tf_of_words (tf_words t) = t"
  by (cases t) (simp add: tf_words_def)

lemma length_tf_words [simp]: "length (tf_words t) = 20"
  by (simp add: tf_words_def)

section \<open>Processes\<close>

datatype process_state = Ready | Running | Blocked | Zombie | Stopped

datatype wait_target = WaitPid nat | WaitPgid nat | AnyChild

fun wait_matches :: "wait_target \<Rightarrow> nat \<Rightarrow> nat \<Rightarrow> bool" where
  "wait_matches (WaitPid p) pid pgid = (p = pid)"
| "wait_matches (WaitPgid g) pid pgid = (g = pgid)"
| "wait_matches AnyChild pid pgid = True"

datatype privilege_level = Kernel | User

datatype signal_action = Default | Ignore | Handler u64

definition NUM_SIGNALS :: nat where "NUM_SIGNALS = 64"

record aspace =
  as_ptr :: nat
  as_root :: nat

type_synonym fpu_state = "u8 list"

record process =
  pid :: nat
  parent_pid :: "nat option"
  exit_status :: i32
  pstate :: process_state
  privilege :: privilege_level
  priority :: nat
  effective_priority :: nat
  tframe :: trapframe
  kernel_stack :: nat
  address_space :: aspace
  waiting_for :: "wait_target option"
  waiting_options :: i32
  waiting_status_ptr :: nat
  pending_wait_status :: "i32 option"
  killed_by_signal :: "nat option"
  pgid :: nat
  stopped_by_signal :: "nat option"
  stop_reported :: bool
  fs_base :: u64
  fpu :: fpu_state
  is_thread :: bool
  owned_stack_vma :: "(nat \<times> nat) option"
  pending_signals :: u64
  blocked_signals :: u64
  signal_handlers :: "nat \<Rightarrow> signal_action"

definition process_init :: "nat \<Rightarrow> privilege_level \<Rightarrow> trapframe \<Rightarrow> nat \<Rightarrow> aspace \<Rightarrow> fpu_state \<Rightarrow> process" where
  "process_init p priv tf kstack asp fp =
     \<lparr>pid = p, parent_pid = None, exit_status = 0, pstate = Ready, privilege = priv, priority = 5,
      effective_priority = 5, tframe = tf, kernel_stack = kstack, address_space = asp, waiting_for = None,
      waiting_options = 0, waiting_status_ptr = 0, pending_wait_status = None, killed_by_signal = None,
      pgid = p, stopped_by_signal = None, stop_reported = False, fs_base = 0, fpu = fp, is_thread = False,
      owned_stack_vma = None, pending_signals = 0, blocked_signals = 0, signal_handlers = (\<lambda>_. Default)\<rparr>"

text \<open>The constructors; \<open>fp\<close> is \<^verbatim>\<open>fpu::default_state()\<close>, the image captured at boot.\<close>

definition new_kernel :: "nat \<Rightarrow> u64 \<Rightarrow> nat \<Rightarrow> aspace \<Rightarrow> fpu_state \<Rightarrow> process" where
  "new_kernel p entry kstack asp fp =
     process_init p Kernel
       (tf_zero\<lparr>rip := entry, cs := 0x08, rflags := 0x200, rsp := of_nat kstack - 8, ss := 0x10\<rparr>)
       kstack asp fp"

definition new_user :: "nat \<Rightarrow> u64 \<Rightarrow> u64 \<Rightarrow> nat \<Rightarrow> aspace \<Rightarrow> fpu_state \<Rightarrow> process" where
  "new_user p entry user_stack kstack asp fp =
     process_init p User
       (tf_zero\<lparr>rip := entry, cs := 0x23, rflags := 0x200, rsp := user_stack, ss := 0x1b\<rparr>)
       kstack asp fp"

definition new_user_from_fork ::
  "nat \<Rightarrow> nat \<Rightarrow> trapframe \<Rightarrow> nat \<Rightarrow> aspace \<Rightarrow> nat \<Rightarrow> fpu_state \<Rightarrow> process" where
  "new_user_from_fork p parent tf kstack asp parent_pgid fp =
     (process_init p User tf kstack asp fp)\<lparr>parent_pid := Some parent, pgid := parent_pgid\<rparr>"

definition new_thread ::
  "nat \<Rightarrow> nat \<Rightarrow> u64 \<Rightarrow> u64 \<Rightarrow> nat \<Rightarrow> aspace \<Rightarrow> (nat \<times> nat) option \<Rightarrow> nat \<Rightarrow> fpu_state \<Rightarrow> process" where
  "new_thread p parent entry stack kstack asp owned parent_pgid fp =
     (process_init p User
        (tf_zero\<lparr>rip := entry, cs := 0x23, rflags := 0x200, rsp := stack, ss := 0x1b\<rparr>) kstack asp fp)
       \<lparr>parent_pid := Some parent, pgid := parent_pgid, is_thread := True, owned_stack_vma := owned\<rparr>"

definition set_priority :: "nat \<Rightarrow> process \<Rightarrow> process" where
  "set_priority prio pr = (let p = min prio 10 in pr\<lparr>priority := p, effective_priority := p\<rparr>)"

section \<open>Wait status words\<close>

definition wait_status_word :: "process \<Rightarrow> i32" where
  "wait_status_word pr =
     (case killed_by_signal pr of
        Some sig \<Rightarrow> push_bit 24 (of_nat sig AND 0xFF) OR 0x400
      | None \<Rightarrow> 0x200 OR (exit_status pr AND 0xFF))"

definition stop_status_word :: "process \<Rightarrow> i32" where
  "stop_status_word pr =
     (case stopped_by_signal pr of
        Some sig \<Rightarrow> 0x800 OR push_bit 16 (of_nat sig AND 0xFF)
      | None \<Rightarrow> 0x200)"

text \<open>
  The macros with which user programs take a status word apart
  (\<^verbatim>\<open>mlibc-port/constanos-sysdeps/include/abi-bits/wait.h\<close>).
\<close>

definition WIFEXITED :: "i32 \<Rightarrow> bool" where "WIFEXITED x \<longleftrightarrow> x AND 0x200 \<noteq> 0"
definition WIFSIGNALED :: "i32 \<Rightarrow> bool" where "WIFSIGNALED x \<longleftrightarrow> x AND 0x400 \<noteq> 0"
definition WIFSTOPPED :: "i32 \<Rightarrow> bool" where "WIFSTOPPED x \<longleftrightarrow> x AND 0x800 \<noteq> 0"
definition WEXITSTATUS :: "i32 \<Rightarrow> i32" where "WEXITSTATUS x = x AND 0xFF"
definition WTERMSIG :: "i32 \<Rightarrow> i32" where "WTERMSIG x = drop_bit 24 (x AND 0xFF000000)"
definition WSTOPSIG :: "i32 \<Rightarrow> i32" where "WSTOPSIG x = drop_bit 16 (x AND 0x00FF0000)"

lemmas wait_macros = WIFEXITED_def WIFSIGNALED_def WIFSTOPPED_def WEXITSTATUS_def WTERMSIG_def WSTOPSIG_def

lemma status_bit_consts:
  "bit (0x200 :: i32) n \<longleftrightarrow> n = 9" "bit (0x400 :: i32) n \<longleftrightarrow> n = 10" "bit (0x800 :: i32) n \<longleftrightarrow> n = 11"
  "bit (0xFF :: i32) n \<longleftrightarrow> n < 8" "bit (0xFF000000 :: i32) n \<longleftrightarrow> 24 \<le> n \<and> n < 32" "bit (0x00FF0000 :: i32) n \<longleftrightarrow> 16 \<le> n \<and> n < 24"
proof -
  have p: "(0x200 :: i32) = 2 ^ 9" "(0x400 :: i32) = 2 ^ 10" "(0x800 :: i32) = 2 ^ 11" "(0xFF :: i32) = mask 8"
    "(0xFF000000 :: i32) = push_bit 24 (mask 8)" "(0x00FF0000 :: i32) = push_bit 16 (mask 8)"
    by (simp_all add: mask_eq_exp_minus_1 push_bit_eq_mult)
  show "bit (0x200 :: i32) n \<longleftrightarrow> n = 9" "bit (0x400 :: i32) n \<longleftrightarrow> n = 10" "bit (0x800 :: i32) n \<longleftrightarrow> n = 11"
    unfolding p bit_exp_iff by auto
  show "bit (0xFF :: i32) n \<longleftrightarrow> n < 8" "bit (0xFF000000 :: i32) n \<longleftrightarrow> 24 \<le> n \<and> n < 32" "bit (0x00FF0000 :: i32) n \<longleftrightarrow> 16 \<le> n \<and> n < 24"
    unfolding p bit_push_bit_iff bit_mask_iff by auto
qed

lemma wait_macro_bits:
  "WIFEXITED x \<longleftrightarrow> bit x 9" "WIFSIGNALED x \<longleftrightarrow> bit x 10" "WIFSTOPPED x \<longleftrightarrow> bit x 11"
proof -
  have "x AND m \<noteq> 0 \<longleftrightarrow> bit x k" if m: "\<And>n. bit m n \<longleftrightarrow> n = k" for m :: i32 and k
  proof
    assume "bit x k"
    then have "bit (x AND m) k" by (simp add: bit_and_iff m)
    then show "x AND m \<noteq> 0" by auto
  next
    assume "x AND m \<noteq> 0"
    then obtain n where "bit (x AND m) n" by (metis bit_0_eq bit_word_eqI bot_apply bot_bool_def)
    then show "bit x k" by (auto simp: bit_and_iff m)
  qed
  then show "WIFEXITED x \<longleftrightarrow> bit x 9" "WIFSIGNALED x \<longleftrightarrow> bit x 10" "WIFSTOPPED x \<longleftrightarrow> bit x 11"
    unfolding wait_macros using status_bit_consts by blast+
qed

lemma status_fields:
  fixes a :: i32
  shows "(0x200 OR (a AND 0xFF)) AND 0xFF = a AND 0xFF"
    "drop_bit 24 ((push_bit 24 (a AND 0xFF) OR 0x400) AND 0xFF000000) = a AND 0xFF"
    "drop_bit 16 ((0x800 OR push_bit 16 (a AND 0xFF)) AND 0x00FF0000) = a AND 0xFF"
  by (rule bit_word_eqI, unfold bit_and_iff bit_or_iff bit_push_bit_iff bit_drop_bit_eq comp_apply status_bit_consts, auto)+

lemma status_flags:
  fixes a :: i32
  shows "bit (0x200 OR (a AND 0xFF)) 9" "\<not> bit (0x200 OR (a AND 0xFF)) 10" "\<not> bit (0x200 OR (a AND 0xFF)) 11"
    "bit (push_bit 24 (a AND 0xFF) OR 0x400) 10" "\<not> bit (push_bit 24 (a AND 0xFF) OR 0x400) 9"
    "\<not> bit (push_bit 24 (a AND 0xFF) OR 0x400) 11" "bit (0x800 OR push_bit 16 (a AND 0xFF)) 11"
    "\<not> bit (0x800 OR push_bit 16 (a AND 0xFF)) 9" "\<not> bit (0x800 OR push_bit 16 (a AND 0xFF)) 10"
  unfolding bit_and_iff bit_or_iff bit_push_bit_iff status_bit_consts by simp_all

text \<open>
  The status words round-trip through the macros user programs decode them with: an exit gives
  back the low eight bits of the exit status, a death by signal the signal, a stop the stop signal,
  and each word answers exactly one of the three tests.
\<close>
theorem wait_status_roundtrip:
  "(case killed_by_signal pr of
      None \<Rightarrow> WIFEXITED (wait_status_word pr) \<and> \<not> WIFSIGNALED (wait_status_word pr) \<and> \<not> WIFSTOPPED (wait_status_word pr) \<and>
        WEXITSTATUS (wait_status_word pr) = exit_status pr AND 0xFF
    | Some sig \<Rightarrow> WIFSIGNALED (wait_status_word pr) \<and> \<not> WIFEXITED (wait_status_word pr) \<and> \<not> WIFSTOPPED (wait_status_word pr) \<and>
        WTERMSIG (wait_status_word pr) = of_nat sig AND 0xFF) \<and>
   (case stopped_by_signal pr of
      None \<Rightarrow> True
    | Some sig \<Rightarrow> WIFSTOPPED (stop_status_word pr) \<and> \<not> WIFEXITED (stop_status_word pr) \<and> \<not> WIFSIGNALED (stop_status_word pr) \<and>
        WSTOPSIG (stop_status_word pr) = of_nat sig AND 0xFF)"
  unfolding wait_macro_bits wait_status_word_def stop_status_word_def WEXITSTATUS_def WTERMSIG_def WSTOPSIG_def
  by (cases "killed_by_signal pr"; cases "stopped_by_signal pr")
    (simp_all only: option.case status_fields status_flags simp_thms)

end
