(* ===== verification/Machine.thy ===== *)
theory Machine
  imports Process
begin

text \<open>
  The processor state a context switch moves (\<^verbatim>\<open>FS.base\<close>, the FPU registers, \<^verbatim>\<open>CR3\<close>, the kernel stack of
  the TSS), the per-CPU fast-path pointers of \<^verbatim>\<open>scheduler.rs\<close>, the register frame the current system call
  or interrupt has pushed on the kernel stack, and the memory the kernel reaches through the active
  page table.

  Virtual memory is given per top-level page table: \<open>vmem r\<close> holds the bytes behind the table with root
  \<open>r\<close>, and \<open>vmapped r a\<close> says that a kernel access to \<open>a\<close> under that table succeeds, because the page is
  present or because the page fault handler maps it (\<^verbatim>\<open>init/devices.rs\<close> resolves faults of kernel code
  inside the running process's areas like its own). An access that fails panics in that handler.
\<close>

record machine =
  fs_base_msr :: u64
  fpu_regs :: fpu_state
  cr3 :: nat
  tss_rsp0 :: nat
  current_as_ptr :: nat
  current_pid_fast :: nat
  live_tf :: trapframe
  vmem :: "nat \<Rightarrow> bytes"
  vmapped :: "nat \<Rightarrow> nat \<Rightarrow> bool"

section \<open>Registers\<close>

definition write_fs_base :: "u64 \<Rightarrow> 'a machine_scheme \<Rightarrow> 'a machine_scheme" where
  "write_fs_base v m = m\<lparr>fs_base_msr := v\<rparr>"

definition fpu_restore :: "fpu_state \<Rightarrow> 'a machine_scheme \<Rightarrow> 'a machine_scheme" where
  "fpu_restore area m = m\<lparr>fpu_regs := area\<rparr>"

definition set_kernel_stack :: "nat \<Rightarrow> 'a machine_scheme \<Rightarrow> 'a machine_scheme" where
  "set_kernel_stack stack_top m = m\<lparr>tss_rsp0 := stack_top\<rparr>"

definition activate :: "aspace \<Rightarrow> 'a machine_scheme \<Rightarrow> 'a machine_scheme" where
  "activate asp m = (if cr3 m = as_root asp then m else m\<lparr>cr3 := as_root asp\<rparr>)"

definition update_current_fast :: "process \<Rightarrow> 'a machine_scheme \<Rightarrow> 'a machine_scheme" where
  "update_current_fast pr m = m\<lparr>current_as_ptr := as_ptr (address_space pr), current_pid_fast := pid pr\<rparr>"

definition clear_current_fast :: "'a machine_scheme \<Rightarrow> 'a machine_scheme" where
  "clear_current_fast m = m\<lparr>current_as_ptr := 0, current_pid_fast := 0\<rparr>"

lemmas machine_ops = write_fs_base_def fpu_restore_def set_kernel_stack_def update_current_fast_def clear_current_fast_def

lemma activate_eq: "activate asp m = m\<lparr>cr3 := as_root asp\<rparr>"
  by (simp add: activate_def)

section \<open>Memory\<close>

definition mapped_range :: "'a machine_scheme \<Rightarrow> nat \<Rightarrow> nat \<Rightarrow> bool" where
  "mapped_range m a n \<longleftrightarrow> list_all (vmapped m (cr3 m)) [a ..< a + n]"

definition vread :: "nat \<Rightarrow> nat \<Rightarrow> 'a machine_scheme \<Rightarrow> u8 list res" where
  "vread a n m = (if mapped_range m a n then Inr (peek (vmem m (cr3 m)) a n) else Inl Panic)"

definition vwrite :: "nat \<Rightarrow> u8 list \<Rightarrow> 'a machine_scheme \<Rightarrow> 'a machine_scheme res" where
  "vwrite a bs m =
     (if mapped_range m a (length bs)
      then Inr (m\<lparr>vmem := (vmem m)(cr3 m := poke (vmem m (cr3 m)) a bs)\<rparr>)
      else Inl Panic)"

text \<open>
  Dereferencing, \<^verbatim>\<open>core::ptr::read\<close> and \<^verbatim>\<open>core::ptr::write\<close> of a raw pointer require its alignment: a
  debug build checks it and panics.
\<close>

definition aread :: "nat \<Rightarrow> nat \<Rightarrow> nat \<Rightarrow> 'a machine_scheme \<Rightarrow> u8 list res" where
  "aread al a n m = bindR (assertR (a mod al = 0)) (\<lambda>_. vread a n m)"

definition awrite :: "nat \<Rightarrow> nat \<Rightarrow> u8 list \<Rightarrow> 'a machine_scheme \<Rightarrow> 'a machine_scheme res" where
  "awrite al a bs m = bindR (assertR (a mod al = 0)) (\<lambda>_. vwrite a bs m)"

definition word_bytes :: "u64 \<Rightarrow> u8 list" where
  "word_bytes w = le_bytes 8 (unat w)"

definition bytes_word :: "u8 list \<Rightarrow> u64" where
  "bytes_word bs = of_nat (le_val bs)"

lemma length_word_bytes [simp]: "length (word_bytes w) = 8"
  by (simp add: word_bytes_def)

lemma bytes_word_bytes [simp]: "bytes_word (word_bytes w) = w"
proof -
  have "unat w < 2 ^ 64" using unsigned_less [of w] by simp
  then show ?thesis by (simp add: bytes_word_def word_bytes_def le_val_le_bytes)
qed

fun chunks8 :: "nat \<Rightarrow> u8 list \<Rightarrow> u64 list" where
  "chunks8 0 bs = []"
| "chunks8 (Suc n) bs = bytes_word (take 8 bs) # chunks8 n (drop 8 bs)"

lemma chunks8_concat: "chunks8 (length ws) (concat (map word_bytes ws) @ r) = ws"
  by (induction ws) simp_all

lemma length_concat_word_bytes [simp]: "length (concat (map word_bytes ws)) = 8 * length ws"
  by (induction ws) simp_all

lemma mapped_range_iff: "mapped_range m a n \<longleftrightarrow> (\<forall>x. a \<le> x \<and> x < a + n \<longrightarrow> vmapped m (cr3 m) x)"
  by (auto simp: mapped_range_def list_all_iff)

lemma mapped_range_mono: "mapped_range m a n \<Longrightarrow> a \<le> b \<Longrightarrow> b + k \<le> a + n \<Longrightarrow> mapped_range m b k"
  by (auto simp: mapped_range_iff)

lemma vwrite_ok: "mapped_range m a (length bs) \<Longrightarrow>
  vwrite a bs m = Inr (m\<lparr>vmem := (vmem m)(cr3 m := poke (vmem m (cr3 m)) a bs)\<rparr>)"
  by (simp add: vwrite_def)

lemma vwrite_Inr: "vwrite a bs m = Inr m' \<longleftrightarrow> mapped_range m a (length bs) \<and>
  m' = m\<lparr>vmem := (vmem m)(cr3 m := poke (vmem m (cr3 m)) a bs)\<rparr>"
  by (auto simp: vwrite_def)

section \<open>System call results\<close>

text \<open>A result is an \<^verbatim>\<open>i64\<close>; errors are negative.\<close>

definition EPERM :: int where "EPERM = - 1"
definition ENOENT :: int where "ENOENT = - 2"
definition ESRCH :: int where "ESRCH = - 3"
definition EBADF :: int where "EBADF = - 9"
definition ECHILD :: int where "ECHILD = - 10"
definition EAGAIN :: int where "EAGAIN = - 11"
definition ENOMEM :: int where "ENOMEM = - 12"
definition EFAULT :: int where "EFAULT = - 14"
definition EINVAL :: int where "EINVAL = - 22"
definition EPIPE :: int where "EPIPE = - 32"
definition ENOSYS :: int where "ENOSYS = - 38"

definition USER_SPACE_MAX :: nat where "USER_SPACE_MAX = 0x800000000000"

text \<open>\<^verbatim>\<open>Err\<close> is \<open>Some\<close> of the error number. An address is a \<^verbatim>\<open>u64\<close>, hence below $2^{64}$.\<close>

definition validate_user_buffer :: "nat \<Rightarrow> nat \<Rightarrow> int option" where
  "validate_user_buffer addr sz =
     (if addr = 0 then Some EFAULT
      else if 2 ^ 64 \<le> addr + sz then Some EFAULT
      else if USER_SPACE_MAX \<le> addr \<or> USER_SPACE_MAX < addr + sz then Some EFAULT
      else None)"

end
