(* ===== verification/Signal.thy ===== *)
theory Signal
  imports Machine
begin

text \<open>
  Signals: \<^verbatim>\<open>kernel/src/process/signal.rs\<close>. Queueing, delivery of the lowest-numbered deliverable signal,
  and the frame that delivery to a handler pushes on the user stack and \<^verbatim>\<open>rt_sigreturn\<close> pops again.
\<close>

section \<open>Model\<close>

definition SIGKILL :: nat where "SIGKILL = 9"
definition SIGSEGV :: nat where "SIGSEGV = 11"
definition SIGPIPE :: nat where "SIGPIPE = 13"
definition SIGCHLD :: nat where "SIGCHLD = 17"
definition SIGCONT :: nat where "SIGCONT = 18"
definition SIGSTOP :: nat where "SIGSTOP = 19"
definition SIGTSTP :: nat where "SIGTSTP = 20"
definition SIGTTIN :: nat where "SIGTTIN = 21"
definition SIGTTOU :: nat where "SIGTTOU = 22"

lemmas signal_numbers = SIGKILL_def SIGSEGV_def SIGPIPE_def SIGCHLD_def SIGCONT_def SIGSTOP_def SIGTSTP_def
  SIGTTIN_def SIGTTOU_def NUM_SIGNALS_def

datatype signal_outcome = NoSignal | Delivered | Terminate nat | Stop nat

definition default_terminates :: "nat \<Rightarrow> bool" where
  "default_terminates sig \<longleftrightarrow> sig \<noteq> SIGCHLD \<and> sig \<noteq> SIGCONT"

definition sig_bit :: "nat \<Rightarrow> u64" where
  "sig_bit sig = push_bit sig 1"

definition queue_signal :: "nat \<Rightarrow> process \<Rightarrow> process" where
  "queue_signal sig pr =
     (if sig = 0 \<or> NUM_SIGNALS \<le> sig then pr
      else pr\<lparr>pending_signals := pending_signals pr OR sig_bit sig\<rparr>)"

definition TRAMPOLINE_VA :: u64 where "TRAMPOLINE_VA = 0x407FFFFFF000"

text \<open>\<^verbatim>\<open>SignalFrame\<close>: the saved mask and the saved register frame, 168 bytes.\<close>

definition signal_frame_bytes :: "u64 \<Rightarrow> trapframe \<Rightarrow> u8 list" where
  "signal_frame_bytes saved_mask saved_tf = concat (map word_bytes (saved_mask # tf_words saved_tf))"

definition FRAME_SIZE :: nat where "FRAME_SIZE = 168"

definition align16 :: "nat \<Rightarrow> nat" where "align16 a = a - a mod 16"

definition push_signal_frame ::
  "process \<Rightarrow> trapframe \<Rightarrow> nat \<Rightarrow> u64 \<Rightarrow> 'a machine_scheme \<Rightarrow> (process \<times> trapframe \<times> 'a machine_scheme) res" where
  "push_signal_frame pr tf sig handler m =
     (let base = align16 (unat (rsp tf) - 128) in
      bindR (sub64 base FRAME_SIZE) (\<lambda>d.
      let frame_base = align16 d in
      bindR (sub64 frame_base 8) (\<lambda>tramp_slot.
      bindR (vwrite frame_base (signal_frame_bytes (blocked_signals pr) tf) m) (\<lambda>m.
      bindR (vwrite tramp_slot (word_bytes TRAMPOLINE_VA) m) (\<lambda>m.
      Inr (pr\<lparr>blocked_signals := blocked_signals pr OR sig_bit sig\<rparr>,
           tf\<lparr>rdi := of_nat sig, rip := handler, rsp := of_nat tramp_slot\<rparr>, m))))))"

definition pop_signal_frame :: "process \<Rightarrow> nat \<Rightarrow> 'a machine_scheme \<Rightarrow> (process \<times> trapframe) res" where
  "pop_signal_frame pr user_rsp m =
     bindR (aread 8 user_rsp FRAME_SIZE m) (\<lambda>bs.
       case chunks8 21 bs of
         saved_mask # ws \<Rightarrow> Inr (pr\<lparr>blocked_signals := saved_mask\<rparr>, tf_of_words ws)
       | [] \<Rightarrow> Inl Panic)"

definition deliver_pending ::
  "process \<Rightarrow> trapframe \<Rightarrow> 'a machine_scheme \<Rightarrow> (process \<times> trapframe \<times> 'a machine_scheme \<times> signal_outcome) res" where
  "deliver_pending pr tf m =
     (let deliverable = pending_signals pr AND NOT (blocked_signals pr) in
      if deliverable = 0 then Inr (pr, tf, m, NoSignal)
      else
        let sig = u64_trailing_zeros (unat deliverable);
            pr = pr\<lparr>pending_signals := pending_signals pr AND NOT (sig_bit sig)\<rparr>
        in
        if sig = SIGSTOP then Inr (pr, tf, m, Stop sig)
        else case signal_handlers pr sig of
          Ignore \<Rightarrow> Inr (pr, tf, m, NoSignal)
        | Default \<Rightarrow>
            Inr (pr, tf, m,
                 if sig = SIGTSTP \<or> sig = SIGTTIN \<or> sig = SIGTTOU then Stop sig
                 else if default_terminates sig then Terminate sig
                 else NoSignal)
        | Handler addr \<Rightarrow>
            bindR (push_signal_frame pr tf sig addr m) (\<lambda>(pr, tf, m). Inr (pr, tf, m, Delivered)))"

section \<open>Bits\<close>

lemma odd_div_trailing_zeros: "0 < n \<Longrightarrow> odd (n div 2 ^ u64_trailing_zeros n)"
proof (induction n rule: u64_trailing_zeros.induct)
  case (1 n)
  then show ?case by (cases "odd n") (auto simp: u64_trailing_zeros.simps [of n] div_mult2_eq elim!: evenE)
qed

lemma trailing_zeros_lowest:
  fixes w :: u64
  assumes "w \<noteq> 0"
  shows "bit w (u64_trailing_zeros (unat w))" "\<And>k. k < u64_trailing_zeros (unat w) \<Longrightarrow> \<not> bit w k"
    "u64_trailing_zeros (unat w) < 64"
proof -
  have b: "bit w k \<longleftrightarrow> odd (unat w div 2 ^ k)" for k
    by (simp add: bit_unsigned_iff flip: bit_iff_odd)
  have pos: "0 < unat w" using assms by (simp add: unat_gt_0)
  show t: "bit w (u64_trailing_zeros (unat w))"
    unfolding b using pos by (rule odd_div_trailing_zeros)
  from bit_imp_le_length [OF t] show "u64_trailing_zeros (unat w) < 64" by simp
  show "\<not> bit w k" if "k < u64_trailing_zeros (unat w)" for k
  proof -
    have "2 ^ Suc k dvd unat w" using that by (intro trailing_zeros_dvd) simp
    then show ?thesis unfolding b by (auto simp: mult.assoc elim!: dvdE)
  qed
qed

lemma bit_sig_bit: "bit (sig_bit sig) n \<longleftrightarrow> n = sig \<and> n < 64"
  unfolding sig_bit_def bit_push_bit_iff by (auto simp: bit_1_iff)

lemma queue_signal_pending:
  "0 < sig \<Longrightarrow> sig < NUM_SIGNALS \<Longrightarrow> bit (pending_signals (queue_signal sig pr)) n \<longleftrightarrow> n = sig \<or> bit (pending_signals pr) n"
  by (auto simp: queue_signal_def NUM_SIGNALS_def bit_or_iff bit_sig_bit)

section \<open>The signal frame\<close>

text \<open>\<open>frame_top\<close> is where the frame ends: below the red zone of the interrupted code, 16-aligned.\<close>

definition frame_top :: "trapframe \<Rightarrow> nat" where
  "frame_top tf = align16 (unat (rsp tf) - 128)"

definition frame_fits :: "trapframe \<Rightarrow> 'a machine_scheme \<Rightarrow> bool" where
  "frame_fits tf m \<longleftrightarrow> 184 \<le> frame_top tf \<and> mapped_range m (frame_top tf - 184) 176"

lemma align16_mod [simp]: "align16 a mod 16 = 0"
  by (simp add: align16_def minus_mod_eq_mult_div)

lemma align16_le: "align16 a \<le> a"
  by (simp add: align16_def)

lemma frame_base_eq: "184 \<le> frame_top tf \<Longrightarrow> align16 (frame_top tf - 168) = frame_top tf - 176"
proof -
  assume a: "184 \<le> frame_top tf"
  have "frame_top tf mod 16 = 0" by (simp add: frame_top_def)
  then obtain k where "frame_top tf = 16 * k" by (meson mod_0_imp_dvd dvdE)
  with a have "frame_top tf - 168 = 16 * (k - 11) + 8" "12 \<le> k" by auto
  with \<open>frame_top tf = 16 * k\<close> show ?thesis by (simp add: align16_def)
qed

lemma length_signal_frame_bytes [simp]: "length (signal_frame_bytes k tf) = 168"
  unfolding signal_frame_bytes_def length_concat_word_bytes by simp

lemma chunks8_signal_frame: "chunks8 21 (signal_frame_bytes k tf) = k # tf_words tf"
  using chunks8_concat [of "k # tf_words tf" "[]"] by (simp add: signal_frame_bytes_def)

lemma push_signal_frame_fits:
  assumes "frame_fits tf m"
  defines "b \<equiv> frame_top tf"
  shows "push_signal_frame pr tf sig h m =
    Inr (pr\<lparr>blocked_signals := blocked_signals pr OR sig_bit sig\<rparr>,
         tf\<lparr>rdi := of_nat sig, rip := h, rsp := of_nat (b - 184)\<rparr>,
         m\<lparr>vmem := (vmem m)(cr3 m :=
           poke (poke (vmem m (cr3 m)) (b - 176) (signal_frame_bytes (blocked_signals pr) tf)) (b - 184) (word_bytes TRAMPOLINE_VA))\<rparr>)"
proof -
  from assms have b: "184 \<le> b" and r: "mapped_range m (b - 184) 176" by (simp_all add: frame_fits_def)
  have f: "align16 (b - 168) = b - 176" using b unfolding b_def by (rule frame_base_eq)
  from r have "mapped_range m (b - 176) 168" by (rule mapped_range_mono) (use b in auto)
  moreover have "mapped_range (m\<lparr>vmem := x\<rparr>) (b - 184) 8" for x
    using mapped_range_mono [OF r, of "b - 184" 8] b by (simp add: mapped_range_iff)
  ultimately show ?thesis
    using b f by (simp add: push_signal_frame_def FRAME_SIZE_def Let_def vwrite_ok flip: frame_top_def b_def)
qed

lemma push_signal_frame_panics:
  assumes "\<not> frame_fits tf m"
  shows "push_signal_frame pr tf sig h m = Inl Panic"
proof (cases "184 \<le> frame_top tf")
  case True
  define b where "b = frame_top tf"
  have f: "align16 (b - 168) = b - 176" using True unfolding b_def by (rule frame_base_eq)
  have un: "\<not> (mapped_range m (b - 176) 168 \<and> mapped_range (m\<lparr>vmem := x\<rparr>) (b - 184) 8)" for x
  proof
    assume a: "mapped_range m (b - 176) 168 \<and> mapped_range (m\<lparr>vmem := x\<rparr>) (b - 184) 8"
    have "vmapped m (cr3 m) y" if "b - 184 \<le> y" "y < b - 184 + 176" for y
      using a that True by (cases "y < b - 176") (auto simp: mapped_range_iff b_def)
    then have "frame_fits tf m" using True by (simp add: frame_fits_def mapped_range_iff b_def)
    with assms show False by contradiction
  qed
  show ?thesis
  proof (cases "mapped_range m (b - 176) 168")
    case False
    with True f show ?thesis
      by (simp add: push_signal_frame_def FRAME_SIZE_def Let_def vwrite_def flip: frame_top_def b_def)
  next
    case T: True
    with un have "\<not> mapped_range (m\<lparr>vmem := x\<rparr>) (b - 184) 8" for x by blast
    with T True f show ?thesis
      by (simp add: push_signal_frame_def FRAME_SIZE_def Let_def vwrite_def flip: frame_top_def b_def)
  qed
next
  case False
  define b where "b = frame_top tf"
  have "b mod 16 = 0" by (simp add: b_def frame_top_def)
  then obtain k where k: "b = 16 * k" by (meson mod_0_imp_dvd dvdE)
  with False have "k \<le> 11" by (simp add: b_def)
  have "align16 (b - 168) = 0" if "168 \<le> b"
  proof -
    have "k = 11" using that k \<open>k \<le> 11\<close> by simp
    with k show ?thesis by (simp add: align16_def)
  qed
  then show ?thesis
    by (simp add: push_signal_frame_def FRAME_SIZE_def Let_def sub64_def flip: frame_top_def b_def)
qed

section \<open>Properties\<close>

text \<open>The deliverable signals, and what the disposition table prescribes for one.\<close>

definition deliverable :: "process \<Rightarrow> nat set" where
  "deliverable pr = {n. bit (pending_signals pr) n \<and> \<not> bit (blocked_signals pr) n}"

fun prescribed :: "nat \<Rightarrow> signal_action \<Rightarrow> signal_outcome" where
  "prescribed sig act =
     (if sig = 19 then Stop sig
      else case act of
        Ignore \<Rightarrow> NoSignal
      | Handler h \<Rightarrow> Delivered
      | Default \<Rightarrow> if sig \<in> {20, 21, 22} then Stop sig else if sig \<in> {17, 18} then NoSignal else Terminate sig)"

lemma deliverable_word:
  "deliverable pr = {n. bit (pending_signals pr AND NOT (blocked_signals pr)) n}"
  by (auto simp: deliverable_def bit_and_iff bit_not_iff_eq dest: bit_imp_le_length)

lemma deliverable_Min:
  assumes "pending_signals pr AND NOT (blocked_signals pr) \<noteq> 0"
  shows "deliverable pr \<noteq> {}"
    "Min (deliverable pr) = u64_trailing_zeros (unat (pending_signals pr AND NOT (blocked_signals pr)))"
proof -
  define w where "w = pending_signals pr AND NOT (blocked_signals pr)"
  note lo = trailing_zeros_lowest [of w, folded w_def]
  have D: "deliverable pr = {n. bit w n}" by (simp add: deliverable_word w_def)
  have "finite {n. bit w n}"
    by (rule finite_subset [of _ "{..< 64}"]) (auto dest: bit_imp_le_length)
  moreover have t: "bit w (u64_trailing_zeros (unat w))" using assms lo(1) by (simp add: w_def)
  moreover have "u64_trailing_zeros (unat w) \<le> k" if "bit w k" for k
    using lo(2) [of k] assms that by (force simp: w_def not_le)
  ultimately have "Min {n. bit w n} = u64_trailing_zeros (unat w)" by (intro Min_eqI) auto
  then show "Min (deliverable pr) = u64_trailing_zeros (unat (pending_signals pr AND NOT (blocked_signals pr)))"
    by (simp add: D w_def)
  from t show "deliverable pr \<noteq> {}" unfolding D by blast
qed

text \<open>
  C14. Delivery acts on the lowest-numbered signal that is pending and not blocked, and does what the
  disposition table prescribes for it: that signal alone stops being pending, and unless a handler is
  installed neither the registers nor memory change. It panics in exactly one case: a handler is
  installed and the user stack pointer leaves no room for the signal frame.
\<close>
theorem deliver_pending_correct:
  "case deliver_pending pr tf m of
     Inl e \<Rightarrow> deliverable pr \<noteq> {} \<and> Min (deliverable pr) \<noteq> 19 \<and>
       (\<exists>h. signal_handlers pr (Min (deliverable pr)) = Handler h) \<and> \<not> frame_fits tf m
   | Inr (pr', tf', m', out) \<Rightarrow>
       if deliverable pr = {} then pr' = pr \<and> tf' = tf \<and> m' = m \<and> out = NoSignal
       else
         let sig = Min (deliverable pr) in
         out = prescribed sig (signal_handlers pr sig) \<and>
         deliverable pr' = deliverable pr - {sig} \<and>
         {n. bit (pending_signals pr') n} = {n. bit (pending_signals pr) n} - {sig} \<and>
         (out = Delivered \<longrightarrow> frame_fits tf m) \<and>
         (out \<noteq> Delivered \<longrightarrow> tf' = tf \<and> m' = m \<and> blocked_signals pr' = blocked_signals pr)"
proof (cases "pending_signals pr AND NOT (blocked_signals pr) = 0")
  case True
  then have "deliverable pr = {}" by (simp add: deliverable_word)
  with True show ?thesis by (simp add: deliver_pending_def)
next
  case False
  define sig where "sig = u64_trailing_zeros (unat (pending_signals pr AND NOT (blocked_signals pr)))"
  note D = deliverable_Min [OF False, folded sig_def]
  have "sig < 64" using trailing_zeros_lowest(3) [OF False] by (simp add: sig_def)
  then have bits: "{n. bit (pending_signals pr AND NOT (sig_bit sig)) n} = {n. bit (pending_signals pr) n} - {sig}"
    by (auto simp: bit_and_iff bit_not_iff_eq bit_sig_bit dest: bit_imp_le_length)
  then have bits': "bit (pending_signals pr AND NOT (sig_bit sig)) n \<longleftrightarrow> bit (pending_signals pr) n \<and> n \<noteq> sig" for n
    by auto
  have rem: "deliverable (pr\<lparr>pending_signals := pending_signals pr AND NOT (sig_bit sig), blocked_signals := k\<rparr>) = deliverable pr - {sig}"
    if "k = blocked_signals pr \<or> k = blocked_signals pr OR sig_bit sig" for k
    using that by (auto simp: deliverable_def bits' bit_or_iff bit_sig_bit)
  define pr1 where "pr1 = pr\<lparr>pending_signals := pending_signals pr AND NOT (sig_bit sig)\<rparr>"
  define pr2 where "pr2 = pr1\<lparr>blocked_signals := blocked_signals pr OR sig_bit sig\<rparr>"
  have p1: "deliverable pr1 = deliverable pr - {sig}" "{n. bit (pending_signals pr1) n} = {n. bit (pending_signals pr) n} - {sig}"
      "blocked_signals pr1 = blocked_signals pr"
    using rem [of "blocked_signals pr"] bits by (simp_all add: pr1_def)
  have p2: "deliverable pr2 = deliverable pr - {sig}" "{n. bit (pending_signals pr2) n} = {n. bit (pending_signals pr) n} - {sig}"
    using rem [of "blocked_signals pr OR sig_bit sig"] bits by (simp_all add: pr1_def pr2_def)
  have eq: "deliver_pending pr tf m =
      (if prescribed sig (signal_handlers pr sig) = Delivered
       then bindR (push_signal_frame pr1 tf sig (case signal_handlers pr sig of Handler h \<Rightarrow> h | _ \<Rightarrow> 0) m) (\<lambda>(pr, tf, m). Inr (pr, tf, m, Delivered))
       else Inr (pr1, tf, m, prescribed sig (signal_handlers pr sig)))"
    using False unfolding deliver_pending_def Let_def sig_def [symmetric] pr1_def [symmetric]
    by (simp add: pr1_def signal_numbers default_terminates_def split: signal_action.split)
  show ?thesis
  proof (cases "prescribed sig (signal_handlers pr sig) = Delivered")
    case dlv: True
    then obtain h where h: "sig \<noteq> 19" "signal_handlers pr sig = Handler h"
      by (auto split: if_splits signal_action.splits)
    show ?thesis
    proof (cases "frame_fits tf m")
      case True
      define tf' m' where "tf' = fst (snd (projr (push_signal_frame pr1 tf sig h m)))" and "m' = snd (snd (projr (push_signal_frame pr1 tf sig h m)))"
      have "push_signal_frame pr1 tf sig h m = Inr (pr2, tf', m')"
        using push_signal_frame_fits [OF True, of pr1 sig h] p1 by (simp add: pr2_def tf'_def m'_def)
      with eq dlv h D p2 True show ?thesis by (simp add: Let_def)
    next
      case F: False
      with eq dlv h D show ?thesis by (simp add: push_signal_frame_panics)
    qed
  next
    case F: False
    then show ?thesis unfolding eq using p1 D by (simp add: Let_def del: prescribed.simps)
  qed
qed

text \<open>A user process and a machine for the witnesses.\<close>

definition sample_user :: process where
  "sample_user = new_user 1 0x400000 0x710000001000 0x5000 \<lparr>as_ptr = 1, as_root = 1\<rparr> []"

definition sample_machine :: machine where
  "sample_machine = \<lparr>fs_base_msr = 0, fpu_regs = [], cr3 = 1, tss_rsp0 = 0, current_as_ptr = 1, current_pid_fast = 1,
     live_tf = tframe sample_user, vmem = (\<lambda>_ _. 0), vmapped = (\<lambda>_ _. True)\<rparr>"

theorem deliver_pending_correct_witness:
  "\<exists>pr' tf' m'. deliver_pending (sample_user\<lparr>pending_signals := sig_bit 9\<rparr>) tf_zero sample_machine = Inr (pr', tf', m', Terminate 9)"
proof -
  let ?pr = "sample_user\<lparr>pending_signals := sig_bit 9\<rparr>"
  have "blocked_signals ?pr = 0" "signal_handlers ?pr = (\<lambda>_. Default)"
    by (simp_all add: sample_user_def new_user_def process_init_def)
  moreover from this have "deliverable ?pr = {9}" by (auto simp: deliverable_def bit_sig_bit)
  ultimately show ?thesis
    using deliver_pending_correct [of ?pr tf_zero sample_machine] by (auto simp: Let_def split: sum.splits)
qed

text \<open>
  C15. Delivery to a handler and \<^verbatim>\<open>rt_sigreturn\<close> are inverse. Where the frame fits, the handler starts at
  its address with the signal number as argument, on a stack aligned as after a call, whose return
  address is the trampoline and which lies below the red zone; memory elsewhere is unchanged. When
  the handler returns (popping that address) with the frame intact, popping the frame restores all
  twenty registers and the signal mask.
\<close>
theorem signal_frame_roundtrip:
  assumes "frame_fits tf m"
  shows "\<exists>pr' tf' m'. push_signal_frame pr tf sig h m = Inr (pr', tf', m') \<and>
    rip tf' = h \<and> rdi tf' = of_nat sig \<and> unat (rsp tf') mod 16 = 8 \<and>
    bytes_word (peek (vmem m' (cr3 m)) (unat (rsp tf')) 8) = TRAMPOLINE_VA \<and>
    (\<forall>r a. vmem m' r a \<noteq> vmem m r a \<longrightarrow> r = cr3 m \<and> unat (rsp tf') \<le> a \<and> a + 128 < unat (rsp tf)) \<and>
    (\<forall>pr2 m2. mapped_range m2 (unat (rsp tf') + 8) 168 \<and>
       (\<forall>a. unat (rsp tf') + 8 \<le> a \<and> a < unat (rsp tf') + 176 \<longrightarrow> vmem m2 (cr3 m2) a = vmem m' (cr3 m) a) \<longrightarrow>
       pop_signal_frame pr2 (unat (rsp tf') + 8) m2 = Inr (pr2\<lparr>blocked_signals := blocked_signals pr\<rparr>, tf))"
proof -
  define b where "b = frame_top tf"
  from assms have b: "184 \<le> b" by (simp add: frame_fits_def b_def)
  have "b \<le> unat (rsp tf) - 128" unfolding b_def frame_top_def by (rule align16_le)
  with b have top: "b + 128 \<le> unat (rsp tf)" by simp
  have "unat (rsp tf) < 2 ^ 64" using unsigned_less [of "rsp tf"] by simp
  with top have un: "unat (of_nat (b - 184) :: u64) = b - 184" by (simp add: unat_of_nat)
  have "b mod 16 = 0" by (simp add: b_def frame_top_def)
  then obtain k where k: "b = 16 * k" by (meson mod_0_imp_dvd dvdE)
  with b have "b - 184 = 16 * (k - 12) + 8" by simp
  then have al: "(b - 184) mod 16 = 8" by simp
  define v where "v = poke (poke (vmem m (cr3 m)) (b - 176) (signal_frame_bytes (blocked_signals pr) tf)) (b - 184) (word_bytes TRAMPOLINE_VA)"
  have tr: "peek v (b - 184) 8 = word_bytes TRAMPOLINE_VA"
    using peek_poke [of _ "b - 184" "word_bytes TRAMPOLINE_VA"] by (simp add: v_def)
  have fr: "peek v (b - 176) 168 = signal_frame_bytes (blocked_signals pr) tf"
    using b peek_poke [of _ "b - 176" "signal_frame_bytes (blocked_signals pr) tf"]
    by (simp add: v_def peek_poke_other)
  have oth: "b - 184 \<le> a \<and> a + 128 < unat (rsp tf)" if "v a \<noteq> vmem m (cr3 m) a" for a
    using that b top by (auto simp: v_def poke_def split: if_splits)
  have pop: "pop_signal_frame pr2 (b - 184 + 8) m2 = Inr (pr2\<lparr>blocked_signals := blocked_signals pr\<rparr>, tf)"
    if "mapped_range m2 (b - 184 + 8) 168" "\<forall>a. b - 184 + 8 \<le> a \<and> a < b - 184 + 176 \<longrightarrow> vmem m2 (cr3 m2) a = v a" for pr2 m2
  proof -
    have e: "b - 184 + 8 = b - 176" using b by simp
    have "peek (vmem m2 (cr3 m2)) (b - 176) 168 = peek v (b - 176) 168"
      using that(2) b by (intro peek_cong) auto
    moreover have "(b - 176) mod 8 = 0" using k by presburger
    ultimately show ?thesis
      using that(1) fr unfolding e by (simp add: pop_signal_frame_def aread_def vread_def FRAME_SIZE_def chunks8_signal_frame)
  qed
  show ?thesis
    unfolding push_signal_frame_fits [OF assms, of pr sig h] b_def [symmetric] v_def [symmetric]
    using tr oth pop top b un al by (auto split: if_splits)
qed

theorem signal_frame_roundtrip_witness:
  "frame_fits (tframe sample_user) sample_machine \<and>
   (\<exists>pr' tf' m'. push_signal_frame sample_user (tframe sample_user) 10 0x401000 sample_machine = Inr (pr', tf', m') \<and> rip tf' = 0x401000)"
proof -
  have f: "frame_fits (tframe sample_user) sample_machine"
    by (simp add: frame_fits_def frame_top_def align16_def sample_user_def new_user_def process_init_def mapped_range_iff sample_machine_def)
  with signal_frame_roundtrip [OF f, of sample_user 10 "0x401000"] show ?thesis by blast
qed

end
