(* ===== verification/HrTimer.thy ===== *)
theory HrTimer
  imports Prelude
begin

text \<open>
  The high-resolution timer queue, \<^verbatim>\<open>kernel/src/time/hrtimer.rs\<close>: timers sorted by expiry, started and
  cancelled by system calls and drained by the timer interrupt, which learns from \<open>hr_tick\<close> which
  processes to wake. A \<^verbatim>\<open>KernelFn\<close> action is named by a number; \<open>hr_tick\<close> returns the functions it has
  called, in order.
\<close>

section \<open>Model\<close>

datatype hr_action = WakePid nat | KernelFn nat

record hrtimer =
  hr_id :: u32
  expiry_ns :: nat
  action :: hr_action

record hrqueue =
  timers :: "hrtimer list"
  next_id :: u32

definition hr_new :: hrqueue where
  "hr_new = \<lparr>timers = [], next_id = 1\<rparr>"

text \<open>\<^verbatim>\<open>slice::partition_point\<close> on a partitioned slice: the number of leading elements that satisfy the predicate.\<close>

definition partition_point :: "('a \<Rightarrow> bool) \<Rightarrow> 'a list \<Rightarrow> nat" where
  "partition_point p xs = length (takeWhile p xs)"

definition hr_start :: "nat \<Rightarrow> hr_action \<Rightarrow> hrqueue \<Rightarrow> u32 \<times> hrqueue" where
  "hr_start e act q =
     (let i = next_id q;
          q = q\<lparr>next_id := max (next_id q + 1) 1\<rparr>;
          pos = partition_point (\<lambda>t. expiry_ns t \<le> e) (timers q)
      in (i, q\<lparr>timers := take pos (timers q) @ \<lparr>hr_id = i, expiry_ns = e, action = act\<rparr> # drop pos (timers q)\<rparr>))"

definition hr_cancel :: "u32 \<Rightarrow> hrqueue \<Rightarrow> bool \<times> hrqueue" where
  "hr_cancel i q =
     (case take_first (\<lambda>t. hr_id t = i) (timers q) of
        Some (t, ts) \<Rightarrow> (True, q\<lparr>timers := ts\<rparr>)
      | None \<Rightarrow> (False, q))"

text \<open>The loop of \<open>tick\<close>: the timers left, the pids collected so far and the kernel functions called so far.\<close>

fun tick_loop :: "nat \<Rightarrow> hrtimer list \<Rightarrow> nat list \<Rightarrow> nat list \<Rightarrow> hrtimer list \<times> nat list \<times> nat list" where
  "tick_loop now [] pids called = ([], pids, called)"
| "tick_loop now (t # ts) pids called =
     (if now < expiry_ns t then (t # ts, pids, called)
      else case action t of
        KernelFn f \<Rightarrow> tick_loop now ts pids (called @ [f])
      | WakePid p \<Rightarrow> tick_loop now ts (if length pids < 8 then pids @ [p] else pids) called)"

definition hr_tick :: "nat \<Rightarrow> hrqueue \<Rightarrow> nat list \<times> nat list \<times> hrqueue" where
  "hr_tick now q =
     (case tick_loop now (timers q) [] [] of (ts, pids, called) \<Rightarrow> (pids, called, q\<lparr>timers := ts\<rparr>))"

section \<open>Sortedness and the meaning of each operation\<close>

definition hr_sorted :: "hrqueue \<Rightarrow> bool" where
  "hr_sorted q \<longleftrightarrow> sorted (map expiry_ns (timers q))"

definition wake_pids :: "hrtimer list \<Rightarrow> nat list" where
  "wake_pids ts = [p. WakePid p \<leftarrow> map action ts]"

definition kernel_fns :: "hrtimer list \<Rightarrow> nat list" where
  "kernel_fns ts = [f. KernelFn f \<leftarrow> map action ts]"

lemma wake_pids_simps [simp]:
  "wake_pids [] = []"
  "wake_pids (t # ts) = (case action t of WakePid p \<Rightarrow> [p] | _ \<Rightarrow> []) @ wake_pids ts"
  "wake_pids (ts @ us) = wake_pids ts @ wake_pids us"
  by (auto simp: wake_pids_def split: hr_action.splits)

lemma kernel_fns_simps [simp]:
  "kernel_fns [] = []"
  "kernel_fns (t # ts) = (case action t of KernelFn p \<Rightarrow> [p] | _ \<Rightarrow> []) @ kernel_fns ts"
  by (auto simp: kernel_fns_def split: hr_action.splits)

lemma takeWhile_sorted_filter:
  "sorted (map f xs) \<Longrightarrow> takeWhile (\<lambda>x. f x \<le> e) xs = filter (\<lambda>x. f x \<le> e) xs"
  for f :: "'a \<Rightarrow> 'b :: linorder"
proof (induction xs)
  case (Cons x xs)
  show ?case
  proof (cases "f x \<le> e")
    case False
    with Cons.prems have "\<forall>y \<in> set xs. \<not> f y \<le> e" by (auto simp: not_le)
    with False show ?thesis by (simp add: filter_empty_conv)
  qed (use Cons in simp)
qed simp

lemma dropWhile_sorted_filter:
  "sorted (map f xs) \<Longrightarrow> dropWhile (\<lambda>x. f x \<le> e) xs = filter (\<lambda>x. e < f x) xs"
  for f :: "'a \<Rightarrow> 'b :: linorder"
proof (induction xs)
  case (Cons x xs)
  show ?case
  proof (cases "f x \<le> e")
    case False
    with Cons.prems have "\<forall>y \<in> set xs. e < f y" by (auto simp: not_le)
    with False show ?thesis by simp
  qed (use Cons in auto)
qed simp

lemma partition_point_split:
  "take (partition_point p xs) xs = takeWhile p xs" "drop (partition_point p xs) xs = dropWhile p xs"
  by (simp_all add: partition_point_def takeWhile_eq_take [symmetric] dropWhile_eq_drop [symmetric])

text \<open>
  \<open>hr_start\<close> puts the timer behind every timer that expires no later and before all others: timers with
  one expiry fire in the order they were started.
\<close>

lemma hr_start_timers:
  assumes "hr_sorted q"
  shows "timers (snd (hr_start e act q)) =
    [t \<leftarrow> timers q. expiry_ns t \<le> e] @ \<lparr>hr_id = next_id q, expiry_ns = e, action = act\<rparr> # [t \<leftarrow> timers q. e < expiry_ns t]"
  using assms
  by (simp add: hr_start_def Let_def partition_point_split takeWhile_sorted_filter dropWhile_sorted_filter hr_sorted_def)

lemma hr_start_sorted:
  assumes "hr_sorted q" shows "hr_sorted (snd (hr_start e act q))"
  unfolding hr_sorted_def hr_start_timers [OF assms]
  using assms by (auto simp: hr_sorted_def sorted_append sorted_filter)

lemma hr_cancel_sorted: "hr_sorted q \<Longrightarrow> hr_sorted (snd (hr_cancel i q))"
  by (auto simp: hr_cancel_def hr_sorted_def sorted_append split: option.splits dest!: take_first_Some)

lemma tick_loop_eq:
  "sorted (map expiry_ns ts) \<Longrightarrow> length pids \<le> 8 \<Longrightarrow>
   tick_loop now ts pids called =
     ([t \<leftarrow> ts. now < expiry_ns t],
      take 8 (pids @ wake_pids [t \<leftarrow> ts. expiry_ns t \<le> now]),
      called @ kernel_fns [t \<leftarrow> ts. expiry_ns t \<le> now])"
proof (induction now ts pids called rule: tick_loop.induct)
  case (2 now t ts pids called)
  show ?case
  proof (cases "now < expiry_ns t")
    case True
    with 2 have "\<forall>u \<in> set ts. now < expiry_ns u" by auto
    then have "[u \<leftarrow> ts. now < expiry_ns u] = ts" "[u \<leftarrow> ts. expiry_ns u \<le> now] = []"
      by (auto simp: filter_id_conv filter_empty_conv not_le)
    with True 2 show ?thesis by simp
  next
    case False
    with 2 show ?thesis by (auto split: hr_action.splits)
  qed
qed simp

section \<open>Properties\<close>


definition nine_sleepers :: hrqueue where
  "nine_sleepers = \<lparr>timers = map (\<lambda>p. \<lparr>hr_id = of_nat p, expiry_ns = 5, action = WakePid p\<rparr>) [1 ..< 10], next_id = 10\<rparr>"


text \<open>
  Wake-ups beyond the eighth in one tick are lost, not retried: a sleeping process whose timer is
  the ninth to expire is not reported, and its timer is gone from the queue, so no later tick
  reports it either.
\<close>
theorem hrtimer_ninth_wakeup_lost:
  assumes "hr_sorted q" and "8 \<le> length (wake_pids us)"
    and "[t \<leftarrow> timers q. expiry_ns t \<le> now] = us @ t # vs" and "action t = WakePid p" and "p \<notin> set (wake_pids us)"
    and "p \<notin> set (wake_pids [t \<leftarrow> timers q. now < expiry_ns t])"
  shows "case hr_tick now q of (pids, called, q1) \<Rightarrow>
    p \<notin> set pids \<and> (\<forall>later. p \<notin> set (fst (hr_tick later q1)))"
proof -
  have s: "sorted (map expiry_ns [t \<leftarrow> timers q. now < expiry_ns t])"
    using assms(1) by (simp add: hr_sorted_def sorted_filter)
  have "set (wake_pids [t \<leftarrow> ts. P t]) \<subseteq> set (wake_pids ts)" for P ts
    by (induction ts) auto
  then have "p \<notin> set (wake_pids [u \<leftarrow> [t \<leftarrow> timers q. now < expiry_ns t]. expiry_ns u \<le> later])" for later
    using assms(6) by blast
  with s have "p \<notin> set (fst (hr_tick later (q\<lparr>timers := [t \<leftarrow> timers q. now < expiry_ns t]\<rparr>)))" for later
    by (auto simp: hr_tick_def tick_loop_eq simp del: filter_filter dest: in_set_takeD)
  moreover have "take 8 (wake_pids (us @ t # vs)) = take 8 (wake_pids us)"
    using assms(2) by simp
  ultimately show ?thesis
    using assms(1,3,5) by (auto simp: hr_tick_def tick_loop_eq hr_sorted_def dest: in_set_takeD)
qed

theorem hrtimer_ninth_wakeup_lost_witness:
  "case hr_tick 5 nine_sleepers of (pids, called, q1) \<Rightarrow> 9 \<notin> set pids \<and> (\<forall>later. 9 \<notin> set (fst (hr_tick later q1)))"
  by (rule hrtimer_ninth_wakeup_lost [where us = "butlast (timers nine_sleepers)" and t = "last (timers nine_sleepers)" and vs = "[]"])
    (simp_all add: nine_sleepers_def hr_sorted_def upt_rec)

end
