(* ===== verification/Waiters.thy ===== *)
theory Waiters
  imports Signal HrTimer
begin

text \<open>
  The side tables in which blocked processes are registered by pid: futex waits
  (\<^verbatim>\<open>syscall/sync.rs\<close>), poll and epoll waits and the epoll descriptors (\<^verbatim>\<open>syscall/poll.rs\<close>), and the timer
  queue. A process that dies must leave all of them.
\<close>

definition MAX_PROCS :: nat where "MAX_PROCS = 32"
definition MAX_FILES_PER_PROC :: nat where "MAX_FILES_PER_PROC = 16"

record futex_waiter =
  fw_uaddr :: nat
  fw_as_id :: nat

datatype poll_waiter_kind = PollKind nat | EpollWaitKind nat nat

record poll_waiter =
  pw_pid :: nat
  phys_buf :: nat
  phys_len :: nat
  pw_kind :: poll_waiter_kind
  timer_id :: "u32 option"

record sides = machine +
  hrq :: hrqueue
  futex_waiters :: "nat \<Rightarrow> futex_waiter option"
  poll_waiters :: "nat \<Rightarrow> poll_waiter option"
  epoll_fd_map :: "nat \<Rightarrow> nat \<Rightarrow> nat"

definition futex_cancel_waiter :: "nat \<Rightarrow> 'a sides_scheme \<Rightarrow> 'a sides_scheme" where
  "futex_cancel_waiter p s = (if p < MAX_PROCS then s\<lparr>futex_waiters := (futex_waiters s)(p := None)\<rparr> else s)"

definition poll_cancel_waiter :: "nat \<Rightarrow> 'a sides_scheme \<Rightarrow> 'a sides_scheme" where
  "poll_cancel_waiter p s =
     (if MAX_PROCS \<le> p then s
      else
        let s1 = s\<lparr>poll_waiters := (poll_waiters s)(p := None)\<rparr> in
        case poll_waiters s p of
          Some w \<Rightarrow> (case timer_id w of Some t \<Rightarrow> s1\<lparr>hrq := snd (hr_cancel t (hrq s1))\<rparr> | None \<Rightarrow> s1)
        | None \<Rightarrow> s1)"

definition poll_clear_on_timeout :: "nat \<Rightarrow> 'a sides_scheme \<Rightarrow> 'a sides_scheme" where
  "poll_clear_on_timeout p s = (if MAX_PROCS \<le> p then s else s\<lparr>poll_waiters := (poll_waiters s)(p := None)\<rparr>)"

definition clear_epoll_fd_all :: "nat \<Rightarrow> 'a sides_scheme \<Rightarrow> 'a sides_scheme" where
  "clear_epoll_fd_all p s = (if p < MAX_PROCS then s\<lparr>epoll_fd_map := (epoll_fd_map s)(p := (\<lambda>_. 0))\<rparr> else s)"

definition cancel_all_waiters :: "nat \<Rightarrow> 'a sides_scheme \<Rightarrow> 'a sides_scheme" where
  "cancel_all_waiters p s = futex_cancel_waiter p (clear_epoll_fd_all p (poll_cancel_waiter p s))"

text \<open>The cancellations touch the side tables only.\<close>

lemma cancel_all_waiters_eq:
  "cancel_all_waiters p s = s\<lparr>hrq := hrq (cancel_all_waiters p s), futex_waiters := futex_waiters (cancel_all_waiters p s),
     poll_waiters := poll_waiters (cancel_all_waiters p s), epoll_fd_map := epoll_fd_map (cancel_all_waiters p s)\<rparr>"
  by (auto simp: cancel_all_waiters_def futex_cancel_waiter_def clear_epoll_fd_all_def poll_cancel_waiter_def Let_def
      split: option.splits)

lemma poll_clear_on_timeout_eq:
  "poll_clear_on_timeout p s = s\<lparr>poll_waiters := poll_waiters (poll_clear_on_timeout p s)\<rparr>"
  by (simp add: poll_clear_on_timeout_def)

end
