(* ===== verification/Scheduler.thy ===== *)
theory Scheduler
  imports Waiters
begin

text \<open>
  The scheduler, \<^verbatim>\<open>kernel/src/process/scheduler.rs\<close>: eleven run queues of ready processes, the queue of
  waiting ones and the running process. Its record extends the machine it drives and the side tables,
  because a context switch loads the processor and a death by signal clears the side tables.

  A pointer to a register frame is a \<open>tfref\<close>: the frame on the kernel stack that the current entry into
  the kernel has pushed, or the frame saved in the running process. Every pointer the scheduler
  returns is one of the two.
\<close>

section \<open>State\<close>

definition NUM_PRIORITIES :: nat where "NUM_PRIORITIES = 11"
definition BASE_QUANTUM :: nat where "BASE_QUANTUM = 2"
definition PRIORITY_QUANTUM_BONUS :: nat where "PRIORITY_QUANTUM_BONUS = 1"
definition AGING_EPOCH :: u32 where "AGING_EPOCH = 50"
definition MIN_EFFECTIVE_PRIORITY :: nat where "MIN_EFFECTIVE_PRIORITY = 1"

lemmas sched_consts = NUM_PRIORITIES_def BASE_QUANTUM_def PRIORITY_QUANTUM_BONUS_def MIN_EFFECTIVE_PRIORITY_def

record sched = sides +
  run_queues :: "nat \<Rightarrow> process list"
  wait_queue :: "process list"
  running :: "process option"
  remaining_ticks :: nat
  global_ticks :: u32
  next_pid :: nat
  pending_stack_frees :: "nat list"
  pending_vma_frees :: "(aspace \<times> nat \<times> nat) list"

datatype tfref = LiveTf | SavedTf

fun tf_at :: "'a sched_scheme \<Rightarrow> tfref \<Rightarrow> trapframe" where
  "tf_at s LiveTf = live_tf s"
| "tf_at s SavedTf = (case running s of Some pr \<Rightarrow> tframe pr | None \<Rightarrow> live_tf s)"

fun tf_store :: "tfref \<Rightarrow> trapframe \<Rightarrow> 'a sched_scheme \<Rightarrow> 'a sched_scheme" where
  "tf_store LiveTf v s = s\<lparr>live_tf := v\<rparr>"
| "tf_store SavedTf v s = s\<lparr>running := map_option (\<lambda>pr. pr\<lparr>tframe := v\<rparr>) (running s)\<rparr>"

section \<open>Queues\<close>

definition quantum_for :: "nat \<Rightarrow> nat" where
  "quantum_for eff = BASE_QUANTUM + eff * PRIORITY_QUANTUM_BONUS"

definition allocate_pid :: "'a sched_scheme \<Rightarrow> nat \<times> 'a sched_scheme" where
  "allocate_pid s = (next_pid s, s\<lparr>next_pid := next_pid s + 1\<rparr>)"

definition queue_index :: "process \<Rightarrow> nat" where
  "queue_index pr = min (effective_priority pr) (NUM_PRIORITIES - 1)"

definition push_run :: "process \<Rightarrow> 'a sched_scheme \<Rightarrow> 'a sched_scheme" where
  "push_run pr s = s\<lparr>run_queues := (run_queues s)(queue_index pr := run_queues s (queue_index pr) @ [pr])\<rparr>"

definition add_process :: "process \<Rightarrow> 'a sched_scheme \<Rightarrow> 'a sched_scheme" where
  "add_process pr s = push_run (pr\<lparr>effective_priority := priority pr\<rparr>) s"

definition current_pid :: "'a sched_scheme \<Rightarrow> nat option" where
  "current_pid s = map_option pid (running s)"

definition running_mut :: "(process \<Rightarrow> process) \<Rightarrow> 'a sched_scheme \<Rightarrow> 'a sched_scheme" where
  "running_mut f s = s\<lparr>running := map_option f (running s)\<rparr>"

definition iter_all :: "'a sched_scheme \<Rightarrow> process list" where
  "iter_all s = (case running s of Some pr \<Rightarrow> [pr] | None \<Rightarrow> []) @ concat (map (run_queues s) [0 ..< NUM_PRIORITIES]) @ wait_queue s"

fun upd_in_queues :: "nat list \<Rightarrow> nat \<Rightarrow> (process \<Rightarrow> process) \<Rightarrow> (nat \<Rightarrow> process list) \<Rightarrow> (nat \<Rightarrow> process list) option" where
  "upd_in_queues [] p f rq = None"
| "upd_in_queues (q # qs) p f rq =
     (case upd_first (\<lambda>pr. pid pr = p) f (rq q) of
        Some xs \<Rightarrow> Some (rq(q := xs))
      | None \<Rightarrow> upd_in_queues qs p f rq)"

text \<open>\<open>find_process_mut p f s\<close>: the state after the caller has applied \<open>f\<close> to the process found, if any.\<close>

definition find_process_mut :: "nat \<Rightarrow> (process \<Rightarrow> process) \<Rightarrow> 'a sched_scheme \<Rightarrow> 'a sched_scheme option" where
  "find_process_mut p f s =
     (case upd_in_queues [0 ..< NUM_PRIORITIES] p f (run_queues s) of
        Some rq \<Rightarrow> Some (s\<lparr>run_queues := rq\<rparr>)
      | None \<Rightarrow> map_option (\<lambda>w. s\<lparr>wait_queue := w\<rparr>) (upd_first (\<lambda>pr. pid pr = p) f (wait_queue s)))"

text \<open>The highest non-empty run queue gives up its front.\<close>

fun pop_highest :: "nat list \<Rightarrow> (nat \<Rightarrow> process list) \<Rightarrow> (process \<times> (nat \<Rightarrow> process list)) option" where
  "pop_highest [] rq = None"
| "pop_highest (q # qs) rq =
     (case rq q of
        pr # rest \<Rightarrow> Some (pr, rq(q := rest))
      | [] \<Rightarrow> pop_highest qs rq)"

section \<open>Context switches\<close>

text \<open>
  Load the processor for \<open>pr\<close> and make it the running process; \<open>with_fs\<close> tells whether \<open>FS.base\<close> is
  written.
\<close>

definition dispatch :: "bool \<Rightarrow> process \<Rightarrow> 'a sched_scheme \<Rightarrow> 'a sched_scheme" where
  "dispatch with_fs pr s =
     (let pr = pr\<lparr>pstate := Running\<rparr>;
          s = activate (address_space pr) s;
          s = set_kernel_stack (kernel_stack pr) s;
          s = (if with_fs then write_fs_base (fs_base pr) s else s);
          s = fpu_restore (fpu pr) s;
          s = s\<lparr>remaining_ticks := quantum_for (effective_priority pr)\<rparr>;
          s = update_current_fast pr s
      in s\<lparr>running := Some pr\<rparr>)"

definition save_context :: "trapframe \<Rightarrow> 'a sched_scheme \<Rightarrow> process \<Rightarrow> process" where
  "save_context tf s pr = pr\<lparr>tframe := tf, fs_base := fs_base_msr s, fpu := fpu_regs s\<rparr>"

definition kill_current :: "'a sched_scheme \<Rightarrow> bool \<times> 'a sched_scheme" where
  "kill_current s =
     (case running s of
        Some pr \<Rightarrow>
          let s = s\<lparr>running := None\<rparr> in
          if is_thread pr then
            let s = s\<lparr>pending_stack_frees := pending_stack_frees s @ [kernel_stack pr]\<rparr> in
            (True, case owned_stack_vma pr of
               Some (start, size_pages) \<Rightarrow> s\<lparr>pending_vma_frees := pending_vma_frees s @ [(address_space pr, start, size_pages)]\<rparr>
             | None \<Rightarrow> s)
          else (True, s\<lparr>wait_queue := wait_queue s @ [pr\<lparr>pstate := Zombie\<rparr>]\<rparr>)
      | None \<Rightarrow> (False, s))"

definition kill_and_switch_tf :: "'a sched_scheme \<Rightarrow> (tfref \<times> 'a sched_scheme) res" where
  "kill_and_switch_tf s =
     (let s = snd (kill_current s) in
      case pop_highest (rev [0 ..< NUM_PRIORITIES]) (run_queues s) of
        Some (pr, rq) \<Rightarrow> Inr (SavedTf, dispatch False pr (s\<lparr>run_queues := rq\<rparr>))
      | None \<Rightarrow> Inl Panic)"

definition park_current :: "process_state \<Rightarrow> tfref \<Rightarrow> 'a sched_scheme \<Rightarrow> 'a sched_scheme" where
  "park_current st tf s =
     (let s' = (case running s of
           Some pr \<Rightarrow> s\<lparr>running := None, wait_queue := wait_queue s @ [(save_context (tf_at s tf) s pr)\<lparr>pstate := st\<rparr>]\<rparr>
         | None \<Rightarrow> s)
      in clear_current_fast s')"

definition stop_and_switch_tf :: "tfref \<Rightarrow> 'a sched_scheme \<Rightarrow> (tfref \<times> 'a sched_scheme) res" where
  "stop_and_switch_tf tf s =
     (let s = park_current Stopped tf s in
      case pop_highest (rev [0 ..< NUM_PRIORITIES]) (run_queues s) of
        Some (pr, rq) \<Rightarrow> Inr (SavedTf, dispatch True pr (s\<lparr>run_queues := rq\<rparr>))
      | None \<Rightarrow> Inl Panic)"

definition block_current :: "tfref \<Rightarrow> 'a sched_scheme \<Rightarrow> (tfref \<times> 'a sched_scheme) res" where
  "block_current tf s =
     (let s = park_current Blocked tf s in
      case pop_highest (rev [0 ..< NUM_PRIORITIES]) (run_queues s) of
        Some (pr, rq) \<Rightarrow> Inr (SavedTf, dispatch True pr (s\<lparr>run_queues := rq\<rparr>))
      | None \<Rightarrow> Inl Panic)"

definition requeue_current :: "tfref \<Rightarrow> 'a sched_scheme \<Rightarrow> 'a sched_scheme" where
  "requeue_current tf s =
     (case running s of
        None \<Rightarrow> s
      | Some pr \<Rightarrow>
          let pr = save_context (tf_at s tf) s pr; s = s\<lparr>running := None\<rparr> in
          (case pstate pr of
             Running \<Rightarrow>
               let pr = pr\<lparr>pstate := Ready\<rparr>;
                   pr = (if pid pr \<noteq> 0 \<and> MIN_EFFECTIVE_PRIORITY < effective_priority pr
                         then pr\<lparr>effective_priority := effective_priority pr - 1\<rparr> else pr)
               in push_run pr s
           | Ready \<Rightarrow> push_run pr s
           | _ \<Rightarrow> s\<lparr>wait_queue := wait_queue s @ [pr]\<rparr>))"

definition switch_to_next :: "tfref \<Rightarrow> 'a sched_scheme \<Rightarrow> tfref \<times> 'a sched_scheme" where
  "switch_to_next tf s =
     (let s = requeue_current tf s in
      case pop_highest (rev [0 ..< NUM_PRIORITIES]) (run_queues s) of
        Some (pr, rq) \<Rightarrow> (SavedTf, dispatch True pr (s\<lparr>run_queues := rq\<rparr>))
      | None \<Rightarrow> (tf, s))"

text \<open>Boot: the first ready process that is not the idle process, from priority 10 down to 1.\<close>

fun first_ready :: "nat list \<Rightarrow> (nat \<Rightarrow> process list) \<Rightarrow> (process \<times> (nat \<Rightarrow> process list)) option" where
  "first_ready [] rq = None"
| "first_ready (q # qs) rq =
     (case take_first (\<lambda>pr. pstate pr = Ready \<and> pid pr \<noteq> 0) (rq q) of
        Some (pr, rest) \<Rightarrow> Some (pr, rq(q := rest))
      | None \<Rightarrow> first_ready qs rq)"

definition start_first :: "'a sched_scheme \<Rightarrow> (tfref \<times> 'a sched_scheme) res" where
  "start_first s =
     (case first_ready (rev [1 ..< NUM_PRIORITIES]) (run_queues s) of
        Some (pr, rq) \<Rightarrow> Inr (SavedTf, dispatch False pr (s\<lparr>run_queues := rq\<rparr>))
      | None \<Rightarrow> Inl Panic)"

section \<open>Wake-ups\<close>

definition wake :: "nat \<Rightarrow> 'a sched_scheme \<Rightarrow> 'a sched_scheme" where
  "wake p s =
     (case take_first (\<lambda>pr. pid pr = p \<and> pstate pr = Blocked) (wait_queue s) of
        Some (pr, rest) \<Rightarrow> push_run (pr\<lparr>pstate := Ready\<rparr>) (s\<lparr>wait_queue := rest\<rparr>)
      | None \<Rightarrow> s)"

definition wake_with_retval :: "nat \<Rightarrow> u64 \<Rightarrow> 'a sched_scheme \<Rightarrow> 'a sched_scheme" where
  "wake_with_retval p ret s =
     (case take_first (\<lambda>pr. pid pr = p \<and> pstate pr = Blocked) (wait_queue s) of
        Some (pr, rest) \<Rightarrow>
          push_run (pr\<lparr>tframe := (tframe pr)\<lparr>rax := ret\<rparr>, pstate := Ready\<rparr>) (s\<lparr>wait_queue := rest\<rparr>)
      | None \<Rightarrow> s)"

definition wake_stopped :: "nat \<Rightarrow> 'a sched_scheme \<Rightarrow> bool \<times> 'a sched_scheme" where
  "wake_stopped p s =
     (case take_first (\<lambda>pr. pid pr = p \<and> pstate pr = Stopped) (wait_queue s) of
        Some (pr, rest) \<Rightarrow> (True, push_run (pr\<lparr>pstate := Ready, stopped_by_signal := None\<rparr>) (s\<lparr>wait_queue := rest\<rparr>))
      | None \<Rightarrow> (False, s))"

definition queue_signal_to_group :: "nat \<Rightarrow> nat \<Rightarrow> 'a sched_scheme \<Rightarrow> 'a sched_scheme" where
  "queue_signal_to_group g sig s =
     (let f = (\<lambda>pr. if pgid pr = g then queue_signal sig pr else pr) in
      s\<lparr>running := map_option f (running s),
        run_queues := (\<lambda>q. if q < NUM_PRIORITIES then map f (run_queues s q) else run_queues s q),
        wait_queue := map f (wait_queue s)\<rparr>)"

section \<open>Child events\<close>

definition notify_sigchld :: "nat option \<Rightarrow> 'a sched_scheme \<Rightarrow> 'a sched_scheme" where
  "notify_sigchld parent s =
     (case parent of
        None \<Rightarrow> s
      | Some pp \<Rightarrow>
          if current_pid s = Some pp then running_mut (queue_signal SIGCHLD) s
          else (case find_process_mut pp (queue_signal SIGCHLD) s of Some s' \<Rightarrow> s' | None \<Rightarrow> s))"

definition waits_for :: "process \<Rightarrow> nat \<Rightarrow> nat \<Rightarrow> bool" where
  "waits_for pr p g = (case waiting_for pr of Some t \<Rightarrow> wait_matches t p g | None \<Rightarrow> False)"

definition report_child :: "nat \<Rightarrow> i32 \<Rightarrow> process \<Rightarrow> process" where
  "report_child p status pr =
     pr\<lparr>tframe := (tframe pr)\<lparr>rax := of_nat p\<rparr>, waiting_for := None, pending_wait_status := Some status\<rparr>"

definition notify_child_death :: "nat \<Rightarrow> nat option \<Rightarrow> 'a sched_scheme \<Rightarrow> 'a sched_scheme" where
  "notify_child_death dead_pid parent s =
     (let s = notify_sigchld parent s;
          dead = find (\<lambda>pr. pid pr = dead_pid \<and> pstate pr = Zombie) (wait_queue s);
          status = (case dead of Some pr \<Rightarrow> wait_status_word pr | None \<Rightarrow> 0x200);
          g = (case dead of Some pr \<Rightarrow> pgid pr | None \<Rightarrow> 0)
      in case upd_first (\<lambda>pr. Some (pid pr) = parent \<and> pstate pr = Blocked \<and> waits_for pr dead_pid g)
                (report_child dead_pid status) (wait_queue s) of
           Some w \<Rightarrow> (case parent of Some pp \<Rightarrow> wake pp (s\<lparr>wait_queue := w\<rparr>) | None \<Rightarrow> s)
         | None \<Rightarrow> s)"

definition WUNTRACED :: i32 where "WUNTRACED = 4"
definition WNOHANG :: i32 where "WNOHANG = 2"

definition notify_child_stopped :: "nat \<Rightarrow> nat option \<Rightarrow> 'a sched_scheme \<Rightarrow> 'a sched_scheme" where
  "notify_child_stopped stopped_pid parent s =
     (let s = notify_sigchld parent s in
      case find (\<lambda>pr. pid pr = stopped_pid \<and> pstate pr = Stopped) (wait_queue s) of
        None \<Rightarrow> s
      | Some st \<Rightarrow>
          (case upd_first (\<lambda>pr. Some (pid pr) = parent \<and> pstate pr = Blocked \<and> waiting_options pr AND WUNTRACED \<noteq> 0 \<and>
                     waits_for pr stopped_pid (pgid st))
                  (report_child stopped_pid (stop_status_word st)) (wait_queue s) of
             None \<Rightarrow> s
           | Some w \<Rightarrow>
               let w = (case upd_first (\<lambda>pr. pid pr = stopped_pid) (\<lambda>pr. pr\<lparr>stop_reported := True\<rparr>) w of Some w' \<Rightarrow> w' | None \<Rightarrow> w)
               in (case parent of Some pp \<Rightarrow> wake pp (s\<lparr>wait_queue := w\<rparr>) | None \<Rightarrow> s)))"

definition resolve_wait_status :: "'a sched_scheme \<Rightarrow> 'a sched_scheme res" where
  "resolve_wait_status s =
     (case running s of
        None \<Rightarrow> Inr s
      | Some pr \<Rightarrow>
          (case pending_wait_status pr of
             None \<Rightarrow> Inr s
           | Some status \<Rightarrow>
               bindR (if waiting_status_ptr pr \<noteq> 0 then vwrite (waiting_status_ptr pr) (le_bytes 4 (unat status)) s else Inr s)
                 (\<lambda>s. Inr (s\<lparr>running := Some (pr\<lparr>pending_wait_status := None, waiting_status_ptr := 0\<rparr>)\<rparr>))))"

section \<open>Timer tick and aging\<close>

text \<open>
  One pass over the queue of priority \<open>q\<close>, from position \<open>i\<close>. A process below its base priority is
  moved one queue up; the next process then stands at position \<open>i\<close>.
\<close>

function age_queue :: "nat \<Rightarrow> nat \<Rightarrow> (nat \<Rightarrow> process list) \<Rightarrow> (nat \<Rightarrow> process list)" where
  "age_queue q i rq =
     (if i < length (rq q) then
        let pr = rq q ! i in
        if pid pr = 0 then age_queue q (i + 1) rq
        else if effective_priority pr < priority pr then
          let pr' = pr\<lparr>effective_priority := min (effective_priority pr + 1) (priority pr)\<rparr>;
              rq' = rq(q := take i (rq q) @ drop (i + 1) (rq q))
          in age_queue q i (rq'(queue_index pr' := rq' (queue_index pr') @ [pr']))
        else age_queue q (i + 1) rq
      else rq)"
  by pat_completeness auto

text \<open>Each move lowers the total distance of the queue from its base priorities.\<close>

definition age_gap :: "process list \<Rightarrow> nat" where
  "age_gap prs = sum_list (map (\<lambda>pr. priority pr - effective_priority pr) prs)"

lemma age_gap_split:
  assumes "i < length prs"
  shows "age_gap prs = age_gap (take i prs @ drop (i + 1) prs) + (priority (prs ! i) - effective_priority (prs ! i))"
proof -
  have "prs = take i prs @ prs ! i # drop (i + 1) prs" using id_take_nth_drop [OF assms] by simp
  then have "age_gap prs = age_gap (take i prs @ prs ! i # drop (i + 1) prs)" by simp
  then show ?thesis by (simp add: age_gap_def)
qed

termination age_queue
proof (relation "measure (\<lambda>(q, i, rq). age_gap (rq q) + (length (rq q) - i))", goal_cases)
  case (3 q i rq pr pr' rq')
  have "age_gap (rq q) = age_gap (rq' q) + (priority pr - effective_priority pr)" "length (rq' q) = length (rq q) - 1"
    using 3 age_gap_split [of i "rq q"] by simp_all
  with 3 show ?case by (cases "queue_index pr' = q") (auto simp: age_gap_def)
qed auto

definition age_processes :: "(nat \<Rightarrow> process list) \<Rightarrow> (nat \<Rightarrow> process list)" where
  "age_processes rq = fold (\<lambda>q. age_queue q 0) [0 ..< NUM_PRIORITIES] rq"

text \<open>
  \<open>stack_freed\<close> and \<open>vma_freed\<close> are the answers of the two non-blocking frees (true when the frames went back
  to the buddy allocator, false when its lock was taken and the entry must wait).
\<close>

definition tick :: "(nat \<Rightarrow> bool) \<Rightarrow> (aspace \<times> nat \<times> nat \<Rightarrow> bool) \<Rightarrow> 'a sched_scheme \<Rightarrow> bool \<times> 'a sched_scheme" where
  "tick stack_freed vma_freed s =
     (let s = s\<lparr>global_ticks := global_ticks s + 1\<rparr>;
          s = s\<lparr>pending_stack_frees := filter (\<lambda>k. \<not> stack_freed k) (pending_stack_frees s)\<rparr>;
          s = s\<lparr>pending_vma_frees := filter (\<lambda>v. \<not> vma_freed v) (pending_vma_frees s)\<rparr>;
          s = (if global_ticks s mod AGING_EPOCH = 0 then s\<lparr>run_queues := age_processes (run_queues s)\<rparr> else s);
          s = (if 0 < remaining_ticks s then s\<lparr>remaining_ticks := remaining_ticks s - 1\<rparr> else s)
      in (remaining_ticks s = 0, s))"

section \<open>Queue contents\<close>

text \<open>All queued processes as a multiset.\<close>

definition queued :: "(nat \<Rightarrow> process list) \<Rightarrow> process multiset" where
  "queued rq = (\<Sum>q < NUM_PRIORITIES. mset (rq q))"

lemma queued_upd: "q < NUM_PRIORITIES \<Longrightarrow> queued (rq(q := xs)) + mset (rq q) = queued rq + mset xs"
proof -
  assume q: "q < NUM_PRIORITIES"
  have "queued (rq(q := xs)) = mset xs + (\<Sum>i \<in> {..< NUM_PRIORITIES} - {q}. mset (rq i))"
    unfolding queued_def by (subst sum.remove [of _ q]) (use q in \<open>auto intro!: sum.cong\<close>)
  moreover have "queued rq = mset (rq q) + (\<Sum>i \<in> {..< NUM_PRIORITIES} - {q}. mset (rq i))"
    unfolding queued_def by (subst sum.remove [of _ q]) (use q in auto)
  ultimately show ?thesis by (simp add: ac_simps)
qed

lemma queued_append: "q < NUM_PRIORITIES \<Longrightarrow> queued (rq(q := rq q @ xs)) = queued rq + mset xs"
  using queued_upd [of q rq "rq q @ xs"] by simp

lemma queued_cong: "(\<And>q. q < NUM_PRIORITIES \<Longrightarrow> mset (rq q) = mset (rq' q)) \<Longrightarrow> queued rq = queued rq'"
  by (auto simp: queued_def intro!: sum.cong)

lemma queue_index_less [simp]: "queue_index pr < NUM_PRIORITIES"
  by (simp add: queue_index_def NUM_PRIORITIES_def)

lemma queued_push_run [simp]: "queued (run_queues (push_run pr s)) = add_mset pr (queued (run_queues s))"
  by (simp add: push_run_def queued_append)

lemma push_run_other [simp]:
  "wait_queue (push_run pr s) = wait_queue s" "running (push_run pr s) = running s"
  "next_pid (push_run pr s) = next_pid s" "remaining_ticks (push_run pr s) = remaining_ticks s"
  by (simp_all add: push_run_def)

lemma pop_highest_Some:
  "pop_highest qs rq = Some (pr, rq') \<Longrightarrow>
   \<exists>us q vs rest. qs = us @ q # vs \<and> (\<forall>u \<in> set us. rq u = []) \<and> rq q = pr # rest \<and> rq' = rq(q := rest)"
proof (induction qs)
  case (Cons q qs)
  show ?case
  proof (cases "rq q")
    case Nil
    with Cons.prems have "pop_highest qs rq = Some (pr, rq')" by simp
    with Cons.IH obtain us q' vs rest where
      "qs = us @ q' # vs" "\<forall>u \<in> set us. rq u = []" "rq q' = pr # rest" "rq' = rq(q' := rest)" by blast
    with Nil have "q # qs = (q # us) @ q' # vs \<and> (\<forall>u \<in> set (q # us). rq u = []) \<and> rq q' = pr # rest \<and> rq' = rq(q' := rest)" by simp
    then show ?thesis by blast
  next
    case (Cons x rest)
    with Cons.prems have "q # qs = [] @ q # qs \<and> (\<forall>u \<in> set []. rq u = []) \<and> rq q = pr # rest \<and> rq' = rq(q := rest)" by simp
    then show ?thesis by blast
  qed
qed simp

lemma pop_highest_None: "pop_highest qs rq = None \<longleftrightarrow> (\<forall>q \<in> set qs. rq q = [])"
  by (induction qs) (auto split: list.splits)

text \<open>What the search from the top finds: the front of the highest non-empty queue.\<close>

lemma pop_highest_top:
  assumes "pop_highest (rev [0 ..< NUM_PRIORITIES]) rq = Some (pr, rq')"
  obtains q rest where "q < NUM_PRIORITIES" "rq q = pr # rest" "rq' = rq(q := rest)"
    "\<And>u. q < u \<Longrightarrow> u < NUM_PRIORITIES \<Longrightarrow> rq u = []"
proof -
  from pop_highest_Some [OF assms] obtain us q vs rest where
    split: "rev [0 ..< NUM_PRIORITIES] = us @ q # vs" and em: "\<forall>u \<in> set us. rq u = []"
    and r: "rq q = pr # rest" "rq' = rq(q := rest)" by blast
  have q: "q < NUM_PRIORITIES"
  proof -
    have "q \<in> set (rev [0 ..< NUM_PRIORITIES])" unfolding split by simp
    then show ?thesis by simp
  qed
  have "rq u = []" if u: "q < u" "u < NUM_PRIORITIES" for u
  proof -
    have sv: "sorted_wrt (>) (rev [0 ..< NUM_PRIORITIES])" by (simp add: sorted_wrt_rev)
    then have "\<forall>v \<in> set vs. v < q" unfolding split by (simp add: sorted_wrt_append)
    moreover have "u \<in> set (rev [0 ..< NUM_PRIORITIES])" using u by simp
    then have "u \<in> set us \<union> {q} \<union> set vs" unfolding split by auto
    ultimately show ?thesis using u em by auto
  qed
  with q r show thesis using that by blast
qed

lemma pop_highest_queued:
  "pop_highest (rev [0 ..< NUM_PRIORITIES]) rq = Some (pr, rq') \<Longrightarrow> queued rq = add_mset pr (queued rq')"
proof (elim pop_highest_top)
  fix q rest assume "q < NUM_PRIORITIES" "rq q = pr # rest" "rq' = rq(q := rest)"
  then show "queued rq = add_mset pr (queued rq')" using queued_upd [of q rq rest] by simp
qed

lemma dispatch_sched [simp]:
  "run_queues (dispatch fs pr s) = run_queues s" "wait_queue (dispatch fs pr s) = wait_queue s"
  "running (dispatch fs pr s) = Some (pr\<lparr>pstate := Running\<rparr>)" "next_pid (dispatch fs pr s) = next_pid s"
  "remaining_ticks (dispatch fs pr s) = quantum_for (effective_priority pr)"
  by (simp_all add: dispatch_def Let_def machine_ops activate_eq)

section \<open>Signals on the way to user mode\<close>

text \<open>
  How many processes can still run: each round of the loop in \<open>resolve_signals\<close> takes one out for good.
\<close>

definition runnable :: "'a sched_scheme \<Rightarrow> nat" where
  "runnable s = size (queued (run_queues s)) + size {#pr \<in># mset (wait_queue s). pstate pr = Blocked#} +
     (if running s = None then 0 else 1)"

lemma runnable_wake [simp]: "runnable (wake p s) = runnable s"
  by (auto simp: wake_def runnable_def split: option.splits dest!: take_first_mset take_first_Some)

lemma upd_first_states:
  assumes "upd_first p f xs = Some ys" and "\<And>x. pstate (f x) = pstate x"
  shows "size {#x \<in># mset ys. pstate x = st#} = size {#x \<in># mset xs. pstate x = st#}"
  using upd_first_Some [OF assms(1)] assms(2) by auto

lemma upd_in_queues_size:
  "set qs \<subseteq> {..< NUM_PRIORITIES} \<Longrightarrow> upd_in_queues qs p f rq = Some rq' \<Longrightarrow> size (queued rq') = size (queued rq)"
proof (induction qs)
  case (Cons q qs)
  show ?case
  proof (cases "upd_first (\<lambda>pr. pid pr = p) f (rq q)")
    case None
    with Cons show ?thesis by auto
  next
    case (Some xs)
    then have "length xs = length (rq q)" by (auto dest: upd_first_Some)
    moreover from Cons.prems have "q < NUM_PRIORITIES" by simp
    ultimately have "size (queued (rq(q := xs))) = size (queued rq)"
      using arg_cong [OF queued_upd [of q rq xs], of size] by simp
    moreover from Some Cons.prems have "rq' = rq(q := xs)" by (simp del: fun_upd_apply)
    ultimately show ?thesis by (simp only:)
  qed
qed simp

lemma queue_signal_fields [simp]:
  "pstate (queue_signal sig pr) = pstate pr" "pid (queue_signal sig pr) = pid pr"
  "effective_priority (queue_signal sig pr) = effective_priority pr" "priority (queue_signal sig pr) = priority pr"
  "tframe (queue_signal sig pr) = tframe pr" "address_space (queue_signal sig pr) = address_space pr"
  "fs_base (queue_signal sig pr) = fs_base pr" "fpu (queue_signal sig pr) = fpu pr"
  "kernel_stack (queue_signal sig pr) = kernel_stack pr" "waiting_for (queue_signal sig pr) = waiting_for pr"
  "parent_pid (queue_signal sig pr) = parent_pid pr" "pgid (queue_signal sig pr) = pgid pr"
  "waiting_options (queue_signal sig pr) = waiting_options pr" "privilege (queue_signal sig pr) = privilege pr"
  "queue_index (queue_signal sig pr) = queue_index pr"
  by (simp_all add: queue_signal_def queue_index_def)

lemma report_child_fields [simp]:
  "pstate (report_child p st pr) = pstate pr" "pid (report_child p st pr) = pid pr"
  "effective_priority (report_child p st pr) = effective_priority pr" "priority (report_child p st pr) = priority pr"
  by (simp_all add: report_child_def)

lemma runnable_find_process_mut:
  assumes "find_process_mut p f s = Some s'" and "\<And>x. pstate (f x) = pstate x"
  shows "runnable s' = runnable s"
proof (cases "upd_in_queues [0 ..< NUM_PRIORITIES] p f (run_queues s)")
  case None
  with assms(1) show ?thesis
    by (auto simp: find_process_mut_def runnable_def upd_first_states [OF _ assms(2)])
next
  case (Some rq)
  then have "size (queued rq) = size (queued (run_queues s))"
    by (rule upd_in_queues_size [rotated]) auto
  with Some assms(1) show ?thesis by (auto simp: find_process_mut_def runnable_def)
qed

lemma runnable_notify_sigchld [simp]: "runnable (notify_sigchld parent s) = runnable s"
proof -
  have "runnable (running_mut f s) = runnable s" for f
    by (cases "running s") (simp_all add: running_mut_def runnable_def)
  then show ?thesis by (auto simp: notify_sigchld_def runnable_find_process_mut split: option.splits)
qed

lemma runnable_wait_queue:
  assumes "size {#x \<in># mset w. pstate x = Blocked#} = size {#x \<in># mset (wait_queue s). pstate x = Blocked#}"
  shows "runnable (s\<lparr>wait_queue := w\<rparr>) = runnable s"
  using assms by (simp add: runnable_def)

lemma runnable_notify_child_death [simp]: "runnable (notify_child_death p parent s) = runnable s"
  by (auto simp: notify_child_death_def Let_def runnable_wait_queue upd_first_states split: option.splits)

lemma runnable_notify_child_stopped [simp]: "runnable (notify_child_stopped p parent s) = runnable s"
proof -
  have two: "size {#x \<in># mset (case upd_first P (\<lambda>pr. pr\<lparr>stop_reported := True\<rparr>) w of Some w' \<Rightarrow> w' | None \<Rightarrow> w). pstate x = Blocked#} =
      size {#x \<in># mset w. pstate x = Blocked#}" for P w
    by (cases "upd_first P (\<lambda>pr. pr\<lparr>stop_reported := True\<rparr>) w") (simp_all add: upd_first_states)
  show ?thesis
    by (auto simp: notify_child_stopped_def Let_def runnable_wait_queue upd_first_states two split: option.splits)
qed

lemma runnable_cancel_all_waiters [simp]: "runnable (cancel_all_waiters p s) = runnable s"
  by (subst cancel_all_waiters_eq) (simp add: runnable_def)

lemma runnable_dispatch:
  "pop_highest (rev [0 ..< NUM_PRIORITIES]) (run_queues s) = Some (pr, rq) \<Longrightarrow> running s = None \<Longrightarrow>
   runnable (dispatch fs pr (s\<lparr>run_queues := rq\<rparr>)) = runnable s"
  by (simp add: runnable_def pop_highest_queued)

lemma kill_current_sched:
  assumes "running s = Some pr"
  shows "run_queues (snd (kill_current s)) = run_queues s" "running (snd (kill_current s)) = None"
    "wait_queue (snd (kill_current s)) = wait_queue s @ (if is_thread pr then [] else [pr\<lparr>pstate := Zombie\<rparr>])"
    "next_pid (snd (kill_current s)) = next_pid s"
  using assms by (auto simp: kill_current_def Let_def split: option.splits)

lemma runnable_kill:
  assumes "kill_and_switch_tf s = Inr (tf, s')" and "running s = Some pr"
  shows "runnable s' < runnable s"
proof -
  have "runnable (snd (kill_current s)) < runnable s"
    using assms(2) by (simp add: runnable_def kill_current_sched)
  moreover have "running (snd (kill_current s)) = None" using assms(2) by (rule kill_current_sched)
  ultimately show ?thesis
    using assms(1) by (auto simp: kill_and_switch_tf_def Let_def runnable_dispatch split: option.splits)
qed

lemma park_current_sched:
  "run_queues (park_current st tf s) = run_queues s" "running (park_current st tf s) = None"
  "wait_queue (park_current st tf s) = wait_queue s @
     (case running s of Some pr \<Rightarrow> [(save_context (tf_at s tf) s pr)\<lparr>pstate := st\<rparr>] | None \<Rightarrow> [])"
  "next_pid (park_current st tf s) = next_pid s"
  by (auto simp: park_current_def Let_def machine_ops split: option.splits)

lemma runnable_stop:
  assumes "stop_and_switch_tf tf s = Inr (tf', s')" and "running s = Some pr"
  shows "runnable s' < runnable s"
proof -
  have "runnable (park_current Stopped tf s) < runnable s"
    using assms(2) by (simp add: runnable_def park_current_sched)
  moreover have "running (park_current Stopped tf s) = None" by (rule park_current_sched)
  ultimately show ?thesis
    using assms(1) by (auto simp: stop_and_switch_tf_def Let_def runnable_dispatch split: option.splits)
qed

lemma push_signal_frame_frame:
  "push_signal_frame pr tf sig h m = Inr (pr', tf', m') \<Longrightarrow> \<exists>v. m' = m\<lparr>vmem := v\<rparr>"
  by (cases "frame_fits tf m") (auto simp: push_signal_frame_fits push_signal_frame_panics)

lemma push_signal_frame_proc:
  "push_signal_frame pr tf sig h m = Inr (pr', tf', m') \<Longrightarrow> \<exists>b. pr' = pr\<lparr>blocked_signals := b\<rparr>"
  by (cases "frame_fits tf m") (auto simp: push_signal_frame_fits push_signal_frame_panics)

lemma deliver_pending_frame:
  assumes "deliver_pending pr tf m = Inr (pr', tf', m', out)"
  shows "\<exists>v. m' = m\<lparr>vmem := v\<rparr>" "\<exists>b k. pr' = pr\<lparr>pending_signals := k, blocked_signals := b\<rparr>"
proof -
  have m: "\<exists>v. m = m\<lparr>vmem := v\<rparr>" by (rule exI [of _ "vmem m"]) simp
  have p: "\<exists>b k'. pr\<lparr>pending_signals := k\<rparr> = pr\<lparr>pending_signals := k', blocked_signals := b\<rparr>" for k
    by (intro exI [of _ "blocked_signals pr"] exI [of _ k]) simp
  have p0: "\<exists>b k'. pr = pr\<lparr>pending_signals := k', blocked_signals := b\<rparr>"
    by (intro exI [of _ "blocked_signals pr"] exI [of _ "pending_signals pr"]) simp
  show "\<exists>v. m' = m\<lparr>vmem := v\<rparr>"
    using assms m by (auto simp: deliver_pending_def Let_def bindR_eq_Inr split: if_splits signal_action.splits dest: push_signal_frame_frame)
  show "\<exists>b k. pr' = pr\<lparr>pending_signals := k, blocked_signals := b\<rparr>"
    using assms p p0 by (auto simp: deliver_pending_def Let_def bindR_eq_Inr split: if_splits signal_action.splits dest!: push_signal_frame_proc)
qed

definition USER_CS :: u64 where "USER_CS = 0x23"

function resolve_signals :: "tfref \<Rightarrow> 'a sched_scheme \<Rightarrow> (tfref \<times> 'a sched_scheme) res" where
  "resolve_signals tf s =
     (if cs (tf_at s tf) \<noteq> USER_CS then Inr (tf, s)
      else case running s of
        None \<Rightarrow> Inr (tf, s)
      | Some pr \<Rightarrow>
          if privilege pr \<noteq> User then Inr (tf, s)
          else bindR (deliver_pending pr (tf_at s tf) s) (\<lambda>(pr, tfv, s, out).
            let s = tf_store tf tfv (s\<lparr>running := Some pr\<rparr>) in
            case out of
              Terminate sig \<Rightarrow>
                bindR (kill_and_switch_tf (running_mut (\<lambda>pr. pr\<lparr>killed_by_signal := Some sig\<rparr>) s)) (\<lambda>(tf, s).
                resolve_signals tf
                  (cancel_all_waiters (pid pr) (notify_child_death (pid pr) (if is_thread pr then None else parent_pid pr) s)))
            | Stop sig \<Rightarrow>
                bindR (stop_and_switch_tf tf (running_mut (\<lambda>pr. pr\<lparr>stopped_by_signal := Some sig, stop_reported := False\<rparr>) s)) (\<lambda>(tf, s).
                resolve_signals tf (notify_child_stopped (pid pr) (parent_pid pr) s))
            | _ \<Rightarrow> Inr (tf, s)))"
  by pat_completeness auto

lemma runnable_tf_store [simp]: "runnable (tf_store tf v s) = runnable s"
  by (cases tf) (auto simp: runnable_def)

lemma running_tf_store: "running (tf_store tf v s) = None \<longleftrightarrow> running s = None"
  by (cases tf) auto

lemma resolve_round:
  assumes "running s = Some pr" and "deliver_pending pr (tf_at s tf) s = Inr (pr1, tfv, s1, out)"
  shows "runnable (running_mut f (tf_store tf tfv (s1\<lparr>running := Some pr1\<rparr>))) = runnable s"
    "\<exists>pr2. running (running_mut f (tf_store tf tfv (s1\<lparr>running := Some pr1\<rparr>))) = Some pr2"
proof -
  from deliver_pending_frame(1) [OF assms(2)] obtain v where "s1 = s\<lparr>vmem := v\<rparr>" by blast
  then show "runnable (running_mut f (tf_store tf tfv (s1\<lparr>running := Some pr1\<rparr>))) = runnable s"
    using assms(1) by (cases tf) (simp_all add: runnable_def running_mut_def)
  show "\<exists>pr2. running (running_mut f (tf_store tf tfv (s1\<lparr>running := Some pr1\<rparr>))) = Some pr2"
    by (cases tf) (simp_all add: running_mut_def)
qed

termination resolve_signals
proof (relation "measure (\<lambda>(tf, s). runnable s)", goal_cases)
  case 1
  then show ?case by simp
next
  case (2 tf s pr x a1 r1 b1 r2 c1 out s' sig y tf' s'')
  then show ?case
    using resolve_round [of s pr tf a1 b1 c1 out] runnable_kill by fastforce
next
  case (3 tf s pr x a1 r1 b1 r2 c1 out s' sig y tf' s'')
  then show ?case
    using resolve_round [of s pr tf a1 b1 c1 out] runnable_stop by fastforce
qed

end
