(* ===== verification/Sched_Inv.thy ===== *)
theory Sched_Inv
  imports Scheduler
begin

text \<open>
  The invariant of the scheduler and its preservation by every operation: the run queues hold ready
  processes in the queue of their effective priority, the wait queue holds only processes that must
  not run, no process is in two places, the idle process can always be picked, and the processor is
  loaded with the running process.
\<close>

section \<open>The invariant\<close>

definition procs :: "'a sched_scheme \<Rightarrow> process multiset" where
  "procs s = (case running s of Some pr \<Rightarrow> {#pr#} | None \<Rightarrow> {#}) + queued (run_queues s) + mset (wait_queue s)"

definition rq_ok :: "(nat \<Rightarrow> process list) \<Rightarrow> bool" where
  "rq_ok rq \<longleftrightarrow> (\<forall>q. \<forall>pr \<in> set (rq q). queue_index pr = q \<and> pstate pr = Ready)"

definition wq_ok :: "process list \<Rightarrow> bool" where
  "wq_ok wq \<longleftrightarrow> (\<forall>pr \<in> set wq. pstate pr \<in> {Blocked, Zombie, Stopped})"

definition proc_ok :: "nat \<Rightarrow> process \<Rightarrow> bool" where
  "proc_ok n pr \<longleftrightarrow> pid pr < n \<and> effective_priority pr \<le> priority pr \<and> priority pr \<le> 10 \<and> (pid pr = 0 \<longrightarrow> privilege pr = Kernel)"

definition uniq_pids :: "process multiset \<Rightarrow> bool" where
  "uniq_pids M \<longleftrightarrow> (\<forall>n. count (image_mset pid M) n \<le> 1)"

definition idle_ready :: "'a sched_scheme \<Rightarrow> bool" where
  "idle_ready s \<longleftrightarrow> (\<exists>pr. pid pr = 0 \<and> (running s = Some pr \<or> pr \<in># queued (run_queues s)))"

definition sched_base :: "'a sched_scheme \<Rightarrow> bool" where
  "sched_base s \<longleftrightarrow> rq_ok (run_queues s) \<and> wq_ok (wait_queue s) \<and> (\<forall>pr \<in># procs s. proc_ok (next_pid s) pr) \<and>
     uniq_pids (procs s) \<and> idle_ready s"

text \<open>The processor runs in the address space and on the kernel stack of \<open>pr\<close>, and the page fault handler knows it.\<close>

definition loaded :: "process \<Rightarrow> 'a machine_scheme \<Rightarrow> bool" where
  "loaded pr m \<longleftrightarrow> cr3 m = as_root (address_space pr) \<and> tss_rsp0 m = kernel_stack pr \<and>
     current_as_ptr m = as_ptr (address_space pr) \<and> current_pid_fast m = pid pr"

definition sched_inv :: "'a sched_scheme \<Rightarrow> bool" where
  "sched_inv s \<longleftrightarrow> sched_base s \<and> (\<exists>pr. running s = Some pr \<and> pstate pr = Running \<and> loaded pr s)"

lemmas inv_defs = sched_base_def rq_ok_def wq_ok_def proc_ok_def uniq_pids_def idle_ready_def procs_def

lemma procs_iter_all: "procs s = mset (iter_all s)"
proof -
  have "queued rq = mset (concat (map rq [0 ..< NUM_PRIORITIES]))" for rq
  proof -
    have "(\<Sum>q < n. mset (rq q)) = mset (concat (map rq [0 ..< n]))" for n
      by (induction n) (simp_all add: add.commute)
    then show ?thesis by (simp add: queued_def)
  qed
  then show ?thesis by (cases "running s") (simp_all add: procs_def iter_all_def)
qed

lemma distinct_pids: "uniq_pids (procs s) \<Longrightarrow> distinct (map pid (iter_all s))"
  by (simp add: procs_iter_all uniq_pids_def distinct_count_atmost_1 le_Suc_eq flip: mset_map)

lemma queued_member: "pr \<in># queued rq \<longleftrightarrow> (\<exists>q < NUM_PRIORITIES. pr \<in> set (rq q))"
  by (auto simp: queued_def set_mset_sum)

section \<open>Preservation\<close>

lemma rq_ok_push:
  "rq_ok rq \<Longrightarrow> pstate pr = Ready \<Longrightarrow> rq_ok (rq(queue_index pr := rq (queue_index pr) @ [pr]))"
  by (auto simp: rq_ok_def)

lemma rq_okD: "rq_ok rq \<Longrightarrow> pr \<in> set (rq q) \<Longrightarrow> queue_index pr = q \<and> pstate pr = Ready"
  by (simp add: rq_ok_def)

lemma rq_ok_pop: "rq_ok rq \<Longrightarrow> rq q = pr # rest \<Longrightarrow> rq_ok (rq(q := rest))"
proof -
  assume a: "rq_ok rq" "rq q = pr # rest"
  have "queue_index x = u \<and> pstate x = Ready" if "x \<in> set ((rq(q := rest)) u)" for u x
  proof -
    from that a(2) have "x \<in> set (rq u)" by (cases "u = q") simp_all
    with a(1) show ?thesis by (rule rq_okD)
  qed
  then show ?thesis unfolding rq_ok_def by blast
qed

text \<open>Two processes the invariant cannot tell apart.\<close>

definition same_key :: "process \<Rightarrow> process \<Rightarrow> bool" where
  "same_key a b \<longleftrightarrow> pid a = pid b \<and> priority a = priority b \<and> effective_priority a = effective_priority b \<and> privilege a = privilege b"

lemma proc_ok_key: "same_key a b \<Longrightarrow> proc_ok n a \<longleftrightarrow> proc_ok n b"
  by (simp add: same_key_def proc_ok_def)

lemma procs_ok_replace:
  assumes "(\<forall>pr \<in># add_mset x M. proc_ok n pr) \<and> uniq_pids (add_mset x M)" and "same_key y x"
  shows "(\<forall>pr \<in># add_mset y M. proc_ok n pr) \<and> uniq_pids (add_mset y M)"
proof -
  have "pid y = pid x" using assms(2) by (simp add: same_key_def)
  with assms proc_ok_key [OF assms(2), of n] show ?thesis by (simp add: uniq_pids_def)
qed

text \<open>A process leaves the wait queue for its run queue.\<close>

lemma sched_base_resume:
  assumes "sched_base s" and "take_first P (wait_queue s) = Some (pr, rest)"
    and "same_key pr' pr" and "pstate pr' = Ready"
  shows "sched_base (push_run pr' (s\<lparr>wait_queue := rest\<rparr>))"
proof -
  let ?s = "push_run pr' (s\<lparr>wait_queue := rest\<rparr>)"
  have w: "mset (wait_queue s) = add_mset pr (mset rest)" "set rest \<subseteq> set (wait_queue s)"
    using assms(2) by (auto dest: take_first_mset take_first_Some)
  then obtain M where M: "procs s = add_mset pr M" "procs ?s = add_mset pr' M"
    by (simp add: procs_def)
  have "rq_ok (run_queues ?s)" using assms(1,4) by (simp add: sched_base_def push_run_def rq_ok_push)
  moreover have "wq_ok (wait_queue ?s)" using assms(1) w(2) by (auto simp: sched_base_def wq_ok_def)
  moreover have "(\<forall>pr \<in># procs ?s. proc_ok (next_pid s) pr) \<and> uniq_pids (procs ?s)"
    unfolding M by (rule procs_ok_replace [OF _ assms(3)]) (use assms(1) M in \<open>simp add: sched_base_def\<close>)
  moreover have "idle_ready ?s" using assms(1) by (auto simp: sched_base_def idle_ready_def)
  ultimately show ?thesis by (simp add: sched_base_def)
qed

text \<open>A process of the wait queue is updated in place.\<close>

lemma sched_base_wait_upd:
  assumes "sched_base s" and "upd_first P f (wait_queue s) = Some w"
    and "\<And>x. same_key (f x) x" and "\<And>x. pstate (f x) = pstate x"
  shows "sched_base (s\<lparr>wait_queue := w\<rparr>)"
proof -
  from upd_first_Some [OF assms(2)] obtain us x vs where w: "wait_queue s = us @ x # vs" "w = us @ f x # vs" by blast
  let ?s = "s\<lparr>wait_queue := w\<rparr>"
  obtain M where M: "procs s = add_mset x M" "procs ?s = add_mset (f x) M" using w by (simp add: procs_def)
  have "(\<forall>pr \<in># procs ?s. proc_ok (next_pid s) pr) \<and> uniq_pids (procs ?s)"
    unfolding M by (rule procs_ok_replace [OF _ assms(3)]) (use assms(1) M in \<open>simp add: sched_base_def\<close>)
  with assms(1,4) w show ?thesis by (auto simp: sched_base_def wq_ok_def idle_ready_def)
qed

lemma upd_in_queues_Some:
  "upd_in_queues qs p f rq = Some rq' \<Longrightarrow>
   \<exists>q us x vs. q \<in> set qs \<and> rq q = us @ x # vs \<and> rq' = rq(q := us @ f x # vs) \<and> pid x = p"
proof (induction qs)
  case (Cons q qs)
  show ?case
  proof (cases "upd_first (\<lambda>pr. pid pr = p) f (rq q)")
    case None
    with Cons.prems have "upd_in_queues qs p f rq = Some rq'" by simp
    with Cons.IH obtain q' us x vs where
      "q' \<in> set qs" "rq q' = us @ x # vs" "rq' = rq(q' := us @ f x # vs)" "pid x = p" by blast
    then show ?thesis by (intro exI [of _ q'] exI [of _ us] exI [of _ x] exI [of _ vs]) simp
  next
    case (Some xs)
    from upd_first_Some [OF Some] obtain us x vs where
      "rq q = us @ x # vs" "xs = us @ f x # vs" "pid x = p" by blast
    with Some Cons.prems show ?thesis
      by (intro exI [of _ q] exI [of _ us] exI [of _ x] exI [of _ vs]) (simp del: fun_upd_apply)
  qed
qed simp

lemma sched_base_find_process_mut:
  assumes "sched_base s" and "find_process_mut p f s = Some s'"
    and "\<And>x. same_key (f x) x" and "\<And>x. pstate (f x) = pstate x"
  shows "sched_base s'"
proof (cases "upd_in_queues [0 ..< NUM_PRIORITIES] p f (run_queues s)")
  case None
  with assms show ?thesis by (auto simp: find_process_mut_def intro: sched_base_wait_upd)
next
  case (Some rq)
  define rqs where "rqs = run_queues s"
  from upd_in_queues_Some [OF Some] obtain q us x vs where
    q: "q < NUM_PRIORITIES" "rqs q = us @ x # vs" and rq: "rq = rqs(q := us @ f x # vs)"
    by (auto simp: rqs_def)
  have s': "s' = s\<lparr>run_queues := rq\<rparr>" using Some assms(2) by (simp add: find_process_mut_def)
  have k: "same_key (f x) x" "pstate (f x) = pstate x" by (simp_all add: assms)
  have "queued rq + mset (us @ x # vs) = queued rqs + mset (us @ f x # vs)"
    using queued_upd [OF q(1), of rqs "us @ f x # vs"] q(2) by (simp add: rq)
  then have Q: "add_mset x (queued rq) = add_mset (f x) (queued rqs)" by simp
  have "x \<in># queued rqs" using q by (auto simp: queued_member)
  then obtain N where N: "queued rqs = add_mset x N" by (meson mset_add)
  with Q have N': "queued rq = add_mset (f x) N" by simp
  obtain M where M: "procs s = add_mset x M" "procs s' = add_mset (f x) M"
    using N N' by (simp add: procs_def s' rqs_def)
  have "queue_index (f x) = queue_index x" using k by (simp add: queue_index_def same_key_def)
  have old: "queue_index pr = q' \<and> pstate pr = Ready" if "pr \<in> set (rqs q')" for q' pr
    using assms(1) that by (auto simp: sched_base_def rq_ok_def rqs_def)
  have "rq_ok rq"
    unfolding rq_ok_def
  proof (intro allI ballI)
    fix q' pr assume pr: "pr \<in> set (rq q')"
    show "queue_index pr = q' \<and> pstate pr = Ready"
    proof (cases "q' = q \<and> pr = f x")
      case True
      with old [of x q] q k \<open>queue_index (f x) = queue_index x\<close> show ?thesis by simp
    next
      case False
      with pr q have "pr \<in> set (rqs q')" by (auto simp: rq split: if_splits)
      then show ?thesis by (rule old)
    qed
  qed
  moreover have "(\<forall>pr \<in># procs s'. proc_ok (next_pid s) pr) \<and> uniq_pids (procs s')"
    unfolding M by (rule procs_ok_replace [OF _ k(1)]) (use assms(1) M in \<open>simp add: sched_base_def\<close>)
  moreover have "idle_ready s'"
    using assms(1) N N' k(1) by (auto simp: sched_base_def idle_ready_def s' rqs_def same_key_def)
  ultimately show ?thesis using assms(1) by (simp add: sched_base_def s')
qed

lemma sched_base_running:
  assumes "sched_base s" and "running s = Some pr" and "same_key pr' pr"
  shows "sched_base (s\<lparr>running := Some pr'\<rparr>)"
proof -
  obtain M where M: "procs s = add_mset pr M" "procs (s\<lparr>running := Some pr'\<rparr>) = add_mset pr' M"
    using assms(2) by (simp add: procs_def)
  have "(\<forall>p \<in># procs (s\<lparr>running := Some pr'\<rparr>). proc_ok (next_pid s) p) \<and> uniq_pids (procs (s\<lparr>running := Some pr'\<rparr>))"
    unfolding M by (rule procs_ok_replace [OF _ assms(3)]) (use assms(1) M in \<open>simp add: sched_base_def\<close>)
  with assms show ?thesis by (auto simp: sched_base_def idle_ready_def same_key_def)
qed

text \<open>Fields of the machine and the side tables do not matter to the queues.\<close>

lemma sched_base_cong:
  "run_queues s' = run_queues s \<Longrightarrow> wait_queue s' = wait_queue s \<Longrightarrow> running s' = running s \<Longrightarrow> next_pid s' = next_pid s \<Longrightarrow>
   sched_base s' \<longleftrightarrow> sched_base s"
  by (simp add: sched_base_def procs_def idle_ready_def)

lemma sched_inv_cong:
  assumes "sched_inv s" and "sched_base s'" and "running s' = running s" and "cr3 s' = cr3 s" and "tss_rsp0 s' = tss_rsp0 s"
    and "current_as_ptr s' = current_as_ptr s" and "current_pid_fast s' = current_pid_fast s"
  shows "sched_inv s'"
  using assms by (auto simp: sched_inv_def loaded_def)

lemma sched_inv_running_mut:
  assumes "sched_inv s"
    and "\<And>pr. same_key (f pr) pr \<and> pstate (f pr) = pstate pr \<and> kernel_stack (f pr) = kernel_stack pr \<and> address_space (f pr) = address_space pr"
  shows "sched_inv (running_mut f s)"
proof -
  obtain pr where pr: "running s = Some pr" "pstate pr = Running" "loaded pr s" using assms(1) by (auto simp: sched_inv_def)
  have "sched_base (s\<lparr>running := Some (f pr)\<rparr>)"
    using assms(1) pr(1) assms(2) [of pr] by (intro sched_base_running) (auto simp: sched_inv_def)
  with pr assms(2) [of pr] show ?thesis by (simp add: sched_inv_def running_mut_def loaded_def same_key_def)
qed

lemma same_key_refl [simp]: "same_key pr pr"
  by (simp add: same_key_def)

lemma same_key_upd [simp]:
  "same_key (pr\<lparr>pstate := a\<rparr>) pr" "same_key (queue_signal sig pr) pr" "same_key (report_child p st pr) pr"
  "same_key (pr\<lparr>stop_reported := b\<rparr>) pr" "same_key (pr\<lparr>killed_by_signal := k\<rparr>) pr"
  "same_key (pr\<lparr>stopped_by_signal := k, stop_reported := b\<rparr>) pr" "same_key (pr\<lparr>tframe := t\<rparr>) pr"
  "same_key (pr\<lparr>tframe := t, pstate := a\<rparr>) pr" "same_key (pr\<lparr>pstate := a, stopped_by_signal := k\<rparr>) pr"
  "same_key (pr\<lparr>pending_wait_status := w, waiting_status_ptr := n\<rparr>) pr"
  "same_key (pr\<lparr>pending_signals := m, blocked_signals := m'\<rparr>) pr" "same_key (pr\<lparr>pgid := n\<rparr>) pr"
  by (simp_all add: same_key_def queue_signal_def report_child_def)

lemma sched_inv_resume:
  assumes "sched_inv s" and "take_first P (wait_queue s) = Some (pr, rest)" and "same_key pr' pr" and "pstate pr' = Ready"
  shows "sched_inv (push_run pr' (s\<lparr>wait_queue := rest\<rparr>))"
proof (rule sched_inv_cong [OF assms(1)])
  show "sched_base (push_run pr' (s\<lparr>wait_queue := rest\<rparr>))"
    using assms by (auto simp: sched_inv_def intro: sched_base_resume)
qed (simp_all add: push_run_def)

lemma sched_inv_wake [simp]: "sched_inv s \<Longrightarrow> sched_inv (wake p s)"
  by (auto simp: wake_def sched_inv_resume split: option.splits)

lemma sched_inv_wake_with_retval [simp]: "sched_inv s \<Longrightarrow> sched_inv (wake_with_retval p ret s)"
  by (auto simp: wake_with_retval_def sched_inv_resume split: option.splits)

lemma sched_inv_wake_stopped [simp]: "sched_inv s \<Longrightarrow> sched_inv (snd (wake_stopped p s))"
  by (auto simp: wake_stopped_def sched_inv_resume split: option.splits)

lemma sched_inv_wait_upd:
  assumes "sched_inv s" and "upd_first P f (wait_queue s) = Some w" and "\<And>x. same_key (f x) x" and "\<And>x. pstate (f x) = pstate x"
  shows "sched_inv (s\<lparr>wait_queue := w\<rparr>)"
proof -
  have "sched_base (s\<lparr>wait_queue := w\<rparr>)" by (rule sched_base_wait_upd [OF _ assms(2-4)]) (use assms(1) in \<open>simp add: sched_inv_def\<close>)
  then show ?thesis by (rule sched_inv_cong [OF assms(1)]) simp_all
qed

lemma find_process_mut_eq:
  "find_process_mut p f s = Some s' \<Longrightarrow> s' = s\<lparr>run_queues := run_queues s', wait_queue := wait_queue s'\<rparr>"
  by (auto simp: find_process_mut_def split: option.splits)

lemma sched_inv_find_process_mut:
  assumes "sched_inv s" and "find_process_mut p f s = Some s'" and "\<And>x. same_key (f x) x" and "\<And>x. pstate (f x) = pstate x"
  shows "sched_inv s'"
proof (rule sched_inv_cong [OF assms(1)])
  show "sched_base s'" by (rule sched_base_find_process_mut [OF _ assms(2-4)]) (use assms(1) in \<open>simp add: sched_inv_def\<close>)
qed (subst find_process_mut_eq [OF assms(2)], simp)+

lemma sched_inv_notify_sigchld [simp]: "sched_inv s \<Longrightarrow> sched_inv (notify_sigchld parent s)"
  by (auto simp: notify_sigchld_def sched_inv_running_mut sched_inv_find_process_mut split: option.splits)

lemma sched_inv_notify_child_death [simp]:
  assumes "sched_inv s" shows "sched_inv (notify_child_death p parent s)"
proof -
  define s1 where "s1 = notify_sigchld parent s"
  have s1: "sched_inv s1" using assms by (simp add: s1_def)
  have "sched_inv (s1\<lparr>wait_queue := w\<rparr>)" if "upd_first P (report_child p st) (wait_queue s1) = Some w" for P st w
    using s1 that by (rule sched_inv_wait_upd) simp_all
  with s1 show ?thesis
    unfolding notify_child_death_def Let_def s1_def [symmetric] by (auto split: option.split)
qed

lemma sched_inv_notify_child_stopped [simp]:
  assumes "sched_inv s" shows "sched_inv (notify_child_stopped p parent s)"
proof -
  define s1 where "s1 = notify_sigchld parent s"
  have s1: "sched_inv s1" using assms by (simp add: s1_def)
  have a: "sched_inv (s1\<lparr>wait_queue := w\<rparr>)" if "upd_first P (report_child p st) (wait_queue s1) = Some w" for P st w
    using s1 that by (rule sched_inv_wait_upd) simp_all
  have "sched_inv (s1\<lparr>wait_queue := case upd_first Q (\<lambda>pr. pr\<lparr>stop_reported := True\<rparr>) w of Some w' \<Rightarrow> w' | None \<Rightarrow> w\<rparr>)"
    if "upd_first P (report_child p st) (wait_queue s1) = Some w" for P Q st w
  proof (cases "upd_first Q (\<lambda>pr. pr\<lparr>stop_reported := True\<rparr>) w")
    case None
    with a [OF that] show ?thesis by simp
  next
    case (Some w')
    then have "upd_first Q (\<lambda>pr. pr\<lparr>stop_reported := True\<rparr>) (wait_queue (s1\<lparr>wait_queue := w\<rparr>)) = Some w'" by simp
    with a [OF that] have "sched_inv (s1\<lparr>wait_queue := w\<rparr>\<lparr>wait_queue := w'\<rparr>)" by (rule sched_inv_wait_upd) simp_all
    with Some show ?thesis by simp
  qed
  with s1 show ?thesis
    unfolding notify_child_stopped_def Let_def s1_def [symmetric] by (auto split: option.split)
qed

lemma sched_inv_cancel_all_waiters [simp]: "sched_inv (cancel_all_waiters p s) \<longleftrightarrow> sched_inv s"
  by (subst cancel_all_waiters_eq) (simp add: sched_inv_def loaded_def sched_base_def procs_def idle_ready_def)

text \<open>Filling the empty running slot.\<close>

lemma pop_highest_idle:
  assumes "sched_base s" and "running s = None"
  shows "\<exists>pr rq. pop_highest (rev [0 ..< NUM_PRIORITIES]) (run_queues s) = Some (pr, rq)"
proof (cases "pop_highest (rev [0 ..< NUM_PRIORITIES]) (run_queues s)")
  case None
  from assms obtain pr where "pr \<in># queued (run_queues s)" by (auto simp: sched_base_def idle_ready_def)
  with None show ?thesis by (auto simp: pop_highest_None queued_member)
qed auto

lemma sched_inv_dispatch:
  assumes "sched_base s" and "running s = None" and pop: "pop_highest (rev [0 ..< NUM_PRIORITIES]) (run_queues s) = Some (pr, rq)"
  shows "sched_inv (dispatch fs pr (s\<lparr>run_queues := rq\<rparr>))"
proof -
  let ?s = "dispatch fs pr (s\<lparr>run_queues := rq\<rparr>)"
  have Q: "queued (run_queues s) = add_mset pr (queued rq)" using pop by (rule pop_highest_queued)
  obtain M where M: "procs s = add_mset pr M" "procs ?s = add_mset (pr\<lparr>pstate := Running\<rparr>) M"
    using Q assms(2) by (simp add: procs_def)
  have "rq_ok rq"
    using pop by (rule pop_highest_top) (use assms(1) in \<open>auto simp: sched_base_def intro: rq_ok_pop\<close>)
  moreover have "(\<forall>pr \<in># procs ?s. proc_ok (next_pid s) pr) \<and> uniq_pids (procs ?s)"
    unfolding M by (rule procs_ok_replace [of pr]) (use assms(1) M in \<open>simp_all add: sched_base_def\<close>)
  moreover have "idle_ready ?s"
  proof -
    from assms(1,2) obtain i where i: "pid i = 0" "i \<in># queued (run_queues s)" by (auto simp: sched_base_def idle_ready_def)
    show ?thesis
    proof (cases "i = pr")
      case True
      with i(1) show ?thesis unfolding idle_ready_def by (intro exI [of _ "pr\<lparr>pstate := Running\<rparr>"]) simp
    next
      case False
      with i Q show ?thesis unfolding idle_ready_def by (intro exI [of _ i]) simp
    qed
  qed
  ultimately have "sched_base ?s" using assms(1) by (simp add: sched_base_def)
  then show ?thesis
    by (simp add: sched_inv_def) (simp add: dispatch_def Let_def machine_ops activate_eq loaded_def)
qed

text \<open>Emptying it.\<close>

lemma sched_base_leave:
  assumes "sched_inv s" and "running s = Some pr" and "pid pr \<noteq> 0" and "same_key pr' pr"
    and "pstate pr' \<in> {Blocked, Zombie, Stopped}"
  shows "sched_base (s\<lparr>running := None, wait_queue := wait_queue s @ [pr']\<rparr>)"
proof -
  let ?s = "s\<lparr>running := None, wait_queue := wait_queue s @ [pr']\<rparr>"
  obtain M where M: "procs s = add_mset pr M" "procs ?s = add_mset pr' M" using assms(2) by (simp add: procs_def)
  have "(\<forall>pr \<in># procs ?s. proc_ok (next_pid s) pr) \<and> uniq_pids (procs ?s)"
    unfolding M by (rule procs_ok_replace [OF _ assms(4)]) (use assms(1) M in \<open>simp add: sched_inv_def sched_base_def\<close>)
  with assms show ?thesis by (auto simp: sched_inv_def sched_base_def wq_ok_def idle_ready_def)
qed

lemma sched_base_reap:
  assumes "sched_inv s" and "running s = Some pr" and "pid pr \<noteq> 0"
  shows "sched_base (s\<lparr>running := None\<rparr>)"
proof -
  have "procs s = add_mset pr (procs (s\<lparr>running := None\<rparr>))" using assms(2) by (simp add: procs_def)
  moreover have "uniq_pids M" if "uniq_pids (add_mset pr M)" for M
    unfolding uniq_pids_def
  proof
    fix n show "count (image_mset pid M) n \<le> 1"
      using that [unfolded uniq_pids_def, rule_format, of n] by (simp split: if_splits)
  qed
  ultimately show ?thesis using assms by (auto simp: sched_inv_def sched_base_def idle_ready_def)
qed

lemma same_key_save [simp]: "same_key ((save_context tf s pr)\<lparr>pstate := st\<rparr>) pr" "same_key (save_context tf s pr) pr"
  by (simp_all add: same_key_def save_context_def)

lemma sched_base_kill_current:
  assumes "sched_inv s" and "running s = Some pr" and "pid pr \<noteq> 0"
  shows "sched_base (snd (kill_current s))"
proof (cases "is_thread pr")
  case True
  have "sched_base (snd (kill_current s)) \<longleftrightarrow> sched_base (s\<lparr>running := None\<rparr>)"
    using assms(2) True by (intro sched_base_cong) (simp_all add: kill_current_sched)
  with sched_base_reap [OF assms] show ?thesis by simp
next
  case False
  with assms(2) have "snd (kill_current s) = s\<lparr>running := None, wait_queue := wait_queue s @ [pr\<lparr>pstate := Zombie\<rparr>]\<rparr>"
    by (simp add: kill_current_def Let_def)
  with sched_base_leave [OF assms, of "pr\<lparr>pstate := Zombie\<rparr>"] show ?thesis by simp
qed

lemma sched_base_park_current:
  assumes "sched_inv s" and "running s = Some pr" and "pid pr \<noteq> 0" and "st \<in> {Blocked, Zombie, Stopped}"
  shows "sched_base (park_current st tf s)"
proof -
  have "sched_base (park_current st tf s) \<longleftrightarrow>
      sched_base (s\<lparr>running := None, wait_queue := wait_queue s @ [(save_context (tf_at s tf) s pr)\<lparr>pstate := st\<rparr>]\<rparr>)"
    using assms(2) by (intro sched_base_cong) (simp_all add: park_current_sched)
  with sched_base_leave [OF assms(1-3), of "(save_context (tf_at s tf) s pr)\<lparr>pstate := st\<rparr>"] assms(4)
  show ?thesis by simp
qed

lemma sched_base_requeue:
  assumes "sched_inv s" and "running s = Some pr"
  shows "sched_base (requeue_current tf s)" "running (requeue_current tf s) = None"
proof -
  define pr1 where "pr1 = (save_context (tf_at s tf) s pr)\<lparr>pstate := Ready\<rparr>"
  define pr2 where "pr2 = (if pid pr1 \<noteq> 0 \<and> MIN_EFFECTIVE_PRIORITY < effective_priority pr1
      then pr1\<lparr>effective_priority := effective_priority pr1 - 1\<rparr> else pr1)"
  have run: "pstate pr = Running" using assms by (simp add: sched_inv_def)
  have rc: "requeue_current tf s = push_run pr2 (s\<lparr>running := None\<rparr>)"
    unfolding pr2_def pr1_def using assms(2) run by (simp add: requeue_current_def save_context_def)
  obtain M where M: "procs s = add_mset pr M" "procs (requeue_current tf s) = add_mset pr2 M"
    using assms(2) by (simp add: rc procs_def)
  have k: "pid pr2 = pid pr" "proc_ok n pr \<longrightarrow> proc_ok n pr2" "pstate pr2 = Ready" for n
    by (auto simp: pr2_def pr1_def save_context_def proc_ok_def)
  have "rq_ok (run_queues (requeue_current tf s))"
    using assms(1) k(3) by (simp add: rc push_run_def rq_ok_push sched_inv_def sched_base_def)
  moreover have "(\<forall>p \<in># procs (requeue_current tf s). proc_ok (next_pid s) p) \<and> uniq_pids (procs (requeue_current tf s))"
    using assms(1) M k by (auto simp: sched_inv_def sched_base_def uniq_pids_def)
  moreover have "idle_ready (requeue_current tf s)"
    using assms k(1) by (auto simp: rc idle_ready_def sched_inv_def sched_base_def)
  ultimately show "sched_base (requeue_current tf s)" using assms(1) by (simp add: sched_base_def rc sched_inv_def)
  show "running (requeue_current tf s) = None" by (simp add: rc)
qed

section \<open>The switching operations\<close>

lemma sched_inv_kill:
  assumes "sched_inv s" and "running s = Some pr" and "pid pr \<noteq> 0"
  shows "\<exists>s'. kill_and_switch_tf s = Inr (SavedTf, s') \<and> sched_inv s'"
proof -
  let ?s = "snd (kill_current s)"
  have b: "sched_base ?s" "running ?s = None"
    using assms by (simp_all add: sched_base_kill_current kill_current_sched)
  from pop_highest_idle [OF b] obtain q rq where p: "pop_highest (rev [0 ..< NUM_PRIORITIES]) (run_queues ?s) = Some (q, rq)" by blast
  with sched_inv_dispatch [OF b p] show ?thesis by (simp add: kill_and_switch_tf_def Let_def)
qed

lemma sched_inv_stop:
  assumes "sched_inv s" and "running s = Some pr" and "pid pr \<noteq> 0"
  shows "\<exists>s'. stop_and_switch_tf tf s = Inr (SavedTf, s') \<and> sched_inv s'"
proof -
  let ?s = "park_current Stopped tf s"
  have b: "sched_base ?s" "running ?s = None"
    using assms by (simp_all add: sched_base_park_current park_current_sched)
  from pop_highest_idle [OF b] obtain q rq where p: "pop_highest (rev [0 ..< NUM_PRIORITIES]) (run_queues ?s) = Some (q, rq)" by blast
  with sched_inv_dispatch [OF b p] show ?thesis by (simp add: stop_and_switch_tf_def Let_def)
qed

lemma sched_inv_block:
  assumes "sched_inv s" and "running s = Some pr" and "pid pr \<noteq> 0"
  shows "\<exists>s'. block_current tf s = Inr (SavedTf, s') \<and> sched_inv s'"
proof -
  let ?s = "park_current Blocked tf s"
  have b: "sched_base ?s" "running ?s = None"
    using assms by (simp_all add: sched_base_park_current park_current_sched)
  from pop_highest_idle [OF b] obtain q rq where p: "pop_highest (rev [0 ..< NUM_PRIORITIES]) (run_queues ?s) = Some (q, rq)" by blast
  with sched_inv_dispatch [OF b p] show ?thesis by (simp add: block_current_def Let_def)
qed

lemma sched_inv_switch:
  assumes "sched_inv s"
  shows "\<exists>s'. switch_to_next tf s = (SavedTf, s') \<and> sched_inv s'"
proof -
  from assms obtain pr where "running s = Some pr" by (auto simp: sched_inv_def)
  note b = sched_base_requeue [OF assms this, of tf]
  from pop_highest_idle [OF b] obtain q rq where
    p: "pop_highest (rev [0 ..< NUM_PRIORITIES]) (run_queues (requeue_current tf s)) = Some (q, rq)" by blast
  with sched_inv_dispatch [OF b p] show ?thesis by (simp add: switch_to_next_def Let_def)
qed

text \<open>Only a user process receives signals, and the idle process is not one.\<close>

lemma sched_inv_deliver:
  assumes "sched_inv s" and "running s = Some pr" and "deliver_pending pr (tf_at s tf) s = Inr (pr1, tfv, s1, out)"
    and "\<And>pr. same_key (f pr) pr \<and> pstate (f pr) = pstate pr \<and> kernel_stack (f pr) = kernel_stack pr \<and> address_space (f pr) = address_space pr"
  shows "sched_inv (running_mut f (tf_store tf tfv (s1\<lparr>running := Some pr1\<rparr>)))"
    "\<exists>pr2. running (running_mut f (tf_store tf tfv (s1\<lparr>running := Some pr1\<rparr>))) = Some pr2 \<and> pid pr2 = pid pr"
proof -
  from deliver_pending_frame [OF assms(3)] obtain v k b where
    s1: "s1 = s\<lparr>vmem := v\<rparr>" and pr1: "pr1 = pr\<lparr>pending_signals := k, blocked_signals := b\<rparr>" by blast
  let ?f = "\<lambda>p. p\<lparr>pending_signals := k, blocked_signals := b\<rparr>"
  have "sched_inv (running_mut ?f s)" by (rule sched_inv_running_mut [OF assms(1)]) simp
  then have "sched_inv (s\<lparr>running := Some pr1\<rparr>)" using assms(2) by (simp add: running_mut_def pr1)
  then have "sched_inv (s1\<lparr>running := Some pr1\<rparr>)"
    by (simp add: s1 sched_inv_def loaded_def sched_base_def procs_def idle_ready_def)
  then have "sched_inv (tf_store tf tfv (s1\<lparr>running := Some pr1\<rparr>))"
  proof (cases tf)
    case LiveTf
    with \<open>sched_inv (s1\<lparr>running := Some pr1\<rparr>)\<close> show ?thesis
      by (simp add: sched_inv_def loaded_def sched_base_def procs_def idle_ready_def)
  next
    case SavedTf
    have "sched_inv (running_mut (\<lambda>pr. pr\<lparr>tframe := tfv\<rparr>) (s1\<lparr>running := Some pr1\<rparr>))"
      by (rule sched_inv_running_mut [OF \<open>sched_inv (s1\<lparr>running := Some pr1\<rparr>)\<close>]) simp
    with SavedTf show ?thesis by (simp add: running_mut_def)
  qed
  then show "sched_inv (running_mut f (tf_store tf tfv (s1\<lparr>running := Some pr1\<rparr>)))"
    by (rule sched_inv_running_mut) (rule assms(4))
  show "\<exists>pr2. running (running_mut f (tf_store tf tfv (s1\<lparr>running := Some pr1\<rparr>))) = Some pr2 \<and> pid pr2 = pid pr"
  proof -
    obtain p where "running (tf_store tf tfv (s1\<lparr>running := Some pr1\<rparr>)) = Some p" "pid p = pid pr"
      by (cases tf) (simp_all add: pr1)
    then show ?thesis using assms(4) [of p] by (simp add: running_mut_def same_key_def)
  qed
qed

lemma running_mut_id: "running_mut (\<lambda>pr. pr) s = s"
  by (simp add: running_mut_def option.map_ident)

lemma user_not_idle: "sched_inv s \<Longrightarrow> running s = Some pr \<Longrightarrow> privilege pr = User \<Longrightarrow> pid pr \<noteq> 0"
  by (auto simp: sched_inv_def sched_base_def procs_def proc_ok_def)

lemma sched_inv_resolve_signals:
  "sched_inv s \<Longrightarrow> resolve_signals tf s = Inr (tf', s') \<Longrightarrow> sched_inv s'"
proof (induction tf s arbitrary: tf' s' rule: resolve_signals.induct)
  case (1 tf s)
  from "1.prems"(1) obtain pr where pr: "running s = Some pr" by (auto simp: sched_inv_def)
  show ?case
  proof (cases "cs (tf_at s tf) = USER_CS \<and> privilege pr = User")
    case False
    with "1.prems" pr show ?thesis by (auto simp: resolve_signals.simps [of tf s] split: if_splits)
  next
    case True
    with "1.prems" pr obtain pr1 tfv s1 out where d: "deliver_pending pr (tf_at s tf) s = Inr (pr1, tfv, s1, out)"
      by (auto simp: resolve_signals.simps [of tf s] bindR_eq_Inr)
    have nz: "pid pr \<noteq> 0" by (rule user_not_idle [OF "1.prems"(1) pr]) (use True in simp)
    let ?s = "tf_store tf tfv (s1\<lparr>running := Some pr1\<rparr>)"
    note inv = sched_inv_deliver [OF "1.prems"(1) pr d]
    show ?thesis
    proof (cases out)
      case (Terminate sig)
      let ?k = "running_mut (\<lambda>pr. pr\<lparr>killed_by_signal := Some sig\<rparr>) ?s"
      obtain p2 where p2: "running ?k = Some p2" "pid p2 = pid pr"
        using inv(2) [of "\<lambda>pr. pr\<lparr>killed_by_signal := Some sig\<rparr>"] by auto
      have "sched_inv ?k" by (rule inv(1)) simp
      with sched_inv_kill [of ?k] p2 nz obtain s2 where s2: "kill_and_switch_tf ?k = Inr (SavedTf, s2)" "sched_inv s2" by auto
      with "1.prems"(2) True pr d Terminate have
        "resolve_signals SavedTf (cancel_all_waiters (pid pr1) (notify_child_death (pid pr1) (if is_thread pr1 then None else parent_pid pr1) s2)) = Inr (tf', s')"
        by (simp add: resolve_signals.simps [of tf s])
      moreover have "sched_inv (cancel_all_waiters (pid pr1) (notify_child_death (pid pr1) (if is_thread pr1 then None else parent_pid pr1) s2))"
        using s2 by simp
      ultimately show ?thesis
        using "1.IH"(1) [OF _ pr _ d refl refl refl _ _ s2(1) refl] True Terminate by blast
    next
      case (Stop sig)
      let ?k = "running_mut (\<lambda>pr. pr\<lparr>stopped_by_signal := Some sig, stop_reported := False\<rparr>) ?s"
      obtain p2 where p2: "running ?k = Some p2" "pid p2 = pid pr"
        using inv(2) [of "\<lambda>pr. pr\<lparr>stopped_by_signal := Some sig, stop_reported := False\<rparr>"] by auto
      have "sched_inv ?k" by (rule inv(1)) simp
      with sched_inv_stop [of ?k _ tf] p2 nz obtain s2 where s2: "stop_and_switch_tf tf ?k = Inr (SavedTf, s2)" "sched_inv s2" by auto
      with "1.prems"(2) True pr d Stop have
        "resolve_signals SavedTf (notify_child_stopped (pid pr1) (parent_pid pr1) s2) = Inr (tf', s')"
        by (simp add: resolve_signals.simps [of tf s])
      moreover have "sched_inv (notify_child_stopped (pid pr1) (parent_pid pr1) s2)" using s2 by simp
      ultimately show ?thesis
        using "1.IH"(2) [OF _ pr _ d refl refl refl _ _ s2(1) refl] True Stop by blast
    next
      case NoSignal
      with "1.prems"(2) True pr d inv(1) [of "\<lambda>pr. pr"] show ?thesis
        by (auto simp: resolve_signals.simps [of tf s] running_mut_id)
    next
      case Delivered
      with "1.prems"(2) True pr d inv(1) [of "\<lambda>pr. pr"] show ?thesis
        by (auto simp: resolve_signals.simps [of tf s] running_mut_id)
    qed
  qed
qed

end
