(* ===== verification/Sched_Aging.thy ===== *)
theory Sched_Aging
  imports Sched_Inv
begin

text \<open>
  Priority aging: what one pass of \<open>age_processes\<close> over the run queues does, against a reference
  definition that maps every queued process to its aged form.
\<close>

definition aged :: "process \<Rightarrow> process" where
  "aged pr = (if pid pr = 0 then pr else pr\<lparr>effective_priority := priority pr\<rparr>)"

definition settled :: "process \<Rightarrow> bool" where
  "settled pr \<longleftrightarrow> pid pr = 0 \<or> effective_priority pr = priority pr"

definition in_bounds :: "(nat \<Rightarrow> process list) \<Rightarrow> bool" where
  "in_bounds rq \<longleftrightarrow> (\<forall>q. \<forall>pr \<in> set (rq q). effective_priority pr \<le> priority pr \<and> priority pr \<le> 10)"

lemma in_boundsD: "in_bounds rq \<Longrightarrow> pr \<in> set (rq q) \<Longrightarrow> effective_priority pr \<le> priority pr \<and> priority pr \<le> 10"
  by (simp add: in_bounds_def)

declare age_queue.simps [simp del]

text \<open>One move: the process at position \<open>i\<close> goes to the next queue up.\<close>

definition move_up :: "nat \<Rightarrow> nat \<Rightarrow> (nat \<Rightarrow> process list) \<Rightarrow> (nat \<Rightarrow> process list)" where
  "move_up q i rq =
     (let pr = rq q ! i; pr' = pr\<lparr>effective_priority := effective_priority pr + 1\<rparr>
      in rq(q := take i (rq q) @ drop (i + 1) (rq q), q + 1 := rq (q + 1) @ [pr']))"

lemma age_queue_cases:
  assumes "rq_ok rq" and "in_bounds rq"
  shows "age_queue q i rq =
    (if i < length (rq q) then
       if settled (rq q ! i) then age_queue q (i + 1) rq else age_queue q i (move_up q i rq)
     else rq)"
    and "i < length (rq q) \<Longrightarrow> \<not> settled (rq q ! i) \<Longrightarrow> effective_priority (rq q ! i) = q \<and> q < 10 \<and> q < priority (rq q ! i)"
proof -
  have up: "effective_priority (rq q ! i) = q \<and> q < 10 \<and> q < priority (rq q ! i)"
    if i: "i < length (rq q)" and n: "\<not> settled (rq q ! i)"
  proof -
    have m: "rq q ! i \<in> set (rq q)" using i by simp
    from rq_okD [OF assms(1) m] in_boundsD [OF assms(2) m] n show ?thesis
      by (auto simp: queue_index_def settled_def NUM_PRIORITIES_def min_def split: if_splits)
  qed
  show "i < length (rq q) \<Longrightarrow> \<not> settled (rq q ! i) \<Longrightarrow> effective_priority (rq q ! i) = q \<and> q < 10 \<and> q < priority (rq q ! i)"
    by (rule up)
  show "age_queue q i rq =
    (if i < length (rq q) then
       if settled (rq q ! i) then age_queue q (i + 1) rq else age_queue q i (move_up q i rq)
     else rq)"
  proof (cases "i < length (rq q) \<and> \<not> settled (rq q ! i)")
    case True
    define pr where "pr = rq q ! i"
    define pr' where "pr' = pr\<lparr>effective_priority := min (effective_priority pr + 1) (priority pr)\<rparr>"
    from True up have u: "effective_priority pr = q" "q < 10" "q < priority pr" by (simp_all add: pr_def)
    then have pr': "pr' = pr\<lparr>effective_priority := effective_priority pr + 1\<rparr>" "queue_index pr' = q + 1"
      by (simp_all add: pr'_def queue_index_def NUM_PRIORITIES_def)
    have pq: "pr\<lparr>effective_priority := Suc q\<rparr> = pr'" using pr'(1) u(1) by simp
    have "age_queue q i rq = age_queue q i ((rq(q := take i (rq q) @ drop (i + 1) (rq q)))(q + 1 := rq (q + 1) @ [pr']))"
      using True u pr'(2) by (subst age_queue.simps) (simp add: pr_def [symmetric] pq settled_def Let_def)
    then show ?thesis using True by (simp add: move_up_def Let_def pr_def [symmetric] pr'(1))
  next
    case False
    have "\<not> effective_priority (rq q ! i) < priority (rq q ! i) \<or> pid (rq q ! i) = 0" if "settled (rq q ! i)"
      using that by (auto simp: settled_def)
    with False show ?thesis by (subst age_queue.simps) (auto simp: Let_def)
  qed
qed

lemma move_up_ok:
  assumes "rq_ok rq" and "in_bounds rq" and "i < length (rq q)" and "\<not> settled (rq q ! i)"
  shows "rq_ok (move_up q i rq)" "in_bounds (move_up q i rq)"
    "image_mset aged (queued (move_up q i rq)) = image_mset aged (queued rq)"
    "\<And>u. u \<noteq> q \<Longrightarrow> u \<noteq> q + 1 \<Longrightarrow> move_up q i rq u = rq u" "move_up q i rq q = take i (rq q) @ drop (i + 1) (rq q)"
proof -
  define pr where "pr = rq q ! i"
  define pr' where "pr' = pr\<lparr>effective_priority := effective_priority pr + 1\<rparr>"
  define r1 where "r1 = rq(q := take i (rq q) @ drop (i + 1) (rq q))"
  have mu: "move_up q i rq = r1(q + 1 := r1 (q + 1) @ [pr'])"
    by (simp add: move_up_def Let_def pr_def pr'_def r1_def)
  note up = age_queue_cases(2) [OF assms]
  have "pr \<in> set (rq q)" using assms(3) by (simp add: pr_def)
  note pr = rq_okD [OF assms(1) this] in_boundsD [OF assms(2) this]
  have qi: "queue_index pr' = q + 1" "pstate pr' = Ready"
    using up pr by (simp_all add: pr_def pr'_def queue_index_def NUM_PRIORITIES_def)
  have sub: "set (r1 u) \<subseteq> set (rq u)" for u
    by (auto simp: r1_def dest: in_set_takeD in_set_dropD)
  have "rq_ok r1" using sub assms(1) unfolding rq_ok_def by blast
  from rq_ok_push [OF this qi(2)] show "rq_ok (move_up q i rq)" by (simp add: mu qi(1))
  have "in_bounds r1" using sub assms(2) unfolding in_bounds_def by blast
  then show "in_bounds (move_up q i rq)" using up pr by (auto simp: mu in_bounds_def pr'_def pr_def)
  have "q < NUM_PRIORITIES" "q + 1 < NUM_PRIORITIES" using up by (simp_all add: NUM_PRIORITIES_def)
  then have Q: "queued (move_up q i rq) = add_mset pr' (queued r1)" and
    Q1: "queued r1 + mset (rq q) = queued rq + mset (take i (rq q) @ drop (i + 1) (rq q))"
    by (simp_all only: mu queued_append r1_def queued_upd) simp
  have "mset (rq q) = add_mset pr (mset (take i (rq q) @ drop (i + 1) (rq q)))"
    using arg_cong [OF id_take_nth_drop [OF assms(3)], of mset] by (simp add: pr_def)
  with Q1 have "add_mset pr (queued r1) = queued rq" by simp
  moreover have "aged pr' = aged pr" using assms(4) by (simp add: aged_def pr'_def settled_def pr_def)
  ultimately show "image_mset aged (queued (move_up q i rq)) = image_mset aged (queued rq)"
    unfolding Q by (metis image_mset_add_mset)
  show "move_up q i rq q = take i (rq q) @ drop (i + 1) (rq q)" by (simp add: mu r1_def)
  show "\<And>u. u \<noteq> q \<Longrightarrow> u \<noteq> q + 1 \<Longrightarrow> move_up q i rq u = rq u" by (simp add: mu r1_def)
qed

lemma age_queue_correct:
  assumes "rq_ok rq" and "in_bounds rq" and "\<forall>pr \<in> set (take i (rq q)). settled pr"
  shows "rq_ok (age_queue q i rq) \<and> in_bounds (age_queue q i rq) \<and>
    image_mset aged (queued (age_queue q i rq)) = image_mset aged (queued rq) \<and>
    (\<forall>pr \<in> set (age_queue q i rq q). settled pr) \<and> (\<forall>u < q. age_queue q i rq u = rq u)"
  using assms
proof (induction "age_gap (rq q) + (length (rq q) - i)" arbitrary: i rq rule: less_induct)
  case less
  note eq = age_queue_cases(1) [OF less.prems(1,2), of q i]
  show ?case
  proof (cases "i < length (rq q)")
    case False
    with less.prems eq show ?thesis by simp
  next
    case i: True
    show ?thesis
    proof (cases "settled (rq q ! i)")
      case True
      then have "\<forall>pr \<in> set (take (i + 1) (rq q)). settled pr"
        using less.prems(3) i by (auto simp: take_Suc_conv_app_nth)
      from less.hyps [OF _ less.prems(1,2) this] i True eq show ?thesis by simp
    next
      case False
      note mv = move_up_ok [OF less.prems(1,2) i False]
      define r where "r = move_up q i rq"
      have "age_gap (rq q) + (length (rq q) - i) > age_gap (r q) + (length (r q) - i)"
        using i mv(5) age_gap_split [OF i] unfolding r_def by simp
      moreover have "\<forall>pr \<in> set (take i (r q)). settled pr" using less.prems(3) i mv(5) by (simp add: r_def)
      ultimately have IH: "rq_ok (age_queue q i r) \<and> in_bounds (age_queue q i r) \<and>
          image_mset aged (queued (age_queue q i r)) = image_mset aged (queued r) \<and>
          (\<forall>pr \<in> set (age_queue q i r q). settled pr) \<and> (\<forall>u < q. age_queue q i r u = r u)"
        using less.hyps [of r i] mv(1,2) by (simp add: r_def)
      have "age_queue q i rq = age_queue q i r" using eq i False by (simp add: r_def)
      with IH mv(3,4) show ?thesis by (simp add: r_def)
    qed
  qed
qed

lemma age_fold:
  assumes "rq_ok rq" and "in_bounds rq"
  shows "rq_ok (fold (\<lambda>q. age_queue q 0) [0 ..< n] rq) \<and> in_bounds (fold (\<lambda>q. age_queue q 0) [0 ..< n] rq) \<and>
    image_mset aged (queued (fold (\<lambda>q. age_queue q 0) [0 ..< n] rq)) = image_mset aged (queued rq) \<and>
    (\<forall>u < n. \<forall>pr \<in> set (fold (\<lambda>q. age_queue q 0) [0 ..< n] rq u). settled pr)"
proof (induction n)
  case 0
  with assms show ?case by simp
next
  case (Suc n)
  define r where "r = fold (\<lambda>q. age_queue q 0) [0 ..< n] rq"
  have "fold (\<lambda>q. age_queue q 0) [0 ..< Suc n] rq = age_queue n 0 r" by (simp add: r_def)
  moreover have "rq_ok (age_queue n 0 r) \<and> in_bounds (age_queue n 0 r) \<and>
    image_mset aged (queued (age_queue n 0 r)) = image_mset aged (queued r) \<and>
    (\<forall>pr \<in> set (age_queue n 0 r n). settled pr) \<and> (\<forall>u < n. age_queue n 0 r u = r u)"
    using Suc by (intro age_queue_correct) (simp_all add: r_def)
  ultimately show ?case using Suc by (auto simp: r_def less_Suc_eq)
qed

lemma aged_settled: "settled pr \<Longrightarrow> aged pr = pr"
  by (auto simp: settled_def aged_def)

lemma age_processes_correct:
  assumes "rq_ok rq" and "in_bounds rq"
  shows "rq_ok (age_processes rq)" "queued (age_processes rq) = image_mset aged (queued rq)"
proof -
  note f = age_fold [OF assms, of NUM_PRIORITIES, folded age_processes_def]
  from f show "rq_ok (age_processes rq)" by blast
  have "image_mset aged (queued (age_processes rq)) = queued (age_processes rq)"
    by (rule multiset.map_ident_strong) (use f in \<open>auto simp: queued_member intro: aged_settled\<close>)
  with f show "queued (age_processes rq) = image_mset aged (queued rq)" by simp
qed

end
