(* ===== verification/Sched_Props.thy ===== *)
theory Sched_Props
  imports Sched_Aging
begin

text \<open>
  Properties of the scheduler: the invariant over every interleaving of its operations, what a context
  switch does, aging, time slices, and the way a death leaves \<open>FS.base\<close> behind.
\<close>

section \<open>The remaining operations keep the invariant\<close>

lemma sched_base_age:
  assumes b: "sched_base s" shows "sched_base (s\<lparr>run_queues := age_processes (run_queues s)\<rparr>)"
proof -
  define rq where "rq = run_queues s"
  define r where "r = age_processes rq"
  define s' where "s' = s\<lparr>run_queues := r\<rparr>"
  define R where "R = (case running s of Some pr \<Rightarrow> {#pr#} | None \<Rightarrow> {#})"
  have rq: "rq_ok rq" using b by (simp add: sched_base_def rq_def)
  have P: "procs s = R + queued rq + mset (wait_queue s)" "procs s' = R + queued r + mset (wait_queue s)"
    by (simp_all add: procs_def R_def s'_def rq_def)
  have "in_bounds rq"
    unfolding in_bounds_def
  proof (intro allI ballI)
    fix q pr assume pr: "pr \<in> set (rq q)"
    have "q < NUM_PRIORITIES" using rq_okD [OF rq pr] queue_index_less [of pr] by (simp del: queue_index_less)
    with pr have "pr \<in># procs s" unfolding P by (auto simp: queued_member)
    with b show "effective_priority pr \<le> priority pr \<and> priority pr \<le> 10" unfolding sched_base_def proc_ok_def by blast
  qed
  note age = age_processes_correct [OF rq this, folded r_def]
  have pid: "pid (aged pr) = pid pr" "proc_ok n pr \<Longrightarrow> proc_ok n (aged pr)" for pr n by (simp_all add: aged_def proc_ok_def)
  have "image_mset pid (queued r) = image_mset pid (queued rq)"
    unfolding age(2) multiset.map_comp by (simp add: comp_def pid(1))
  then have "image_mset pid (procs s') = image_mset pid (procs s)" unfolding P by simp
  moreover have "\<forall>pr \<in># procs s'. proc_ok (next_pid s) pr"
  proof
    fix pr assume "pr \<in># procs s'"
    then consider "pr \<in># procs s" | x where "x \<in># procs s" "pr = aged x" unfolding P age(2) by auto
    then show "proc_ok (next_pid s) pr" by cases (use b pid(2) in \<open>auto simp: sched_base_def\<close>)
  qed
  moreover have "idle_ready s'"
  proof -
    from b obtain i where i: "pid i = 0" "running s = Some i \<or> i \<in># queued rq" unfolding sched_base_def idle_ready_def rq_def by blast
    from i(1) have "aged i = i" by (simp add: aged_def)
    have "i \<in># queued r" if "i \<in># queued rq"
      unfolding age(2) using that \<open>aged i = i\<close> by force
    with i have "pid i = 0 \<and> (running s' = Some i \<or> i \<in># queued (run_queues s'))" by (auto simp: s'_def)
    then show ?thesis unfolding idle_ready_def by blast
  qed
  ultimately have "sched_base s'" using b age(1) unfolding sched_base_def uniq_pids_def by (simp add: s'_def)
  then show ?thesis by (simp add: s'_def r_def rq_def)
qed

lemma tick_eq:
  "snd (tick f g s) = s\<lparr>global_ticks := global_ticks s + 1,
     pending_stack_frees := filter (\<lambda>k. \<not> f k) (pending_stack_frees s), pending_vma_frees := filter (\<lambda>v. \<not> g v) (pending_vma_frees s),
     run_queues := if (global_ticks s + 1) mod AGING_EPOCH = 0 then age_processes (run_queues s) else run_queues s,
     remaining_ticks := remaining_ticks s - 1\<rparr>"
  "fst (tick f g s) \<longleftrightarrow> remaining_ticks s \<le> 1"
proof -
  have "snd (tick f g s) = s\<lparr>global_ticks := global_ticks s + 1,
     pending_stack_frees := filter (\<lambda>k. \<not> f k) (pending_stack_frees s), pending_vma_frees := filter (\<lambda>v. \<not> g v) (pending_vma_frees s),
     run_queues := if c then age_processes (run_queues s) else run_queues s,
     remaining_ticks := remaining_ticks s - 1\<rparr> \<and> (fst (tick f g s) \<longleftrightarrow> remaining_ticks s \<le> 1)"
    if c: "c \<longleftrightarrow> (global_ticks s + 1) mod AGING_EPOCH = 0" for c
  proof (cases c)
    case True
    then show ?thesis by (cases "remaining_ticks s = 0") (simp_all add: tick_def Let_def flip: c, arith?)
  next
    case False
    then show ?thesis by (cases "remaining_ticks s = 0") (simp_all add: tick_def Let_def flip: c, arith?)
  qed
  from this [OF refl] show
    "snd (tick f g s) = s\<lparr>global_ticks := global_ticks s + 1,
     pending_stack_frees := filter (\<lambda>k. \<not> f k) (pending_stack_frees s), pending_vma_frees := filter (\<lambda>v. \<not> g v) (pending_vma_frees s),
     run_queues := if (global_ticks s + 1) mod AGING_EPOCH = 0 then age_processes (run_queues s) else run_queues s,
     remaining_ticks := remaining_ticks s - 1\<rparr>" "fst (tick f g s) \<longleftrightarrow> remaining_ticks s \<le> 1"
    by blast+
qed

lemma sched_inv_tick:
  assumes "sched_inv s" shows "sched_inv (snd (tick f g s))"
proof -
  let ?t = "snd (tick f g s)"
  have "sched_base (s\<lparr>run_queues := if c then age_processes (run_queues s) else run_queues s\<rparr>)" for c
    using assms sched_base_age [of s] by (simp add: sched_inv_def)
  moreover have "sched_base ?t \<longleftrightarrow>
      sched_base (s\<lparr>run_queues := if (global_ticks s + 1) mod AGING_EPOCH = 0 then age_processes (run_queues s) else run_queues s\<rparr>)"
    by (rule sched_base_cong; simp only: tick_eq sched.simps sched.select_convs sched.update_convs) simp_all
  ultimately have "sched_base ?t" by blast
  then show ?thesis
    by (rule sched_inv_cong [OF assms]) (simp_all add: tick_eq(1) del: if_split)
qed

lemma sched_inv_group:
  assumes "sched_inv s" shows "sched_inv (queue_signal_to_group g sig s)"
proof -
  define f where "f = (\<lambda>pr. if pgid pr = g then queue_signal sig pr else pr)"
  define rq where "rq = (\<lambda>q. if q < NUM_PRIORITIES then map f (run_queues s q) else run_queues s q)"
  have f: "pid (f pr) = pid pr" "pstate (f pr) = pstate pr" "queue_index (f pr) = queue_index pr"
    "proc_ok n (f pr) = proc_ok n pr" "loaded (f pr) m = loaded pr m" for pr n m
    by (simp_all add: f_def proc_ok_def loaded_def)
  have s': "queue_signal_to_group g sig s = s\<lparr>running := map_option f (running s), run_queues := rq, wait_queue := map f (wait_queue s)\<rparr>"
    unfolding queue_signal_to_group_def Let_def rq_def f_def ..
  have "image_mset f (\<Sum>q \<in> A. mset (run_queues s q)) = (\<Sum>q \<in> A. mset (map f (run_queues s q)))" for A :: "nat set"
    by (induction A rule: infinite_finite_induct) simp_all
  then have Q: "queued rq = image_mset f (queued (run_queues s))"
    by (simp add: queued_def rq_def)
  then have P: "procs (queue_signal_to_group g sig s) = image_mset f (procs s)"
    by (cases "running s") (simp_all add: s' procs_def)
  obtain pr where pr: "running s = Some pr" "pstate pr = Running" "loaded pr s" and b: "sched_base s"
    using assms by (auto simp: sched_inv_def)
  have "rq_ok rq"
    unfolding rq_ok_def
  proof (intro allI ballI)
    fix q x assume "x \<in> set (rq q)"
    then obtain y where "y \<in> set (run_queues s q)" "x = y \<or> x = f y" by (auto simp: rq_def split: if_splits)
    with b show "queue_index x = q \<and> pstate x = Ready" using rq_okD [of "run_queues s" y q] by (auto simp: sched_base_def f)
  qed
  moreover have "wq_ok (map f (wait_queue s))" using b by (auto simp: sched_base_def wq_ok_def f)
  moreover have "idle_ready (queue_signal_to_group g sig s)"
  proof -
    from b obtain i where "pid i = 0" "running s = Some i \<or> i \<in># queued (run_queues s)" by (auto simp: sched_base_def idle_ready_def)
    then show ?thesis unfolding idle_ready_def by (intro exI [of _ "f i"]) (auto simp: s' Q f)
  qed
  moreover have "uniq_pids (image_mset f (procs s))" using b
    by (simp add: sched_base_def uniq_pids_def multiset.map_comp comp_def f)
  ultimately have "sched_base (queue_signal_to_group g sig s)"
    using b unfolding sched_base_def P by (auto simp: s' f)
  with pr show ?thesis by (simp add: sched_inv_def s' f) (simp add: loaded_def)
qed

lemma sched_inv_spawn:
  assumes "sched_inv s" and "pid pr = next_pid s" and "pstate pr = Ready" and "priority pr \<le> 10"
  shows "sched_inv (add_process pr (snd (allocate_pid s)))"
proof -
  define x where "x = pr\<lparr>effective_priority := priority pr\<rparr>"
  define n where "n = next_pid s + 1"
  define t where "t = push_run x (s\<lparr>next_pid := n\<rparr>)"
  have t: "add_process pr (snd (allocate_pid s)) = t" by (simp add: add_process_def x_def t_def allocate_pid_def n_def)
  have b: "sched_base s" using assms(1) by (simp add: sched_inv_def)
  have P: "procs t = add_mset x (procs s)" by (simp add: t_def procs_def)
  have lt: "pid p < next_pid s" if "p \<in># procs s" for p using b that by (auto simp: sched_base_def proc_ok_def)
  have "0 < next_pid s"
  proof -
    from b obtain i where "running s = Some i \<or> i \<in># queued (run_queues s)" unfolding sched_base_def idle_ready_def by blast
    then have "i \<in># procs s" by (auto simp: procs_def)
    from lt [OF this] show ?thesis by simp
  qed
  then have "proc_ok n x" using assms by (simp add: proc_ok_def x_def n_def)
  moreover have "proc_ok n p" if "p \<in># procs s" for p
  proof -
    have "proc_ok (next_pid s) p" using b that by (simp add: sched_base_def)
    then show ?thesis by (simp add: proc_ok_def n_def)
  qed
  moreover have "uniq_pids (procs t)"
  proof -
    have "next_pid s \<notin> pid ` set_mset (procs s)" using lt by (metis imageE less_irrefl)
    then have "count (image_mset pid (procs s)) (next_pid s) = 0" by (simp add: count_eq_zero_iff)
    then show ?thesis using b assms(2) by (simp add: P uniq_pids_def sched_base_def x_def)
  qed
  moreover have "rq_ok (run_queues t)" using b assms(3) by (simp add: t_def push_run_def sched_base_def rq_ok_push x_def)
  moreover have "idle_ready t" using b by (auto simp: sched_base_def idle_ready_def t_def)
  moreover have "next_pid t = n" "wait_queue t = wait_queue s" by (simp_all add: t_def)
  ultimately have "sched_base t" using b unfolding sched_base_def P by simp
  then show ?thesis unfolding t by (rule sched_inv_cong [OF assms(1)]) (simp_all add: t_def push_run_def)
qed

lemma sched_inv_collect:
  assumes "sched_inv s" and "take_first P (wait_queue s) = Some (pr, rest)"
  shows "sched_inv (s\<lparr>wait_queue := rest\<rparr>)"
proof -
  have w: "mset (wait_queue s) = add_mset pr (mset rest)" "set rest \<subseteq> set (wait_queue s)"
    using assms(2) by (auto dest: take_first_mset take_first_Some)
  have P: "procs s = add_mset pr (procs (s\<lparr>wait_queue := rest\<rparr>))" using w(1) by (simp add: procs_def)
  have "uniq_pids M" if "uniq_pids (add_mset pr M)" for M
    unfolding uniq_pids_def
  proof
    fix n show "count (image_mset pid M) n \<le> 1"
      using that [unfolded uniq_pids_def, rule_format, of n] by (simp split: if_splits)
  qed
  then have "sched_base (s\<lparr>wait_queue := rest\<rparr>)"
    using assms(1) w(2) P by (auto simp: sched_inv_def sched_base_def wq_ok_def idle_ready_def)
  then show ?thesis by (rule sched_inv_cong [OF assms(1)]) simp_all
qed

section \<open>Interleavings\<close>

text \<open>
  One step of the kernel as the scheduler sees it: a process is created, preempted, blocked, killed,
  stopped, woken, signalled or collected, a tick arrives, pending signals are resolved, a child event is
  announced, or the running program changes registers and memory.
\<close>

inductive sched_step :: "'a sched_scheme \<Rightarrow> 'a sched_scheme \<Rightarrow> bool" where
  spawn: "allocate_pid s = (p, s1) \<Longrightarrow> pid pr = p \<Longrightarrow> pstate pr = Ready \<Longrightarrow> priority pr \<le> 10 \<Longrightarrow> sched_step s (add_process pr s1)"
| preempt: "switch_to_next tf s = (tf', s') \<Longrightarrow> sched_step s s'"
| block: "running s = Some pr \<Longrightarrow> pid pr \<noteq> 0 \<Longrightarrow> block_current tf s = Inr (tf', s') \<Longrightarrow> sched_step s s'"
| kill: "running s = Some pr \<Longrightarrow> pid pr \<noteq> 0 \<Longrightarrow> kill_and_switch_tf s = Inr (tf', s') \<Longrightarrow> sched_step s s'"
| stop: "running s = Some pr \<Longrightarrow> pid pr \<noteq> 0 \<Longrightarrow> stop_and_switch_tf tf s = Inr (tf', s') \<Longrightarrow> sched_step s s'"
| wakeup: "sched_step s (wake p s)"
| wakeup_ret: "sched_step s (wake_with_retval p ret s)"
| cont: "wake_stopped p s = (b, s') \<Longrightarrow> sched_step s s'"
| signal_group: "sched_step s (queue_signal_to_group g sig s)"
| signal_one: "find_process_mut p (queue_signal sig) s = Some s' \<Longrightarrow> sched_step s s'"
| signal_self: "sched_step s (running_mut (queue_signal sig) s)"
| child_death: "sched_step s (notify_child_death p parent s)"
| child_stopped: "sched_step s (notify_child_stopped p parent s)"
| collect: "take_first (\<lambda>pr. pstate pr = Zombie \<and> P pr) (wait_queue s) = Some (pr, rest) \<Longrightarrow> sched_step s (s\<lparr>wait_queue := rest\<rparr>)"
| ticked: "tick f g s = (b, s') \<Longrightarrow> sched_step s s'"
| signals: "resolve_signals tf s = Inr (tf', s') \<Longrightarrow> sched_step s s'"
| user_code: "sched_step s (s\<lparr>live_tf := t, fpu_regs := x, vmem := v, fs_base_msr := b\<rparr>)"

lemma sched_step_inv: "sched_step s s' \<Longrightarrow> sched_inv s \<Longrightarrow> sched_inv s'"
proof (induction rule: sched_step.induct)
  case (spawn s p s1 pr)
  from spawn.hyps(1) have "p = next_pid s" "s1 = snd (allocate_pid s)" by (auto simp: allocate_pid_def)
  with spawn show ?case using sched_inv_spawn [of s pr] by simp
next
  case (preempt tf s tf' s')
  then show ?case using sched_inv_switch [of s tf] by auto
next
  case (block s pr tf tf' s')
  then show ?case using sched_inv_block [of s pr tf] by auto
next
  case (kill s pr tf' s')
  then show ?case using sched_inv_kill [of s pr] by auto
next
  case (stop s pr tf tf' s')
  then show ?case using sched_inv_stop [of s pr tf] by auto
next
  case (cont p s b s')
  then show ?case using sched_inv_wake_stopped [of s p] by simp
next
  case (signal_one p sig s s')
  then show ?case by (auto intro: sched_inv_find_process_mut)
next
  case (signal_self s sig)
  then show ?case by (simp add: sched_inv_running_mut)
next
  case (collect P s pr rest)
  then show ?case by (blast intro: sched_inv_collect)
next
  case (ticked f g s b s')
  then show ?case using sched_inv_tick [of s f g] by simp
next
  case (user_code s t x v b)
  then show ?case by (simp add: sched_inv_def loaded_def sched_base_def procs_def idle_ready_def)
qed (simp_all add: sched_inv_group sched_inv_resolve_signals)

section \<open>A small system for the witnesses\<close>

text \<open>The idle process, a running shell (pid 1) and a second user process (pid 2) waiting in queue 5.\<close>

definition idle_proc :: process where
  "idle_proc = set_priority 0 (new_kernel 0 0x100000 0x9000 \<lparr>as_ptr = 9, as_root = 9\<rparr> [])"

definition shell_proc :: process where
  "shell_proc = sample_user\<lparr>pstate := Running\<rparr>"

definition other_proc :: process where
  "other_proc = (new_user 2 0x400000 0x710000001000 0x6000 \<lparr>as_ptr = 2, as_root = 2\<rparr> [])\<lparr>fs_base := 0x7700\<rparr>"

definition sample_sched :: sched where
  "sample_sched = \<lparr>fs_base_msr = 0x1100, fpu_regs = [], cr3 = 1, tss_rsp0 = 0x5000, current_as_ptr = 1, current_pid_fast = 1,
     live_tf = tframe sample_user, vmem = (\<lambda>_ _. 0), vmapped = (\<lambda>_ _. True),
     hrq = hr_new, futex_waiters = (\<lambda>_. None), poll_waiters = (\<lambda>_. None), epoll_fd_map = (\<lambda>_ _. 0),
     run_queues = (\<lambda>_. [])(0 := [idle_proc], 5 := [other_proc]), wait_queue = [], running = Some shell_proc,
     remaining_ticks = 7, global_ticks = 0, next_pid = 3, pending_stack_frees = [], pending_vma_frees = []\<rparr>"

lemmas sample_procs = idle_proc_def shell_proc_def other_proc_def sample_user_def new_kernel_def new_user_def process_init_def set_priority_def

lemma queued_fresh: "rq q = [] \<Longrightarrow> q < NUM_PRIORITIES \<Longrightarrow> queued (rq(q := xs)) = queued rq + mset xs"
  using queued_append [of q rq xs] by simp

lemma queued_empty: "queued (\<lambda>_. []) = {#}"
  by (simp add: queued_def)

lemma sample_queued: "queued (run_queues sample_sched) = {#idle_proc, other_proc#}"
  by (simp add: sample_sched_def queued_fresh queued_empty NUM_PRIORITIES_def)

lemma sample_fields:
  "pid idle_proc = 0" "pid shell_proc = 1" "pid other_proc = 2" "pstate idle_proc = Ready" "pstate shell_proc = Running"
  "pstate other_proc = Ready" "queue_index idle_proc = 0" "queue_index other_proc = 5" "privilege idle_proc = Kernel"
  "priority idle_proc = 0" "priority shell_proc = 5" "priority other_proc = 5" "effective_priority idle_proc = 0"
  "effective_priority shell_proc = 5" "effective_priority other_proc = 5"
  "address_space shell_proc = \<lparr>as_ptr = 1, as_root = 1\<rparr>" "kernel_stack shell_proc = 0x5000"
  by (simp_all add: sample_procs queue_index_def NUM_PRIORITIES_def)

lemma sample_inv: "sched_inv sample_sched"
proof -
  have r: "running sample_sched = Some shell_proc" and w: "wait_queue sample_sched = []" and n: "next_pid sample_sched = 3"
    by (simp_all add: sample_sched_def)
  have P: "procs sample_sched = {#shell_proc, idle_proc, other_proc#}"
    by (simp add: procs_def sample_queued r w)
  have "rq_ok (run_queues sample_sched)" by (auto simp: rq_ok_def sample_sched_def sample_fields)
  moreover have "uniq_pids (procs sample_sched)" by (simp add: P uniq_pids_def sample_fields)
  moreover have "idle_ready sample_sched" unfolding idle_ready_def by (intro exI [of _ idle_proc]) (simp add: sample_queued sample_fields)
  moreover have "loaded shell_proc sample_sched" by (simp add: loaded_def sample_fields) (simp add: sample_sched_def)
  ultimately show ?thesis
    by (simp add: sched_inv_def sched_base_def P proc_ok_def sample_fields r w n wq_ok_def)
qed

section \<open>Properties\<close>





text \<open>
  A process that dies leaves its \<open>FS.base\<close> to its successor. \<open>kill_and_switch_tf\<close> loads the successor's
  address space, kernel stack and FPU state, but not its \<open>FS.base\<close>: the processor keeps the dead
  process's value, and the next context switch saves that value over the successor's own, so its
  thread-local storage pointer is lost for good.
\<close>
theorem kill_leaves_fs_base:
  assumes "sched_inv s" and "running s = Some dead" and "pid dead \<noteq> 0"
  shows "\<exists>s1 new. kill_and_switch_tf s = Inr (SavedTf, s1) \<and> running s1 = Some new \<and> new \<noteq> dead \<and> fs_base_msr s1 = fs_base_msr s \<and>
    (\<forall>tf s2 tf'. switch_to_next tf s1 = (tf', s2) \<longrightarrow> (\<exists>new' \<in># procs s2. pid new' = pid new \<and> fs_base new' = fs_base_msr s))"
proof -
  let ?s = "snd (kill_current s)"
  have b: "sched_base ?s" "running ?s = None"
    using assms by (simp_all add: sched_base_kill_current kill_current_sched)
  from pop_highest_idle [OF b] obtain new0 rq where p: "pop_highest (rev [0 ..< NUM_PRIORITIES]) (run_queues ?s) = Some (new0, rq)" by blast
  define s1 where "s1 = dispatch False new0 (?s\<lparr>run_queues := rq\<rparr>)"
  have k: "kill_and_switch_tf s = Inr (SavedTf, s1)" using p by (simp add: kill_and_switch_tf_def Let_def s1_def)
  have inv1: "sched_inv s1" unfolding s1_def by (rule sched_inv_dispatch [OF b p])
  have r: "running s1 = Some (new0\<lparr>pstate := Running\<rparr>)" by (simp add: s1_def)
  have fk: "fs_base_msr ?s = fs_base_msr s" using assms(2) by (auto simp: kill_current_def Let_def split: option.splits)
  have f: "fs_base_msr s1 = fs_base_msr s"
    by (simp add: s1_def dispatch_def Let_def machine_ops activate_eq fk)
  have ne: "new0\<lparr>pstate := Running\<rparr> \<noteq> dead"
  proof
    assume e: "new0\<lparr>pstate := Running\<rparr> = dead"
    have "new0 \<in># queued (run_queues s)"
      using pop_highest_queued [OF p] by (simp add: kill_current_sched(1) [OF assms(2)])
    then obtain M where "queued (run_queues s) = add_mset new0 M" by (meson mset_add)
    then have "procs s = add_mset dead (add_mset new0 (M + mset (wait_queue s)))" using assms(2) by (simp add: procs_def)
    moreover have "uniq_pids (procs s)" using assms(1) by (simp add: sched_inv_def sched_base_def)
    then have "count (image_mset pid (procs s)) (pid dead) \<le> 1" unfolding uniq_pids_def by blast
    moreover have "pid dead = pid new0" using arg_cong [OF e, of pid] by simp
    ultimately show False by simp
  qed
  have "\<exists>new' \<in># procs s2. pid new' = pid (new0\<lparr>pstate := Running\<rparr>) \<and> fs_base new' = fs_base_msr s"
    if "switch_to_next tf s1 = (tf', s2)" for tf tf' s2
  proof -
    define x where "x = save_context (tf_at s1 tf) s1 (new0\<lparr>pstate := Running\<rparr>)"
    define y where "y = (if pid new0 \<noteq> 0 \<and> MIN_EFFECTIVE_PRIORITY < effective_priority new0
       then x\<lparr>pstate := Ready, effective_priority := effective_priority new0 - 1\<rparr> else x\<lparr>pstate := Ready\<rparr>)"
    have u: "requeue_current tf s1 = push_run y (s1\<lparr>running := None\<rparr>)"
      unfolding y_def x_def using r by (simp add: requeue_current_def save_context_def Let_def)
    have yf: "pid y = pid new0" "fs_base y = fs_base_msr s" by (auto simp: y_def x_def save_context_def f)
    note b1 = sched_base_requeue [OF inv1 r, of tf]
    from pop_highest_idle [OF b1] obtain n1 rq1 where
      p1: "pop_highest (rev [0 ..< NUM_PRIORITIES]) (run_queues (requeue_current tf s1)) = Some (n1, rq1)" by blast
    with that have s2: "s2 = dispatch True n1 ((requeue_current tf s1)\<lparr>run_queues := rq1\<rparr>)" by (simp add: switch_to_next_def Let_def)
    have Q: "add_mset y (queued (run_queues s1)) = add_mset n1 (queued rq1)"
      using pop_highest_queued [OF p1] by (simp add: u)
    have P2: "procs s2 = add_mset (n1\<lparr>pstate := Running\<rparr>) (queued rq1 + mset (wait_queue s1))" by (simp add: s2 procs_def u)
    show ?thesis
    proof (cases "y = n1")
      case True
      with yf show ?thesis by (intro bexI [of _ "n1\<lparr>pstate := Running\<rparr>"]) (simp_all add: P2)
    next
      case False
      have "y \<in># add_mset n1 (queued rq1)" unfolding Q [symmetric] by simp
      with False have "y \<in># queued rq1" by simp
      with yf show ?thesis by (intro bexI [of _ y]) (simp_all add: P2)
    qed
  qed
  with k r f ne show ?thesis by blast
qed

theorem kill_leaves_fs_base_witness:
  "\<exists>s1. kill_and_switch_tf sample_sched = Inr (SavedTf, s1) \<and> fs_base_msr s1 = 0x1100 \<and> fs_base other_proc = 0x7700"
proof -
  have r: "running sample_sched = Some shell_proc" "pid shell_proc \<noteq> 0" "fs_base_msr sample_sched = 0x1100"
    by (simp_all add: sample_sched_def sample_fields)
  from kill_leaves_fs_base [OF sample_inv r(1,2)] r(3) show ?thesis by (auto simp: other_proc_def)
qed



text \<open>
  A time slice lasts exactly as long as granted: with \<open>r\<close> ticks remaining, ticks one to \<open>r - 1\<close> ask
  for no switch and tick \<open>r\<close> asks for one, whatever aging and deferred frees happen meanwhile. A freshly
  dispatched process therefore runs between 2 and 12 ticks.
\<close>
theorem time_slice_exact:
  "(\<forall>k < remaining_ticks s. fst (tick f g (((\<lambda>s. snd (tick f g s)) ^^ k) s)) \<longleftrightarrow> k + 1 = remaining_ticks s) \<and>
   (effective_priority pr \<le> 10 \<longrightarrow> 2 \<le> remaining_ticks (dispatch b pr t) \<and> remaining_ticks (dispatch b pr t) \<le> 12)"
proof -
  have r: "remaining_ticks (((\<lambda>s. snd (tick f g s)) ^^ k) s) = remaining_ticks s - k" for k
    by (induction k) (simp_all add: tick_eq(1))
  have "fst (tick f g (((\<lambda>s. snd (tick f g s)) ^^ k) s)) \<longleftrightarrow> k + 1 = remaining_ticks s" if "k < remaining_ticks s" for k
    using that by (auto simp: tick_eq(2) r)
  moreover have "effective_priority pr \<le> 10 \<longrightarrow> 2 \<le> remaining_ticks (dispatch b pr t) \<and> remaining_ticks (dispatch b pr t) \<le> 12"
    by (simp add: quantum_for_def sched_consts)
  ultimately show ?thesis by blast
qed

theorem time_slice_exact_witness:
  "\<not> fst (tick (\<lambda>_. True) (\<lambda>_. True) sample_sched) \<and>
   fst (tick (\<lambda>_. True) (\<lambda>_. True) (((\<lambda>s. snd (tick (\<lambda>_. True) (\<lambda>_. True) s)) ^^ 6) sample_sched))"
proof -
  have r: "remaining_ticks sample_sched = 7" by (simp add: sample_sched_def)
  note t = time_slice_exact [THEN conjunct1, rule_format, of _ sample_sched "\<lambda>_. True" "\<lambda>_. True", unfolded r]
  from t [of 0] t [of 6] show ?thesis by simp
qed

end
