(* ===== verification/Syscalls.thy ===== *)
theory Syscalls
  imports Sched_Props
begin

text \<open>
  The system calls on processes, signals and futexes (\<^verbatim>\<open>syscall/process_ctl.rs\<close>, \<^verbatim>\<open>syscall/signal.rs\<close>,
  \<^verbatim>\<open>syscall/sync.rs\<close>), the way out of the kernel (\<^verbatim>\<open>trapframe.rs\<close>, the tail of \<^verbatim>\<open>syscall/mod.rs\<close>) and the timer
  interrupt (\<^verbatim>\<open>timer_preempt.rs\<close>).

  A call returns a value to its caller, or it switches away and the kernel leaves through the register
  frame of whichever process is running then. What a call takes from components outside this state is
  an argument: the clock, the new address space and kernel stack of a child, the stack area a thread
  owns, the FPU image captured at boot.
\<close>

section \<open>Leaving the kernel\<close>

datatype sysret = Ret int | Jump tfref

type_synonym 'a sys = "'a sched_scheme \<Rightarrow> (sysret \<times> 'a sched_scheme) res"

definition jump_to_user :: "tfref \<Rightarrow> 'a sys" where
  "jump_to_user tf s =
     bindR (resolve_signals tf s) (\<lambda>(tf, s).
     bindR (resolve_wait_status s) (\<lambda>s. Inr (Jump tf, s)))"

definition set_rax :: "u64 \<Rightarrow> 'a sched_scheme \<Rightarrow> 'a sched_scheme" where
  "set_rax v s = s\<lparr>live_tf := (live_tf s)\<lparr>rax := v\<rparr>\<rparr>"

text \<open>The tail of \<^verbatim>\<open>syscall_handler_asm\<close>: the frame the processor returns through.\<close>

definition syscall_epilogue :: "int \<Rightarrow> 'a sched_scheme \<Rightarrow> (tfref \<times> 'a sched_scheme) res" where
  "syscall_epilogue ret s =
     bindR (resolve_signals LiveTf (set_rax (of_int ret) s)) (\<lambda>(tf, s).
     bindR (resolve_wait_status s) (\<lambda>s. Inr (tf, if tf = LiveTf then set_rax (of_int ret) s else s)))"

definition with_current_process :: "(process \<Rightarrow> 'a sys) \<Rightarrow> 'a sys" where
  "with_current_process f s = (case running s of Some pr \<Rightarrow> f pr s | None \<Rightarrow> Inr (Ret ESRCH, s))"

section \<open>Processes\<close>

definition sys_arch_prctl :: "int \<Rightarrow> u64 \<Rightarrow> 'a sys" where
  "sys_arch_prctl code addr s =
     (if code = 0x1002 then Inr (Ret 0, write_fs_base addr s)
      else if code = 0x1003 then
        if validate_user_buffer (unat addr) 8 \<noteq> None then Inr (Ret EFAULT, s)
        else bindR (awrite 8 (unat addr) (word_bytes (fs_base_msr s)) s) (\<lambda>s. Inr (Ret 0, s))
      else Inr (Ret EINVAL, s))"

definition sys_yield :: "'a sys" where
  "sys_yield s = (case switch_to_next LiveTf (set_rax 0 s) of (tf, s) \<Rightarrow> jump_to_user tf s)"

definition pid_or_0 :: "'a sched_scheme \<Rightarrow> nat" where
  "pid_or_0 s = (case current_pid s of Some p \<Rightarrow> p | None \<Rightarrow> 0)"

definition sys_nanosleep :: "nat \<Rightarrow> nat \<Rightarrow> 'a sys" where
  "sys_nanosleep now ns s =
     (if ns = 0 then Inr (Ret 0, s)
      else
        let expiry = min (now + ns) (2 ^ 64 - 1);
            s = set_rax 0 s;
            s = s\<lparr>hrq := snd (hr_start expiry (WakePid (pid_or_0 s)) (hrq s))\<rparr>
        in bindR (block_current LiveTf s) (\<lambda>(tf, s). jump_to_user tf s))"

definition sys_getpid :: "'a sys" where
  "sys_getpid s = Inr (Ret (int (pid_or_0 s)), s)"

definition sys_set_tid_address :: "'a sys" where
  "sys_set_tid_address = sys_getpid"

text \<open>Closing the descriptors of the dying process is not part of this state.\<close>

definition sys_exit :: "i32 \<Rightarrow> 'a sys" where
  "sys_exit status s =
     (let parent = (case running s of Some pr \<Rightarrow> if is_thread pr then None else parent_pid pr | None \<Rightarrow> None);
          s = running_mut (\<lambda>pr. pr\<lparr>exit_status := status\<rparr>) s;
          dead_pid = pid_or_0 s
      in bindR (kill_and_switch_tf s) (\<lambda>(tf, s).
         jump_to_user tf (cancel_all_waiters dead_pid (notify_child_death dead_pid parent s))))"

definition kill_current_user_process :: "'a sys" where
  "kill_current_user_process s =
     (let parent = (case running s of Some pr \<Rightarrow> if is_thread pr then None else parent_pid pr | None \<Rightarrow> None);
          dead_pid = pid_or_0 s;
          s = running_mut (\<lambda>pr. pr\<lparr>killed_by_signal := Some SIGSEGV\<rparr>) s
      in bindR (kill_and_switch_tf s) (\<lambda>(tf, s).
         jump_to_user tf (cancel_all_waiters dead_pid (notify_child_death dead_pid parent s))))"

text \<open>
  \<^verbatim>\<open>AddressSpace::fork\<close> as memory sees it: the child's address space (\<open>None\<close> when no memory is left for
  it) holds the parent's bytes.
\<close>

definition sys_fork :: "aspace option \<Rightarrow> nat \<Rightarrow> 'a sys" where
  "sys_fork child_as kstack s =
     (let parent_fpu = fpu_regs s in
      case running s of
        None \<Rightarrow> Inr (Ret ESRCH, s)
      | Some pr \<Rightarrow>
          (case child_as of
             None \<Rightarrow> Inr (Ret ENOMEM, s)
           | Some asp \<Rightarrow>
               let s = s\<lparr>vmem := (vmem s)(as_root asp := vmem s (as_root (address_space pr))),
                         vmapped := (vmapped s)(as_root asp := vmapped s (as_root (address_space pr)))\<rparr>;
                   child_tf = (live_tf s)\<lparr>rax := 0\<rparr>
               in case allocate_pid s of
                    (p, s) \<Rightarrow>
                      let child = (new_user_from_fork p (pid pr) child_tf kstack asp (pgid pr) parent_fpu)\<lparr>fs_base := fs_base pr\<rparr>
                      in Inr (Ret (int p), add_process child s)))"

text \<open>\<open>virt_addr\<close> is \<^verbatim>\<open>VirtAddr::new\<close> of the \<^verbatim>\<open>x86_64\<close> crate, which panics on an address that is not canonical.\<close>

definition sys_clone :: "(u64 \<Rightarrow> u64 res) \<Rightarrow> u64 \<Rightarrow> u64 \<Rightarrow> (nat \<times> nat) option \<Rightarrow> nat \<Rightarrow> fpu_state \<Rightarrow> 'a sys" where
  "sys_clone virt_addr entry stack owned kstack fp s =
     (case running s of
        None \<Rightarrow> Inr (Ret ESRCH, s)
      | Some pr \<Rightarrow>
          (case allocate_pid s of
             (p, s) \<Rightarrow>
               bindR (virt_addr entry) (\<lambda>entry.
               bindR (virt_addr stack) (\<lambda>stack.
               Inr (Ret (int p), add_process (new_thread p (pid pr) entry stack kstack (address_space pr) owned (pgid pr) fp) s)))))"

text \<open>The image swap of \<^verbatim>\<open>sys_exec\<close>, once the program is loaded into \<open>asp\<close> with its entry point and stack.\<close>

definition exec_image :: "aspace \<Rightarrow> u64 \<Rightarrow> u64 \<Rightarrow> fpu_state \<Rightarrow> 'a sys" where
  "exec_image asp entry stack_top fp s =
     (case running s of
        None \<Rightarrow> Inr (Ret ESRCH, s)
      | Some pr \<Rightarrow>
          let pr = pr\<lparr>address_space := asp\<rparr>;
              s = update_current_fast pr s;
              pr = pr\<lparr>tframe := tf_zero\<lparr>rip := entry, rsp := stack_top, cs := 0x23, ss := 0x1b, rflags := 0x200\<rparr>,
                      fs_base := 0, fpu := fp\<rparr>;
              s = activate asp (fpu_restore fp (write_fs_base 0 s))
          in jump_to_user SavedTf (s\<lparr>running := Some pr\<rparr>))"

definition as_u32 :: "int \<Rightarrow> nat" where
  "as_u32 i = nat (i mod 2 ^ 32)"

text \<open>The negation of the least \<^verbatim>\<open>i64\<close> overflows and panics.\<close>

definition neg_i64 :: "int \<Rightarrow> int res" where
  "neg_i64 i = (if i = - (2 ^ 63) then Inl Panic else Inr (- i))"

definition wait_target_of :: "int \<Rightarrow> nat \<Rightarrow> wait_target res" where
  "wait_target_of pid_arg caller_pgid =
     (if 0 < pid_arg then Inr (WaitPid (nat pid_arg))
      else if pid_arg = 0 then Inr (WaitPgid caller_pgid)
      else if pid_arg = - 1 then Inr AnyChild
      else bindR (neg_i64 pid_arg) (\<lambda>g. Inr (WaitPgid (as_u32 g))))"

definition write_status :: "nat \<Rightarrow> i32 \<Rightarrow> 'a sched_scheme \<Rightarrow> 'a sched_scheme res" where
  "write_status ptr status s = (if ptr \<noteq> 0 then vwrite ptr (le_bytes 4 (unat status)) s else Inr s)"

definition my_child :: "'a sched_scheme \<Rightarrow> wait_target \<Rightarrow> process \<Rightarrow> bool" where
  "my_child s target pr \<longleftrightarrow> parent_pid pr = current_pid s \<and> wait_matches target (pid pr) (pgid pr)"

text \<open>Freeing a reaped child's kernel stack happens in the buddy allocator.\<close>

definition sys_waitpid :: "int \<Rightarrow> nat \<Rightarrow> i32 \<Rightarrow> 'a sys" where
  "sys_waitpid pid_arg status_ptr options s =
     (case (if status_ptr \<noteq> 0 then validate_user_buffer status_ptr 4 else None) of
        Some e \<Rightarrow> Inr (Ret e, s)
      | None \<Rightarrow>
          bindR (wait_target_of pid_arg (case running s of Some pr \<Rightarrow> pgid pr | None \<Rightarrow> 0)) (\<lambda>target.
          case take_first (\<lambda>pr. pstate pr = Zombie \<and> my_child s target pr) (wait_queue s) of
            Some (z, rest) \<Rightarrow>
              bindR (write_status status_ptr (wait_status_word z) (s\<lparr>wait_queue := rest\<rparr>)) (\<lambda>s. Inr (Ret (int (pid z)), s))
          | None \<Rightarrow>
              (case (if options AND WUNTRACED \<noteq> 0
                     then find (\<lambda>pr. pstate pr = Stopped \<and> \<not> stop_reported pr \<and> my_child s target pr) (wait_queue s) else None) of
                 Some st \<Rightarrow>
                   let w = (case upd_first (\<lambda>pr. pstate pr = Stopped \<and> \<not> stop_reported pr \<and> my_child s target pr)
                              (\<lambda>pr. pr\<lparr>stop_reported := True\<rparr>) (wait_queue s) of Some w \<Rightarrow> w | None \<Rightarrow> wait_queue s)
                   in bindR (write_status status_ptr (stop_status_word st) (s\<lparr>wait_queue := w\<rparr>)) (\<lambda>s. Inr (Ret (int (pid st)), s))
               | None \<Rightarrow>
                   if options AND WNOHANG \<noteq> 0 then Inr (Ret 0, s)
                   else if \<not> list_ex (my_child s target) (iter_all s) then Inr (Ret ECHILD, s)
                   else
                     let s = running_mut (\<lambda>pr. pr\<lparr>waiting_for := Some target, waiting_options := options, waiting_status_ptr := status_ptr\<rparr>) s
                     in bindR (block_current LiveTf s) (\<lambda>(tf, s). jump_to_user tf s))))"

definition sys_kill :: "int \<Rightarrow> nat \<Rightarrow> 'a sys" where
  "sys_kill target_pid sig s =
     (if sig = 0 \<or> NUM_SIGNALS \<le> sig then Inr (Ret EINVAL, s)
      else if target_pid = - 1 then Inr (Ret EINVAL, s)
      else if target_pid = 0 \<or> target_pid < - 1 then
        bindR (if target_pid = 0 then Inr (case running s of Some pr \<Rightarrow> pgid pr | None \<Rightarrow> 0)
               else bindR (neg_i64 target_pid) (\<lambda>g. Inr (as_u32 g))) (\<lambda>g.
        let s = (if sig = SIGCONT
                 then fold (\<lambda>p s. snd (wake_stopped p s)) (map pid (filter (\<lambda>pr. pgid pr = g \<and> pstate pr = Stopped) (wait_queue s))) s
                 else s)
        in Inr (Ret 0, queue_signal_to_group g sig s))
      else
        let p = nat target_pid in
        if current_pid s = Some p then Inr (Ret 0, running_mut (queue_signal sig) s)
        else
          let s = (if sig = SIGCONT then snd (wake_stopped p s) else s) in
          (case find_process_mut p (queue_signal sig) s of
             Some s \<Rightarrow> Inr (Ret 0, s)
           | None \<Rightarrow> Inr (Ret ESRCH, s)))"

definition sys_setpgid :: "int \<Rightarrow> int \<Rightarrow> 'a sys" where
  "sys_setpgid p g s =
     (if p < 0 \<or> g < 0 then Inr (Ret EINVAL, s)
      else
        let caller = pid_or_0 s;
            target = (if p = 0 then caller else nat p);
            new_pgid = (if g = 0 then as_u32 (int target) else as_u32 g)
        in if target = caller then
             (case running s of
                Some pr \<Rightarrow> Inr (Ret 0, running_mut (\<lambda>pr. pr\<lparr>pgid := new_pgid\<rparr>) s)
              | None \<Rightarrow> Inr (Ret ESRCH, s))
           else
             (case find_process_mut target (\<lambda>pr. pr\<lparr>pgid := new_pgid\<rparr>) s of
                Some s \<Rightarrow> Inr (Ret 0, s)
              | None \<Rightarrow> Inr (Ret ESRCH, s)))"

definition sys_getpgid :: "int \<Rightarrow> 'a sys" where
  "sys_getpgid p s =
     (if p < 0 then Inr (Ret EINVAL, s)
      else
        let caller = pid_or_0 s; target = (if p = 0 then caller else nat p)
        in if target = caller then Inr (Ret (case running s of Some pr \<Rightarrow> int (pgid pr) | None \<Rightarrow> ESRCH), s)
           else Inr (Ret (case find (\<lambda>pr. pid pr = target) (concat (map (run_queues s) [0 ..< NUM_PRIORITIES]) @ wait_queue s) of
                            Some pr \<Rightarrow> int (pgid pr) | None \<Rightarrow> ESRCH), s))"

definition sys_setsid :: "'a sys" where
  "sys_setsid s =
     (case running s of
        None \<Rightarrow> Inr (Ret ESRCH, s)
      | Some pr \<Rightarrow>
          if pgid pr = as_u32 (int (pid pr)) then Inr (Ret EPERM, s)
          else Inr (Ret (int (pid pr)), running_mut (\<lambda>pr. pr\<lparr>pgid := as_u32 (int (pid pr))\<rparr>) s))"

section \<open>Signals\<close>

definition action_of :: "u64 \<Rightarrow> signal_action" where
  "action_of addr = (if addr = 0 then Default else if addr = 1 then Ignore else Handler addr)"

fun action_addr :: "signal_action \<Rightarrow> u64" where
  "action_addr Default = 0"
| "action_addr Ignore = 1"
| "action_addr (Handler addr) = addr"

definition opt_validate :: "nat \<Rightarrow> nat \<Rightarrow> int option" where
  "opt_validate ptr n = (if ptr \<noteq> 0 then validate_user_buffer ptr n else None)"

definition sys_sigaction :: "nat \<Rightarrow> nat \<Rightarrow> nat \<Rightarrow> 'a sys" where
  "sys_sigaction sig act_ptr oldact_ptr s =
     (if sig = 0 \<or> NUM_SIGNALS \<le> sig \<or> sig = SIGKILL \<or> sig = SIGSTOP then Inr (Ret EINVAL, s)
      else case opt_validate act_ptr 8 of
        Some e \<Rightarrow> Inr (Ret e, s)
      | None \<Rightarrow>
      (case opt_validate oldact_ptr 8 of
        Some e \<Rightarrow> Inr (Ret e, s)
      | None \<Rightarrow>
          with_current_process (\<lambda>pr s.
            bindR (if act_ptr \<noteq> 0
                   then bindR (aread 8 act_ptr 8 s) (\<lambda>bs. Inr (pr\<lparr>signal_handlers := (signal_handlers pr)(sig := action_of (bytes_word bs))\<rparr>))
                   else Inr pr) (\<lambda>pr'.
            let s = s\<lparr>running := Some pr'\<rparr> in
            bindR (if oldact_ptr \<noteq> 0 then awrite 8 oldact_ptr (word_bytes (action_addr (signal_handlers pr sig))) s else Inr s) (\<lambda>s.
            Inr (Ret 0, s)))) s))"

definition sys_sigprocmask :: "int \<Rightarrow> nat \<Rightarrow> nat \<Rightarrow> 'a sys" where
  "sys_sigprocmask how set_ptr oldset_ptr s =
     (case opt_validate set_ptr 8 of
        Some e \<Rightarrow> Inr (Ret e, s)
      | None \<Rightarrow>
      (case opt_validate oldset_ptr 8 of
        Some e \<Rightarrow> Inr (Ret e, s)
      | None \<Rightarrow>
          with_current_process (\<lambda>pr s.
            let old_mask = blocked_signals pr in
            bindR (if set_ptr \<noteq> 0
                   then bindR (aread 8 set_ptr 8 s) (\<lambda>bs.
                     let st = bytes_word bs AND NOT (sig_bit SIGKILL) in
                     Inr (if how = 0 then Some (old_mask OR st) else if how = 1 then Some (old_mask AND NOT st)
                          else if how = 2 then Some st else None))
                   else Inr (Some old_mask)) (\<lambda>new.
            case new of
              None \<Rightarrow> Inr (Ret EINVAL, s)
            | Some msk \<Rightarrow>
                let s = s\<lparr>running := Some (pr\<lparr>blocked_signals := msk\<rparr>)\<rparr> in
                bindR (if oldset_ptr \<noteq> 0 then awrite 8 oldset_ptr (word_bytes old_mask) s else Inr s) (\<lambda>s.
                Inr (Ret 0, s)))) s))"

definition sys_sigreturn :: "'a sys" where
  "sys_sigreturn s =
     with_current_process (\<lambda>pr s.
       bindR (pop_signal_frame pr (unat (rsp (live_tf s))) s) (\<lambda>(pr, tf).
       Inr (Ret (sint (rax tf)), s\<lparr>running := Some pr, live_tf := tf\<rparr>))) s"

section \<open>Futexes\<close>

definition FUTEX_PRIVATE_FLAG :: i32 where "FUTEX_PRIVATE_FLAG = 128"

text \<open>The scan of a wake: \<open>woken\<close> so far, at most eight and at most \<open>max_wake\<close>.\<close>

fun futex_scan :: "nat list \<Rightarrow> nat \<Rightarrow> nat \<Rightarrow> nat \<Rightarrow> nat list \<Rightarrow> (nat \<Rightarrow> futex_waiter option) \<Rightarrow> nat list \<times> (nat \<Rightarrow> futex_waiter option)" where
  "futex_scan [] uaddr as_id max_wake woken w = (woken, w)"
| "futex_scan (p # ps) uaddr as_id max_wake woken w =
     (if 8 \<le> length woken \<or> max_wake \<le> length woken then (woken, w)
      else case w p of
        Some fw \<Rightarrow>
          if fw_uaddr fw = uaddr \<and> fw_as_id fw = as_id then futex_scan ps uaddr as_id max_wake (woken @ [p]) (w(p := None))
          else futex_scan ps uaddr as_id max_wake woken w
      | None \<Rightarrow> futex_scan ps uaddr as_id max_wake woken w)"

definition futex_wait :: "nat \<Rightarrow> i32 \<Rightarrow> 'a sys" where
  "futex_wait uaddr val s =
     (if validate_user_buffer uaddr 4 \<noteq> None then Inr (Ret EFAULT, s)
      else bindR (aread 4 uaddr 4 s) (\<lambda>bs.
        if of_nat (le_val bs) \<noteq> val then Inr (Ret EAGAIN, s)
        else case running s of
          None \<Rightarrow> Inr (Ret ESRCH, s)
        | Some pr \<Rightarrow>
            let s = (if pid pr < MAX_PROCS
                     then s\<lparr>futex_waiters := (futex_waiters s)(pid pr := Some \<lparr>fw_uaddr = uaddr, fw_as_id = as_root (address_space pr)\<rparr>)\<rparr>
                     else s)
            in bindR (block_current LiveTf (set_rax 0 s)) (\<lambda>(tf, s). jump_to_user tf s)))"

definition futex_wake :: "nat \<Rightarrow> i32 \<Rightarrow> 'a sys" where
  "futex_wake uaddr val s =
     (case running s of
        None \<Rightarrow> Inr (Ret ESRCH, s)
      | Some pr \<Rightarrow>
          let max_wake = (if sint val \<le> 0 then 2 ^ 31 - 1 else nat (sint val)) in
          (case futex_scan [0 ..< MAX_PROCS] uaddr (as_root (address_space pr)) max_wake [] (futex_waiters s) of
             (woken, w) \<Rightarrow> Inr (Ret (int (length woken)), fold (\<lambda>p. wake_with_retval p 0) woken (s\<lparr>futex_waiters := w\<rparr>))))"

definition sys_futex :: "nat \<Rightarrow> i32 \<Rightarrow> i32 \<Rightarrow> 'a sys" where
  "sys_futex uaddr futex_op val s =
     (let op = futex_op AND NOT FUTEX_PRIVATE_FLAG in
      if op = 0 then futex_wait uaddr val s
      else if op = 1 then futex_wake uaddr val s
      else Inr (Ret ENOSYS, s))"

section \<open>Timer interrupt\<close>

definition timer_preempt_handler ::
  "nat \<Rightarrow> (nat \<Rightarrow> bool) \<Rightarrow> (aspace \<times> nat \<times> nat \<Rightarrow> bool) \<Rightarrow> 'a sched_scheme \<Rightarrow> (tfref \<times> 'a sched_scheme) res" where
  "timer_preempt_handler now stack_freed vma_freed s =
     (case hr_tick now (hrq s) of
        (pids, called, q) \<Rightarrow>
          let s = fold wake pids (s\<lparr>hrq := q\<rparr>) in
          (case tick stack_freed vma_freed s of
             (switch, s) \<Rightarrow>
               (case (if switch then switch_to_next LiveTf s else (LiveTf, s)) of
                  (tf, s) \<Rightarrow>
                    bindR (resolve_signals tf s) (\<lambda>(tf, s).
                    bindR (resolve_wait_status s) (\<lambda>s.
                    Inr (tf, fold poll_clear_on_timeout pids s))))))"

end
