(* ===== verification/Sys_Inv.thy ===== *)
theory Sys_Inv
  imports Syscalls
begin

text \<open>
  Every system call, fault kill and timer interrupt keeps the invariant of the scheduler.
\<close>

declare resolve_signals.simps [simp del]

section \<open>State the invariant does not look at\<close>

lemma sched_inv_machine [simp]:
  "sched_inv (s\<lparr>vmem := v\<rparr>) = sched_inv s" "sched_inv (s\<lparr>vmapped := d\<rparr>) = sched_inv s" "sched_inv (s\<lparr>live_tf := t\<rparr>) = sched_inv s"
  "sched_inv (s\<lparr>fs_base_msr := b\<rparr>) = sched_inv s" "sched_inv (s\<lparr>fpu_regs := x\<rparr>) = sched_inv s" "sched_inv (s\<lparr>hrq := q\<rparr>) = sched_inv s"
  "sched_inv (s\<lparr>futex_waiters := w\<rparr>) = sched_inv s" "sched_inv (s\<lparr>poll_waiters := pw\<rparr>) = sched_inv s"
  "sched_inv (set_rax a s) = sched_inv s" "sched_inv (write_fs_base a s) = sched_inv s"
  by (simp_all add: sched_inv_def loaded_def sched_base_def procs_def idle_ready_def set_rax_def write_fs_base_def)

lemma vwrite_inv: "sched_inv s \<Longrightarrow> okR sched_inv (vwrite a bs s)"
  by (simp add: vwrite_def)

lemma awrite_inv: "sched_inv s \<Longrightarrow> okR sched_inv (awrite al a bs s)"
  by (cases "a mod al = 0") (simp_all add: awrite_def vwrite_inv)

lemma sched_inv_current:
  assumes "sched_inv s" and "running s = Some pr" and "same_key pr' pr" and "pstate pr' = pstate pr"
    and "kernel_stack pr' = kernel_stack pr" and "address_space pr' = address_space pr"
  shows "sched_inv (s\<lparr>running := Some pr'\<rparr>)"
proof -
  have "sched_base (s\<lparr>running := Some pr'\<rparr>)" using assms by (intro sched_base_running) (auto simp: sched_inv_def)
  with assms show ?thesis by (auto simp: sched_inv_def loaded_def same_key_def)
qed

lemma sched_inv_running: "sched_inv s \<Longrightarrow> \<exists>pr. running s = Some pr"
  by (auto simp: sched_inv_def)

section \<open>Leaving the kernel\<close>

lemma resolve_wait_status_inv:
  assumes "sched_inv s" shows "okR sched_inv (resolve_wait_status s)"
proof (rule okRI)
  fix s' assume r: "resolve_wait_status s = Inr s'"
  obtain pr where pr: "running s = Some pr" using sched_inv_running [OF assms] by blast
  have inv: "sched_inv (t\<lparr>running := Some (pr\<lparr>pending_wait_status := None, waiting_status_ptr := 0\<rparr>)\<rparr>)"
    if "sched_inv t" "running t = Some pr" for t :: "'a sched_scheme"
    by (rule sched_inv_current [OF that]) simp_all
  from assms r pr show "sched_inv s'"
    by (auto intro!: inv simp: resolve_wait_status_def vwrite_def bindR_eq_Inr split: option.splits if_splits)
qed

lemma resolve_signals_inv: "sched_inv s \<Longrightarrow> okR (\<lambda>(tf, s). sched_inv s) (resolve_signals tf s)"
  by (rule okRI) (auto dest: sched_inv_resolve_signals)

abbreviation keeps :: "('r \<times> 'a sched_scheme) res \<Rightarrow> bool" where
  "keeps \<equiv> okR (\<lambda>(r, s). sched_inv s)"

lemma jump_to_user_inv: "sched_inv s \<Longrightarrow> keeps (jump_to_user tf s)"
  unfolding jump_to_user_def okR_simps
  by (rule okR_mono [OF resolve_signals_inv]) (auto intro: okR_mono [OF resolve_wait_status_inv])

lemma syscall_epilogue_inv: "sched_inv s \<Longrightarrow> keeps (syscall_epilogue ret s)"
  unfolding syscall_epilogue_def okR_simps
  by (rule okR_mono [OF resolve_signals_inv]) (auto intro: okR_mono [OF resolve_wait_status_inv])

lemma block_inv:
  assumes "sched_inv s" and "pid_or_0 s \<noteq> 0"
  shows "keeps (bindR (block_current tf s) (\<lambda>(tf, s). jump_to_user tf s))"
proof -
  obtain pr where pr: "running s = Some pr" using sched_inv_running [OF assms(1)] by blast
  with assms(2) have "pid pr \<noteq> 0" by (simp add: pid_or_0_def current_pid_def)
  with sched_inv_block [OF assms(1) pr this, of tf] show ?thesis by (auto simp: jump_to_user_inv)
qed

lemma kill_inv:
  assumes "sched_inv s" and "pid_or_0 s \<noteq> 0"
  shows "keeps (bindR (kill_and_switch_tf s) (\<lambda>(tf, s). jump_to_user tf (cancel_all_waiters d (notify_child_death d parent s))))"
proof -
  obtain pr where pr: "running s = Some pr" using sched_inv_running [OF assms(1)] by blast
  with assms(2) have "pid pr \<noteq> 0" by (simp add: pid_or_0_def current_pid_def)
  with sched_inv_kill [OF assms(1) pr this] show ?thesis by (auto simp: jump_to_user_inv)
qed

lemma pid_or_0_simps [simp]:
  "pid_or_0 (set_rax v s) = pid_or_0 s" "pid_or_0 (s\<lparr>hrq := q\<rparr>) = pid_or_0 s" "pid_or_0 (s\<lparr>futex_waiters := w\<rparr>) = pid_or_0 s"
  "(\<And>pr. pid (f pr) = pid pr) \<Longrightarrow> pid_or_0 (running_mut f s) = pid_or_0 s"
  by (simp_all add: pid_or_0_def current_pid_def set_rax_def running_mut_def option.map_comp comp_def)

section \<open>The calls\<close>

lemma sys_arch_prctl_inv: "sched_inv s \<Longrightarrow> keeps (sys_arch_prctl code addr s)"
  by (auto simp: sys_arch_prctl_def intro!: okR_mono [OF awrite_inv])

lemma sys_yield_inv: "sched_inv s \<Longrightarrow> keeps (sys_yield s)"
  using sched_inv_switch [of "set_rax 0 s" LiveTf] by (auto simp: sys_yield_def jump_to_user_inv)

lemma sys_nanosleep_inv: "sched_inv s \<Longrightarrow> pid_or_0 s \<noteq> 0 \<Longrightarrow> keeps (sys_nanosleep now ns s)"
  unfolding sys_nanosleep_def Let_def by (cases "ns = 0") (simp, simp only: if_False, rule block_inv, simp_all)

lemma sys_exit_inv: "sched_inv s \<Longrightarrow> pid_or_0 s \<noteq> 0 \<Longrightarrow> keeps (sys_exit status s)"
  unfolding sys_exit_def Let_def by (rule kill_inv) (auto simp: same_key_def intro!: sched_inv_running_mut)

lemma kill_current_user_process_inv: "sched_inv s \<Longrightarrow> pid_or_0 s \<noteq> 0 \<Longrightarrow> keeps (kill_current_user_process s)"
  unfolding kill_current_user_process_def Let_def by (rule kill_inv) (auto intro!: sched_inv_running_mut)

lemma sys_fork_inv:
  assumes "sched_inv s" shows "keeps (sys_fork child_as kstack s)"
proof -
  obtain pr where pr: "running s = Some pr" using sched_inv_running [OF assms] by blast
  show ?thesis
  proof (cases child_as)
    case (Some asp)
    let ?s = "s\<lparr>vmem := (vmem s)(as_root asp := vmem s (as_root (address_space pr))),
                         vmapped := (vmapped s)(as_root asp := vmapped s (as_root (address_space pr)))\<rparr>"
    let ?c = "(new_user_from_fork (next_pid s) (pid pr) ((live_tf s)\<lparr>rax := 0\<rparr>) kstack asp (pgid pr) (fpu_regs s))\<lparr>fs_base := fs_base pr\<rparr>"
    have "sched_inv (add_process ?c (snd (allocate_pid ?s)))"
      by (rule sched_inv_spawn) (simp_all add: assms new_user_from_fork_def process_init_def)
    with Some pr show ?thesis by (simp add: sys_fork_def Let_def allocate_pid_def)
  qed (simp add: sys_fork_def Let_def pr assms)
qed

lemma sys_clone_inv:
  assumes "sched_inv s" shows "keeps (sys_clone va entry stack owned kstack fp s)"
proof -
  obtain pr where pr: "running s = Some pr" using sched_inv_running [OF assms] by blast
  have "sched_inv (add_process (new_thread (next_pid s) (pid pr) e t kstack (address_space pr) owned (pgid pr) fp) (snd (allocate_pid s)))" for e t
    by (rule sched_inv_spawn) (simp_all add: assms new_thread_def process_init_def)
  then show ?thesis by (simp add: sys_clone_def pr allocate_pid_def)
qed

lemma exec_image_inv:
  assumes "sched_inv s" shows "keeps (exec_image asp entry stack_top fp s)"
proof -
  obtain pr where pr: "running s = Some pr" "pstate pr = Running" "loaded pr s" using assms by (auto simp: sched_inv_def)
  define pr' where "pr' = pr\<lparr>address_space := asp,
    tframe := tf_zero\<lparr>rip := entry, rsp := stack_top, cs := 0x23, ss := 0x1b, rflags := 0x200\<rparr>, fs_base := 0, fpu := fp\<rparr>"
  define s' where "s' = (activate asp (fpu_restore fp (write_fs_base 0 (update_current_fast (pr\<lparr>address_space := asp\<rparr>) s))))\<lparr>running := Some pr'\<rparr>"
  have "sched_base (s\<lparr>running := Some pr'\<rparr>)"
    using assms pr(1) by (intro sched_base_running) (auto simp: sched_inv_def pr'_def same_key_def)
  then have "sched_base s'" by (rule iffD1 [OF sched_base_cong, rotated -1]) (simp_all add: s'_def machine_ops activate_eq)
  moreover have "loaded pr' s'" using pr(3) by (simp add: loaded_def s'_def machine_ops activate_eq pr'_def)
  ultimately have "sched_inv s'" using pr(2) by (simp add: sched_inv_def s'_def pr'_def)
  then have "keeps (jump_to_user SavedTf s')" by (rule jump_to_user_inv)
  then show ?thesis by (simp add: exec_image_def pr(1) Let_def s'_def pr'_def)
qed

lemma write_status_inv: "sched_inv s \<Longrightarrow> okR sched_inv (write_status ptr st s)"
  by (simp add: write_status_def vwrite_inv)

lemma sys_waitpid_inv:
  assumes "sched_inv s" and "pid_or_0 s \<noteq> 0" shows "keeps (sys_waitpid p ptr opts s)"
proof -
  define v where "v = (if ptr \<noteq> 0 then validate_user_buffer ptr 4 else None)"
  have blk: "keeps (bindR (block_current LiveTf (running_mut (\<lambda>pr. pr\<lparr>waiting_for := Some t, waiting_options := opts, waiting_status_ptr := ptr\<rparr>) s))
      (\<lambda>(tf, s). jump_to_user tf s))" for t
    by (rule block_inv) (use assms in \<open>auto simp: same_key_def intro!: sched_inv_running_mut\<close>)
  have zomb: "keeps (bindR (write_status ptr st (s\<lparr>wait_queue := rest\<rparr>)) (\<lambda>s. Inr (r, s)))"
    if "take_first Q (wait_queue s) = Some (z, rest)" for Q z rest st and r :: sysret
    using okR_mono [OF write_status_inv [OF sched_inv_collect [OF assms(1) that]]] by simp
  have upd: "sched_inv (s\<lparr>wait_queue := case upd_first Q (\<lambda>pr. pr\<lparr>stop_reported := True\<rparr>) (wait_queue s) of Some w \<Rightarrow> w | None \<Rightarrow> wait_queue s\<rparr>)" for Q
    using assms(1) sched_inv_wait_upd [OF assms(1), of Q "\<lambda>pr. pr\<lparr>stop_reported := True\<rparr>"] by (auto split: option.split)
  have stop: "keeps (bindR (write_status ptr st (s\<lparr>wait_queue := case upd_first Q (\<lambda>pr. pr\<lparr>stop_reported := True\<rparr>) (wait_queue s) of
      Some w \<Rightarrow> w | None \<Rightarrow> wait_queue s\<rparr>)) (\<lambda>s. Inr (r, s)))" for Q st and r :: sysret
    using okR_mono [OF write_status_inv [OF upd [of Q]]] by simp
  define w where "w = wait_target_of p (case running s of Some pr \<Rightarrow> pgid pr | None \<Rightarrow> 0)"
  note d = sys_waitpid_def [of p ptr opts s, folded v_def w_def, unfolded Let_def]
  show ?thesis
  proof (cases "v = None \<and> (\<exists>t. w = Inr t)")
    case False
    then show ?thesis by (cases v; cases w) (simp_all add: d assms(1))
  next
    case True
    then obtain t where t: "v = None" "w = Inr t" by blast
    define z where "z = take_first (\<lambda>pr. pstate pr = Zombie \<and> my_child s t pr) (wait_queue s)"
    define st where "st = (if opts AND WUNTRACED \<noteq> 0
      then find (\<lambda>pr. pstate pr = Stopped \<and> \<not> stop_reported pr \<and> my_child s t pr) (wait_queue s) else None)"
    show ?thesis
    proof (cases z)
      case (Some r)
      then have "take_first (\<lambda>pr. pstate pr = Zombie \<and> my_child s t pr) (wait_queue s) = Some (fst r, snd r)" by (simp add: z_def)
      from zomb [OF this] Some show ?thesis
        unfolding d t bindR_Inr option.case z_def [symmetric] by (simp only: option.case prod.case_eq_if)
    next
      case None
      show ?thesis
      proof (cases st)
        case (Some x)
        then show ?thesis
          unfolding d t bindR_Inr option.case z_def [symmetric] None st_def [symmetric] by (simp only: option.case stop)
      next
        case None
        then show ?thesis
          unfolding d t bindR_Inr option.case z_def [symmetric] \<open>z = None\<close> st_def [symmetric]
          using assms(1) blk by (simp only: option.case split: if_split) simp
      qed
    qed
  qed
qed

lemma fold_inv: "(\<And>x s. sched_inv s \<Longrightarrow> sched_inv (f x s)) \<Longrightarrow> sched_inv s \<Longrightarrow> sched_inv (fold f xs s)"
  by (induction xs arbitrary: s) simp_all

lemma sys_kill_inv:
  assumes "sched_inv s" shows "keeps (sys_kill p sig s)"
proof -
  have g: "sched_inv (queue_signal_to_group g sig (if c then fold (\<lambda>p s. snd (wake_stopped p s)) ps s else s))" for g c ps
    by (rule sched_inv_group) (simp add: assms fold_inv)
  have f: "sched_inv s'" if "find_process_mut q (queue_signal sig) (if c then snd (wake_stopped q s) else s) = Some s'" for q c s'
    using that by (rule sched_inv_find_process_mut [rotated]) (simp_all add: assms)
  have c: "sched_inv (if c then snd (wake_stopped q s) else s)" for c q using assms by simp
  have r: "sched_inv (running_mut (queue_signal sig) s)" by (rule sched_inv_running_mut [OF assms]) simp
  have o: "keeps (bindR m (\<lambda>x. Inr (Ret 0, queue_signal_to_group x sig (if c then fold (\<lambda>p s. snd (wake_stopped p s)) (ps x) s else s))))"
    for c ps and m :: "nat res"
    unfolding okR_simps by (rule okRI) (simp only: prod.case g)
  have p: "keeps (case find_process_mut q (queue_signal sig) (if c then snd (wake_stopped q s) else s) of
      Some s \<Rightarrow> Inr (Ret 0, s) | None \<Rightarrow> Inr (Ret ESRCH, if c then snd (wake_stopped q s) else s))" for q c
    using c [of c q] f [of q c] by (cases "find_process_mut q (queue_signal sig) (if c then snd (wake_stopped q s) else s)")
      (simp_all only: option.case okR_simps prod.case)
  show ?thesis
    unfolding sys_kill_def Let_def using assms r o p
    by (cases "current_pid s = Some (nat p)") (simp_all only: okR_simps(1) prod.case if_True if_False simp_thms split: if_split)
qed

lemma sys_setpgid_inv:
  assumes "sched_inv s" shows "keeps (sys_setpgid p g s)"
proof -
  have f: "sched_inv s'" if "find_process_mut q (\<lambda>pr. pr\<lparr>pgid := n\<rparr>) s = Some s'" for q n s'
    using that by (rule sched_inv_find_process_mut [OF assms]) simp_all
  have r: "sched_inv (running_mut (\<lambda>pr. pr\<lparr>pgid := n\<rparr>) s)" for n by (rule sched_inv_running_mut [OF assms]) simp
  show ?thesis unfolding sys_setpgid_def Let_def by (auto simp: assms r dest: f split: option.split)
qed

lemma sys_setsid_inv:
  assumes "sched_inv s" shows "keeps (sys_setsid s)"
proof -
  have r: "sched_inv (running_mut (\<lambda>pr. pr\<lparr>pgid := as_u32 (int (pid pr))\<rparr>) s)" by (rule sched_inv_running_mut [OF assms]) (simp add: same_key_def)
  show ?thesis unfolding sys_setsid_def by (simp add: assms r split: option.split)
qed

lemma sys_sigaction_inv:
  assumes "sched_inv s" shows "keeps (sys_sigaction sig act old s)"
proof -
  obtain pr where pr: "running s = Some pr" using sched_inv_running [OF assms] by blast
  have r: "sched_inv (s\<lparr>running := Some (pr\<lparr>signal_handlers := h\<rparr>)\<rparr>)" for h
    by (rule sched_inv_current [OF assms pr]) (simp_all add: same_key_def)
  have s: "sched_inv (s\<lparr>running := Some pr\<rparr>)" by (rule sched_inv_current [OF assms pr]) simp_all
  have w: "keeps (bindR (if c then awrite 8 old bs t else Inr t) (\<lambda>s. Inr (Ret 0, s)))" if "sched_inv t" for c bs and t :: "'a sched_scheme"
    using that by (auto intro: okR_mono [OF awrite_inv])
  have h: "okR (\<lambda>pr'. sched_inv (s\<lparr>running := Some pr'\<rparr>)) (if act \<noteq> 0
      then bindR (aread 8 act 8 s) (\<lambda>bs. Inr (pr\<lparr>signal_handlers := (signal_handlers pr)(sig := action_of (bytes_word bs))\<rparr>)) else Inr pr)"
    by (simp add: r s)
  have k: "keeps (bindR (if act \<noteq> 0
      then bindR (aread 8 act 8 s) (\<lambda>bs. Inr (pr\<lparr>signal_handlers := (signal_handlers pr)(sig := action_of (bytes_word bs))\<rparr>)) else Inr pr)
      (\<lambda>pr'. bindR (if old \<noteq> 0 then awrite 8 old (word_bytes (action_addr (signal_handlers pr sig))) (s\<lparr>running := Some pr'\<rparr>)
        else Inr (s\<lparr>running := Some pr'\<rparr>)) (\<lambda>s. Inr (Ret 0, s))))"
    unfolding okR_simps(3) [of _ "if act \<noteq> 0 then _ else _"] by (rule okR_mono [OF h w])
  show ?thesis
    unfolding sys_sigaction_def with_current_process_def pr Let_def option.case
    using k by (cases "opt_validate act 8"; cases "opt_validate old 8") (simp_all only: option.case okR_simps prod.case assms if_True if_False split: if_split, simp_all)
qed

lemma sys_sigprocmask_inv:
  assumes "sched_inv s" shows "keeps (sys_sigprocmask how set_ptr old s)"
proof -
  obtain pr where pr: "running s = Some pr" using sched_inv_running [OF assms] by blast
  have r: "sched_inv (s\<lparr>running := Some (pr\<lparr>blocked_signals := h\<rparr>)\<rparr>)" for h
    by (rule sched_inv_current [OF assms pr]) (simp_all add: same_key_def)
  have w: "keeps (bindR (if c then awrite 8 old bs t else Inr t) (\<lambda>s. Inr (Ret 0, s)))" if "sched_inv t" for c bs and t :: "'a sched_scheme"
    using that by (auto intro: okR_mono [OF awrite_inv])
  have n: "keeps (case new of None \<Rightarrow> Inr (Ret EINVAL, s)
      | Some msk \<Rightarrow> bindR (if c then awrite 8 old bs (s\<lparr>running := Some (pr\<lparr>blocked_signals := msk\<rparr>)\<rparr>) else Inr (s\<lparr>running := Some (pr\<lparr>blocked_signals := msk\<rparr>)\<rparr>))
          (\<lambda>s. Inr (Ret 0, s)))" for new c bs
    by (cases new) (simp_all add: assms w [OF r] del: okR_simps(3))
  show ?thesis
    unfolding sys_sigprocmask_def with_current_process_def pr Let_def option.case
    by (cases "opt_validate set_ptr 8"; cases "opt_validate old 8") (simp_all add: assms n okRI del: not_None_eq)
qed

lemma sys_sigreturn_inv:
  assumes "sched_inv s" shows "keeps (sys_sigreturn s)"
proof -
  obtain pr where pr: "running s = Some pr" using sched_inv_running [OF assms] by blast
  have "sched_inv (s\<lparr>running := Some (pr\<lparr>blocked_signals := h\<rparr>), live_tf := t\<rparr>)" for h t
  proof -
    have "sched_inv (s\<lparr>running := Some (pr\<lparr>blocked_signals := h\<rparr>)\<rparr>)"
      by (rule sched_inv_current [OF assms pr]) (simp_all add: same_key_def)
    then show ?thesis by (simp add: sched_inv_def loaded_def sched_base_def procs_def idle_ready_def)
  qed
  then show ?thesis
    unfolding sys_sigreturn_def with_current_process_def pr option.case
    by (auto simp: pop_signal_frame_def bindR_eq_Inr intro!: okRI split: list.splits)
qed

lemma sys_futex_inv:
  assumes "sched_inv s" and "pid_or_0 s \<noteq> 0" shows "keeps (sys_futex uaddr op val s)"
proof -
  obtain pr where pr: "running s = Some pr" using sched_inv_running [OF assms(1)] by blast
  define s1 where "s1 = set_rax 0 (if pid pr < MAX_PROCS
     then s\<lparr>futex_waiters := (futex_waiters s)(pid pr := Some \<lparr>fw_uaddr = uaddr, fw_as_id = as_root (address_space pr)\<rparr>)\<rparr> else s)"
  have "keeps (bindR (block_current LiveTf s1) (\<lambda>(tf, s). jump_to_user tf s))"
    by (rule block_inv) (use assms in \<open>simp_all add: s1_def\<close>)
  then have "keeps (if c then Inr (Ret EAGAIN, s) else bindR (block_current LiveTf s1) (\<lambda>(tf, s). jump_to_user tf s))" for c
    using assms(1) by (cases c) (simp_all del: okR_simps(3))
  note e = this
  have "okR (\<lambda>bs. keeps (if of_nat (le_val bs) \<noteq> val then Inr (Ret EAGAIN, s)
      else bindR (block_current LiveTf s1) (\<lambda>(tf, s). jump_to_user tf s))) m" for m
    by (rule okRI) (rule e)
  then have "keeps (futex_wait uaddr val s)"
    unfolding futex_wait_def pr option.case Let_def s1_def [symmetric]
    by (cases "validate_user_buffer uaddr 4 = None") (simp_all only: okR_simps(3), simp_all add: assms)
  moreover have "keeps (futex_wake uaddr val s)"
    unfolding futex_wake_def pr option.case Let_def by (simp add: fold_inv assms split: prod.split)
  ultimately show ?thesis by (simp add: sys_futex_def Let_def assms)
qed

lemma poll_clear_inv: "sched_inv s \<Longrightarrow> sched_inv (poll_clear_on_timeout p s)"
  by (auto simp: poll_clear_on_timeout_def split: option.splits)

lemma timer_preempt_handler_inv:
  assumes "sched_inv s" shows "keeps (timer_preempt_handler now f g s)"
proof -
  obtain pids called q where h: "hr_tick now (hrq s) = (pids, called, q)" by (metis prod.exhaust)
  define s1 where "s1 = fold wake pids (s\<lparr>hrq := q\<rparr>)"
  have s1: "sched_inv s1" unfolding s1_def by (rule fold_inv) (simp_all add: assms)
  obtain b s2 where t: "tick f g s1 = (b, s2)" by (metis prod.exhaust)
  have s2: "sched_inv s2" using sched_inv_tick [OF s1, of f g] t by simp
  obtain tf s3 where n: "(if b then switch_to_next LiveTf s2 else (LiveTf, s2)) = (tf, s3)" by (metis prod.exhaust)
  have s3: "sched_inv s3" using sched_inv_switch [OF s2, of LiveTf] s2 n by (auto split: if_splits)
  have "keeps (bindR (resolve_signals tf s3) (\<lambda>(tf, s). bindR (resolve_wait_status s) (\<lambda>s. Inr (tf, fold poll_clear_on_timeout pids s))))"
    unfolding okR_simps
    by (rule okR_mono [OF resolve_signals_inv [OF s3]]) (auto intro!: okR_mono [OF resolve_wait_status_inv] fold_inv poll_clear_inv)
  then show ?thesis by (simp only: timer_preempt_handler_def h prod.case Let_def s1_def [symmetric] t n)
qed

end
