(* ===== verification/Sys_Props.thy ===== *)
theory Sys_Props
  imports Sys_Inv
begin

text \<open>
  Properties of the system calls: the invariant over whole calls, the report of a dead child to its
  parent, futexes, \<^verbatim>\<open>rt_sigreturn\<close> and \<^verbatim>\<open>fork\<close>.
\<close>

section \<open>Kernel entries\<close>

text \<open>
  One entry into the kernel from a user process: a system call, its return, a fault that kills, the
  timer interrupt; or user code in between.
\<close>

inductive kernel_step :: "'a sched_scheme \<Rightarrow> 'a sched_scheme \<Rightarrow> bool" where
  arch_prctl: "sys_arch_prctl code addr s = Inr (r, s') \<Longrightarrow> kernel_step s s'"
| yield: "sys_yield s = Inr (r, s') \<Longrightarrow> kernel_step s s'"
| nanosleep: "pid_or_0 s \<noteq> 0 \<Longrightarrow> sys_nanosleep now ns s = Inr (r, s') \<Longrightarrow> kernel_step s s'"
| exit: "pid_or_0 s \<noteq> 0 \<Longrightarrow> sys_exit status s = Inr (r, s') \<Longrightarrow> kernel_step s s'"
| fault: "pid_or_0 s \<noteq> 0 \<Longrightarrow> kill_current_user_process s = Inr (r, s') \<Longrightarrow> kernel_step s s'"
| fork: "sys_fork child_as kstack s = Inr (r, s') \<Longrightarrow> kernel_step s s'"
| clone: "sys_clone va entry stack owned kstack fp s = Inr (r, s') \<Longrightarrow> kernel_step s s'"
| exec: "exec_image asp entry stack_top fp s = Inr (r, s') \<Longrightarrow> kernel_step s s'"
| waitpid: "pid_or_0 s \<noteq> 0 \<Longrightarrow> sys_waitpid p ptr opts s = Inr (r, s') \<Longrightarrow> kernel_step s s'"
| kill: "sys_kill p sig s = Inr (r, s') \<Longrightarrow> kernel_step s s'"
| setpgid: "sys_setpgid p g s = Inr (r, s') \<Longrightarrow> kernel_step s s'"
| setsid: "sys_setsid s = Inr (r, s') \<Longrightarrow> kernel_step s s'"
| sigaction: "sys_sigaction sig act old s = Inr (r, s') \<Longrightarrow> kernel_step s s'"
| sigprocmask: "sys_sigprocmask how set_ptr old s = Inr (r, s') \<Longrightarrow> kernel_step s s'"
| sigreturn: "sys_sigreturn s = Inr (r, s') \<Longrightarrow> kernel_step s s'"
| futex: "pid_or_0 s \<noteq> 0 \<Longrightarrow> sys_futex uaddr op val s = Inr (r, s') \<Longrightarrow> kernel_step s s'"
| return: "syscall_epilogue ret s = Inr (tf, s') \<Longrightarrow> kernel_step s s'"
| timer: "timer_preempt_handler now f g s = Inr (tf, s') \<Longrightarrow> kernel_step s s'"
| user_code: "kernel_step s (s\<lparr>live_tf := t, fpu_regs := x, vmem := v\<rparr>)"

lemmas call_invs = sys_arch_prctl_inv sys_yield_inv sys_nanosleep_inv sys_exit_inv kill_current_user_process_inv sys_fork_inv
  sys_clone_inv exec_image_inv sys_waitpid_inv sys_kill_inv sys_setpgid_inv sys_setsid_inv sys_sigaction_inv
  sys_sigprocmask_inv sys_sigreturn_inv sys_futex_inv syscall_epilogue_inv timer_preempt_handler_inv

lemma keepsD: "keeps m \<Longrightarrow> m = Inr (r, s') \<Longrightarrow> sched_inv s'"
  by simp

lemma kernel_step_inv: "kernel_step s s' \<Longrightarrow> sched_inv s \<Longrightarrow> sched_inv s'"
proof (induction rule: kernel_step.induct)
  case (user_code s t x v)
  then show ?case by (simp add: sched_inv_def loaded_def sched_base_def procs_def idle_ready_def)
qed (erule keepsD [rotated], (rule call_invs; assumption))+

section \<open>A child dies\<close>

lemma upd_in_queues_None: "(\<And>q pr. q \<in> set qs \<Longrightarrow> pr \<in> set (rq q) \<Longrightarrow> pid pr \<noteq> p) \<Longrightarrow> upd_in_queues qs p f rq = None"
  by (induction qs) (auto simp: upd_first_None split: option.split)

lemma upd_first_unique: "\<forall>u \<in> set us. \<not> P u \<Longrightarrow> P x \<Longrightarrow> upd_first P f (us @ x # vs) = Some (us @ f x # vs)"
  by (induction us) auto

lemma find_append: "\<forall>u \<in> set us. \<not> P u \<Longrightarrow> P x \<Longrightarrow> find P (us @ x # vs) = Some x"
  by (induction us) auto

text \<open>A process of the wait queue has its pid for itself.\<close>

lemma waiting_unique:
  assumes "sched_base s" and "wait_queue s = us @ x # vs"
  shows "\<And>pr. pr \<in> set us \<union> set vs \<Longrightarrow> pid pr \<noteq> pid x" "\<And>pr. running s = Some pr \<Longrightarrow> pid pr \<noteq> pid x"
    "\<And>q pr. pr \<in> set (run_queues s q) \<Longrightarrow> pid pr \<noteq> pid x"
proof -
  define A where "A = (case running s of Some pr \<Rightarrow> [pr] | None \<Rightarrow> []) @ concat (map (run_queues s) [0 ..< NUM_PRIORITIES])"
  have "distinct (map pid (iter_all s))" using assms(1) by (intro distinct_pids) (simp add: sched_base_def)
  moreover have "iter_all s = A @ us @ x # vs" by (simp add: iter_all_def assms(2) A_def)
  ultimately have "distinct (map pid (A @ us @ x # vs))" by simp
  then have d: "pid x \<notin> pid ` (set A \<union> set us \<union> set vs)" by auto
  show "pid pr \<noteq> pid x" if "pr \<in> set us \<union> set vs" for pr using d that by (metis UnCI UnE image_eqI)
  show "pid pr \<noteq> pid x" if "running s = Some pr" for pr
  proof -
    have "pr \<in> set A" using that by (simp add: A_def)
    with d show ?thesis by (metis UnCI image_eqI)
  qed
  show "pid pr \<noteq> pid x" if pr: "pr \<in> set (run_queues s q)" for q pr
  proof -
    have "rq_ok (run_queues s)" using assms(1) by (simp add: sched_base_def)
    from rq_okD [OF this pr] queue_index_less [of pr] have "q < NUM_PRIORITIES" by (simp del: queue_index_less)
    with pr have "pr \<in> set A" by (auto simp: A_def)
    with d show ?thesis by (metis UnCI image_eqI)
  qed
qed

text \<open>What the death of \<open>c\<close> does to its parent \<open>q\<close>, blocked in \<^verbatim>\<open>waitpid\<close> for it.\<close>

lemma notify_child_death_wakes:
  assumes base: "sched_base s" and wq: "wait_queue s = us @ q # vs @ [z]" and "pstate q = Blocked" and "waits_for q (pid z) (pgid z)"
    and "pstate z = Zombie"
  shows "\<exists>q'. notify_child_death (pid z) (Some (pid q)) s = push_run q' (s\<lparr>wait_queue := us @ vs @ [z]\<rparr>) \<and>
    q' = (report_child (pid z) (wait_status_word z) (queue_signal SIGCHLD q))\<lparr>pstate := Ready\<rparr>"
proof -
  note uq = waiting_unique [OF base wq]
  have "wait_queue s = (us @ q # vs) @ z # []" by (simp add: wq)
  note uz = waiting_unique(1) [OF base this]
  define q1 where "q1 = queue_signal SIGCHLD q"
  define q2 where "q2 = report_child (pid z) (wait_status_word z) q1"
  have f: "pid q1 = pid q" "pstate q1 = Blocked" "waits_for q1 (pid z) (pgid z)" "pid q2 = pid q" "pstate q2 = Blocked"
    using assms(3,4) by (simp_all add: q1_def q2_def waits_for_def report_child_def)
  have "current_pid s \<noteq> Some (pid q)" using uq(2) by (cases "running s") (auto simp: current_pid_def)
  moreover have "find_process_mut (pid q) (queue_signal SIGCHLD) s = Some (s\<lparr>wait_queue := us @ q1 # vs @ [z]\<rparr>)"
    using uq by (auto simp: find_process_mut_def upd_in_queues_None wq q1_def upd_first_unique)
  ultimately have n: "notify_sigchld (Some (pid q)) s = s\<lparr>wait_queue := us @ q1 # vs @ [z]\<rparr>" by (simp add: notify_sigchld_def)
  have "find (\<lambda>pr. pid pr = pid z \<and> pstate pr = Zombie) ((us @ q1 # vs) @ z # []) = Some z"
    by (rule find_append) (use uz f assms(5) in auto)
  then have z: "find (\<lambda>pr. pid pr = pid z \<and> pstate pr = Zombie) (us @ q1 # vs @ [z]) = Some z" by simp
  have u: "upd_first (\<lambda>pr. pid pr = pid q \<and> pstate pr = Blocked \<and> waits_for pr (pid z) (pgid z))
      (report_child (pid z) (wait_status_word z)) (us @ q1 # vs @ [z]) = Some (us @ q2 # vs @ [z])"
    unfolding q2_def by (rule upd_first_unique) (use uq(1) f in auto)
  have w: "take_first (\<lambda>pr. pid pr = pid q \<and> pstate pr = Blocked) (us @ q2 # vs @ [z]) = Some (q2, us @ vs @ [z])"
    by (rule take_first_unique) (use uq(1) f in auto)
  show ?thesis
    unfolding notify_child_death_def Let_def n by (simp add: z u wake_def w) (simp add: q2_def q1_def)
qed

text \<open>The zombie is reported by the first \<^verbatim>\<open>waitpid\<close> for it.\<close>

lemma waitpid_zombie:
  assumes "wait_queue s = us @ z # vs" and "\<And>pr. pr \<in> set us \<Longrightarrow> pid pr \<noteq> pid z" and "pstate z = Zombie"
    and "parent_pid z = current_pid s" and "pid z \<noteq> 0"
  shows "sys_waitpid (int (pid z)) 0 opts s = Inr (Ret (int (pid z)), s\<lparr>wait_queue := us @ vs\<rparr>)"
proof -
  let ?P = "\<lambda>pr. pstate pr = Zombie \<and> my_child s (WaitPid (pid z)) pr"
  have "take_first ?P (wait_queue s) = Some (z, us @ vs)"
    unfolding assms(1)
  proof (rule take_first_unique)
    show "\<forall>u \<in> set us. \<not> ?P u"
    proof
      fix u assume "u \<in> set us"
      from assms(2) [OF this] show "\<not> ?P u" by (simp add: my_child_def)
    qed
  qed (use assms in \<open>simp add: my_child_def\<close>)
  then show ?thesis using assms(5) by (simp add: sys_waitpid_def wait_target_of_def write_status_def)
qed

section \<open>Futexes\<close>

definition futex_matches :: "(nat \<Rightarrow> futex_waiter option) \<Rightarrow> nat \<Rightarrow> nat \<Rightarrow> nat \<Rightarrow> bool" where
  "futex_matches w uaddr as_id p \<longleftrightarrow> (case w p of Some fw \<Rightarrow> fw_uaddr fw = uaddr \<and> fw_as_id fw = as_id | None \<Rightarrow> False)"

lemma futex_scan_eq:
  assumes "distinct ps"
  shows "futex_scan ps u a k woken w =
    (let xs = take (min 8 k - length woken) (filter (futex_matches w u a) ps)
     in (woken @ xs, \<lambda>p. if p \<in> set xs then None else w p))"
  using assms
proof (induction ps arbitrary: woken w)
  case (Cons p ps)
  have m: "filter (futex_matches (w(p := None)) u a) ps = filter (futex_matches w u a) ps"
    using Cons.prems by (intro filter_cong) (auto simp: futex_matches_def)
  show ?case
  proof (cases "8 \<le> length woken \<or> k \<le> length woken")
    case False
    then obtain n where n: "min 8 k - length woken = Suc n" by (cases "min 8 k - length woken") auto
    then have n': "min 8 k - Suc (length woken) = n" by simp
    show ?thesis
    proof (cases "futex_matches w u a p")
      case True
      then obtain fw where "w p = Some fw" "fw_uaddr fw = u \<and> fw_as_id fw = a" by (auto simp: futex_matches_def split: option.splits)
      with True False Cons n n' m show ?thesis by (auto simp: Let_def fun_eq_iff)
    next
      case no: False
      then have "futex_scan (p # ps) u a k woken w = futex_scan ps u a k woken w"
        using False by (auto simp: futex_matches_def split: option.splits)
      with no Cons show ?thesis by simp
    qed
  qed (auto simp: Let_def)
qed (simp add: Let_def)

lemma wake_with_retval_cases:
  obtains (none) "wake_with_retval p r s = s" "\<forall>y \<in> set (wait_queue s). \<not> (pid y = p \<and> pstate y = Blocked)"
  | (some) us x vs where "wait_queue s = us @ x # vs" "pid x = p" "pstate x = Blocked"
    "wake_with_retval p r s = push_run (x\<lparr>tframe := (tframe x)\<lparr>rax := r\<rparr>, pstate := Ready\<rparr>) (s\<lparr>wait_queue := us @ vs\<rparr>)"
proof (cases "take_first (\<lambda>pr. pid pr = p \<and> pstate pr = Blocked) (wait_queue s)")
  case None
  show ?thesis
  proof (rule none)
    show "wake_with_retval p r s = s" by (simp add: wake_with_retval_def None)
  qed (use None in \<open>simp add: take_first_None\<close>)
next
  case (Some a)
  then obtain x rest where a: "take_first (\<lambda>pr. pid pr = p \<and> pstate pr = Blocked) (wait_queue s) = Some (x, rest)" by (cases a) simp
  from take_first_Some [OF this] obtain us vs where "wait_queue s = us @ x # vs" "rest = us @ vs" "pid x = p" "pstate x = Blocked" by blast
  with a show ?thesis by (intro some [of us x vs]) (simp_all add: wake_with_retval_def)
qed

lemma wake_with_retval_mono:
  "set (wait_queue (wake_with_retval p r s)) \<subseteq> set (wait_queue s)"
  "set (run_queues s q) \<subseteq> set (run_queues (wake_with_retval p r s) q)"
  "distinct (map pid (wait_queue s)) \<Longrightarrow> distinct (map pid (wait_queue (wake_with_retval p r s)))"
  by (rule wake_with_retval_cases [of p r s]; simp add: push_run_def; auto)+

lemma fold_wake_mono:
  "set (wait_queue (fold (\<lambda>p. wake_with_retval p r) ps s)) \<subseteq> set (wait_queue s)"
  "set (run_queues s q) \<subseteq> set (run_queues (fold (\<lambda>p. wake_with_retval p r) ps s) q)"
proof (induction ps arbitrary: s)
  case (Cons p ps)
  {
    case 1
    show ?case using Cons(1) [of "wake_with_retval p r s"] wake_with_retval_mono(1) [of p r s] by simp
  next
    case 2
    show ?case using Cons(2) [of "wake_with_retval p r s"] wake_with_retval_mono(2) [of s q p r] by simp
  }
qed simp_all

lemma fold_wake_in:
  assumes "distinct (map pid (wait_queue s))" and "x \<in> set (wait_queue s)"
  shows "(x \<in> set (wait_queue (fold (\<lambda>p. wake_with_retval p r) ps s)) \<longleftrightarrow> \<not> (pid x \<in> set ps \<and> pstate x = Blocked)) \<and>
    (pid x \<in> set ps \<and> pstate x = Blocked \<longrightarrow>
       x\<lparr>tframe := (tframe x)\<lparr>rax := r\<rparr>, pstate := Ready\<rparr> \<in> set (run_queues (fold (\<lambda>p. wake_with_retval p r) ps s) (queue_index x)))"
  using assms
proof (induction ps arbitrary: s)
  case (Cons p ps)
  let ?s = "wake_with_retval p r s"
  have d: "distinct (map pid (wait_queue ?s))" using Cons.prems(1) by (rule wake_with_retval_mono)
  show ?case
  proof (cases rule: wake_with_retval_cases [of p r s])
    case none
    with Cons.IH [OF Cons.prems] Cons.prems(2) show ?thesis by auto
  next
    case (some us y vs)
    have u: "z = y" if "z \<in> set (wait_queue s)" "pid z = p" for z
      using Cons.prems(1) that some(1,2) by (auto simp: image_iff)
    show ?thesis
    proof (cases "pid x = p")
      case True
      with u Cons.prems(2) have x: "x = y" by blast
      have "x \<notin> set (wait_queue ?s)" using Cons.prems(1) some by (auto simp: x)
      moreover have "x\<lparr>tframe := (tframe x)\<lparr>rax := r\<rparr>, pstate := Ready\<rparr> \<in> set (run_queues ?s (queue_index x))"
        by (simp add: some(4) push_run_def x queue_index_def)
      ultimately show ?thesis
        using fold_wake_mono(1) [of r ps ?s] fold_wake_mono(2) [of ?s "queue_index x" r ps] some(3) True
        unfolding x by (simp only: fold.simps comp_apply list.set) blast
    next
      case False
      then have "x \<in> set (wait_queue ?s)" using Cons.prems(2) some by auto
      from Cons.IH [OF d this] False show ?thesis by simp
    qed
  qed
qed simp

lemma futex_scan_pids:
  "futex_scan [0 ..< MAX_PROCS] u a k [] w = (woken, w') \<Longrightarrow> set woken \<subseteq> {p. p < MAX_PROCS}"
  by (auto simp: futex_scan_eq Let_def dest!: in_set_takeD)

section \<open>Properties\<close>

text \<open>
  C19. No sequence of system calls, faults, timer interrupts and user code breaks the scheduler: in every
  state reached all pids are distinct, queued processes are ready and stand in the queue of their
  priority, waiting processes are not ready, the processor runs in the address space and on the kernel
  stack of the running process, and a user process that sleeps or exits there finds a successor.
\<close>
theorem system_calls_safe:
  assumes "sched_inv s" and "kernel_step\<^sup>*\<^sup>* s s'"
  shows "sched_inv s' \<and> distinct (map pid (iter_all s')) \<and>
    (\<exists>pr. running s' = Some pr \<and> loaded pr s' \<and>
      (pid pr \<noteq> 0 \<longrightarrow> (\<exists>s1. block_current LiveTf s' = Inr (SavedTf, s1)) \<and> (\<exists>s1. kill_and_switch_tf s' = Inr (SavedTf, s1))))"
proof -
  from assms(2,1) have inv: "sched_inv s'"
    by (induction rule: rtranclp_induct) (auto intro: kernel_step_inv)
  then obtain pr where pr: "running s' = Some pr" "loaded pr s'" by (auto simp: sched_inv_def)
  have "distinct (map pid (iter_all s'))" using inv by (intro distinct_pids) (simp add: sched_inv_def sched_base_def)
  with inv pr sched_inv_block [OF inv pr(1), of LiveTf] sched_inv_kill [OF inv pr(1)] show ?thesis by blast
qed

theorem system_calls_safe_witness:
  "sched_inv sample_sched \<and> (\<exists>s'. kernel_step\<^sup>*\<^sup>* sample_sched s' \<and> s' \<noteq> sample_sched \<and> distinct (map pid (iter_all s')))"
proof -
  let ?s = "sample_sched\<lparr>fs_base_msr := 5\<rparr>"
  have "kernel_step sample_sched ?s"
    by (rule kernel_step.arch_prctl [of "0x1002" 5 _ "Ret 0"]) (simp add: sys_arch_prctl_def write_fs_base_def)
  then have k: "kernel_step\<^sup>*\<^sup>* sample_sched ?s" by blast
  moreover have "fs_base_msr sample_sched \<noteq> fs_base_msr ?s" by (simp add: sample_sched_def)
  then have "?s \<noteq> sample_sched" by metis
  ultimately show ?thesis using system_calls_safe [OF sample_inv k] sample_inv by blast
qed

text \<open>
  C20. When a child dies while its parent is blocked in \<^verbatim>\<open>waitpid\<close> for it, the parent becomes ready at the
  end of its run queue, its call returns the child's pid and its status word is the child's. But the
  child stays in the wait queue as a zombie, so the next \<^verbatim>\<open>waitpid\<close> of the parent reports the same
  death a second time.
\<close>
theorem child_death_reported_twice:
  fixes s :: "'a sched_scheme"
  assumes "sched_inv s" and "running s = Some c" and "pid c \<noteq> 0" and "\<not> is_thread c" and "parent_pid c = Some (pid q)"
    and "q \<in> set (wait_queue s)" and "pstate q = Blocked" and "waits_for q (pid c) (pgid c)"
  shows "\<exists>s1 q'. kill_and_switch_tf s = Inr (SavedTf, s1) \<and>
    last (run_queues (notify_child_death (pid c) (Some (pid q)) s1) (queue_index q)) = q' \<and>
    pid q' = pid q \<and> pstate q' = Ready \<and> rax (tframe q') = of_nat (pid c) \<and> pending_wait_status q' = Some (wait_status_word c) \<and>
    (\<forall>(s2 :: 'a sched_scheme) opts. current_pid s2 = Some (pid q) \<and> wait_queue s2 = wait_queue (notify_child_death (pid c) (Some (pid q)) s1) \<longrightarrow>
       (\<exists>s3. sys_waitpid (int (pid c)) 0 opts s2 = Inr (Ret (int (pid c)), s3)))"
proof -
  define z where "z = c\<lparr>pstate := Zombie\<rparr>"
  from assms(6) obtain us vs where wq: "wait_queue s = us @ q # vs" by (meson split_list)
  from sched_inv_kill [OF assms(1-3)] obtain s1 where s1: "kill_and_switch_tf s = Inr (SavedTf, s1)" "sched_inv s1" by blast
  have w1: "wait_queue s1 = us @ q # vs @ [z]"
    using s1(1) assms(2,4) wq by (auto simp: kill_and_switch_tf_def kill_current_def Let_def z_def split: option.splits)
  have b: "sched_base s1" using s1(2) by (simp add: sched_inv_def)
  have zf: "pid z = pid c" "pgid z = pgid c" "pstate z = Zombie" "wait_status_word z = wait_status_word c" "parent_pid z = Some (pid q)"
    using assms(5) by (simp_all add: z_def wait_status_word_def split: option.split)
  obtain q' where n: "notify_child_death (pid c) (Some (pid q)) s1 = push_run q' (s1\<lparr>wait_queue := us @ vs @ [z]\<rparr>)"
    and q': "q' = (report_child (pid c) (wait_status_word c) (queue_signal SIGCHLD q))\<lparr>pstate := Ready\<rparr>"
    using notify_child_death_wakes [OF b w1 assms(7)] assms(8) by (simp add: zf)
  have qi: "queue_index q' = queue_index q" by (simp add: q' report_child_def queue_index_def queue_signal_def)
  have "wait_queue s1 = (us @ q # vs) @ z # []" by (simp add: w1)
  from waiting_unique(1) [OF b this] have uz: "pid pr \<noteq> pid z" if "pr \<in> set (us @ vs)" for pr using that by auto
  have "sys_waitpid (int (pid c)) 0 opts s2 = Inr (Ret (int (pid c)), s2\<lparr>wait_queue := us @ vs\<rparr>)"
    if "current_pid s2 = Some (pid q)" "wait_queue s2 = us @ vs @ [z]" for s2 :: "'a sched_scheme" and opts
    using waitpid_zombie [of s2 "us @ vs" z "[]" opts] that uz assms(3) by (simp add: zf)
  moreover have "wait_queue (notify_child_death (pid c) (Some (pid q)) s1) = us @ vs @ [z]"
    "last (run_queues (notify_child_death (pid c) (Some (pid q)) s1) (queue_index q)) = q'"
    by (simp_all add: n) (simp add: push_run_def qi)
  moreover have "pid q' = pid q" "pstate q' = Ready" "rax (tframe q') = of_nat (pid c)" "pending_wait_status q' = Some (wait_status_word c)"
    by (simp_all add: q' report_child_def)
  ultimately show ?thesis using s1(1) by auto
qed

text \<open>A process 2 whose child 1 is running, blocked in \<^verbatim>\<open>waitpid\<close> for any child.\<close>

definition waiting_parent :: process where
  "waiting_parent = other_proc\<lparr>pstate := Blocked, waiting_for := Some AnyChild\<rparr>"

definition sample_wait :: sched where
  "sample_wait = sample_sched\<lparr>run_queues := (\<lambda>_. [])(0 := [idle_proc]), wait_queue := [waiting_parent],
     running := Some (shell_proc\<lparr>parent_pid := Some 2\<rparr>)\<rparr>"

lemma sample_wait_inv: "sched_inv sample_wait"
proof -
  let ?c = "shell_proc\<lparr>parent_pid := Some 2\<rparr>"
  have f: "run_queues sample_wait = (\<lambda>_. [])(0 := [idle_proc])" "wait_queue sample_wait = [waiting_parent]" "running sample_wait = Some ?c"
    "next_pid sample_wait = 3"
    by (simp_all add: sample_wait_def sample_sched_def)
  have q: "queued (run_queues sample_wait) = {#idle_proc#}" by (simp add: f queued_def NUM_PRIORITIES_def fun_upd_def if_distrib [of mset] sum.delta cong: if_cong)
  have P: "procs sample_wait = {#?c, idle_proc, waiting_parent#}" by (simp add: procs_def q f(2,3))
  have "rq_ok (run_queues sample_wait)" by (auto simp: rq_ok_def f sample_fields)
  moreover have "uniq_pids (procs sample_wait)" by (simp add: P uniq_pids_def sample_fields waiting_parent_def)
  moreover have "idle_ready sample_wait" unfolding idle_ready_def by (intro exI [of _ idle_proc]) (simp add: q sample_fields)
  moreover have "loaded ?c sample_wait" by (simp add: loaded_def sample_fields) (simp add: sample_wait_def sample_sched_def)
  ultimately show ?thesis
    by (simp add: sched_inv_def sched_base_def P proc_ok_def sample_fields f wq_ok_def waiting_parent_def)
qed

theorem child_death_reported_twice_witness:
  "sched_inv sample_wait \<and> (\<exists>s1. kill_and_switch_tf sample_wait = Inr (SavedTf, s1) \<and>
     (\<forall>s2 :: sched. current_pid s2 = Some 2 \<and> wait_queue s2 = wait_queue (notify_child_death 1 (Some 2) s1) \<longrightarrow>
       (\<exists>s3. sys_waitpid 1 0 0 s2 = Inr (Ret 1, s3))))"
proof -
  let ?c = "shell_proc\<lparr>parent_pid := Some 2\<rparr>"
  have "running sample_wait = Some ?c" "waiting_parent \<in> set (wait_queue sample_wait)" by (simp_all add: sample_wait_def)
  moreover have "\<not> is_thread ?c" "waits_for waiting_parent (pid ?c) (pgid ?c)"
    by (simp_all add: sample_procs waits_for_def waiting_parent_def)
  moreover have "pid ?c = 1" "pid waiting_parent = 2" "pstate waiting_parent = Blocked" by (simp_all add: sample_fields waiting_parent_def)
  ultimately show ?thesis
    using child_death_reported_twice [OF sample_wait_inv, of ?c waiting_parent] sample_wait_inv by auto
qed

text \<open>The waiters a \<^verbatim>\<open>FUTEX_WAKE\<close> of \<open>pr\<close> is to wake, the lowest pids first.\<close>

definition futex_due :: "nat \<Rightarrow> i32 \<Rightarrow> process \<Rightarrow> (nat \<Rightarrow> futex_waiter option) \<Rightarrow> nat list" where
  "futex_due uaddr val pr w = take (min 8 (if sint val \<le> 0 then 2 ^ 31 - 1 else nat (sint val)))
     (filter (futex_matches w uaddr (as_root (address_space pr))) [0 ..< MAX_PROCS])"

text \<open>
  C21. \<^verbatim>\<open>FUTEX_WAKE\<close> wakes exactly the first waiters, in pid order, that are registered on the address in
  the caller's address space, at most the number asked for and at most eight: it returns their number,
  clears their registrations and no other, and of the processes in the wait queue exactly those of them
  that are blocked become ready, with 0 as their result.
\<close>
theorem futex_wake_correct:
  assumes "sched_inv s" and "running s = Some pr"
  shows "let W = futex_due uaddr val pr (futex_waiters s) in \<exists>s'. futex_wake uaddr val s = Inr (Ret (int (length W)), s') \<and> sched_inv s' \<and>
    (\<forall>p. futex_waiters s' p = (if p \<in> set W then None else futex_waiters s p)) \<and>
    (\<forall>x \<in> set (wait_queue s). (x \<in> set (wait_queue s') \<longleftrightarrow> \<not> (pid x \<in> set W \<and> pstate x = Blocked)) \<and>
       (pid x \<in> set W \<and> pstate x = Blocked \<longrightarrow>
          x\<lparr>tframe := (tframe x)\<lparr>rax := 0\<rparr>, pstate := Ready\<rparr> \<in> set (run_queues s' (queue_index x))))"
proof -
  define W where "W = futex_due uaddr val pr (futex_waiters s)"
  define w' where "w' = (\<lambda>p. if p \<in> set W then None else futex_waiters s p)"
  define s1 where "s1 = s\<lparr>futex_waiters := w'\<rparr>"
  define s2 where "s2 = fold (\<lambda>p. wake_with_retval p 0) W s1"
  have "futex_wake uaddr val s = Inr (Ret (int (length W)), s2)"
    unfolding futex_wake_def assms(2) option.case Let_def futex_scan_eq [OF distinct_upt]
    by (simp add: s2_def s1_def w'_def W_def futex_due_def)
  moreover have "sched_inv s2" unfolding s2_def by (rule fold_inv) (simp_all add: s1_def assms(1))
  moreover have "futex_waiters (fold (\<lambda>p. wake_with_retval p 0) ps t) = futex_waiters t" for ps and t :: "'a sched_scheme"
    by (induction ps arbitrary: t) (simp_all add: wake_with_retval_def push_run_def split: option.split)
  then have "futex_waiters s2 = w'" by (simp add: s2_def s1_def)
  moreover have "distinct (map pid (iter_all s))" using assms(1) by (intro distinct_pids) (simp add: sched_inv_def sched_base_def)
  then have "distinct (map pid (wait_queue s1))" by (simp add: iter_all_def s1_def)
  from fold_wake_in [OF this, of _ 0 W]
  have "\<forall>x \<in> set (wait_queue s). (x \<in> set (wait_queue s2) \<longleftrightarrow> \<not> (pid x \<in> set W \<and> pstate x = Blocked)) \<and>
       (pid x \<in> set W \<and> pstate x = Blocked \<longrightarrow>
          x\<lparr>tframe := (tframe x)\<lparr>rax := 0\<rparr>, pstate := Ready\<rparr> \<in> set (run_queues s2 (queue_index x)))"
    unfolding s2_def by (simp add: s1_def)
  ultimately show ?thesis unfolding Let_def W_def [symmetric] by (intro exI [of _ s2]) (simp add: w'_def)
qed

definition sample_futex :: sched where
  "sample_futex = sample_wait\<lparr>futex_waiters := (\<lambda>_. None)(2 := Some \<lparr>fw_uaddr = 0x1000, fw_as_id = 1\<rparr>)\<rparr>"

theorem futex_wake_correct_witness:
  "sched_inv sample_futex \<and> (\<exists>s'. futex_wake 0x1000 1 sample_futex = Inr (Ret 1, s') \<and> futex_waiters s' 2 = None)"
proof -
  let ?c = "shell_proc\<lparr>parent_pid := Some 2\<rparr>"
  have i: "sched_inv sample_futex" by (simp add: sample_futex_def sample_wait_inv)
  have r: "running sample_futex = Some ?c" by (simp add: sample_futex_def sample_wait_def)
  have [simp]: "as_root (address_space ?c) = 1" by (simp add: sample_procs)
  have "filter (futex_matches (futex_waiters sample_futex) 0x1000 1) [0 ..< MAX_PROCS] = filter (\<lambda>p. p = 2) [0 ..< 32]"
    unfolding MAX_PROCS_def by (rule filter_cong) (simp_all add: sample_futex_def futex_matches_def)
  also have "\<dots> = [2]" by code_simp
  finally have "futex_due 0x1000 1 ?c (futex_waiters sample_futex) = [2]" by (simp add: futex_due_def sample_fields)
  with futex_wake_correct [OF i r, of "0x1000" 1] show ?thesis using i by (auto simp: Let_def)
qed

text \<open>
  A process whose pid is at least \<^verbatim>\<open>MAX_PROCS\<close> blocks in \<^verbatim>\<open>FUTEX_WAIT\<close> without being registered, and
  no \<^verbatim>\<open>FUTEX_WAKE\<close>, on any address and by any process, takes such a process out of the wait queue.
\<close>
theorem futex_high_pid_never_woken:
  assumes "running s = Some pr" and "MAX_PROCS \<le> pid pr" and "validate_user_buffer uaddr 4 = None"
    and "aread 4 uaddr 4 s = Inr bs" and "of_nat (le_val bs) = val"
  shows "sys_futex uaddr 0 val s = bindR (block_current LiveTf (set_rax 0 s)) (\<lambda>(tf, s). jump_to_user tf s) \<and>
    (\<forall>(t :: 'a sched_scheme) x a v r t'. distinct (map pid (wait_queue t)) \<and> x \<in> set (wait_queue t) \<and> MAX_PROCS \<le> pid x \<and>
       sys_futex a 1 v t = Inr (r, t') \<longrightarrow> x \<in> set (wait_queue t'))"
proof (intro conjI allI impI)
  show "sys_futex uaddr 0 val s = bindR (block_current LiveTf (set_rax 0 s)) (\<lambda>(tf, s). jump_to_user tf s)"
    using assms by (simp add: sys_futex_def futex_wait_def)
next
  fix t :: "'a sched_scheme" and x a v r t'
  assume h: "distinct (map pid (wait_queue t)) \<and> x \<in> set (wait_queue t) \<and> MAX_PROCS \<le> pid x \<and> sys_futex a 1 v t = Inr (r, t')"
  then have "futex_wake a v t = Inr (r, t')" by (simp add: sys_futex_def FUTEX_PRIVATE_FLAG_def)
  show "x \<in> set (wait_queue t')"
  proof (cases "running t")
    case None
    with h \<open>futex_wake a v t = _\<close> show ?thesis by (simp add: futex_wake_def)
  next
    case (Some p)
    define mw where "mw = (if sint v \<le> 0 then 2 ^ 31 - 1 else nat (sint v))"
    obtain woken w where sc: "futex_scan [0 ..< MAX_PROCS] a (as_root (address_space p)) mw [] (futex_waiters t) = (woken, w)"
      by (metis prod.exhaust)
    have "t' = fold (\<lambda>p. wake_with_retval p 0) woken (t\<lparr>futex_waiters := w\<rparr>)"
      using \<open>futex_wake a v t = _\<close> by (simp only: futex_wake_def Some option.case Let_def mw_def [symmetric] sc prod.case) simp
    moreover have "pid x \<notin> set woken" using futex_scan_pids [OF sc] h by auto
    ultimately show ?thesis using fold_wake_in [of "t\<lparr>futex_waiters := w\<rparr>" x 0 woken] h by simp
  qed
qed

theorem futex_high_pid_never_woken_witness:
  "sys_futex 0x1000 0 0 (sample_sched\<lparr>running := Some (shell_proc\<lparr>pid := 40\<rparr>)\<rparr>) =
     bindR (block_current LiveTf (set_rax 0 (sample_sched\<lparr>running := Some (shell_proc\<lparr>pid := 40\<rparr>)\<rparr>))) (\<lambda>(tf, s). jump_to_user tf s)"
proof -
  let ?s = "sample_sched\<lparr>running := Some (shell_proc\<lparr>pid := 40\<rparr>)\<rparr>"
  have "aread 4 0x1000 4 ?s = Inr [0, 0, 0, 0]"
    by (simp add: aread_def vread_def mapped_range_iff sample_sched_def peek_def upt_rec)
  moreover have "validate_user_buffer 0x1000 4 = None" by (simp add: validate_user_buffer_def USER_SPACE_MAX_def)
  ultimately show ?thesis
    by (intro conjunct1 [OF futex_high_pid_never_woken [of ?s "shell_proc\<lparr>pid := 40\<rparr>" "0x1000" "[0, 0, 0, 0]" 0]])
      (simp_all add: MAX_PROCS_def)
qed

section \<open>Signal masks and frames\<close>

lemma running_vwrite: "vwrite a bs s = Inr s' \<Longrightarrow> running s' = running (s :: 'a sched_scheme)"
  by (auto simp: vwrite_Inr)

lemma running_awrite: "awrite al a bs s = Inr s' \<Longrightarrow> running s' = running (s :: 'a sched_scheme)"
  by (auto simp: awrite_def bindR_eq_Inr dest: running_vwrite)

lemma masked_SIGKILL: "\<not> bit (w AND NOT (sig_bit SIGKILL)) SIGKILL"
  by (simp add: sig_bit_def SIGKILL_def bit_simps)

text \<open>
  C22. \<^verbatim>\<open>sigprocmask\<close> never adds \<^verbatim>\<open>SIGKILL\<close> to the mask of the caller. But \<^verbatim>\<open>rt_sigreturn\<close> installs whatever the
  bytes at the stack pointer encode: for every mask and every register frame, a process that writes
  them there and makes the call gets exactly these, a mask that blocks \<^verbatim>\<open>SIGKILL\<close> and the code segment
  of the kernel included.
\<close>
theorem sigreturn_trusts_user_frame:
  assumes "running s = Some pr"
  shows "(\<not> bit (blocked_signals pr) SIGKILL \<and> sys_sigprocmask how set_ptr old s = Inr (r, s') \<longrightarrow>
      (\<exists>pr'. running s' = Some pr' \<and> \<not> bit (blocked_signals pr') SIGKILL)) \<and>
    (unat (rsp (live_tf s)) mod 8 = 0 \<and> mapped_range s (unat (rsp (live_tf s))) 168 \<and>
      peek (vmem s (cr3 s)) (unat (rsp (live_tf s))) 168 = signal_frame_bytes msk tf \<longrightarrow>
      sys_sigreturn s = Inr (Ret (sint (rax tf)), s\<lparr>running := Some (pr\<lparr>blocked_signals := msk\<rparr>), live_tf := tf\<rparr>))"
proof (intro conjI impI)
  assume h: "\<not> bit (blocked_signals pr) SIGKILL \<and> sys_sigprocmask how set_ptr old s = Inr (r, s')"
  have m: "\<not> bit (blocked_signals pr OR st) SIGKILL" "\<not> bit (blocked_signals pr AND NOT st) SIGKILL" if "\<not> bit st SIGKILL" for st
    using h that by (simp_all add: bit_or_iff bit_and_iff)
  let ?Q = "\<lambda>s. \<exists>pr'. running s = Some pr' \<and> \<not> bit (blocked_signals pr') SIGKILL"
  have w: "okR (\<lambda>(r, s). ?Q s) (bindR (if c then awrite 8 old bs t else Inr t) (\<lambda>s. Inr (Ret 0, s)))" if "?Q t" for c bs and t :: "'a sched_scheme"
    using that by (auto intro!: okRI dest: running_awrite simp: bindR_eq_Inr split: if_splits)
  define new where "new = (if set_ptr \<noteq> 0 then bindR (aread 8 set_ptr 8 s) (\<lambda>bs. let st = bytes_word bs AND NOT (sig_bit SIGKILL) in
     Inr (if how = 0 then Some (blocked_signals pr OR st) else if how = 1 then Some (blocked_signals pr AND NOT st)
          else if how = 2 then Some st else None)) else Inr (Some (blocked_signals pr)))"
  have n: "okR (\<lambda>x. \<forall>k. x = Some k \<longrightarrow> \<not> bit k SIGKILL) new"
    using h by (auto simp: new_def Let_def m masked_SIGKILL simp del: bit.de_Morgan_conj intro!: okRI)
  have k: "okR (\<lambda>(r, s). ?Q s) (bindR new (\<lambda>new. case new of None \<Rightarrow> Inr (Ret EINVAL, s)
      | Some msk \<Rightarrow> bindR (if old \<noteq> 0 then awrite 8 old (word_bytes (blocked_signals pr)) (s\<lparr>running := Some (pr\<lparr>blocked_signals := msk\<rparr>)\<rparr>)
          else Inr (s\<lparr>running := Some (pr\<lparr>blocked_signals := msk\<rparr>)\<rparr>)) (\<lambda>s. Inr (Ret 0, s))))"
    unfolding okR_simps(3) [of _ new]
  proof (rule okR_mono [OF n])
    fix x :: "u64 option" assume "\<forall>k. x = Some k \<longrightarrow> \<not> bit k SIGKILL"
    then show "okR (\<lambda>(r, s). ?Q s) (case x of None \<Rightarrow> Inr (Ret EINVAL, s)
      | Some msk \<Rightarrow> bindR (if old \<noteq> 0 then awrite 8 old (word_bytes (blocked_signals pr)) (s\<lparr>running := Some (pr\<lparr>blocked_signals := msk\<rparr>)\<rparr>)
          else Inr (s\<lparr>running := Some (pr\<lparr>blocked_signals := msk\<rparr>)\<rparr>)) (\<lambda>s. Inr (Ret 0, s)))"
      using h assms by (cases x) (simp, simp only: option.case, rule w, simp)
  qed
  have e: "okR (\<lambda>(r, s). ?Q s) (Inr (Ret e, s))" for e using h assms by simp
  have "okR (\<lambda>(r, s). ?Q s) (sys_sigprocmask how set_ptr old s)"
    unfolding sys_sigprocmask_def with_current_process_def assms option.case
    using k [unfolded new_def] e by (cases "opt_validate set_ptr 8"; cases "opt_validate old 8") (simp_all only: option.case Let_def)
  with h show "\<exists>pr'. running s' = Some pr' \<and> \<not> bit (blocked_signals pr') SIGKILL" by (auto dest: okRD)
next
  assume "unat (rsp (live_tf s)) mod 8 = 0 \<and> mapped_range s (unat (rsp (live_tf s))) 168 \<and>
      peek (vmem s (cr3 s)) (unat (rsp (live_tf s))) 168 = signal_frame_bytes msk tf"
  then show "sys_sigreturn s = Inr (Ret (sint (rax tf)), s\<lparr>running := Some (pr\<lparr>blocked_signals := msk\<rparr>), live_tf := tf\<rparr>)"
    using assms by (simp add: sys_sigreturn_def with_current_process_def pop_signal_frame_def aread_def vread_def FRAME_SIZE_def chunks8_signal_frame)
qed

text \<open>A process with a frame on its stack that blocks \<^verbatim>\<open>SIGKILL\<close> and selects the kernel's code segment.\<close>

definition forged_frame :: trapframe where
  "forged_frame = tf_zero\<lparr>rip := 0x401000, cs := 0x8, rflags := 0x200\<rparr>"

definition forging_sched :: sched where
  "forging_sched = sample_sched\<lparr>live_tf := (live_tf sample_sched)\<lparr>rsp := 0x2000\<rparr>,
     vmem := (vmem sample_sched)(1 := poke (vmem sample_sched 1) 0x2000 (signal_frame_bytes (sig_bit SIGKILL) forged_frame))\<rparr>"

theorem sigreturn_trusts_user_frame_witness:
  "sys_sigreturn forging_sched = Inr (Ret 0,
     forging_sched\<lparr>running := Some (shell_proc\<lparr>blocked_signals := sig_bit SIGKILL\<rparr>), live_tf := forged_frame\<rparr>) \<and>
   cs forged_frame = 0x8 \<and> bit (sig_bit SIGKILL) SIGKILL"
proof -
  have f: "running forging_sched = Some shell_proc" "rsp (live_tf forging_sched) = 0x2000" "cr3 forging_sched = 1"
    "vmem forging_sched 1 = poke (vmem sample_sched 1) 0x2000 (signal_frame_bytes (sig_bit SIGKILL) forged_frame)"
    "mapped_range forging_sched 0x2000 168"
    by (simp_all add: forging_sched_def sample_sched_def mapped_range_iff)
  have "peek (poke m 0x2000 (signal_frame_bytes k t)) 0x2000 168 = signal_frame_bytes k t" for m k t
    using peek_poke [of m "0x2000" "signal_frame_bytes k t"] by simp
  with f show ?thesis
    using sigreturn_trusts_user_frame [OF f(1), of _ _ _ _ _ "sig_bit SIGKILL" forged_frame]
    by (simp add: forged_frame_def tf_zero_def sig_bit_def SIGKILL_def bit_simps)
qed

section \<open>Fork\<close>

text \<open>
  A \<^verbatim>\<open>fork\<close> right after \<^verbatim>\<open>arch_prctl(ARCH_SET_FS)\<close> gives the child a fresh pid, the caller's registers with
  result 0, the caller's memory, its live FPU registers and its process group, and queues it as ready;
  but its thread pointer is the value saved for the caller at its last context switch and not the one
  the caller has just set.
\<close>
theorem fork_inherits_stale_fs_base:
  assumes "running s = Some pr"
  shows "\<exists>s1 s2 child. sys_arch_prctl 0x1002 tls s = Inr (Ret 0, s1) \<and> fs_base_msr s1 = tls \<and>
    sys_fork (Some asp) kstack s1 = Inr (Ret (int (next_pid s)), s2) \<and>
    last (run_queues s2 (queue_index child)) = child \<and> pid child = next_pid s \<and> pstate child = Ready \<and>
    parent_pid child = Some (pid pr) \<and> pgid child = pgid pr \<and> address_space child = asp \<and>
    tframe child = (live_tf s)\<lparr>rax := 0\<rparr> \<and> fpu child = fpu_regs s \<and>
    vmem s2 (as_root asp) = vmem s (as_root (address_space pr)) \<and> running s2 = Some pr \<and>
    fs_base child = fs_base pr"
proof -
  define child where "child = (new_user_from_fork (next_pid s) (pid pr) ((live_tf s)\<lparr>rax := 0\<rparr>) kstack asp (pgid pr) (fpu_regs s))
    \<lparr>fs_base := fs_base pr, effective_priority := priority (new_user_from_fork (next_pid s) (pid pr) ((live_tf s)\<lparr>rax := 0\<rparr>) kstack asp (pgid pr) (fpu_regs s))\<rparr>"
  have "pid child = next_pid s \<and> pstate child = Ready \<and> parent_pid child = Some (pid pr) \<and> pgid child = pgid pr \<and> address_space child = asp \<and>
    tframe child = (live_tf s)\<lparr>rax := 0\<rparr> \<and> fpu child = fpu_regs s \<and> fs_base child = fs_base pr"
    by (simp add: child_def new_user_from_fork_def process_init_def)
  note f = this
  define s0 where "s0 = s\<lparr>fs_base_msr := tls, vmem := (vmem s)(as_root asp := vmem s (as_root (address_space pr))),
     vmapped := (vmapped s)(as_root asp := vmapped s (as_root (address_space pr))), next_pid := next_pid s + 1\<rparr>"
  have "sys_fork (Some asp) kstack (write_fs_base tls s) = Inr (Ret (int (next_pid s)), push_run child s0)"
    by (simp add: machine_ops sys_fork_def assms Let_def allocate_pid_def add_process_def child_def s0_def)
  moreover have "last (run_queues (push_run child s0) (queue_index child)) = child" by (simp add: push_run_def)
  moreover have "vmem (push_run child s0) (as_root asp) = vmem s (as_root (address_space pr)) \<and> running (push_run child s0) = Some pr"
    by (simp add: push_run_def s0_def assms)
  moreover have "sys_arch_prctl 0x1002 tls s = Inr (Ret 0, write_fs_base tls s)" "fs_base_msr (write_fs_base tls s) = tls"
    by (simp_all add: sys_arch_prctl_def machine_ops)
  ultimately show ?thesis using f by blast
qed

theorem fork_inherits_stale_fs_base_witness:
  "\<exists>s1 s2 child. sys_arch_prctl 0x1002 0x7000 sample_sched = Inr (Ret 0, s1) \<and> fs_base_msr s1 = 0x7000 \<and>
     sys_fork (Some \<lparr>as_ptr = 5, as_root = 5\<rparr>) 0x8000 s1 = Inr (Ret 3, s2) \<and>
     last (run_queues s2 (queue_index child)) = child \<and> pid child = 3 \<and> fs_base child = 0"
proof -
  have "running sample_sched = Some shell_proc" "next_pid sample_sched = 3" "fs_base shell_proc = 0"
    by (simp_all add: sample_sched_def sample_procs)
  then show ?thesis using fork_inherits_stale_fs_base [of sample_sched shell_proc "0x7000" "\<lparr>as_ptr = 5, as_root = 5\<rparr>" "0x8000"] by auto
qed

end
