(* ===== verification/Pipe.thy ===== *)
theory Pipe
  imports File_Types Ring Sys_Props
begin

text \<open>
  Pipes (\<^verbatim>\<open>process/pipe.rs\<close>): a ring of 4096 bytes with at most one blocked reader and one blocked writer.
  A blocked peer is served by whoever runs: its bytes are copied through its own page tables and its
  result is stored in its saved registers. Which pages of a process those tables map (after
  \<^verbatim>\<open>ensure_user_pages_mapped\<close>) is the argument \<open>tr\<close>.
\<close>

section \<open>The buffer\<close>

definition PIPE_CAPACITY :: nat where "PIPE_CAPACITY = 4096"

record pipe_waiter =
  pw_pid :: nat
  pw_buf :: nat
  pw_count :: nat

record pipe =
  pdata :: "nat \<Rightarrow> u8"
  phead :: nat
  plen :: nat
  readers :: nat
  writers :: nat
  read_waiter :: "pipe_waiter option"
  write_waiter :: "pipe_waiter option"

definition pipe_new :: pipe where
  "pipe_new = \<lparr>pdata = (\<lambda>_. 0), phead = 0, plen = 0, readers = 1, writers = 1, read_waiter = None, write_waiter = None\<rparr>"

definition try_read :: "nat \<Rightarrow> pipe \<Rightarrow> u8 list \<times> pipe" where
  "try_read buf_len p =
     (let n = min buf_len (plen p);
          bs = map (\<lambda>i. pdata p ((phead p + i) mod PIPE_CAPACITY)) [0 ..< n]
      in (bs, p\<lparr>phead := (phead p + n) mod PIPE_CAPACITY, plen := plen p - n\<rparr>))"

definition try_write :: "u8 list \<Rightarrow> pipe \<Rightarrow> nat \<times> pipe" where
  "try_write buf p =
     (let space = PIPE_CAPACITY - plen p;
          n = min (length buf) space;
          tail = (phead p + plen p) mod PIPE_CAPACITY
      in (n, p\<lparr>pdata := ring_fill PIPE_CAPACITY tail (take n buf) (pdata p), plen := plen p + n\<rparr>))"

section \<open>Blocked peers\<close>

text \<open>Both copies go page by page and stop at the first page that is not mapped.\<close>

function copy_to_user :: "(nat \<Rightarrow> bool) \<Rightarrow> nat \<Rightarrow> u8 list \<Rightarrow> nat \<Rightarrow> bytes \<Rightarrow> nat \<times> bytes" where
  "copy_to_user tr user_addr src dn m =
     (if dn < length src \<and> tr ((user_addr + dn) div 0x1000)
      then let chunk = min (length src - dn) (0x1000 - (user_addr + dn) mod 0x1000)
           in copy_to_user tr user_addr src (dn + chunk) (poke m (user_addr + dn) (take chunk (drop dn src)))
      else (dn, m))"
  by pat_completeness auto
termination by (relation "measure (\<lambda>(tr, a, src, dn, m). length src - dn)") auto

function copy_from_user :: "(nat \<Rightarrow> bool) \<Rightarrow> nat \<Rightarrow> nat \<Rightarrow> nat \<Rightarrow> bytes \<Rightarrow> u8 list" where
  "copy_from_user tr user_addr n dn m =
     (if dn < n \<and> tr ((user_addr + dn) div 0x1000)
      then let chunk = min (n - dn) (0x1000 - (user_addr + dn) mod 0x1000)
           in peek m (user_addr + dn) chunk @ copy_from_user tr user_addr n (dn + chunk) m
      else [])"
  by pat_completeness auto
termination by (relation "measure (\<lambda>(tr, a, n, dn, m). n - dn)") auto

declare copy_to_user.simps [simp del] copy_from_user.simps [simp del]

definition is_blocked :: "nat \<Rightarrow> process \<Rightarrow> bool" where
  "is_blocked p pr \<longleftrightarrow> pid pr = p \<and> pstate pr = Blocked"

definition set_waiting_rax :: "nat \<Rightarrow> u64 \<Rightarrow> 'a sched_scheme \<Rightarrow> 'a sched_scheme" where
  "set_waiting_rax p v s =
     (case upd_first (is_blocked p) (\<lambda>pr. pr\<lparr>tframe := (tframe pr)\<lparr>rax := v\<rparr>\<rparr>) (wait_queue s) of
        Some w \<Rightarrow> s\<lparr>wait_queue := w\<rparr> | None \<Rightarrow> s)"

definition deliver_and_wake :: "nat \<Rightarrow> (process \<Rightarrow> 'a sched_scheme \<Rightarrow> u64 \<times> 'a sched_scheme) \<Rightarrow> 'a sched_scheme \<Rightarrow> 'a sched_scheme" where
  "deliver_and_wake p f s =
     wake p (case find (is_blocked p) (wait_queue s) of
               Some pr \<Rightarrow> (case f pr s of (v, s) \<Rightarrow> set_waiting_rax p v s)
             | None \<Rightarrow> s)"

definition wake_reader :: "(process \<Rightarrow> nat \<Rightarrow> bool) \<Rightarrow> pipe_waiter \<Rightarrow> u8 list \<Rightarrow> 'a sched_scheme \<Rightarrow> 'a sched_scheme" where
  "wake_reader tr w bs s =
     (let n = min (length bs) (pw_count w) in
      deliver_and_wake (pw_pid w) (\<lambda>pr s.
        let r = as_root (address_space pr) in
        case copy_to_user (tr pr) (pw_buf w) (take n bs) 0 (vmem s r) of
          (k, m) \<Rightarrow> (of_nat k, s\<lparr>vmem := (vmem s)(r := m)\<rparr>)) s)"

definition collect_from_writer :: "(process \<Rightarrow> nat \<Rightarrow> bool) \<Rightarrow> pipe_waiter \<Rightarrow> nat \<Rightarrow> 'a sched_scheme \<Rightarrow> u8 list \<times> 'a sched_scheme" where
  "collect_from_writer tr w dst_len s =
     (let want = min dst_len (pw_count w) in
      case find (is_blocked (pw_pid w)) (wait_queue s) of
        Some pr \<Rightarrow>
          let got = copy_from_user (tr pr) (pw_buf w) want 0 (vmem s (as_root (address_space pr)))
          in (got, wake (pw_pid w) (set_waiting_rax (pw_pid w) (of_nat (length got)) s))
      | None \<Rightarrow> ([], wake (pw_pid w) s))"

definition wake_writer_error :: "pipe_waiter \<Rightarrow> int \<Rightarrow> 'a sched_scheme \<Rightarrow> 'a sched_scheme" where
  "wake_writer_error w e = deliver_and_wake (pw_pid w) (\<lambda>_ s. (of_int e, s))"

section \<open>The two ends\<close>

datatype file_result = FOk nat | FErr file_error

text \<open>The buffer of a call is a slice of the memory of the running process.\<close>

definition pipe_read ::
  "(process \<Rightarrow> nat \<Rightarrow> bool) \<Rightarrow> nat \<Rightarrow> nat \<Rightarrow> pipe \<Rightarrow> 'a sched_scheme \<Rightarrow> (file_result \<times> pipe \<times> 'a sched_scheme) res" where
  "pipe_read tr buf cnt p s =
     (if cnt = 0 then Inr (FOk 0, p, s)
      else if 0 < plen p then
        (case try_read cnt p of
           (bs, p) \<Rightarrow>
             bindR (vwrite buf bs s) (\<lambda>s.
             case write_waiter p of
               None \<Rightarrow> Inr (FOk (length bs), p, s)
             | Some w \<Rightarrow>
                 let p = p\<lparr>write_waiter := None\<rparr> in
                 (case collect_from_writer tr w PIPE_CAPACITY s of
                    (got, s) \<Rightarrow> Inr (FOk (length bs), if got \<noteq> [] then snd (try_write got p) else p, s))))
      else if writers p = 0 then Inr (FOk 0, p, s)
      else Inr (FErr WouldBlock, p\<lparr>read_waiter := Some \<lparr>pw_pid = pid_or_0 s, pw_buf = buf, pw_count = cnt\<rparr>\<rparr>, s))"

text \<open>Only the bytes that fit are read from the buffer.\<close>

definition pipe_write ::
  "(process \<Rightarrow> nat \<Rightarrow> bool) \<Rightarrow> nat \<Rightarrow> nat \<Rightarrow> pipe \<Rightarrow> 'a sched_scheme \<Rightarrow> (file_result \<times> pipe \<times> 'a sched_scheme) res" where
  "pipe_write tr buf cnt p s =
     (if cnt = 0 then Inr (FOk 0, p, s)
      else if readers p = 0 then Inr (FErr BrokenPipe, p, s)
      else bindR (vread buf (min cnt (PIPE_CAPACITY - plen p)) s) (\<lambda>bs.
        case try_write bs p of
          (n, p) \<Rightarrow>
            if 0 < n then
              (case read_waiter p of
                 None \<Rightarrow> Inr (FOk n, p, s)
               | Some w \<Rightarrow>
                   (case try_read PIPE_CAPACITY (p\<lparr>read_waiter := None\<rparr>) of
                      (got, p) \<Rightarrow> Inr (FOk n, p, wake_reader tr w got s)))
            else Inr (FErr WouldBlock, p\<lparr>write_waiter := Some \<lparr>pw_pid = pid_or_0 s, pw_buf = buf, pw_count = cnt\<rparr>\<rparr>, s)))"

definition dup_read_end :: "pipe \<Rightarrow> pipe res" where
  "dup_read_end p = (if readers p + 1 < 2 ^ 32 then Inr (p\<lparr>readers := readers p + 1\<rparr>) else Inl Panic)"

definition dup_write_end :: "pipe \<Rightarrow> pipe res" where
  "dup_write_end p = (if writers p + 1 < 2 ^ 32 then Inr (p\<lparr>writers := writers p + 1\<rparr>) else Inl Panic)"

definition drop_read_end :: "pipe \<Rightarrow> 'a sched_scheme \<Rightarrow> (pipe \<times> 'a sched_scheme) res" where
  "drop_read_end p s =
     bindR (sub64 (readers p) 1) (\<lambda>n.
     let p = p\<lparr>readers := n\<rparr> in
     if n = 0 then
       Inr (p\<lparr>write_waiter := None\<rparr>, case write_waiter p of Some w \<Rightarrow> wake_writer_error w EPIPE s | None \<Rightarrow> s)
     else Inr (p, s))"

definition drop_write_end :: "(process \<Rightarrow> nat \<Rightarrow> bool) \<Rightarrow> pipe \<Rightarrow> 'a sched_scheme \<Rightarrow> (pipe \<times> 'a sched_scheme) res" where
  "drop_write_end tr p s =
     bindR (sub64 (writers p) 1) (\<lambda>n.
     let p = p\<lparr>writers := n\<rparr> in
     if n = 0 then
       Inr (p\<lparr>read_waiter := None\<rparr>, case read_waiter p of Some w \<Rightarrow> wake_reader tr w [] s | None \<Rightarrow> s)
     else Inr (p, s))"

section \<open>The ring is a stream\<close>

definition pipe_bytes :: "pipe \<Rightarrow> u8 list" where
  "pipe_bytes p = ring_list PIPE_CAPACITY (pdata p) (phead p) (plen p)"

definition pipe_ok :: "pipe \<Rightarrow> bool" where
  "pipe_ok p \<longleftrightarrow> phead p < PIPE_CAPACITY \<and> plen p \<le> PIPE_CAPACITY"

lemma length_pipe_bytes [simp]: "length (pipe_bytes p) = plen p"
  by (simp add: pipe_bytes_def)

lemma PIPE_CAPACITY_pos [simp]: "0 < PIPE_CAPACITY"
  by (simp add: PIPE_CAPACITY_def)

lemma try_write_ok:
  assumes "pipe_ok p" and "try_write xs p = (n, p')"
  shows "pipe_ok p' \<and> n = min (length xs) (PIPE_CAPACITY - plen p) \<and> pipe_bytes p' = pipe_bytes p @ take n xs"
proof -
  have n: "n = min (length xs) (PIPE_CAPACITY - plen p)"
    and p': "p' = p\<lparr>pdata := ring_fill PIPE_CAPACITY (phead p + plen p) (take n xs) (pdata p), plen := plen p + n\<rparr>"
    using assms(2) by (auto simp: try_write_def Let_def ring_fill_mod)
  have "n \<le> length xs" "plen p + n \<le> PIPE_CAPACITY" using n assms(1) by (auto simp: pipe_ok_def)
  with ring_list_fill [of "plen p" "take n xs" PIPE_CAPACITY "phead p" "pdata p"] assms(1) show ?thesis
    by (simp add: p' pipe_bytes_def pipe_ok_def) (simp add: n)
qed

lemma try_read_ok:
  assumes "pipe_ok p" and "try_read k p = (ys, p')"
  shows "pipe_ok p' \<and> ys = take k (pipe_bytes p) \<and> pipe_bytes p' = drop k (pipe_bytes p)"
proof -
  define n where "n = min k (plen p)"
  have p': "p' = p\<lparr>phead := (phead p + n) mod PIPE_CAPACITY, plen := plen p - n\<rparr>"
    and ys: "ys = map (\<lambda>i. pdata p ((phead p + i) mod PIPE_CAPACITY)) [0 ..< n]"
    using assms(2) by (auto simp: try_read_def Let_def n_def)
  have "ys = take k (pipe_bytes p)" by (rule nth_equalityI) (simp_all add: ys n_def pipe_bytes_def ring_list_def)
  moreover have "pipe_bytes p' = drop n (pipe_bytes p)" by (simp add: p' pipe_bytes_def ring_list_drop n_def)
  moreover have "drop n (pipe_bytes p) = drop k (pipe_bytes p)" by (cases "k \<le> plen p") (simp_all add: n_def)
  moreover have "pipe_ok p'" using assms(1) by (auto simp: p' pipe_ok_def)
  ultimately show ?thesis by simp
qed

interpretation pipe_stream: stream_buffer pipe_bytes pipe_ok PIPE_CAPACITY try_write try_read
proof unfold_locales
  fix p xs n p' assume "pipe_ok p" "try_write xs p = (n, p')"
  from try_write_ok [OF this] show "pipe_ok p' \<and> n = min (length xs) (PIPE_CAPACITY - length (pipe_bytes p)) \<and> pipe_bytes p' = pipe_bytes p @ take n xs"
    by simp
next
  fix p k ys p' assume "pipe_ok p" "try_read k p = (ys, p')"
  then show "pipe_ok p' \<and> ys = take k (pipe_bytes p) \<and> pipe_bytes p' = drop k (pipe_bytes p)" by (rule try_read_ok)
qed (simp add: pipe_ok_def)

section \<open>Copies and wake-ups\<close>

lemma poke_poke_append: "poke (poke m a xs) (a + length xs) ys = poke m a (xs @ ys)"
  by (rule ext) (auto simp: poke_def nth_append)

lemma copy_to_user_eq:
  "dn \<le> length src \<Longrightarrow> copy_to_user tr a src dn m = (k, m') \<Longrightarrow>
   dn \<le> k \<and> k \<le> length src \<and> m' = poke m (a + dn) (take (k - dn) (drop dn src))"
proof (induction tr a src dn m rule: copy_to_user.induct)
  case (1 tr a src dn m)
  show ?case
  proof (cases "dn < length src \<and> tr ((a + dn) div 0x1000)")
    case True
    define chunk where "chunk = min (length src - dn) (0x1000 - (a + dn) mod 0x1000)"
    have c: "dn + chunk \<le> length src" using True by (auto simp: chunk_def)
    have "copy_to_user tr a src (dn + chunk) (poke m (a + dn) (take chunk (drop dn src))) = (k, m')"
      using "1.prems"(2) True by (simp add: copy_to_user.simps [of tr a src dn m] Let_def chunk_def)
    from "1.IH" [OF True chunk_def c this] have
      k: "dn + chunk \<le> k" "k \<le> length src" and
      m': "m' = poke (poke m (a + dn) (take chunk (drop dn src))) (a + (dn + chunk)) (take (k - (dn + chunk)) (drop (dn + chunk) src))" by auto
    have "take (k - dn) (drop dn src) = take chunk (drop dn src) @ take (k - (dn + chunk)) (drop (dn + chunk) src)"
      using k c by (metis add.commute diff_diff_left drop_drop le_add_diff_inverse2 le_diff_conv2 take_add add_leD1 ordered_cancel_comm_monoid_diff_class.add_diff_inverse)
    with k c m' poke_poke_append [of m "a + dn" "take chunk (drop dn src)"] show ?thesis by (simp add: add.assoc)
  next
    case False
    with "1.prems" show ?thesis by (auto simp: copy_to_user.simps [of tr a src dn m])
  qed
qed

lemma copy_from_user_eq:
  "\<forall>pg. tr pg \<Longrightarrow> dn \<le> n \<Longrightarrow> copy_from_user tr a n dn m = peek m (a + dn) (n - dn)"
proof (induction tr a n dn m rule: copy_from_user.induct)
  case (1 tr a n dn m)
  show ?case
  proof (cases "dn < n")
    case True
    define chunk where "chunk = min (n - dn) (0x1000 - (a + dn) mod 0x1000)"
    have c: "dn + chunk \<le> n" using True by (auto simp: chunk_def)
    have "copy_from_user tr a n (dn + chunk) m = peek m (a + (dn + chunk)) (n - (dn + chunk))"
      by (rule "1.IH" [OF _ chunk_def "1.prems"(1) c]) (use True "1.prems"(1) in blast)
    moreover have "tr ((a + dn) div 0x1000)" using "1.prems"(1) by blast
    ultimately show ?thesis using True c peek_append [of m "a + dn" chunk "n - (dn + chunk)"]
      by (simp add: copy_from_user.simps [of tr a n dn m] Let_def chunk_def [symmetric] add.assoc)
  next
    case False
    then show ?thesis using "1.prems"(2) by (subst copy_from_user.simps) (simp add: peek_def)
  qed
qed

lemma take_first_upd_first:
  "upd_first P f xs = Some ys \<Longrightarrow> (\<And>x. P x \<Longrightarrow> P (f x)) \<Longrightarrow>
   \<exists>x rest. take_first P xs = Some (x, rest) \<and> take_first P ys = Some (f x, rest)"
  by (induction xs arbitrary: ys) (auto split: if_splits)

lemma wake_set_waiting_rax:
  assumes "find (is_blocked p) (wait_queue s) = Some pr"
  shows "wake p (set_waiting_rax p v s) = wake_with_retval p v s"
proof -
  let ?f = "\<lambda>pr. pr\<lparr>tframe := (tframe pr)\<lparr>rax := v\<rparr>\<rparr>"
  have P: "is_blocked p = (\<lambda>pr. pid pr = p \<and> pstate pr = Blocked)" by (rule ext) (simp add: is_blocked_def)
  have "\<exists>x \<in> set (wait_queue s). is_blocked p x" using assms by (metis find_Some_iff nth_mem)
  then obtain w where w: "upd_first (is_blocked p) ?f (wait_queue s) = Some w"
    by (cases "upd_first (is_blocked p) ?f (wait_queue s)") (auto simp: upd_first_None)
  from take_first_upd_first [OF this] obtain x rest where
    "take_first (is_blocked p) (wait_queue s) = Some (x, rest)" "take_first (is_blocked p) w = Some (?f x, rest)"
    by (auto simp: is_blocked_def)
  with w show ?thesis by (simp add: wake_def set_waiting_rax_def wake_with_retval_def P)
qed

section \<open>Properties\<close>


lemma pipe_new_ok: "pipe_ok pipe_new" "pipe_bytes pipe_new = []" "plen pipe_new = 0" "readers pipe_new = 1"
  "read_waiter pipe_new = None" "write_waiter pipe_new = None"
  by (simp_all add: pipe_new_def pipe_ok_def pipe_bytes_def)

lemma sample_vread: "vread a n sample_sched = Inr (replicate n 0)"
  by (simp add: vread_def mapped_range_iff peek_def map_replicate_const) (simp_all add: sample_sched_def map_replicate_const)


text \<open>
  C24. Bytes are lost when a blocked peer is served. A write to an empty pipe with a blocked reader
  reports every byte as written and leaves the pipe empty, while the reader gets at most the number it
  asked for: the rest is gone. A read from a full pipe with a blocked writer frees \<open>cnt\<close> bytes but
  takes up to 4096 from the writer, reports all of them as written, and keeps only the first \<open>cnt\<close>.
\<close>
theorem pipe_loses_bytes:
  assumes "pipe_ok p" and "0 < cnt" and "cnt \<le> PIPE_CAPACITY"
  shows "(plen p = 0 \<and> read_waiter p = Some w \<and> readers p \<noteq> 0 \<and> vread buf cnt s = Inr bs \<and>
      find (is_blocked (pw_pid w)) (wait_queue s) = Some pr \<longrightarrow>
      (\<exists>p' k. k \<le> pw_count w \<and> pipe_bytes p' = [] \<and>
        pipe_write tr buf cnt p s = Inr (FOk cnt, p', wake_with_retval (pw_pid w) (of_nat k)
          (s\<lparr>vmem := (vmem s)(as_root (address_space pr) := poke (vmem s (as_root (address_space pr))) (pw_buf w) (take k bs))\<rparr>)))) \<and>
    (plen p = PIPE_CAPACITY \<and> write_waiter p = Some w \<and> vwrite buf (take cnt (pipe_bytes p)) s = Inr s1 \<and>
      find (is_blocked (pw_pid w)) (wait_queue s1) = Some pr \<and> (\<forall>pg. tr pr pg) \<and> 0 < pw_count w \<longrightarrow>
      (\<exists>p'. pipe_read tr buf cnt p s =
          Inr (FOk cnt, p', wake_with_retval (pw_pid w) (of_nat (min PIPE_CAPACITY (pw_count w))) s1) \<and>
        pipe_bytes p' = drop cnt (pipe_bytes p) @
          take cnt (peek (vmem s1 (as_root (address_space pr))) (pw_buf w) (min PIPE_CAPACITY (pw_count w)))))"
proof (intro conjI impI)
  assume h: "plen p = 0 \<and> read_waiter p = Some w \<and> readers p \<noteq> 0 \<and> vread buf cnt s = Inr bs \<and>
      find (is_blocked (pw_pid w)) (wait_queue s) = Some pr"
  then have l: "length bs = cnt" by (auto simp: vread_def split: if_splits)
  obtain n p1 where w: "try_write bs p = (n, p1)" by (cases "try_write bs p")
  note ok1 = try_write_ok [OF assms(1) w]
  have n: "n = cnt" and b1: "pipe_bytes p1 = bs" using ok1 h l assms(3) by (simp_all add: pipe_bytes_def)
  obtain got p2 where r: "try_read PIPE_CAPACITY (p1\<lparr>read_waiter := None\<rparr>) = (got, p2)" by (cases "try_read PIPE_CAPACITY (p1\<lparr>read_waiter := None\<rparr>)")
  have "pipe_ok (p1\<lparr>read_waiter := None\<rparr>)" "pipe_bytes (p1\<lparr>read_waiter := None\<rparr>) = bs"
    using ok1 b1 by (simp_all add: pipe_ok_def pipe_bytes_def)
  from try_read_ok [OF this(1) r] this(2) have got: "got = bs" and b2: "pipe_bytes p2 = []" using l assms(3) by simp_all
  let ?r = "as_root (address_space pr)"
  obtain k m where c: "copy_to_user (tr pr) (pw_buf w) (take (min cnt (pw_count w)) bs) 0 (vmem s ?r) = (k, m)" by fastforce
  from copy_to_user_eq [OF _ c] have k: "k \<le> cnt" "k \<le> pw_count w" and m: "m = poke (vmem s ?r) (pw_buf w) (take k bs)"
    using l by (auto simp: min_def split: if_splits)
  have "wake_reader tr w bs s = wake_with_retval (pw_pid w) (of_nat k) (s\<lparr>vmem := (vmem s)(?r := m)\<rparr>)"
    using h l c wake_set_waiting_rax [of "pw_pid w" "s\<lparr>vmem := (vmem s)(?r := m)\<rparr>" pr "of_nat k"]
    by (simp add: wake_reader_def deliver_and_wake_def Let_def)
  moreover have "read_waiter p1 = Some w" using w h by (auto simp: try_write_def Let_def)
  ultimately have "pipe_write tr buf cnt p s = Inr (FOk cnt, p2, wake_with_retval (pw_pid w) (of_nat k) (s\<lparr>vmem := (vmem s)(?r := m)\<rparr>))"
    using h assms(2,3) by (simp add: pipe_write_def w n r got)
  with k b2 m show "\<exists>p' k. k \<le> pw_count w \<and> pipe_bytes p' = [] \<and> pipe_write tr buf cnt p s = Inr (FOk cnt, p', wake_with_retval (pw_pid w) (of_nat k)
          (s\<lparr>vmem := (vmem s)(?r := poke (vmem s ?r) (pw_buf w) (take k bs))\<rparr>))" by blast
next
  assume h: "plen p = PIPE_CAPACITY \<and> write_waiter p = Some w \<and> vwrite buf (take cnt (pipe_bytes p)) s = Inr s1 \<and>
      find (is_blocked (pw_pid w)) (wait_queue s1) = Some pr \<and> (\<forall>pg. tr pr pg) \<and> 0 < pw_count w"
  let ?r = "as_root (address_space pr)"
  define n where "n = min PIPE_CAPACITY (pw_count w)"
  define got where "got = peek (vmem s1 ?r) (pw_buf w) n"
  obtain ys p1 where r: "try_read cnt p = (ys, p1)" by (cases "try_read cnt p")
  note ok = try_read_ok [OF assms(1) r]
  have ys: "ys = take cnt (pipe_bytes p)" "length ys = cnt" and ww: "write_waiter p1 = Some w"
    using ok h assms(3) r by (auto simp: try_read_def Let_def)
  define p2 where "p2 = p1\<lparr>write_waiter := None\<rparr>"
  have p2: "pipe_ok p2" "pipe_bytes p2 = drop cnt (pipe_bytes p)" using ok by (simp_all add: p2_def pipe_ok_def pipe_bytes_def)
  then have "plen p2 = PIPE_CAPACITY - cnt" using h by (metis length_drop length_pipe_bytes)
  moreover obtain k p3 where w: "try_write got p2 = (k, p3)" by (cases "try_write got p2")
  ultimately have k: "pipe_bytes p3 = pipe_bytes p2 @ take k got" "k = min n cnt"
    using try_write_ok [OF p2(1) w] assms(3) by (simp_all add: got_def)
  then have "take k got = take cnt got" by (simp add: got_def min_def)
  have "collect_from_writer tr w PIPE_CAPACITY s1 = (got, wake_with_retval (pw_pid w) (of_nat n) s1)"
    using h wake_set_waiting_rax [of "pw_pid w" s1 pr "of_nat n"] copy_from_user_eq [of "tr pr" 0 n "pw_buf w" "vmem s1 ?r"]
    by (simp add: collect_from_writer_def Let_def n_def [symmetric] got_def)
  moreover have "got \<noteq> []" using h by (auto simp: got_def n_def peek_def)
  ultimately have "pipe_read tr buf cnt p s = Inr (FOk cnt, p3, wake_with_retval (pw_pid w) (of_nat n) s1)"
    using h assms(2) ww ys by (simp add: pipe_read_def r p2_def [symmetric] w)
  with k \<open>take k got = take cnt got\<close> p2 show "\<exists>p'. pipe_read tr buf cnt p s =
          Inr (FOk cnt, p', wake_with_retval (pw_pid w) (of_nat (min PIPE_CAPACITY (pw_count w))) s1) \<and>
        pipe_bytes p' = drop cnt (pipe_bytes p) @ take cnt (peek (vmem s1 ?r) (pw_buf w) (min PIPE_CAPACITY (pw_count w)))"
    unfolding n_def [symmetric] got_def [symmetric] by auto
qed

text \<open>A reader that asked for four bytes, and a write of six.\<close>

theorem pipe_loses_bytes_witness:
  "\<exists>p' s' k. k \<le> 4 \<and> pipe_write (\<lambda>_ _. True) 0x1000 6 (pipe_new\<lparr>read_waiter := Some \<lparr>pw_pid = 2, pw_buf = 0x2000, pw_count = 4\<rparr>\<rparr>) sample_wait =
     Inr (FOk 6, p', wake_with_retval 2 (of_nat k) s') \<and> pipe_bytes p' = []"
proof -
  let ?w = "\<lparr>pw_pid = 2, pw_buf = 0x2000, pw_count = 4\<rparr>"
  let ?p = "pipe_new\<lparr>read_waiter := Some ?w\<rparr>"
  have "pipe_ok ?p" "plen ?p = 0" "readers ?p \<noteq> 0" by (simp_all add: pipe_new_def pipe_ok_def)
  moreover have "vread 0x1000 6 sample_wait = Inr (peek (vmem sample_wait (cr3 sample_wait)) 0x1000 6)"
    by (simp add: vread_def mapped_range_iff) (simp add: sample_wait_def sample_sched_def)
  moreover have "find (is_blocked 2) (wait_queue sample_wait) = Some waiting_parent"
    by (simp add: sample_wait_def is_blocked_def waiting_parent_def sample_fields)
  ultimately show ?thesis
    using pipe_loses_bytes [of ?p 6 ?w "0x1000" sample_wait "peek (vmem sample_wait (cr3 sample_wait)) 0x1000 6" waiting_parent "\<lambda>_ _. True" sample_wait]
    by (auto simp: PIPE_CAPACITY_def)
qed

end
