(* ===== verification/Channel.thy ===== *)
theory Channel
  imports Ring Sys_Props
begin

text \<open>
  Message channels (\<^verbatim>\<open>ipc/channel.rs\<close>) and the socket system calls on them (\<^verbatim>\<open>syscall/ipc.rs\<close>). A channel
  queues up to sixteen messages for its owner; a connection is a pair of channels that are each other's
  peer. One process can wait in \<^verbatim>\<open>accept\<close> and one in \<^verbatim>\<open>recvmsg\<close>, each in a single global slot.
\<close>

section \<open>Messages and rings\<close>

record message =
  tag :: nat
  mlen :: nat
  mdata :: "u8 list"

definition message_empty :: message where
  "message_empty = \<lparr>tag = 0, mlen = 0, mdata = replicate 56 0\<rparr>"

definition message_new :: "nat \<Rightarrow> u8 list \<Rightarrow> message" where
  "message_new t bs = (let n = min (length bs) 56 in \<lparr>tag = t, mlen = n, mdata = take n bs @ replicate (56 - n) 0\<rparr>)"

definition message_payload :: "message \<Rightarrow> u8 list res" where
  "message_payload m = (if mlen m \<le> length (mdata m) then Inr (take (mlen m) (mdata m)) else Inl Panic)"

definition RING_CAP :: nat where "RING_CAP = 16"

record ringbuf =
  rbuf :: "nat \<Rightarrow> message"
  rhead :: nat
  rtail :: nat
  rlen :: nat

definition rb_new :: ringbuf where
  "rb_new = \<lparr>rbuf = (\<lambda>_. message_empty), rhead = 0, rtail = 0, rlen = 0\<rparr>"

definition rb_push :: "message \<Rightarrow> ringbuf \<Rightarrow> bool \<times> ringbuf" where
  "rb_push msg rb =
     (if rlen rb = RING_CAP then (False, rb)
      else (True, rb\<lparr>rbuf := (rbuf rb)(rtail rb := msg), rtail := (rtail rb + 1) mod RING_CAP, rlen := rlen rb + 1\<rparr>))"

definition rb_pop :: "ringbuf \<Rightarrow> message option \<times> ringbuf" where
  "rb_pop rb =
     (if rlen rb = 0 then (None, rb)
      else (Some (rbuf rb (rhead rb)), rb\<lparr>rhead := (rhead rb + 1) mod RING_CAP, rlen := rlen rb - 1\<rparr>))"

section \<open>Channels\<close>

datatype server_state = Listening | PendingConnect nat

record channel =
  rx :: ringbuf
  read_waiters :: "nat list"
  accept_waiters :: "nat list"
  peer :: "nat option"
  server_state :: "server_state option"
  bound_path :: "u8 list option"

definition channel_new :: channel where
  "channel_new = \<lparr>rx = rb_new, read_waiters = [], accept_waiters = [], peer = None, server_state = None, bound_path = None\<rparr>"

definition has_messages :: "channel \<Rightarrow> bool" where
  "has_messages ch \<longleftrightarrow> rlen (rx ch) \<noteq> 0"

definition is_rx_full :: "channel \<Rightarrow> bool" where
  "is_rx_full ch \<longleftrightarrow> rlen (rx ch) = RING_CAP"

definition enqueue :: "message \<Rightarrow> channel \<Rightarrow> bool \<times> channel" where
  "enqueue msg ch = (case rb_push msg (rx ch) of (b, r) \<Rightarrow> (b, ch\<lparr>rx := r\<rparr>))"

definition dequeue :: "channel \<Rightarrow> message option \<times> channel" where
  "dequeue ch = (case rb_pop (rx ch) of (m, r) \<Rightarrow> (m, ch\<lparr>rx := r\<rparr>))"

definition add_read_waiter :: "nat \<Rightarrow> channel \<Rightarrow> channel" where
  "add_read_waiter p ch = (if p \<in> set (read_waiters ch) then ch else ch\<lparr>read_waiters := read_waiters ch @ [p]\<rparr>)"

definition take_read_waiters :: "channel \<Rightarrow> nat list \<times> channel" where
  "take_read_waiters ch = (read_waiters ch, ch\<lparr>read_waiters := []\<rparr>)"

definition add_accept_waiter :: "nat \<Rightarrow> channel \<Rightarrow> channel" where
  "add_accept_waiter p ch = (if p \<in> set (accept_waiters ch) then ch else ch\<lparr>accept_waiters := accept_waiters ch @ [p]\<rparr>)"

definition take_accept_waiters :: "channel \<Rightarrow> nat list \<times> channel" where
  "take_accept_waiters ch = (accept_waiters ch, ch\<lparr>accept_waiters := []\<rparr>)"

section \<open>The table\<close>

definition MAX_CHANNELS :: nat where "MAX_CHANNELS = 64"

record chan_table =
  slots :: "nat \<Rightarrow> channel option"
  next_chan :: nat

definition table_new :: chan_table where
  "table_new = \<lparr>slots = (\<lambda>_. None), next_chan = 1\<rparr>"

fun alloc_loop :: "nat \<Rightarrow> chan_table \<Rightarrow> nat option \<times> chan_table" where
  "alloc_loop 0 t = (None, t)"
| "alloc_loop (Suc n) t =
     (let i = next_chan t; t = t\<lparr>next_chan := i mod (MAX_CHANNELS - 1) + 1\<rparr> in
      if slots t i = None then (Some i, t\<lparr>slots := (slots t)(i := Some channel_new)\<rparr>) else alloc_loop n t)"

definition chan_alloc :: "chan_table \<Rightarrow> nat option \<times> chan_table" where
  "chan_alloc t = alloc_loop MAX_CHANNELS t"

definition chan_free :: "nat \<Rightarrow> chan_table \<Rightarrow> chan_table" where
  "chan_free i t = (if i < MAX_CHANNELS then t\<lparr>slots := (slots t)(i := None)\<rparr> else t)"

definition chan_get :: "nat \<Rightarrow> chan_table \<Rightarrow> channel option" where
  "chan_get i t = (if i < MAX_CHANNELS then slots t i else None)"

text \<open>\<^verbatim>\<open>get_mut\<close> followed by an update of the channel.\<close>

definition chan_upd :: "nat \<Rightarrow> (channel \<Rightarrow> channel) \<Rightarrow> chan_table \<Rightarrow> chan_table" where
  "chan_upd i f t = (case chan_get i t of Some ch \<Rightarrow> t\<lparr>slots := (slots t)(i := Some (f ch))\<rparr> | None \<Rightarrow> t)"

definition path_bound :: "u8 list \<Rightarrow> channel \<Rightarrow> bool" where
  "path_bound path ch =
     (case bound_path ch of
        None \<Rightarrow> False
      | Some b \<Rightarrow> (let n = min (length path) 64 in take n b = take n path \<and> (n = 64 \<or> b ! n = 0)))"

definition find_by_path :: "u8 list \<Rightarrow> chan_table \<Rightarrow> nat option" where
  "find_by_path path t =
     find (\<lambda>i. case slots t i of Some ch \<Rightarrow> path_bound path ch | None \<Rightarrow> False) [0 ..< MAX_CHANNELS]"

section \<open>Socket calls\<close>

record recv_waiter =
  rw_pid :: nat
  rw_chan :: nat
  rw_phys :: nat

record ipc = sched +
  chans :: chan_table
  accept_waiter :: "(nat \<times> nat) option"
  recv_waiter :: "recv_waiter option"
  fd_channel_map :: "nat \<Rightarrow> nat \<Rightarrow> nat"
  phys_mem :: bytes

type_synonym 'a ipcsys = "'a ipc_scheme \<Rightarrow> (sysret \<times> 'a ipc_scheme) res"

definition ENOTSOCK :: int where "ENOTSOCK = - 88"
definition ENOTCONN :: int where "ENOTCONN = - 107"
definition ECONNREFUSED :: int where "ECONNREFUSED = - 111"

definition as_usize :: "int \<Rightarrow> nat" where
  "as_usize i = nat (i mod 2 ^ 64)"

definition set_fd_channel :: "nat \<Rightarrow> nat \<Rightarrow> nat \<Rightarrow> 'a ipc_scheme \<Rightarrow> 'a ipc_scheme" where
  "set_fd_channel p fd c s =
     (if p < MAX_PROCS \<and> fd < MAX_FILES_PER_PROC
      then s\<lparr>fd_channel_map := (fd_channel_map s)(p := (fd_channel_map s p)(fd := c))\<rparr> else s)"

definition get_fd_channel :: "nat \<Rightarrow> nat \<Rightarrow> 'a ipc_scheme \<Rightarrow> nat option" where
  "get_fd_channel p fd s =
     (if p < MAX_PROCS \<and> fd < MAX_FILES_PER_PROC
      then let c = fd_channel_map s p fd in if c \<noteq> 0 then Some c else None else None)"

definition clear_fd_channel :: "nat \<Rightarrow> nat \<Rightarrow> 'a ipc_scheme \<Rightarrow> 'a ipc_scheme" where
  "clear_fd_channel p fd s =
     (if p < MAX_PROCS \<and> fd < MAX_FILES_PER_PROC
      then s\<lparr>fd_channel_map := (fd_channel_map s)(p := (fd_channel_map s p)(fd := 0))\<rparr> else s)"

text \<open>\<open>fd_slot\<close> is the descriptor the table of the process gives the new handle, if it has room.\<close>

definition sys_socket_impl :: "nat option \<Rightarrow> 'a ipcsys" where
  "sys_socket_impl fd_slot s =
     (case chan_alloc (chans s) of
        (None, t) \<Rightarrow> Inr (Ret ENOMEM, s\<lparr>chans := t\<rparr>)
      | (Some c, t) \<Rightarrow>
          let s = s\<lparr>chans := t\<rparr> in
          (case running s of
             None \<Rightarrow> Inr (Ret ESRCH, s\<lparr>chans := chan_free c t\<rparr>)
           | Some pr \<Rightarrow>
               (case fd_slot of
                  Some fd \<Rightarrow> Inr (Ret (int fd), set_fd_channel (pid pr) fd c s)
                | None \<Rightarrow> Inr (Ret EINVAL, s\<lparr>chans := chan_free c t\<rparr>))))"

text \<open>The bytes of a path up to its terminating zero, at most \<open>n\<close>.\<close>

fun read_path :: "nat \<Rightarrow> nat \<Rightarrow> 'a machine_scheme \<Rightarrow> u8 list res" where
  "read_path 0 a s = Inr []"
| "read_path (Suc n) a s =
     bindR (vread a 1 s) (\<lambda>bs. if bs = [0] then Inr [] else bindR (read_path n (a + 1) s) (\<lambda>cs. Inr (bs @ cs)))"

definition sys_bind_impl :: "int \<Rightarrow> nat \<Rightarrow> 'a ipcsys" where
  "sys_bind_impl fd path_ptr s =
     (case validate_user_buffer path_ptr 64 of
        Some e \<Rightarrow> Inr (Ret e, s)
      | None \<Rightarrow>
          bindR (read_path 63 path_ptr s) (\<lambda>path.
          if path = [] then Inr (Ret EINVAL, s)
          else case get_fd_channel (pid_or_0 s) (as_usize fd) s of
            None \<Rightarrow> Inr (Ret ENOTSOCK, s)
          | Some c \<Rightarrow>
              (case chan_get c (chans s) of
                 None \<Rightarrow> Inr (Ret EBADF, s)
               | Some _ \<Rightarrow>
                   Inr (Ret 0, s\<lparr>chans := chan_upd c (\<lambda>ch. ch\<lparr>bound_path := Some (path @ replicate (64 - length path) 0),
                                                           server_state := Some Listening\<rparr>) (chans s)\<rparr>))))"

text \<open>A process blocked in \<^verbatim>\<open>accept\<close> on the server gets the new channel; \<open>fd_slot\<close> is the descriptor of its table.\<close>

definition connect_wake :: "nat option \<Rightarrow> nat \<Rightarrow> nat \<Rightarrow> 'a ipc_scheme \<Rightarrow> 'a ipc_scheme" where
  "connect_wake fd_slot server new s =
     (case accept_waiter s of
        Some (wpid, wserver) \<Rightarrow>
          if wserver = server then
            let s = s\<lparr>accept_waiter := None, chans := chan_upd server (\<lambda>ch. ch\<lparr>server_state := Some Listening\<rparr>) (chans s)\<rparr>;
                rax = (case fd_slot of Some fd \<Rightarrow> of_nat fd | None \<Rightarrow> of_int EINVAL);
                blocked = find (\<lambda>pr. pid pr = wpid \<and> pstate pr = Blocked) (wait_queue s);
                s = (case upd_first (\<lambda>pr. pid pr = wpid \<and> pstate pr = Blocked)
                           (\<lambda>pr. pr\<lparr>tframe := (tframe pr)\<lparr>rax := rax\<rparr>\<rparr>) (wait_queue s) of
                       Some w \<Rightarrow> s\<lparr>wait_queue := w\<rparr> | None \<Rightarrow> s);
                s = (case (blocked, fd_slot) of (Some _, Some fd) \<Rightarrow> set_fd_channel wpid fd new s | _ \<Rightarrow> s)
            in wake wpid s
          else s
      | None \<Rightarrow> s)"

definition sys_connect :: "nat option \<Rightarrow> int \<Rightarrow> nat \<Rightarrow> 'a ipcsys" where
  "sys_connect fd_slot fd path_ptr s =
     (case validate_user_buffer path_ptr 64 of
        Some e \<Rightarrow> Inr (Ret e, s)
      | None \<Rightarrow>
          bindR (read_path 63 path_ptr s) (\<lambda>path.
          case get_fd_channel (pid_or_0 s) (as_usize fd) s of
            None \<Rightarrow> Inr (Ret ENOTSOCK, s)
          | Some client \<Rightarrow>
              (case find_by_path path (chans s) of
                 None \<Rightarrow> Inr (Ret ENOENT, s)
               | Some server \<Rightarrow>
                   if map_option server_state (chan_get server (chans s)) \<noteq> Some (Some Listening) then Inr (Ret ECONNREFUSED, s)
                   else case chan_alloc (chans s) of
                     (None, t) \<Rightarrow> Inr (Ret ENOMEM, s\<lparr>chans := t\<rparr>)
                   | (Some new, t) \<Rightarrow>
                       let t = chan_upd client (\<lambda>ch. ch\<lparr>peer := Some new\<rparr>) t;
                           t = chan_upd new (\<lambda>ch. ch\<lparr>peer := Some client\<rparr>) t;
                           t = chan_upd server (\<lambda>ch. ch\<lparr>server_state := Some (PendingConnect new)\<rparr>) t
                       in Inr (Ret 0, connect_wake fd_slot server new (s\<lparr>chans := t\<rparr>)))))"

definition sys_accept :: "nat option \<Rightarrow> int \<Rightarrow> 'a ipcsys" where
  "sys_accept fd_slot fd s =
     (case get_fd_channel (pid_or_0 s) (as_usize fd) s of
        None \<Rightarrow> Inr (Ret ENOTSOCK, s)
      | Some server \<Rightarrow>
          (case chan_get server (chans s) of
             None \<Rightarrow> Inr (Ret EBADF, s)
           | Some ch \<Rightarrow>
               (case server_state ch of
                  Some (PendingConnect new) \<Rightarrow>
                    let s = s\<lparr>chans := chan_upd server (\<lambda>ch. ch\<lparr>server_state := Some Listening\<rparr>) (chans s)\<rparr> in
                    (case (running s, fd_slot) of
                       (Some _, Some nfd) \<Rightarrow> Inr (Ret (int nfd), set_fd_channel (pid_or_0 s) nfd new s)
                     | (Some _, None) \<Rightarrow> Inr (Ret EINVAL, s)
                     | (None, _) \<Rightarrow> Inr (Ret ESRCH, s))
                | _ \<Rightarrow>
                    let s = s\<lparr>accept_waiter := Some (pid_or_0 s, server)\<rparr> in
                    bindR (block_current LiveTf s) (\<lambda>(tf, s). jump_to_user tf s))))"

text \<open>A message as the 64 bytes of the user's structure: tag, length, data.\<close>

definition message_bytes :: "message \<Rightarrow> u8 list" where
  "message_bytes m = le_bytes 4 (tag m) @ le_bytes 4 (mlen m) @ take (mlen m) (mdata m) @ replicate (56 - mlen m) 0"

definition message_of_bytes :: "u8 list \<Rightarrow> message" where
  "message_of_bytes bs =
     (let n = min (le_val (take 4 (drop 4 bs))) 56
      in \<lparr>tag = le_val (take 4 bs), mlen = n, mdata = take n (drop 8 bs) @ replicate (56 - n) 0\<rparr>)"

text \<open>
  \<open>poll_wakeup\<close> is \<^verbatim>\<open>poll_wakeup_for_channel\<close>. Only the bytes up to the message's length are read from the
  user; the header is read first.
\<close>

definition sys_sendmsg :: "(nat \<Rightarrow> 'a ipc_scheme \<Rightarrow> 'a ipc_scheme) \<Rightarrow> int \<Rightarrow> nat \<Rightarrow> 'a ipcsys" where
  "sys_sendmsg poll_wakeup fd msg_ptr s =
     (case validate_user_buffer msg_ptr 64 of
        Some e \<Rightarrow> Inr (Ret e, s)
      | None \<Rightarrow>
          bindR (vread msg_ptr 8 s) (\<lambda>hdr.
          bindR (vread (msg_ptr + 8) (min (le_val (take 4 (drop 4 hdr))) 56) s) (\<lambda>body.
          let msg = message_of_bytes (hdr @ body) in
          case get_fd_channel (pid_or_0 s) (as_usize fd) s of
            None \<Rightarrow> Inr (Ret ENOTSOCK, s)
          | Some c \<Rightarrow>
              (case Option.bind (chan_get c (chans s)) peer of
                 None \<Rightarrow> Inr (Ret ENOTCONN, s)
               | Some other \<Rightarrow>
                   (case (case recv_waiter s of Some w \<Rightarrow> if rw_chan w = other then Some w else None | None \<Rightarrow> None) of
                      Some w \<Rightarrow>
                        let s = s\<lparr>recv_waiter := None\<rparr>;
                            s = (if rw_phys w \<noteq> 0 then s\<lparr>phys_mem := poke (phys_mem s) (rw_phys w) (message_bytes msg)\<rparr> else s)
                        in Inr (Ret 64, wake_with_retval (rw_pid w) 64 s)
                    | None \<Rightarrow>
                        (case chan_get other (chans s) of
                           None \<Rightarrow> Inr (Ret EPIPE, s)
                         | Some ch \<Rightarrow>
                             (case enqueue msg ch of
                                (False, _) \<Rightarrow> Inr (Ret EAGAIN, s)
                              | (True, ch') \<Rightarrow>
                                  Inr (Ret 64, poll_wakeup other (s\<lparr>chans := chan_upd other (\<lambda>_. ch') (chans s)\<rparr>)))))))))"

text \<open>\<open>frame\<close> is the physical address of the page of the buffer in the running process, if it is mapped.\<close>

definition sys_recvmsg :: "nat option \<Rightarrow> int \<Rightarrow> nat \<Rightarrow> 'a ipcsys" where
  "sys_recvmsg frame fd msg_ptr s =
     (case validate_user_buffer msg_ptr 64 of
        Some e \<Rightarrow> Inr (Ret e, s)
      | None \<Rightarrow>
          (case get_fd_channel (pid_or_0 s) (as_usize fd) s of
             None \<Rightarrow> Inr (Ret ENOTSOCK, s)
           | Some c \<Rightarrow>
               (case map_option dequeue (chan_get c (chans s)) of
                  Some (Some m, ch') \<Rightarrow>
                    let s = s\<lparr>chans := chan_upd c (\<lambda>_. ch') (chans s)\<rparr> in
                    bindR (vwrite msg_ptr (message_bytes m) s) (\<lambda>s. Inr (Ret 64, s))
                | _ \<Rightarrow>
                    let phys = (case (running s, frame) of (Some _, Some f) \<Rightarrow> f + msg_ptr mod 0x1000 | _ \<Rightarrow> 0);
                        s = s\<lparr>recv_waiter := Some \<lparr>rw_pid = pid_or_0 s, rw_chan = c, rw_phys = phys\<rparr>\<rparr>
                    in bindR (block_current LiveTf s) (\<lambda>(tf, s). jump_to_user tf s))))"

text \<open>The file handle of a socket: \<^verbatim>\<open>read\<close>, \<^verbatim>\<open>write\<close> and \<^verbatim>\<open>close\<close> on its channel.\<close>

definition socket_read :: "nat \<Rightarrow> nat \<Rightarrow> chan_table \<Rightarrow> u8 list \<times> chan_table" where
  "socket_read c buf_len t =
     (case map_option dequeue (chan_get c t) of
        Some (Some m, ch') \<Rightarrow> (take (min buf_len (mlen m)) (mdata m), chan_upd c (\<lambda>_. ch') t)
      | _ \<Rightarrow> ([], t))"

definition socket_write :: "nat \<Rightarrow> u8 list \<Rightarrow> chan_table \<Rightarrow> bool \<times> chan_table" where
  "socket_write c buf t =
     (case Option.bind (chan_get c t) peer of
        None \<Rightarrow> (False, t)
      | Some other \<Rightarrow>
          (case map_option (enqueue (message_new 0 buf)) (chan_get other t) of
             Some (True, ch') \<Rightarrow> (True, chan_upd other (\<lambda>_. ch') t)
           | _ \<Rightarrow> (False, t)))"

definition socket_close :: "nat \<Rightarrow> chan_table \<Rightarrow> chan_table" where
  "socket_close c t = chan_free c t"

section \<open>A channel is a bounded queue\<close>

definition messages :: "channel \<Rightarrow> message list" where
  "messages ch = ring_list RING_CAP (rbuf (rx ch)) (rhead (rx ch)) (rlen (rx ch))"

definition chan_ok :: "channel \<Rightarrow> bool" where
  "chan_ok ch \<longleftrightarrow> rhead (rx ch) < RING_CAP \<and> rlen (rx ch) \<le> RING_CAP \<and> rtail (rx ch) = (rhead (rx ch) + rlen (rx ch)) mod RING_CAP"

lemma length_messages [simp]: "length (messages ch) = rlen (rx ch)"
  by (simp add: messages_def)

lemma RING_CAP_pos [simp]: "0 < RING_CAP"
  by (simp add: RING_CAP_def)

lemma enqueue_room:
  assumes "chan_ok ch" and "rlen (rx ch) < RING_CAP"
  shows "\<exists>ch'. enqueue m ch = (True, ch') \<and> chan_ok ch' \<and> messages ch' = messages ch @ [m]"
proof -
  define ch' where "ch' = snd (enqueue m ch)"
  have e: "enqueue m ch = (True, ch')" using assms(2) by (simp add: ch'_def enqueue_def rb_push_def)
  have f: "rbuf (rx ch') = (rbuf (rx ch))((rhead (rx ch) + rlen (rx ch)) mod RING_CAP := m)" "rhead (rx ch') = rhead (rx ch)"
    "rlen (rx ch') = rlen (rx ch) + 1" "rtail (rx ch') = (rtail (rx ch) + 1) mod RING_CAP"
    using assms by (simp_all add: ch'_def enqueue_def rb_push_def chan_ok_def)
  have "((rhead (rx ch) + rlen (rx ch)) mod RING_CAP + 1) mod RING_CAP = (rhead (rx ch) + (rlen (rx ch) + 1)) mod RING_CAP"
    unfolding mod_add_left_eq by (simp only: add.assoc)
  then have "chan_ok ch'" using assms unfolding chan_ok_def f by auto
  moreover have "messages ch' = messages ch @ [m]"
    using ring_list_push [OF assms(2), of "rbuf (rx ch)" "rhead (rx ch)" m] by (simp add: messages_def f)
  ultimately show ?thesis using e by blast
qed

lemma enqueue_full: "rlen (rx ch) = RING_CAP \<Longrightarrow> enqueue m ch = (False, ch)"
  by (simp add: enqueue_def rb_push_def)

lemma dequeue_empty: "rlen (rx ch) = 0 \<Longrightarrow> dequeue ch = (None, ch)"
  by (simp add: dequeue_def rb_pop_def)

lemma dequeue_some:
  assumes "chan_ok ch" and "messages ch = m # ms"
  shows "\<exists>ch'. dequeue ch = (Some m, ch') \<and> chan_ok ch' \<and> messages ch' = ms"
proof -
  have n: "0 < rlen (rx ch)" using assms(2) length_messages [of ch] by simp
  define ch' where "ch' = snd (dequeue ch)"
  have "messages ch ! 0 = rbuf (rx ch) (rhead (rx ch))" using n assms(1) by (simp add: messages_def ring_list_def chan_ok_def)
  then have e: "dequeue ch = (Some m, ch')" using n assms(2) by (simp add: ch'_def dequeue_def rb_pop_def)
  have f: "rbuf (rx ch') = rbuf (rx ch)" "rhead (rx ch') = (rhead (rx ch) + 1) mod RING_CAP"
    "rlen (rx ch') = rlen (rx ch) - 1" "rtail (rx ch') = rtail (rx ch)"
    using n by (simp_all add: ch'_def dequeue_def rb_pop_def)
  have "messages ch' = drop 1 (messages ch)"
    using n ring_list_drop [of 1 "rlen (rx ch)" RING_CAP "rbuf (rx ch)" "rhead (rx ch)"] unfolding messages_def f by simp
  moreover have "((rhead (rx ch) + 1) mod RING_CAP + (rlen (rx ch) - 1)) mod RING_CAP = (rhead (rx ch) + rlen (rx ch)) mod RING_CAP"
    unfolding mod_add_left_eq using n by simp
  then have "chan_ok ch'" using assms(1) unfolding chan_ok_def f by auto
  ultimately show ?thesis using e assms(2) by simp
qed

interpretation chan_queue: bounded_queue messages chan_ok RING_CAP enqueue dequeue
proof unfold_locales
  fix s m assume "chan_ok s" "length (messages s) < RING_CAP"
  then show "\<exists>s'. enqueue m s = (True, s') \<and> chan_ok s' \<and> messages s' = messages s @ [m]" by (intro enqueue_room) simp_all
next
  fix s m assume "chan_ok s" "length (messages s) = RING_CAP"
  then show "enqueue m s = (False, s)" by (intro enqueue_full) simp
next
  fix s assume "chan_ok s" "messages s = []"
  then show "dequeue s = (None, s)" using length_messages [of s] by (intro dequeue_empty) simp
next
  fix s m ms assume "chan_ok s" "messages s = m # ms"
  then show "\<exists>s'. dequeue s = (Some m, s') \<and> chan_ok s' \<and> messages s' = ms" by (rule dequeue_some)
next
  fix s assume "chan_ok s"
  then show "length (messages s) \<le> RING_CAP" by (simp add: chan_ok_def)
qed

section \<open>Messages in memory\<close>

definition message_ok :: "message \<Rightarrow> bool" where
  "message_ok m \<longleftrightarrow> tag m < 2 ^ 32 \<and> mlen m \<le> 56 \<and> length (mdata m) = 56 \<and> drop (mlen m) (mdata m) = replicate (56 - mlen m) 0"

lemma message_roundtrip:
  assumes "message_ok m" shows "message_of_bytes (message_bytes m) = m"
proof -
  define b where "b = take (mlen m) (mdata m)"
  define z where "z = replicate (56 - mlen m) (0 :: u8)"
  have n: "min (mlen m) 56 = mlen m" "tag m < 256 ^ 4" "mlen m < 256 ^ 4" using assms by (simp_all add: message_ok_def)
  have b: "b @ z = mdata m" "length b = mlen m"
    using assms append_take_drop_id [of "mlen m" "mdata m"] by (simp_all add: message_ok_def b_def z_def)
  have e: "message_bytes m = le_bytes 4 (tag m) @ le_bytes 4 (mlen m) @ b @ z" by (simp only: message_bytes_def b_def z_def)
  have "le_val (take 4 (message_bytes m)) = tag m" "le_val (take 4 (drop 4 (message_bytes m))) = mlen m"
    using n by (simp_all add: e le_val_le_bytes)
  moreover have "take (mlen m) (drop 8 (message_bytes m)) = b" using b(2) by (simp add: e)
  ultimately show ?thesis using b(1) n(1) by (simp add: message_of_bytes_def Let_def z_def)
qed

lemma message_of_bytes_ok:
  assumes "length bs = 8 + min (le_val (take 4 (drop 4 bs))) 56"
  shows "message_ok (message_of_bytes bs)"
proof -
  define n where "n = min (le_val (take 4 (drop 4 bs))) 56"
  have l: "length bs = 8 + n" unfolding n_def by (rule assms)
  have "length (take 4 bs) = 4" using l by simp
  with le_val_bound [of "take 4 bs"] have "le_val (take 4 bs) < 256 ^ 4" by (simp only:)
  then have v: "le_val (take 4 bs) < 2 ^ 32" by simp
  have n: "n \<le> 56" by (simp add: n_def)
  have d: "length (take n (drop 8 bs)) = n" using l by simp
  have m: "message_of_bytes bs = \<lparr>tag = le_val (take 4 bs), mlen = n, mdata = take n (drop 8 bs) @ replicate (56 - n) 0\<rparr>"
    by (simp add: message_of_bytes_def Let_def n_def)
  show ?thesis unfolding m message_ok_def using v n d by (simp del: length_take take_append)
qed

lemma chan_get_upd: "chan_get i t = Some ch \<Longrightarrow> chan_get i (chan_upd i f t) = Some (f ch)"
  by (simp add: chan_upd_def chan_get_def split: if_splits)

section \<open>Properties\<close>


text \<open>The shell with descriptor 3 on channel 1, connected to channel 2.\<close>

definition sample_ipc :: ipc where
  "sample_ipc = sched.extend sample_sched (ipc.fields
     \<lparr>slots = (\<lambda>_. None)(1 := Some (channel_new\<lparr>peer := Some 2\<rparr>), 2 := Some (channel_new\<lparr>peer := Some 1\<rparr>)), next_chan = 3\<rparr>
     None None ((\<lambda>_ _. 0)(1 := (\<lambda>_. 0)(3 := 1))) (\<lambda>_. 0))"

lemma channel_new_ok: "chan_ok (channel_new\<lparr>peer := x\<rparr>)" "messages (channel_new\<lparr>peer := x\<rparr>) = []"
  by (simp_all add: chan_ok_def channel_new_def rb_new_def messages_def)

lemma sample_ipc_fields:
  "pid_or_0 sample_ipc = 1" "chans sample_ipc = \<lparr>slots = (\<lambda>_. None)(1 := Some (channel_new\<lparr>peer := Some 2\<rparr>), 2 := Some (channel_new\<lparr>peer := Some 1\<rparr>)), next_chan = 3\<rparr>"
  "fd_channel_map sample_ipc 1 3 = 1" "recv_waiter sample_ipc = None" "vmapped sample_ipc r a" "vmem sample_ipc r = (\<lambda>_. 0)" "running sample_ipc = Some shell_proc"
  by (simp_all add: sample_ipc_def sched.defs ipc.defs sample_sched_def pid_or_0_def current_pid_def sample_fields)


text \<open>
  There is one slot for a process blocked in \<^verbatim>\<open>recvmsg\<close>. A second process that blocks in \<^verbatim>\<open>recvmsg\<close>
  on another channel overwrites the entry of the first; from then on a \<^verbatim>\<open>sendmsg\<close> to the channel of
  the first one queues the message and wakes nobody, so the first receiver stays blocked.
\<close>
theorem second_receiver_displaces_first:
  assumes "recv_waiter s = Some w" and "validate_user_buffer ptr 64 = None" and "get_fd_channel (pid_or_0 s) (as_usize fd) s = Some c"
    and "chan_get c (chans s) = Some ch" and "rlen (rx ch) = 0" and "rw_chan w \<noteq> c"
  shows "(\<exists>s1. map_option rw_chan (recv_waiter s1) = Some c \<and> wait_queue s1 = wait_queue s \<and>
      sys_recvmsg fr fd ptr s = bindR (block_current LiveTf s1) (\<lambda>(tf, s). jump_to_user tf s)) \<and>
    (\<forall>(t :: 'a ipc_scheme) fd2 ptr2 c2 me w2 r t'. get_fd_channel (pid_or_0 t) (as_usize fd2) t = Some c2 \<and> chan_get c2 (chans t) = Some me \<and>
      peer me = Some (rw_chan w) \<and> recv_waiter t = Some w2 \<and> rw_chan w2 = c \<and>
      sys_sendmsg (\<lambda>_ s. s) fd2 ptr2 t = Inr (r, t') \<longrightarrow> wait_queue t' = wait_queue t)"
proof (intro conjI allI impI)
  let ?s1 = "s\<lparr>recv_waiter := Some \<lparr>rw_pid = pid_or_0 s, rw_chan = c,
    rw_phys = (case (running s, fr) of (Some _, Some f) \<Rightarrow> f + ptr mod 0x1000 | _ \<Rightarrow> 0)\<rparr>\<rparr>"
  have "sys_recvmsg fr fd ptr s = bindR (block_current LiveTf ?s1) (\<lambda>(tf, s). jump_to_user tf s)"
    using assms by (simp add: sys_recvmsg_def dequeue_empty Let_def)
  then show "\<exists>s1. map_option rw_chan (recv_waiter s1) = Some c \<and> wait_queue s1 = wait_queue s \<and>
      sys_recvmsg fr fd ptr s = bindR (block_current LiveTf s1) (\<lambda>(tf, s). jump_to_user tf s)"
    by (intro exI [of _ ?s1]) simp
next
  fix t :: "'a ipc_scheme" and fd2 ptr2 c2 me w2 r t'
  assume h: "get_fd_channel (pid_or_0 t) (as_usize fd2) t = Some c2 \<and> chan_get c2 (chans t) = Some me \<and>
      peer me = Some (rw_chan w) \<and> recv_waiter t = Some w2 \<and> rw_chan w2 = c \<and> sys_sendmsg (\<lambda>_ s. s) fd2 ptr2 t = Inr (r, t')"
  then show "wait_queue t' = wait_queue t"
    using assms(6) by (auto simp: sys_sendmsg_def Let_def bindR_eq_Inr split: option.splits prod.splits bool.splits)
qed

theorem second_receiver_displaces_first_witness:
  "\<exists>s1. map_option rw_chan (recv_waiter s1) = Some 1 \<and>
     sys_recvmsg None 3 0x1000 (sample_ipc\<lparr>recv_waiter := Some \<lparr>rw_pid = 2, rw_chan = 2, rw_phys = 0\<rparr>\<rparr>) =
       bindR (block_current LiveTf s1) (\<lambda>(tf, s). jump_to_user tf s)"
proof -
  let ?w = "\<lparr>rw_pid = 2, rw_chan = 2, rw_phys = 0\<rparr>"
  let ?s = "sample_ipc\<lparr>recv_waiter := Some ?w\<rparr>"
  have p: "pid_or_0 ?s = 1" by (simp add: pid_or_0_def current_pid_def sample_ipc_fields sample_fields)
  have g: "get_fd_channel (pid_or_0 ?s) (as_usize 3) ?s = Some 1"
    unfolding p using sample_ipc_fields(3) by (simp add: get_fd_channel_def MAX_PROCS_def MAX_FILES_PER_PROC_def as_usize_def)
  have c: "chan_get 1 (chans ?s) = Some (channel_new\<lparr>peer := Some 2\<rparr>)"
    by (simp add: chan_get_def sample_ipc_fields MAX_CHANNELS_def)
  have v: "validate_user_buffer 0x1000 64 = None" by (simp add: validate_user_buffer_def USER_SPACE_MAX_def)
  have "rlen (rx (channel_new\<lparr>peer := Some 2\<rparr>)) = 0" by (simp add: channel_new_def rb_new_def)
  then have "\<exists>s1. map_option rw_chan (recv_waiter s1) = Some 1 \<and> wait_queue s1 = wait_queue ?s \<and>
      sys_recvmsg None 3 0x1000 ?s = bindR (block_current LiveTf s1) (\<lambda>(tf, s). jump_to_user tf s)"
    by (intro conjunct1 [OF second_receiver_displaces_first [OF _ v g c, of ?w]]) simp_all
  then show ?thesis by blast
qed

end
