(* ===== verification/Cow.thy ===== *)
theory Cow
  imports Buddy Vma Bytes
begin

unbundle bit_operations_syntax

text \<open>
  Page tables, copy-on-write and demand paging: \<^verbatim>\<open>memory/cow.rs\<close>, the operations of
  \<^verbatim>\<open>memory/page_table_manager.rs\<close> and \<^verbatim>\<open>memory/address_space.rs\<close> on mapped pages, \<^verbatim>\<open>memory/demand_paging.rs\<close>, and the
  decision of the page fault handler in \<^verbatim>\<open>init/devices.rs\<close>.

  The page tables themselves are data of the \<^verbatim>\<open>x86_64\<close> crate, so its operations on them are an
  argument, the record \<open>mapper\<close>; what they are documented to do is the predicate \<open>mapper_ok\<close> of \<open>Cow_Inv\<close>.
  A page is a page number, a frame the physical address of its first byte. Frames come from the buddy
  allocator of \<open>Buddy\<close>; the bytes of the frames in use are the field \<open>frames\<close>. Each root has its own
  table value: that two tables share the lower levels of the kernel's entries, which \<^verbatim>\<open>new_user\<close> copies,
  is not represented, so the properties below speak of pages in the user entries. Counters, trace
  output and TLB flushes are left out.
\<close>

section \<open>State\<close>

text \<open>
  What \<^verbatim>\<open>release_user_pages\<close> reads of a table: under a top level entry the present entries, in order,
  whose \<^verbatim>\<open>frame()\<close> is a table or, in a page directory, a huge frame.
\<close>

datatype pd_entry = HugeFrame nat | PageTab nat "nat list"

type_synonym pdpt = "nat \<times> (nat \<times> pd_entry list) list"

record ('pt) mapper =
  mp_virt_addr :: "nat \<Rightarrow> nat res"
  mp_truncate :: "u64 \<Rightarrow> u64"
  mp_zero :: "'pt"
  mp_unused :: "'pt \<Rightarrow> nat \<Rightarrow> bool"
  mp_copy_entry :: "nat \<Rightarrow> 'pt \<Rightarrow> 'pt \<Rightarrow> 'pt"
  mp_tree :: "'pt \<Rightarrow> nat \<Rightarrow> pdpt option"
  mp_translate :: "'pt \<Rightarrow> nat \<Rightarrow> nat option"
  mp_flags :: "'pt \<Rightarrow> nat \<Rightarrow> u64"
  mp_map :: "nat \<Rightarrow> nat \<Rightarrow> u64 \<Rightarrow> 'pt \<Rightarrow> buddy \<Rightarrow> (bool \<times> 'pt \<times> buddy) res"
  mp_map_table_flags :: "nat \<Rightarrow> nat \<Rightarrow> u64 \<Rightarrow> u64 \<Rightarrow> 'pt \<Rightarrow> buddy \<Rightarrow> (bool \<times> 'pt \<times> buddy) res"
  mp_map2m :: "nat \<Rightarrow> nat \<Rightarrow> u64 \<Rightarrow> 'pt \<Rightarrow> buddy \<Rightarrow> (bool \<times> 'pt \<times> buddy) res"
  mp_unmap :: "nat \<Rightarrow> 'pt \<Rightarrow> (nat \<times> 'pt) option"
  mp_unmap2m :: "nat \<Rightarrow> 'pt \<Rightarrow> (nat \<times> 'pt) option"
  mp_update :: "nat \<Rightarrow> u64 \<Rightarrow> 'pt \<Rightarrow> 'pt option"

record ('pt) vmm =
  tables :: "nat \<Rightarrow> 'pt"
  refcounts :: "nat \<Rightarrow> nat"
  frames :: bytes
  zero_phys :: nat
  phys :: buddy

text \<open>An operation that may report an error: whether it succeeded, and the state it leaves in both cases.\<close>

type_synonym 'pt vm = "'pt vmm \<Rightarrow> (bool \<times> 'pt vmm) res"

definition bindV :: "(bool \<times> 'pt vmm) res \<Rightarrow> 'pt vm \<Rightarrow> (bool \<times> 'pt vmm) res" where
  "bindV m f = bindR m (\<lambda>(ok, s). if ok then f s else Inr (False, s))"

lemma bindV_simps [simp]:
  "bindV (Inr (True, s)) f = f s" "bindV (Inr (False, s)) f = Inr (False, s)" "bindV (Inl e) f = Inl e"
  by (simp_all add: bindV_def)

lemma bindV_True: "bindV m f = Inr (True, s') \<longleftrightarrow> (\<exists>s. m = Inr (True, s) \<and> f s = Inr (True, s'))"
  by (auto simp: bindV_def bindR_eq_Inr split: if_splits)

section \<open>Reference counts\<close>

definition MAX_FRAMES :: nat where "MAX_FRAMES = 131072"

definition frame_idx :: "nat \<Rightarrow> nat" where "frame_idx f = f div 4096"

definition set_ref :: "nat \<Rightarrow> nat \<Rightarrow> 'pt vmm \<Rightarrow> 'pt vmm" where
  "set_ref f n s = (if frame_idx f < MAX_FRAMES then s\<lparr>refcounts := (refcounts s)(frame_idx f := n)\<rparr> else s)"

definition inc_ref :: "nat \<Rightarrow> 'pt vmm \<Rightarrow> 'pt vmm" where
  "inc_ref f s =
     (if frame_idx f < MAX_FRAMES
      then s\<lparr>refcounts := (refcounts s)(frame_idx f := min 255 (refcounts s (frame_idx f) + 1))\<rparr> else s)"

definition dec_ref :: "nat \<Rightarrow> 'pt vmm \<Rightarrow> nat \<times> 'pt vmm" where
  "dec_ref f s =
     (if frame_idx f < MAX_FRAMES
      then let n = refcounts s (frame_idx f) - 1 in (n, s\<lparr>refcounts := (refcounts s)(frame_idx f := n)\<rparr>) else (0, s))"

definition get_ref :: "nat \<Rightarrow> 'pt vmm \<Rightarrow> nat" where
  "get_ref f s = (if frame_idx f < MAX_FRAMES then refcounts s (frame_idx f) else 0)"

definition is_zero_frame :: "nat \<Rightarrow> 'pt vmm \<Rightarrow> bool" where
  "is_zero_frame f s \<longleftrightarrow> zero_phys s \<noteq> 0 \<and> f = zero_phys s"

definition zero_fill :: "nat \<Rightarrow> nat \<Rightarrow> 'pt vmm \<Rightarrow> 'pt vmm" where
  "zero_fill f n s = s\<lparr>frames := poke (frames s) f (replicate n 0)\<rparr>"

definition init_zero_frame :: "'pt vmm \<Rightarrow> 'pt vmm res" where
  "init_zero_frame s =
     bindR (allocate 12 (phys s)) (\<lambda>(r, b).
     case r of None \<Rightarrow> Inl Panic | Some a \<Rightarrow> Inr ((zero_fill a 4096 (s\<lparr>phys := b\<rparr>))\<lparr>zero_phys := a\<rparr>))"

section \<open>Operations on one page table\<close>

text \<open>The pages of a table are addressed through \<^verbatim>\<open>VirtAddr::new\<close>, which panics on an address that is not canonical.\<close>

definition page_of :: "'pt mapper \<Rightarrow> nat \<Rightarrow> nat res" where
  "page_of M a = bindR (mp_virt_addr M a) (\<lambda>a. Inr (a div 4096))"

definition page2m_of :: "'pt mapper \<Rightarrow> nat \<Rightarrow> nat res" where
  "page2m_of M a = bindR (mp_virt_addr M a) (\<lambda>a. Inr (a div 0x200000))"

definition page_table_flags :: "'pt mapper \<Rightarrow> vma \<Rightarrow> u64" where
  "page_table_flags M v = mp_truncate M (vma_flags v)"

text \<open>A mapping that fails may have linked new tables before it ran out of frames.\<close>

definition set_table :: "nat \<Rightarrow> (bool \<times> 'pt \<times> buddy) res \<Rightarrow> 'pt vm" where
  "set_table root r s = bindR r (\<lambda>(ok, pt, b). Inr (ok, s\<lparr>tables := (tables s)(root := pt), phys := b\<rparr>))"

definition map_to :: "'pt mapper \<Rightarrow> nat \<Rightarrow> nat \<Rightarrow> nat \<Rightarrow> u64 \<Rightarrow> 'pt vm" where
  "map_to M root pg f fl s = set_table root (mp_map M pg f fl (tables s root) (phys s)) s"

definition map_user_page :: "'pt mapper \<Rightarrow> nat \<Rightarrow> nat \<Rightarrow> u64 \<Rightarrow> 'pt vmm \<Rightarrow> (nat option \<times> 'pt vmm) res" where
  "map_user_page M root pg fl s =
     bindR (allocate 12 (phys s)) (\<lambda>(r, b).
     let s = s\<lparr>phys := b\<rparr> in
     case r of
       None \<Rightarrow> Inr (None, s)
     | Some f \<Rightarrow> bindR (map_to M root pg f fl (set_ref f 1 s)) (\<lambda>(ok, s). Inr (if ok then Some f else None, s)))"

fun map_user_pages :: "nat \<Rightarrow> 'pt mapper \<Rightarrow> nat \<Rightarrow> nat \<Rightarrow> u64 \<Rightarrow> 'pt vm" where
  "map_user_pages 0 M root addr fl s = Inr (True, s)"
| "map_user_pages (Suc n) M root addr fl s =
     bindR (page_of M addr) (\<lambda>pg.
     bindR (map_user_page M root pg fl s) (\<lambda>(r, s).
     if r = None then Inr (False, s) else map_user_pages n M root (addr + 4096) fl s))"

definition map_existing_frame :: "'pt mapper \<Rightarrow> nat \<Rightarrow> nat \<Rightarrow> nat \<Rightarrow> u64 \<Rightarrow> 'pt vm" where
  "map_existing_frame M root pg f fl s =
     (let parent_flags = PTE_PRESENT OR PTE_WRITABLE OR PTE_USER_ACCESSIBLE
      in set_table root (mp_map_table_flags M pg f fl parent_flags (tables s root) (phys s)) s)"

definition update_page_flags :: "'pt mapper \<Rightarrow> nat \<Rightarrow> nat \<Rightarrow> u64 \<Rightarrow> 'pt vm" where
  "update_page_flags M root pg fl s =
     (case mp_update M pg fl (tables s root) of
        Some pt \<Rightarrow> Inr (True, s\<lparr>tables := (tables s)(root := pt)\<rparr>)
      | None \<Rightarrow> Inr (False, s))"

definition unmap_and_remap :: "'pt mapper \<Rightarrow> nat \<Rightarrow> nat \<Rightarrow> nat \<Rightarrow> u64 \<Rightarrow> 'pt vm" where
  "unmap_and_remap M root pg f fl s =
     (case mp_unmap M pg (tables s root) of
        None \<Rightarrow> Inr (False, s)
      | Some (_, pt) \<Rightarrow> map_to M root pg f fl (s\<lparr>tables := (tables s)(root := pt)\<rparr>))"

definition drop_frame :: "nat \<Rightarrow> 'pt vmm \<Rightarrow> 'pt vmm res" where
  "drop_frame f s =
     (case dec_ref f s of
        (n, s) \<Rightarrow> if n = 0 then bindR (deallocate f 12 (phys s)) (\<lambda>b. Inr (s\<lparr>phys := b\<rparr>)) else Inr s)"

definition unmap_page_and_free :: "'pt mapper \<Rightarrow> nat \<Rightarrow> nat \<Rightarrow> 'pt vm" where
  "unmap_page_and_free M root pg s =
     (case mp_translate M (tables s root) pg of
        None \<Rightarrow> Inr (True, s)
      | Some f \<Rightarrow>
          (case mp_unmap M pg (tables s root) of
             None \<Rightarrow> Inr (False, s)
           | Some (_, pt) \<Rightarrow>
               let s = s\<lparr>tables := (tables s)(root := pt)\<rparr> in
               if is_zero_frame f s then Inr (True, s)
               else bindR (drop_frame f s) (\<lambda>s. Inr (True, s))))"

definition unmap_page_and_free_2m :: "'pt mapper \<Rightarrow> nat \<Rightarrow> nat \<Rightarrow> 'pt vm" where
  "unmap_page_and_free_2m M root pg s =
     (case mp_unmap2m M pg (tables s root) of
        None \<Rightarrow> Inr (True, s)
      | Some (f, pt) \<Rightarrow>
          bindR (deallocate f 21 (phys s)) (\<lambda>b. Inr (True, s\<lparr>tables := (tables s)(root := pt), phys := b\<rparr>)))"

section \<open>New and dropped tables\<close>

definition pml4_index :: "nat \<Rightarrow> nat" where "pml4_index va = va div 2 ^ 39 mod 512"

definition USER_PML4_ENTRIES :: "nat list" where
  "USER_PML4_ENTRIES = [pml4_index 0x400000, pml4_index 0x710000000000, pml4_index USER_MMAP_BASE]"

definition is_user_pml4_entry :: "nat \<Rightarrow> bool" where
  "is_user_pml4_entry i \<longleftrightarrow> i \<in> set USER_PML4_ENTRIES"

text \<open>\<^verbatim>\<open>OwnedPageTable::new_user\<close>: the entries of the active table outside the user's.\<close>

definition copy_kernel_entries :: "'pt mapper \<Rightarrow> 'pt \<Rightarrow> 'pt" where
  "copy_kernel_entries M kernel_pml4 =
     fold (\<lambda>i pt. if mp_unused M kernel_pml4 i \<or> is_user_pml4_entry i then pt else mp_copy_entry M i kernel_pml4 pt)
       [0 ..< 512] (mp_zero M)"

definition new_user_table :: "'pt mapper \<Rightarrow> nat \<Rightarrow> 'pt vmm \<Rightarrow> (nat option \<times> 'pt vmm) res" where
  "new_user_table M cr3 s =
     bindR (allocate 12 (phys s)) (\<lambda>(r, b).
     let s = s\<lparr>phys := b\<rparr> in
     Inr (r, case r of
               Some root \<Rightarrow> s\<lparr>tables := (tables s)(root := copy_kernel_entries M (tables s cr3))\<rparr>
             | None \<Rightarrow> s))"

definition free_frame :: "nat \<Rightarrow> nat \<Rightarrow> 'pt vmm \<Rightarrow> 'pt vmm res" where
  "free_frame f order s = bindR (deallocate f order (phys s)) (\<lambda>b. Inr (s\<lparr>phys := b\<rparr>))"

fun release_data :: "nat list \<Rightarrow> 'pt vmm \<Rightarrow> 'pt vmm res" where
  "release_data [] s = Inr s"
| "release_data (f # fs) s = bindR (if is_zero_frame f s then Inr s else drop_frame f s) (release_data fs)"

fun release_pd :: "pd_entry list \<Rightarrow> 'pt vmm \<Rightarrow> 'pt vmm res" where
  "release_pd [] s = Inr s"
| "release_pd (HugeFrame f # es) s = bindR (free_frame f 21 s) (release_pd es)"
| "release_pd (PageTab pt fs # es) s = bindR (release_data fs s) (\<lambda>s. bindR (free_frame pt 12 s) (release_pd es))"

fun release_pdpt :: "(nat \<times> pd_entry list) list \<Rightarrow> 'pt vmm \<Rightarrow> 'pt vmm res" where
  "release_pdpt [] s = Inr s"
| "release_pdpt ((pd, es) # pds) s = bindR (release_pd es s) (\<lambda>s. bindR (free_frame pd 12 s) (release_pdpt pds))"

fun release_entries :: "'pt mapper \<Rightarrow> nat \<Rightarrow> nat list \<Rightarrow> 'pt vmm \<Rightarrow> 'pt vmm res" where
  "release_entries M root [] s = Inr s"
| "release_entries M root (i # is) s =
     (case mp_tree M (tables s root) i of
        None \<Rightarrow> release_entries M root is s
      | Some (pdpt, pds) \<Rightarrow>
          bindR (release_pdpt pds s) (\<lambda>s. bindR (free_frame pdpt 12 s) (release_entries M root is)))"

definition release_user_pages :: "'pt mapper \<Rightarrow> nat \<Rightarrow> 'pt vmm \<Rightarrow> 'pt vmm res" where
  "release_user_pages M root s = bindR (release_entries M root USER_PML4_ENTRIES s) (free_frame root 12)"

section \<open>Copy-on-write\<close>

text \<open>One page of \<^verbatim>\<open>AddressSpace::fork\<close>, with the flags of the area it is found in.\<close>

definition fork_page :: "'pt mapper \<Rightarrow> nat \<Rightarrow> nat \<Rightarrow> u64 \<Rightarrow> nat \<Rightarrow> 'pt vm" where
  "fork_page M parent child orig_flags addr s =
     (let shared_flags = orig_flags AND NOT PTE_WRITABLE in
      bindR (page_of M addr) (\<lambda>pg.
      case mp_translate M (tables s parent) pg of
        None \<Rightarrow> Inr (True, s)
      | Some f \<Rightarrow>
          if mp_translate M (tables s child) pg \<noteq> None then Inr (True, s)
          else
            bindV (if orig_flags AND PTE_WRITABLE \<noteq> 0 then update_page_flags M parent pg shared_flags s else Inr (True, s)) (\<lambda>s.
            bindV (map_existing_frame M child pg f shared_flags s) (\<lambda>s.
            Inr (True, inc_ref f s)))))"

fun fork_area :: "nat list \<Rightarrow> 'pt mapper \<Rightarrow> nat \<Rightarrow> nat \<Rightarrow> vma \<Rightarrow> 'pt vm" where
  "fork_area [] M parent child v s = Inr (True, s)"
| "fork_area (i # is) M parent child v s =
     bindR (mul64 i 4096) (\<lambda>off. bindR (add64 (vma_start v) off) (\<lambda>addr.
     bindV (fork_page M parent child (page_table_flags M v) addr s) (fork_area is M parent child v)))"

fun fork_areas :: "vmas \<Rightarrow> 'pt mapper \<Rightarrow> nat \<Rightarrow> nat \<Rightarrow> 'pt vm" where
  "fork_areas [] M parent child s = Inr (True, s)"
| "fork_areas (None # es) M parent child s = fork_areas es M parent child s"
| "fork_areas (Some v # es) M parent child s =
     bindV (fork_area [0 ..< size_pages v] M parent child v s) (fork_areas es M parent child)"

text \<open>The child's root and areas. On an error the new child is dropped, and its table with it.\<close>

definition as_fork :: "'pt mapper \<Rightarrow> nat \<Rightarrow> nat \<Rightarrow> mm \<Rightarrow> 'pt vmm \<Rightarrow> ((nat \<times> mm) option \<times> 'pt vmm) res" where
  "as_fork M cr3 parent m s =
     bindR (new_user_table M cr3 s) (\<lambda>(r, s).
     case r of
       None \<Rightarrow> Inr (None, s)
     | Some child \<Rightarrow>
         bindR (fork_areas (areas m) M parent child s) (\<lambda>(ok, s).
         if ok then Inr (Some (child, m), s)
         else bindR (release_user_pages M child s) (\<lambda>s. Inr (None, s))))"

definition copy_frame :: "nat \<Rightarrow> nat \<Rightarrow> 'pt vmm \<Rightarrow> 'pt vmm" where
  "copy_frame src dst s = s\<lparr>frames := poke (frames s) dst (peek (frames s) src 4096)\<rparr>"

definition handle_cow_fault :: "'pt mapper \<Rightarrow> nat \<Rightarrow> nat \<Rightarrow> u64 \<Rightarrow> 'pt vm" where
  "handle_cow_fault M root fault_addr fl s =
     bindR (page_of M fault_addr) (\<lambda>pg.
      case mp_translate M (tables s root) pg of
        None \<Rightarrow> Inr (False, s)
      | Some old \<Rightarrow>
          if is_zero_frame old s then
            bindR (allocate 12 (phys s)) (\<lambda>(r, b).
            let s = s\<lparr>phys := b\<rparr> in
            case r of
              None \<Rightarrow> Inr (False, s)
            | Some new \<Rightarrow> unmap_and_remap M root pg new fl (zero_fill new 4096 (set_ref new 1 s)))
          else if get_ref old s \<le> 1 then update_page_flags M root pg fl s
          else
            bindR (allocate 12 (phys s)) (\<lambda>(r, b).
            let s = s\<lparr>phys := b\<rparr> in
            case r of
              None \<Rightarrow> Inr (False, s)
            | Some new \<Rightarrow>
                bindR (unmap_and_remap M root pg new fl (copy_frame old new (set_ref new 1 s))) (\<lambda>(ok, s).
                bindR (drop_frame old s) (\<lambda>s. Inr (ok, s)))))"

section \<open>Demand paging\<close>

definition PF_PRESENT :: u64 where "PF_PRESENT = 1"
definition PF_WRITE :: u64 where "PF_WRITE = 2"
definition PF_USER :: u64 where "PF_USER = 4"
definition PF_RESERVED :: u64 where "PF_RESERVED = 8"

definition is_demand_pageable :: "u64 \<Rightarrow> bool" where
  "is_demand_pageable code \<longleftrightarrow> code AND PF_RESERVED = 0 \<and> code AND PF_PRESENT = 0"

text \<open>The page is mapped in the active table, whose root is \<open>cr3\<close>.\<close>

definition map_demand_page_2m :: "'pt mapper \<Rightarrow> nat \<Rightarrow> nat \<Rightarrow> vma \<Rightarrow> 'pt vm" where
  "map_demand_page_2m M cr3 fault_addr v s =
     bindR (page2m_of M (fault_addr div 0x200000 * 0x200000)) (\<lambda>pg.
     bindR (allocate 21 (phys s)) (\<lambda>(r, b).
     let s = s\<lparr>phys := b\<rparr> in
     case r of
       None \<Rightarrow> Inr (False, s)
     | Some f \<Rightarrow>
         let s = zero_fill f 0x200000 s in
         set_table cr3 (mp_map2m M pg f (page_table_flags M v) (tables s cr3) (phys s)) s))"

definition map_demand_page :: "'pt mapper \<Rightarrow> nat \<Rightarrow> nat \<Rightarrow> vma \<Rightarrow> bool \<Rightarrow> 'pt vm" where
  "map_demand_page M cr3 fault_addr v is_write s =
     (case kind v of
        Code \<Rightarrow> Inr (False, s)
      | Huge2M \<Rightarrow> map_demand_page_2m M cr3 fault_addr v s
      | _ \<Rightarrow>
          bindR (page_of M (fault_addr div 4096 * 4096)) (\<lambda>pg.
          if \<not> is_write then map_to M cr3 pg (zero_phys s) (PTE_PRESENT OR PTE_USER_ACCESSIBLE) s
          else
            bindR (allocate 12 (phys s)) (\<lambda>(r, b).
            let s = s\<lparr>phys := b\<rparr> in
            case r of
              None \<Rightarrow> Inr (False, s)
            | Some f \<Rightarrow> map_to M cr3 pg f (page_table_flags M v) (zero_fill f 4096 (set_ref f 1 s)))))"

text \<open>
  \<^verbatim>\<open>ensure_user_pages_mapped\<close>: the table examined is the one of the process, \<open>root\<close>; the one mapped into
  is the active one. The first argument counts the pages.
\<close>

fun ensure_pages :: "nat \<Rightarrow> 'pt mapper \<Rightarrow> nat \<Rightarrow> nat \<Rightarrow> vmas \<Rightarrow> nat \<Rightarrow> 'pt vmm \<Rightarrow> 'pt vmm res" where
  "ensure_pages 0 M cr3 root es page_addr s = Inr s"
| "ensure_pages (Suc n) M cr3 root es page_addr s =
     bindR (page_of M page_addr) (\<lambda>pg.
     bindR (if mp_translate M (tables s root) pg = None then
              bindR (vma_find page_addr es) (\<lambda>v.
              case v of
                Some v \<Rightarrow> bindR (map_demand_page M cr3 page_addr v True s) (\<lambda>(ok, s). Inr s)
              | None \<Rightarrow> Inr s)
            else Inr s) (\<lambda>s.
     bindR (add64 page_addr 0x1000) (\<lambda>next_addr. ensure_pages n M cr3 root es next_addr s)))"

definition ensure_user_pages_mapped :: "'pt mapper \<Rightarrow> nat \<Rightarrow> nat \<Rightarrow> vmas \<Rightarrow> nat \<Rightarrow> nat \<Rightarrow> 'pt vmm \<Rightarrow> 'pt vmm res" where
  "ensure_user_pages_mapped M cr3 root es addr len s =
     (let first_page = addr div 4096; last_page = min (addr + (len - 1)) (2 ^ 64 - 1) div 4096
      in ensure_pages (last_page + 1 - first_page) M cr3 root es (first_page * 4096) s)"

datatype fault_outcome = Retry | KillProcess | KernelPanic

text \<open>
  What the page fault handler does: the faulting instruction is retried, the process is killed, or the
  kernel panics. \<open>cur\<close> is the running process's page table root and areas, if there is one.
\<close>

definition page_fault_handler ::
  "'pt mapper \<Rightarrow> nat \<Rightarrow> (nat \<times> vmas) option \<Rightarrow> nat \<Rightarrow> u64 \<Rightarrow> 'pt vmm \<Rightarrow> (fault_outcome \<times> (nat \<times> vmas) option \<times> 'pt vmm) res" where
  "page_fault_handler M cr3 cur fault_addr code s =
     (let is_user = (code AND PF_USER \<noteq> 0); is_write = (code AND PF_WRITE \<noteq> 0);
          give_up = (if is_user then KillProcess else KernelPanic)
      in
      if code AND (PF_PRESENT OR PF_WRITE) = PF_PRESENT OR PF_WRITE \<and> code AND PF_RESERVED = 0 then
        (case cur of
           None \<Rightarrow> Inr (KillProcess, cur, s)
         | Some (root, es) \<Rightarrow>
             bindR (vma_find fault_addr es) (\<lambda>v.
             case v of
               None \<Rightarrow> Inr (KillProcess, cur, s)
             | Some v \<Rightarrow>
                 bindR (handle_cow_fault M root fault_addr (page_table_flags M v) s) (\<lambda>(ok, s).
                 Inr (if ok then Retry else KillProcess, cur, s))))
      else if \<not> is_demand_pageable code then Inr (give_up, cur, s)
      else
        (case cur of
           None \<Rightarrow> Inr (give_up, cur, s)
         | Some (root, es) \<Rightarrow>
             bindR (vma_find fault_addr es) (\<lambda>v.
             bindR (case v of Some v \<Rightarrow> Inr (Some v, es) | None \<Rightarrow> grow_stack fault_addr es) (\<lambda>(v, es).
             case v of
               None \<Rightarrow> Inr (give_up, Some (root, es), s)
             | Some v \<Rightarrow>
                 bindR (map_demand_page M cr3 fault_addr v is_write s) (\<lambda>(ok, s).
                 Inr (if ok then Retry else give_up, Some (root, es), s))))))"

section \<open>Unmapping\<close>

fun unmap_pages :: "nat list \<Rightarrow> 'pt mapper \<Rightarrow> nat \<Rightarrow> nat \<Rightarrow> 'pt vm" where
  "unmap_pages [] M root start s = Inr (True, s)"
| "unmap_pages (i # is) M root start s =
     bindR (mul64 i 4096) (\<lambda>off. bindR (add64 start off) (\<lambda>va. bindR (page_of M va) (\<lambda>pg.
     bindV (unmap_page_and_free M root pg s) (unmap_pages is M root start))))"

fun unmap_huge_pages :: "nat list \<Rightarrow> 'pt mapper \<Rightarrow> nat \<Rightarrow> nat \<Rightarrow> 'pt vm" where
  "unmap_huge_pages [] M root start s = Inr (True, s)"
| "unmap_huge_pages (i # is) M root start s =
     bindR (mul64 i 0x200000) (\<lambda>off. bindR (add64 start off) (\<lambda>va. bindR (page2m_of M va) (\<lambda>pg.
     bindV (unmap_page_and_free_2m M root pg s) (unmap_huge_pages is M root start))))"

definition sys_munmap :: "'pt mapper \<Rightarrow> nat \<Rightarrow> nat \<Rightarrow> nat \<Rightarrow> mm \<Rightarrow> 'pt vmm \<Rightarrow> (bool \<times> mm \<times> 'pt vmm) res" where
  "sys_munmap M root addr len m s =
     (if addr mod 4096 \<noteq> 0 \<or> len = 0 then Inr (False, m, s)
      else bindR (add64 len 4095) (\<lambda>l.
        case vma_remove addr (areas m) of
          Inl _ \<Rightarrow> Inr (False, m, s)
        | Inr (v, es) \<Rightarrow>
            if size_pages v \<noteq> l div 4096 then
              Inr (False, m\<lparr>areas := case vma_add v es of Inr es \<Rightarrow> es | Inl _ \<Rightarrow> es\<rparr>, s)
            else
              bindR (if kind v = Huge2M then unmap_huge_pages [0 ..< size_pages v div 512] M root (vma_start v) s
                     else unmap_pages [0 ..< size_pages v] M root (vma_start v) s) (\<lambda>(ok, s).
              Inr (ok, m\<lparr>areas := es\<rparr>, s))))"

text \<open>The freeing of a dead thread's stack from the timer; \<open>locked\<close> tells whether the allocator's lock was free.\<close>

definition try_free_huge_vma :: "'pt mapper \<Rightarrow> bool \<Rightarrow> nat \<Rightarrow> nat \<Rightarrow> nat \<Rightarrow> vmas \<Rightarrow> 'pt vmm \<Rightarrow> (bool \<times> vmas \<times> 'pt vmm) res" where
  "try_free_huge_vma M locked root start n es s =
     (if \<not> locked then Inr (False, es, s)
      else bindR (unmap_huge_pages [0 ..< n div 512] M root start s) (\<lambda>(_, s).
        Inr (True, case vma_remove start es of Inr (_, es) \<Rightarrow> es | Inl _ \<Rightarrow> es, s)))"

end
