(* ===== verification/Cow_Inv.thy ===== *)
theory Cow_Inv
  imports Cow
begin

unbundle bit_operations_syntax

text \<open>
  What the page mapper is documented to do, the invariant of copy-on-write (a frame is counted as often as it is
  mapped, and a page is writable only if nobody else maps its frame), and the step in which a page gets a
  frame of its own.
\<close>

section \<open>What the mapper is documented to do\<close>

text \<open>The flags of user pages: present, perhaps writable, perhaps for user mode.\<close>

definition leaf_flags :: "u64 \<Rightarrow> bool" where
  "leaf_flags fl \<longleftrightarrow> fl AND NOT 7 = 0 \<and> fl AND PTE_PRESENT \<noteq> 0"

definition user_page :: "nat \<Rightarrow> bool" where
  "user_page pg \<longleftrightarrow> pg < 2 ^ 35 \<and> is_user_pml4_entry (pml4_index (pg * 4096))"

definition map_law :: "'pt mapper \<Rightarrow> (nat \<Rightarrow> nat \<Rightarrow> u64 \<Rightarrow> 'pt \<Rightarrow> buddy \<Rightarrow> (bool \<times> 'pt \<times> buddy) res) \<Rightarrow> bool" where
  "map_law M mp \<longleftrightarrow>
     (\<forall>pg f fl pt b. leaf_flags fl \<longrightarrow> buddy_inv b \<longrightarrow> mp_translate M pt pg = None \<longrightarrow>
        (\<exists>ok pt' b'. mp pg f fl pt b = Inr (ok, pt', b') \<and> buddy_inv b' \<and> free_mem b' \<subseteq> free_mem b \<and>
           mp_translate M pt' = (if ok then (mp_translate M pt)(pg := Some f) else mp_translate M pt) \<and>
           mp_flags M pt' = (if ok then (mp_flags M pt)(pg := fl) else mp_flags M pt)))"

text \<open>Unmapping a page keeps the tables on the way to it, so that it can be mapped again without a new frame.\<close>

definition unmap_law :: "'pt mapper \<Rightarrow> bool" where
  "unmap_law M \<longleftrightarrow>
     (\<forall>pg f pt. mp_translate M pt pg = Some f \<longrightarrow>
        (\<exists>pt'. mp_unmap M pg pt = Some (f, pt') \<and> mp_translate M pt' = (mp_translate M pt)(pg := None) \<and>
           (\<forall>q. q \<noteq> pg \<longrightarrow> mp_flags M pt' q = mp_flags M pt q) \<and>
           (\<forall>f fl b. leaf_flags fl \<longrightarrow> buddy_inv b \<longrightarrow> (\<exists>pt''. mp_map M pg f fl pt' b = Inr (True, pt'', b)))))"

definition update_law :: "'pt mapper \<Rightarrow> bool" where
  "update_law M \<longleftrightarrow>
     (\<forall>pg f fl pt. mp_translate M pt pg = Some f \<longrightarrow> leaf_flags fl \<longrightarrow>
        (\<exists>pt'. mp_update M pg fl pt = Some pt' \<and> mp_translate M pt' = mp_translate M pt \<and>
           mp_flags M pt' = (mp_flags M pt)(pg := fl)))"

definition entry_law :: "'pt mapper \<Rightarrow> bool" where
  "entry_law M \<longleftrightarrow>
     (\<forall>pg. mp_translate M (mp_zero M) pg = None) \<and>
     (\<forall>i src pt pg. pml4_index (pg * 4096) \<noteq> i \<longrightarrow>
        mp_translate M (mp_copy_entry M i src pt) pg = mp_translate M pt pg)"

definition mapper_ok :: "'pt mapper \<Rightarrow> bool" where
  "mapper_ok M \<longleftrightarrow>
     (\<forall>a. a < 2 ^ 47 \<longrightarrow> mp_virt_addr M a = Inr a) \<and> (\<forall>fl. leaf_flags fl \<longrightarrow> mp_truncate M fl = fl) \<and>
     map_law M (mp_map M) \<and> (\<forall>tf. map_law M (\<lambda>pg f fl. mp_map_table_flags M pg f fl tf)) \<and>
     unmap_law M \<and> update_law M \<and> entry_law M"

section \<open>The invariant\<close>

abbreviation frame_at :: "'pt mapper \<Rightarrow> 'pt vmm \<Rightarrow> nat \<Rightarrow> nat \<Rightarrow> nat option" where
  "frame_at M s r p \<equiv> mp_translate M (tables s r) p"

definition writable :: "'pt mapper \<Rightarrow> 'pt vmm \<Rightarrow> nat \<Rightarrow> nat \<Rightarrow> bool" where
  "writable M s r p \<longleftrightarrow> frame_at M s r p \<noteq> None \<and> mp_flags M (tables s r) p AND PTE_WRITABLE \<noteq> 0"

definition page_bytes :: "'pt mapper \<Rightarrow> 'pt vmm \<Rightarrow> nat \<Rightarrow> nat \<Rightarrow> u8 list option" where
  "page_bytes M s r p = map_option (\<lambda>f. peek (frames s) f 4096) (frame_at M s r p)"

definition users :: "'pt mapper \<Rightarrow> nat set \<Rightarrow> 'pt vmm \<Rightarrow> nat \<Rightarrow> (nat \<times> nat) set" where
  "users M R s f = {(r, p). r \<in> R \<and> user_page p \<and> frame_at M s r p = Some f}"

text \<open>A frame in use, and the frame of the shared zeros; \<open>F\<close> is the free memory.\<close>

definition held :: "nat set \<Rightarrow> nat \<Rightarrow> bool" where
  "held F f \<longleftrightarrow> 4096 dvd f \<and> f div 4096 < MAX_FRAMES \<and> disjnt {f ..< f + 4096} F"

definition entry_ok :: "'pt mapper \<Rightarrow> nat set \<Rightarrow> 'pt vmm \<Rightarrow> nat \<Rightarrow> nat \<Rightarrow> nat \<Rightarrow> bool" where
  "entry_ok M R s r p f \<longleftrightarrow>
     held (free_mem (phys s)) f \<and>
     (if f = zero_phys s then \<not> writable M s r p
      else refcounts s (f div 4096) = card (users M R s f) \<and> (writable M s r p \<longrightarrow> users M R s f = {(r, p)}))"

definition zero_page :: "u8 list" where "zero_page = replicate 4096 0"

lemma length_zero_page: "length zero_page = 4096"
  unfolding zero_page_def by (rule length_replicate)

definition cow_inv :: "'pt mapper \<Rightarrow> nat set \<Rightarrow> 'pt vmm \<Rightarrow> bool" where
  "cow_inv M R s \<longleftrightarrow>
     buddy_inv (phys s) \<and> free_mem (phys s) \<subseteq> {..< MAX_FRAMES * 4096} \<and>
     zero_phys s \<noteq> 0 \<and> held (free_mem (phys s)) (zero_phys s) \<and> peek (frames s) (zero_phys s) 4096 = zero_page \<and>
     finite R \<and> (\<forall>r \<in> R. r \<notin> free_mem (phys s)) \<and>
     (\<forall>r p f. r \<in> R \<longrightarrow> user_page p \<longrightarrow> frame_at M s r p = Some f \<longrightarrow> entry_ok M R s r p f)"

lemma finite_user_pages: "finite {p. user_page p}"
  by (rule finite_subset [of _ "{..< 2 ^ 35}"]) (auto simp: user_page_def)

lemma finite_users: "finite R \<Longrightarrow> finite (users M R s f)"
  by (rule finite_subset [of _ "R \<times> {p. user_page p}"]) (auto simp: users_def finite_user_pages)

lemma held_disjoint:
  assumes "held F f" "held G g" "f \<noteq> g"
  shows "f + 4096 \<le> g \<or> g + 4096 \<le> f"
proof -
  obtain k l where kl: "f = 4096 * k" "g = 4096 * l" using assms(1,2) unfolding held_def dvd_def by blast
  then have "k < l \<or> l < k" using assms(3) by auto
  then show ?thesis unfolding kl by linarith
qed

lemma held_idx: "held F f \<Longrightarrow> held G g \<Longrightarrow> f div 4096 = g div 4096 \<Longrightarrow> f = g"
  unfolding held_def by (metis dvd_div_mult_self)

lemma held_mono: "held F f \<Longrightarrow> G \<subseteq> F \<Longrightarrow> held G f"
  by (auto simp: held_def disjnt_def)

lemma cow_invD:
  assumes "cow_inv M R s" "r \<in> R" "user_page p" "frame_at M s r p = Some f"
  shows "entry_ok M R s r p f" "held (free_mem (phys s)) f"
  using assms by (auto simp: cow_inv_def entry_ok_def)

text \<open>A frame just allocated.\<close>

definition fresh :: "'pt vmm \<Rightarrow> buddy \<Rightarrow> nat \<Rightarrow> bool" where
  "fresh s b new \<longleftrightarrow> held (free_mem b) new \<and> {new ..< new + 4096} \<subseteq> free_mem (phys s) \<and>
     buddy_inv b \<and> free_mem b \<subseteq> free_mem (phys s)"

lemma allocate_fresh:
  assumes "buddy_inv (phys s)" "free_mem (phys s) \<subseteq> {..< MAX_FRAMES * 4096}" "allocate 12 (phys s) = Inr (Some new, b)"
  shows "fresh s b new"
proof -
  have post: "buddy_inv b" "2 ^ 12 dvd new" "{new ..< new + 2 ^ 12} \<subseteq> free_mem (phys s)"
    "free_mem b = free_mem (phys s) - {new ..< new + 2 ^ 12}"
    using buddy_phys.palloc_some [OF assms(1,3)] by auto
  then have "new \<in> free_mem (phys s)" by auto
  with assms(2) have "new < MAX_FRAMES * 4096" by auto
  then show ?thesis using post by (auto simp: fresh_def held_def disjnt_def)
qed

lemma fresh_neq:
  assumes "fresh s b new" "held (free_mem (phys s)) f"
  shows "f \<noteq> new"
proof
  assume "f = new"
  moreover have "new \<in> {new ..< new + 4096}" by simp
  ultimately show False using assms unfolding fresh_def held_def disjnt_def by blast
qed

text \<open>
  The step shared by both copying branches of a fault: the page \<open>(root, pg)\<close>, whose frame was \<open>old\<close>, now
  has the fresh frame \<open>new\<close>, or none if the mapping failed. Nothing else is mapped differently.
\<close>

definition remapped :: "'pt mapper \<Rightarrow> nat \<Rightarrow> nat \<Rightarrow> nat \<Rightarrow> bool \<Rightarrow> 'pt vmm \<Rightarrow> 'pt vmm \<Rightarrow> bool" where
  "remapped M root pg new ok s s' \<longleftrightarrow>
     (\<forall>r p. frame_at M s' r p = (if r = root \<and> p = pg then if ok then Some new else None else frame_at M s r p)) \<and>
     (\<forall>r p. (r, p) \<noteq> (root, pg) \<longrightarrow> mp_flags M (tables s' r) p = mp_flags M (tables s r) p) \<and>
     fresh s (phys s') new \<and> zero_phys s' = zero_phys s \<and>
     (\<forall>x. x < new \<or> new + 4096 \<le> x \<longrightarrow> frames s' x = frames s x)"

lemma remappedD:
  assumes "remapped M root pg new ok s s'"
  shows "fresh s (phys s') new" "zero_phys s' = zero_phys s" "held (free_mem (phys s')) new"
    "free_mem (phys s') \<subseteq> free_mem (phys s)" "buddy_inv (phys s')"
    "x < new \<or> new + 4096 \<le> x \<Longrightarrow> frames s' x = frames s x"
  using assms unfolding remapped_def fresh_def by blast+

lemma remapped_at:
  "remapped M root pg new ok s s' \<Longrightarrow>
     frame_at M s' r p = (if r = root \<and> p = pg then if ok then Some new else None else frame_at M s r p)"
  unfolding remapped_def by blast

lemma remapped_users:
  assumes "remapped M root pg new ok s s'" "f \<noteq> new"
  shows "users M R s' f = users M R s f - {(root, pg)}"
  using assms(2) by (auto simp: users_def remapped_at [OF assms(1)] split: if_splits)

lemma remapped_users_new:
  assumes "cow_inv M R s" "remapped M root pg new ok s s'" "root \<in> R" "user_page pg"
  shows "users M R s' new = (if ok then {(root, pg)} else {})"
proof -
  have "frame_at M s r p \<noteq> Some new" if "r \<in> R" "user_page p" for r p
    using cow_invD(2) [OF assms(1) that] fresh_neq [OF remappedD(1) [OF assms(2)]] by blast
  with assms(3,4) show ?thesis by (auto simp: users_def remapped_at [OF assms(2)] split: if_splits)
qed

lemma remapped_writable:
  assumes "remapped M root pg new ok s s'" "(r, p) \<noteq> (root, pg)"
  shows "writable M s' r p = writable M s r p" "frame_at M s' r p = frame_at M s r p"
proof -
  have "mp_flags M (tables s' r) p = mp_flags M (tables s r) p" using assms unfolding remapped_def by blast
  moreover show "frame_at M s' r p = frame_at M s r p" using assms(2) remapped_at [OF assms(1), of r p] by auto
  ultimately show "writable M s' r p = writable M s r p" by (simp add: writable_def)
qed

lemma remapped_bytes:
  assumes "remapped M root pg new ok s s'" "held (free_mem (phys s)) f"
  shows "peek (frames s') f 4096 = peek (frames s) f 4096"
proof (rule peek_cong)
  fix x assume "f \<le> x" "x < f + 4096"
  moreover have "f + 4096 \<le> new \<or> new + 4096 \<le> f"
    by (rule held_disjoint [OF assms(2) remappedD(3) [OF assms(1)] fresh_neq [OF remappedD(1) [OF assms(1)] assms(2)]])
  ultimately have "x < new \<or> new + 4096 \<le> x" by linarith
  then show "frames s' x = frames s x" by (rule remappedD(6) [OF assms(1)])
qed

lemma remapped_entry_other:
  assumes inv: "cow_inv M R s" and re: "remapped M root pg new ok s s'" and "root \<in> R" "user_page pg"
    and at: "frame_at M s root pg = Some old"
    and cnt: "\<And>g. held (free_mem (phys s)) g \<Longrightarrow> g \<noteq> zero_phys s \<Longrightarrow>
        refcounts s' (g div 4096) = refcounts s (g div 4096) - (if g = old then 1 else 0)"
    and rp: "r \<in> R" "user_page p" "frame_at M s r p = Some f" "(r, p) \<noteq> (root, pg)"
  shows "entry_ok M R s' r p f"
proof -
  note e = cow_invD [OF inv rp(1-3)]
  have f: "f \<noteq> new" by (rule fresh_neq [OF remappedD(1) [OF re] e(2)])
  have held: "held (free_mem (phys s')) f"
    by (rule held_mono [OF e(2) remappedD(4) [OF re]])
  have fin: "finite (users M R s f)" using inv by (simp add: cow_inv_def finite_users)
  have mem: "(root, pg) \<in> users M R s f \<longleftrightarrow> f = old" using at assms(3,4) by (auto simp: users_def)
  note z = remappedD(2) [OF re]
  show ?thesis
  proof (cases "f = zero_phys s")
    case True
    then show ?thesis using e(1) held remapped_writable(1) [OF re rp(4)] z by (simp add: entry_ok_def)
  next
    case False
    have "refcounts s' (f div 4096) = card (users M R s' f)"
      using cnt [OF e(2) False] e(1) False fin mem
      by (simp add: entry_ok_def remapped_users [OF re f] card_Diff_singleton_if)
    moreover have "users M R s' f = {(r, p)}" if "writable M s' r p"
      using e(1) False that remapped_writable(1) [OF re rp(4)] rp(4)
      by (auto simp: entry_ok_def remapped_users [OF re f])
    ultimately show ?thesis using held z False by (simp add: entry_ok_def)
  qed
qed

lemma remapped_inv:
  assumes inv: "cow_inv M R s" and re: "remapped M root pg new ok s s'" and root: "root \<in> R" "user_page pg"
    and at: "frame_at M s root pg = Some old"
    and cnt: "\<And>g. held (free_mem (phys s)) g \<Longrightarrow> g \<noteq> zero_phys s \<Longrightarrow>
        refcounts s' (g div 4096) = refcounts s (g div 4096) - (if g = old then 1 else 0)"
    and new: "refcounts s' (new div 4096) = 1"
  shows "cow_inv M R s'"
proof -
  have z: "held (free_mem (phys s)) (zero_phys s)" using inv by (simp add: cow_inv_def)
  have sub: "free_mem (phys s') \<subseteq> free_mem (phys s)" "zero_phys s' = zero_phys s" "buddy_inv (phys s')"
    "held (free_mem (phys s')) new" "zero_phys s \<noteq> new"
    using remappedD(2-5) [OF re] fresh_neq [OF remappedD(1) [OF re] z] by auto
  have "entry_ok M R s' r p f" if rp: "r \<in> R" "user_page p" "frame_at M s' r p = Some f" for r p f
  proof (cases "(r, p) = (root, pg)")
    case True
    with rp(3) have "ok" "f = new" by (auto simp: remapped_at [OF re] split: if_splits)
    then show ?thesis
      using True sub new remapped_users_new [OF inv re root] by (simp add: entry_ok_def)
  next
    case False
    then show ?thesis
      using remapped_entry_other [OF inv re root at cnt rp(1,2)] rp(3) remapped_writable(2) [OF re False] by simp
  qed
  moreover have "peek (frames s') (zero_phys s) 4096 = zero_page"
    using remapped_bytes [OF re z] inv by (simp add: cow_inv_def)
  moreover have "held (free_mem (phys s')) (zero_phys s)" using held_mono [OF z sub(1)] .
  ultimately show ?thesis using inv sub unfolding cow_inv_def by auto
qed

section \<open>Faults on shared pages\<close>

lemma map_lawD:
  assumes "map_law M mp" "leaf_flags fl" "buddy_inv b" "mp_translate M pt pg = None"
  shows "\<exists>ok pt' b'. mp pg f fl pt b = Inr (ok, pt', b') \<and> buddy_inv b' \<and> free_mem b' \<subseteq> free_mem b \<and>
    mp_translate M pt' = (if ok then (mp_translate M pt)(pg := Some f) else mp_translate M pt) \<and>
    mp_flags M pt' = (if ok then (mp_flags M pt)(pg := fl) else mp_flags M pt)"
  by (rule assms(1) [unfolded map_law_def, rule_format, OF assms(2-4)])

lemma map_lawD_True:
  assumes "map_law M mp" "leaf_flags fl" "buddy_inv b" "mp_translate M pt pg = None" "mp pg f fl pt b = Inr (True, pt', b')"
  shows "mp_translate M pt' = (mp_translate M pt)(pg := Some f)" "mp_flags M pt' = (mp_flags M pt)(pg := fl)"
    "buddy_inv b'" "free_mem b' \<subseteq> free_mem b"
  using map_lawD [OF assms(1-4), of f] assms(5) by auto

lemma unmap_lawD:
  assumes "unmap_law M" "mp_translate M pt pg = Some f"
  shows "\<exists>pt'. mp_unmap M pg pt = Some (f, pt') \<and> mp_translate M pt' = (mp_translate M pt)(pg := None) \<and>
    (\<forall>q. q \<noteq> pg \<longrightarrow> mp_flags M pt' q = mp_flags M pt q) \<and>
    (\<forall>f fl b. leaf_flags fl \<longrightarrow> buddy_inv b \<longrightarrow> (\<exists>pt''. mp_map M pg f fl pt' b = Inr (True, pt'', b)))"
  by (rule assms(1) [unfolded unmap_law_def, rule_format, OF assms(2)])

lemma unmap_and_remap_ok:
  assumes M: "mapper_ok M" and fl: "leaf_flags fl" and b: "buddy_inv (phys s)" and at: "frame_at M s root pg = Some old"
  shows "\<exists>pt. unmap_and_remap M root pg f fl s = Inr (True, s\<lparr>tables := (tables s)(root := pt)\<rparr>) \<and>
     mp_translate M pt = (mp_translate M (tables s root))(pg := Some f) \<and>
     mp_flags M pt pg = fl \<and> (\<forall>q. q \<noteq> pg \<longrightarrow> mp_flags M pt q = mp_flags M (tables s root) q)"
proof -
  from M have u: "unmap_law M" and m: "map_law M (mp_map M)" by (simp_all add: mapper_ok_def)
  from unmap_lawD [OF u at] obtain pt1 where 1: "mp_unmap M pg (tables s root) = Some (old, pt1)"
    "mp_translate M pt1 = (mp_translate M (tables s root))(pg := None)"
    "\<forall>q. q \<noteq> pg \<longrightarrow> mp_flags M pt1 q = mp_flags M (tables s root) q"
    "\<forall>f fl b. leaf_flags fl \<longrightarrow> buddy_inv b \<longrightarrow> (\<exists>pt''. mp_map M pg f fl pt1 b = Inr (True, pt'', b))" by (elim exE conjE)
  from 1(4) [rule_format, OF fl b] obtain pt2 where 2: "mp_map M pg f fl pt1 (phys s) = Inr (True, pt2, phys s)" ..
  have n: "mp_translate M pt1 pg = None" using 1(2) by simp
  note 3 = map_lawD_True(1,2) [OF m fl b n 2]
  have "unmap_and_remap M root pg f fl s = Inr (True, s\<lparr>tables := (tables s)(root := pt2)\<rparr>)"
    by (simp add: unmap_and_remap_def map_to_def set_table_def 1(1) 2)
  moreover have "mp_translate M pt2 = (mp_translate M (tables s root))(pg := Some f)" by (simp add: 3(1) 1(2))
  moreover have "mp_flags M pt2 pg = fl" "\<forall>q. q \<noteq> pg \<longrightarrow> mp_flags M pt2 q = mp_flags M (tables s root) q"
    using 1(3) by (simp_all add: 3(2))
  ultimately show ?thesis by blast
qed

lemma zero_fill_simps [simp]:
  "tables (zero_fill f n s) = tables s" "refcounts (zero_fill f n s) = refcounts s"
  "zero_phys (zero_fill f n s) = zero_phys s" "phys (zero_fill f n s) = phys s"
  by (simp_all add: zero_fill_def)

lemma frames_zero_fill_n: "frames (zero_fill f n s) = poke (frames s) f (replicate n 0)"
  by (simp add: zero_fill_def)

lemma frames_zero_fill: "frames (zero_fill f 4096 s) = poke (frames s) f zero_page"
  unfolding zero_page_def by (rule frames_zero_fill_n)

lemma copy_frame_simps [simp]:
  "tables (copy_frame f g s) = tables s" "refcounts (copy_frame f g s) = refcounts s"
  "zero_phys (copy_frame f g s) = zero_phys s" "phys (copy_frame f g s) = phys s"
  "frames (copy_frame f g s) = poke (frames s) g (peek (frames s) f 4096)"
  by (simp_all add: copy_frame_def)

lemma set_ref_simps [simp]:
  "tables (set_ref f n s) = tables s" "frames (set_ref f n s) = frames s"
  "zero_phys (set_ref f n s) = zero_phys s" "phys (set_ref f n s) = phys s"
  by (simp_all add: set_ref_def)

lemma set_ref_held: "held F f \<Longrightarrow> refcounts (set_ref f n s) = (refcounts s)(f div 4096 := n)"
  by (simp add: set_ref_def held_def frame_idx_def)

text \<open>What a successful fault leaves.\<close>

definition fault_post :: "'pt mapper \<Rightarrow> nat set \<Rightarrow> nat \<Rightarrow> nat \<Rightarrow> 'pt vmm \<Rightarrow> 'pt vmm \<Rightarrow> bool" where
  "fault_post M R root pg s s' \<longleftrightarrow>
     cow_inv M R s' \<and> writable M s' root pg \<and>
     (\<forall>r p. r \<in> R \<and> user_page p \<longrightarrow> page_bytes M s' r p = page_bytes M s r p)"

lemma remapped_post:
  assumes inv: "cow_inv M R s" and re: "remapped M root pg new True s s'" and root: "root \<in> R" "user_page pg"
    and at: "frame_at M s root pg = Some old"
    and cnt: "\<And>g. held (free_mem (phys s)) g \<Longrightarrow> g \<noteq> zero_phys s \<Longrightarrow>
        refcounts s' (g div 4096) = refcounts s (g div 4096) - (if g = old then 1 else 0)"
    and new: "refcounts s' (new div 4096) = 1"
    and fl: "mp_flags M (tables s' root) pg AND PTE_WRITABLE \<noteq> 0"
    and cp: "peek (frames s') new 4096 = peek (frames s) old 4096"
  shows "fault_post M R root pg s s'"
proof -
  have "page_bytes M s' r p = page_bytes M s r p" if rp: "r \<in> R" "user_page p" for r p
  proof (cases "(r, p) = (root, pg)")
    case True
    then show ?thesis using at cp by (simp add: page_bytes_def remapped_at [OF re])
  next
    case False
    then show ?thesis
      using remapped_writable(2) [OF re False] remapped_bytes [OF re cow_invD(2) [OF inv rp]]
      by (cases "frame_at M s r p") (auto simp: page_bytes_def)
  qed
  moreover have "writable M s' root pg" using fl by (simp add: writable_def remapped_at [OF re])
  ultimately show ?thesis using remapped_inv [OF inv re root at cnt new] by (simp add: fault_post_def)
qed

section \<open>A sample\<close>

text \<open>A mapper whose tables are functions, and two processes that share a frame after a fork.\<close>

type_synonym flat_table = "nat \<Rightarrow> (nat \<times> u64) option"

definition flat_map :: "nat \<Rightarrow> nat \<Rightarrow> u64 \<Rightarrow> flat_table \<Rightarrow> buddy \<Rightarrow> (bool \<times> flat_table \<times> buddy) res" where
  "flat_map pg f fl pt b = Inr (if pt pg = None then (True, pt(pg := Some (f, fl)), b) else (False, pt, b))"

definition flat_mapper :: "flat_table mapper" where
  "flat_mapper =
     \<lparr>mp_virt_addr = (\<lambda>a. if a < 2 ^ 47 then Inr a else Inl Panic), mp_truncate = id, mp_zero = (\<lambda>_. None), mp_unused = (\<lambda>_ _. False),
      mp_copy_entry = (\<lambda>i src pt pg. if pml4_index (pg * 4096) = i then src pg else pt pg), mp_tree = (\<lambda>_ _. None),
      mp_translate = (\<lambda>pt pg. map_option fst (pt pg)), mp_flags = (\<lambda>pt pg. case pt pg of Some (_, fl) \<Rightarrow> fl | None \<Rightarrow> 0),
      mp_map = flat_map, mp_map_table_flags = (\<lambda>pg f fl _. flat_map pg f fl), mp_map2m = (\<lambda>_ _ _ pt b. Inr (False, pt, b)),
      mp_unmap = (\<lambda>pg pt. map_option (\<lambda>(f, _). (f, pt(pg := None))) (pt pg)), mp_unmap2m = (\<lambda>_ _. None),
      mp_update = (\<lambda>pg fl pt. map_option (\<lambda>(f, _). pt(pg := Some (f, fl))) (pt pg))\<rparr>"

lemma flat_translate: "mp_translate flat_mapper pt = map_option fst \<circ> pt"
  by (rule ext) (simp add: flat_mapper_def)

lemma flat_flags: "mp_flags flat_mapper pt pg = (case pt pg of Some (_, fl) \<Rightarrow> fl | None \<Rightarrow> 0)"
  by (simp add: flat_mapper_def)

lemma flat_flags_upd: "mp_flags flat_mapper (pt(pg := Some (f, fl))) = (mp_flags flat_mapper pt)(pg := fl)"
  by (rule ext) (simp add: flat_flags)

lemma flat_translate_upd:
  "map_option fst \<circ> pt(pg := Some (f, fl)) = (map_option fst \<circ> pt)(pg := Some f)" "map_option fst \<circ> pt(pg := None) = (map_option fst \<circ> pt)(pg := None)"
  by (rule ext, simp)+

lemma flat_map_law: "map_law flat_mapper flat_map"
  unfolding map_law_def
proof (intro allI impI, goal_cases)
  case (1 pg f fl pt b)
  then have "pt pg = None" by (simp add: flat_translate)
  with 1(2) show ?case
    by (intro exI [of _ True] exI [of _ "pt(pg := Some (f, fl))"] exI [of _ b]) (simp add: flat_map_def flat_flags_upd flat_translate flat_translate_upd)
qed

lemma flat_unmap_law: "unmap_law flat_mapper"
  unfolding unmap_law_def
proof (intro allI impI, goal_cases)
  case (1 pg f pt)
  then obtain fl where "pt pg = Some (f, fl)" by (auto simp: flat_translate)
  then show ?case by (intro exI [of _ "pt(pg := None)"]) (simp add: flat_translate flat_translate_upd flat_flags, simp add: flat_mapper_def flat_map_def)
qed

lemma flat_update_law: "update_law flat_mapper"
  unfolding update_law_def
proof (intro allI impI, goal_cases)
  case (1 pg f fl pt)
  then obtain fl' where pg: "pt pg = Some (f, fl')" by (auto simp: flat_translate)
  then have "(map_option fst \<circ> pt)(pg := Some f) = map_option fst \<circ> pt" by (intro ext) simp
  with pg show ?case
    by (intro exI [of _ "pt(pg := Some (f, fl))"] conjI) (simp add: flat_mapper_def, simp add: flat_translate flat_translate_upd, simp only: flat_flags_upd)
qed

lemma flat_mapper_ok: "mapper_ok flat_mapper"
  unfolding mapper_ok_def
proof (intro conjI)
  show "map_law flat_mapper (mp_map flat_mapper)" "\<forall>tf. map_law flat_mapper (\<lambda>pg f fl. mp_map_table_flags flat_mapper pg f fl tf)"
    using flat_map_law by (simp_all add: flat_mapper_def)
  show "entry_law flat_mapper" by (simp add: entry_law_def flat_mapper_def)
  show "\<forall>a < 2 ^ 47. mp_virt_addr flat_mapper a = Inr a" "\<forall>fl. leaf_flags fl \<longrightarrow> mp_truncate flat_mapper fl = fl"
    by (simp_all add: flat_mapper_def)
qed (rule flat_unmap_law flat_update_law)+

definition sample_vmm :: "flat_table vmm" where
  "sample_vmm = \<lparr>tables = (\<lambda>r. if r = 16384 \<or> r = 20480 then [1024 \<mapsto> (24576, 5)] else Map.empty),
     refcounts = (\<lambda>_. 0)(6 := 2), frames = (\<lambda>_. 0), zero_phys = 28672, phys = demo_buddy\<rparr>"

lemma sample_user_page: "user_page 1024"
  by (simp add: user_page_def is_user_pml4_entry_def USER_PML4_ENTRIES_def pml4_index_def USER_MMAP_BASE_def)

lemma sample_at [simp]:
  "frame_at flat_mapper sample_vmm r p = (if (r = 16384 \<or> r = 20480) \<and> p = 1024 then Some 24576 else None)"
  by (simp add: sample_vmm_def flat_translate)

lemma sample_not_writable [simp]: "\<not> writable flat_mapper sample_vmm r p"
  by (simp add: writable_def sample_vmm_def flat_flags PTE_WRITABLE_def)

lemma sample_users:
  "users flat_mapper {16384, 20480} sample_vmm f = (if f = 24576 then {(16384, 1024), (20480, 1024)} else {})"
  using sample_user_page by (auto simp: users_def split: if_splits)

lemma peek_zeros: "peek (\<lambda>_. 0) a n = replicate n 0"
  by (simp add: peek_def map_replicate_const)

lemma sample_cow_inv: "cow_inv flat_mapper {16384, 20480} sample_vmm"
proof -
  have held: "held (free_mem demo_buddy) f" if "f = 24576 \<or> f = 28672" for f
    using that unfolding held_def demo_facts MAX_FRAMES_def disjnt_iff by (elim disjE) simp_all
  have eqs: "phys sample_vmm = demo_buddy" "zero_phys sample_vmm = 28672" "refcounts sample_vmm 6 = 2" "frames sample_vmm = (\<lambda>_. 0)"
    by (simp_all add: sample_vmm_def)
  have e: "entry_ok flat_mapper {16384, 20480} sample_vmm r p 24576" for r p
    using held unfolding entry_ok_def sample_users by (simp add: eqs)
  have z: "peek (frames sample_vmm) 28672 4096 = zero_page" unfolding eqs zero_page_def by (rule peek_zeros)
  show ?thesis unfolding cow_inv_def eqs(1,2)
  proof (intro conjI allI impI)
    fix r p f assume "frame_at flat_mapper sample_vmm r p = Some f"
    then show "entry_ok flat_mapper {16384, 20480} sample_vmm r p f" using e by (simp split: if_splits)
  next
    show "buddy_inv demo_buddy" by (rule demo_facts(1))
    show "free_mem demo_buddy \<subseteq> {..< MAX_FRAMES * 4096}" unfolding demo_facts MAX_FRAMES_def by (rule subsetI) simp
    show "held (free_mem demo_buddy) 28672" by (rule held) simp
    show "peek (frames sample_vmm) 28672 4096 = zero_page" by (rule z)
    show "\<forall>r \<in> {16384, 20480}. r \<notin> free_mem demo_buddy" unfolding demo_facts by simp
  qed simp_all
qed

end
