(* ===== verification/Cow_Props.thy ===== *)
theory Cow_Props
  imports Cow_Inv
begin

unbundle bit_operations_syntax

text \<open>
  What copy-on-write gives user processes: a fault on a shared page gives the process a page of its own
  with the same bytes, so that its writes reach nobody else, and \<^verbatim>\<open>fork\<close> gives the child the memory of the parent.
\<close>

section \<open>Faults on shared pages\<close>

lemma user_page_addr: "user_page (a div 4096) \<Longrightarrow> a < 2 ^ 47"
  by (simp add: user_page_def div_less_iff_less_mult)

lemma page_of_user:
  assumes "mapper_ok M" "user_page (a div 4096)"
  shows "page_of M a = Inr (a div 4096)"
  using assms user_page_addr [OF assms(2)] by (simp add: mapper_ok_def page_of_def)

text \<open>The two copying branches prepare the new frame and remap the page; what they have in common.\<close>

lemma remap_fresh:
  assumes M: "mapper_ok M" and fl: "leaf_flags fl" and fr: "fresh s b new"
    and at: "frame_at M s root pg = Some old"
    and s1: "tables s1 = tables s" "phys s1 = b" "zero_phys s1 = zero_phys s"
    and out: "\<And>x. x < new \<or> new + 4096 \<le> x \<Longrightarrow> frames s1 x = frames s x"
  obtains s' where "unmap_and_remap M root pg new fl s1 = Inr (True, s')" "remapped M root pg new True s s'"
    "mp_flags M (tables s' root) pg = fl" "refcounts s' = refcounts s1" "frames s' = frames s1"
proof -
  have at1: "frame_at M s1 root pg = Some old" and b: "buddy_inv (phys s1)" using at fr s1 by (simp_all add: fresh_def)
  from unmap_and_remap_ok [OF M fl b at1, of new] obtain pt where
    u: "unmap_and_remap M root pg new fl s1 = Inr (True, s1\<lparr>tables := (tables s1)(root := pt)\<rparr>)" and
    pt: "mp_translate M pt = (mp_translate M (tables s1 root))(pg := Some new)" "mp_flags M pt pg = fl"
      "\<forall>q. q \<noteq> pg \<longrightarrow> mp_flags M pt q = mp_flags M (tables s1 root) q" by blast
  let ?s' = "s1\<lparr>tables := (tables s1)(root := pt)\<rparr>"
  have "frame_at M ?s' r p = (if r = root \<and> p = pg then if True then Some new else None else frame_at M s r p)" for r p
    using pt(1) s1(1) by simp
  moreover have "mp_flags M (tables ?s' r) p = mp_flags M (tables s r) p" if "(r, p) \<noteq> (root, pg)" for r p
    using pt(3) s1(1) that by auto
  moreover have "fresh s (phys ?s') new" "zero_phys ?s' = zero_phys s" using fr s1 by simp_all
  ultimately have "remapped M root pg new True s ?s'" using out unfolding remapped_def by simp
  from that [OF u this] pt(2) show thesis by simp
qed

lemma fresh_refcounts:
  assumes "fresh s b new" "held (free_mem (phys s)) g" "refcounts s1 = (refcounts s)(new div 4096 := n)"
  shows "refcounts s1 (g div 4096) = refcounts s (g div 4096)"
proof -
  have "held (free_mem b) new" using assms(1) by (simp add: fresh_def)
  from held_idx [OF assms(2) this] fresh_neq [OF assms(1,2)] have "g div 4096 \<noteq> new div 4096" by blast
  with assms(3) show ?thesis by simp
qed

lemma cow_fault_zero:
  assumes M: "mapper_ok M" and inv: "cow_inv M R s" and root: "root \<in> R" "user_page pg" and fl: "leaf_flags fl" "fl AND PTE_WRITABLE \<noteq> 0"
    and at: "frame_at M s root pg = Some (zero_phys s)" and fr: "fresh s b new"
  shows "\<exists>s'. unmap_and_remap M root pg new fl (zero_fill new 4096 (set_ref new 1 (s\<lparr>phys := b\<rparr>))) = Inr (True, s') \<and>
    fault_post M R root pg s s'"
proof -
  define s1 where "s1 = zero_fill new 4096 (set_ref new 1 (s\<lparr>phys := b\<rparr>))"
  have held: "held (free_mem b) new" using fr by (simp add: fresh_def)
  have ref: "refcounts s1 = (refcounts s)(new div 4096 := 1)" unfolding s1_def by (simp add: set_ref_held [OF held])
  have frm: "frames s1 = poke (frames s) new zero_page" by (simp add: s1_def frames_zero_fill)
  have out: "frames s1 x = frames s x" if "x < new \<or> new + 4096 \<le> x" for x
    using poke_other [of x new zero_page] that by (simp add: frm length_zero_page)
  have eqs: "tables s1 = tables s" "phys s1 = b" "zero_phys s1 = zero_phys s" by (simp_all add: s1_def)
  obtain s' where s': "unmap_and_remap M root pg new fl s1 = Inr (True, s')" "remapped M root pg new True s s'"
    "mp_flags M (tables s' root) pg = fl" "refcounts s' = refcounts s1" "frames s' = frames s1"
    by (rule remap_fresh [OF M fl(1) fr at eqs out])
  have "peek (frames s') new 4096 = peek (frames s) (zero_phys s) 4096"
    using peek_poke [of "frames s" new zero_page] inv by (simp add: s'(5) frm length_zero_page cow_inv_def)
  moreover have "refcounts s' (g div 4096) = refcounts s (g div 4096) - (if g = zero_phys s then 1 else 0)"
    if "held (free_mem (phys s)) g" "g \<noteq> zero_phys s" for g
    using fresh_refcounts [OF fr that(1) ref] that(2) by (simp add: s'(4))
  ultimately have "fault_post M R root pg s s'"
    using remapped_post [OF inv s'(2) root at] s'(3,4) ref fl(2) by simp
  with s'(1) show ?thesis unfolding s1_def by blast
qed

lemma cow_fault_sole:
  assumes M: "mapper_ok M" and inv: "cow_inv M R s" and root: "root \<in> R" "user_page pg" and fl: "leaf_flags fl" "fl AND PTE_WRITABLE \<noteq> 0"
    and at: "frame_at M s root pg = Some old" "old \<noteq> zero_phys s" and cnt: "get_ref old s \<le> 1"
  shows "\<exists>s'. update_page_flags M root pg fl s = Inr (True, s') \<and> fault_post M R root pg s s'"
proof -
  note e = cow_invD [OF inv root at(1)]
  have mem: "(root, pg) \<in> users M R s old" using root at(1) by (simp add: users_def)
  have "card (users M R s old) \<le> 1" using e at(2) cnt by (simp add: entry_ok_def get_ref_def held_def frame_idx_def)
  moreover have "0 < card (users M R s old)" using mem inv by (auto simp: card_gt_0_iff cow_inv_def finite_users)
  ultimately have "card (users M R s old) = 1" by linarith
  then obtain x where "users M R s old = {x}" by (rule card_1_singletonE)
  with mem have sole: "users M R s old = {(root, pg)}" by simp
  from M have "update_law M" by (simp add: mapper_ok_def)
  from this [unfolded update_law_def, rule_format, OF at(1) fl(1)] obtain pt where
    pt: "mp_update M pg fl (tables s root) = Some pt" "mp_translate M pt = mp_translate M (tables s root)"
      "mp_flags M pt = (mp_flags M (tables s root))(pg := fl)" by (elim exE conjE)
  let ?s' = "s\<lparr>tables := (tables s)(root := pt)\<rparr>"
  have fa: "frame_at M ?s' r p = frame_at M s r p" for r p using pt(2) by simp
  have us: "users M R ?s' f = users M R s f" for f unfolding users_def fa ..
  have wr: "writable M ?s' r p = (writable M s r p \<or> (r, p) = (root, pg))" for r p
    using pt(2,3) at(1) fl(2) by (auto simp: writable_def)
  have "entry_ok M R ?s' r p f" if rp: "r \<in> R" "user_page p" "frame_at M ?s' r p = Some f" for r p f
  proof (cases "(r, p) = (root, pg)")
    case True
    then have "f = old" using rp(3) at(1) unfolding fa by simp
    then show ?thesis using e(1) at(2) sole True by (simp add: entry_ok_def us)
  next
    case False
    then have "writable M ?s' r p = writable M s r p" unfolding wr by blast
    then show ?thesis using cow_invD(1) [OF inv rp(1,2), of f] rp(3) unfolding entry_ok_def us fa by simp
  qed
  then have "cow_inv M R ?s'" using inv unfolding cow_inv_def by simp
  moreover have "page_bytes M ?s' r p = page_bytes M s r p" for r p unfolding page_bytes_def fa by simp
  moreover have "writable M ?s' root pg" by (simp add: wr)
  ultimately have "fault_post M R root pg s ?s'" by (simp add: fault_post_def)
  moreover have "update_page_flags M root pg fl s = Inr (True, ?s')" by (simp add: update_page_flags_def pt(1))
  ultimately show ?thesis by blast
qed

lemma dec_ref_held:
  assumes "held F f"
  shows "dec_ref f s = (refcounts s (f div 4096) - 1, s\<lparr>refcounts := (refcounts s)(f div 4096 := refcounts s (f div 4096) - 1)\<rparr>)"
  using assms by (simp add: dec_ref_def held_def frame_idx_def Let_def)

lemma cow_fault_shared:
  assumes M: "mapper_ok M" and inv: "cow_inv M R s" and root: "root \<in> R" "user_page pg" and fl: "leaf_flags fl" "fl AND PTE_WRITABLE \<noteq> 0"
    and at: "frame_at M s root pg = Some old" "old \<noteq> zero_phys s" and cnt: "1 < get_ref old s" and fr: "fresh s b new"
  shows "\<exists>s2 s'. unmap_and_remap M root pg new fl (copy_frame old new (set_ref new 1 (s\<lparr>phys := b\<rparr>))) = Inr (True, s2) \<and>
    drop_frame old s2 = Inr s' \<and> fault_post M R root pg s s'"
proof -
  define s1 where "s1 = copy_frame old new (set_ref new 1 (s\<lparr>phys := b\<rparr>))"
  note old = cow_invD(2) [OF inv root at(1)]
  have held: "held (free_mem b) new" using fr by (simp add: fresh_def)
  have ref: "refcounts s1 = (refcounts s)(new div 4096 := 1)" by (simp add: s1_def set_ref_held [OF held])
  have frm: "frames s1 = poke (frames s) new (peek (frames s) old 4096)" by (simp add: s1_def)
  have out: "frames s1 x = frames s x" if "x < new \<or> new + 4096 \<le> x" for x
    using poke_other [of x new "peek (frames s) old 4096"] that by (simp add: frm)
  have eqs: "tables s1 = tables s" "phys s1 = b" "zero_phys s1 = zero_phys s" by (simp_all add: s1_def)
  obtain s2 where s2: "unmap_and_remap M root pg new fl s1 = Inr (True, s2)" "remapped M root pg new True s s2"
    "mp_flags M (tables s2 root) pg = fl" "refcounts s2 = refcounts s1" "frames s2 = frames s1"
    by (rule remap_fresh [OF M fl(1) fr at(1) eqs out])
  define s' where "s' = s2\<lparr>refcounts := (refcounts s2)(old div 4096 := refcounts s2 (old div 4096) - 1)\<rparr>"
  have rold: "refcounts s2 (old div 4096) = refcounts s (old div 4096)" unfolding s2(4) by (rule fresh_refcounts [OF fr old ref])
  have "1 < refcounts s (old div 4096)" using cnt old by (simp add: get_ref_def held_def frame_idx_def)
  then have dr: "drop_frame old s2 = Inr s'" by (simp add: drop_frame_def dec_ref_held [OF old] s'_def rold)
  have eq': "tables s' = tables s2" "frames s' = frames s2" "zero_phys s' = zero_phys s2" "phys s' = phys s2" by (simp_all add: s'_def)
  have re: "remapped M root pg new True s s'" using s2(2) unfolding remapped_def eq' .
  have ne: "new div 4096 \<noteq> old div 4096" using held_idx [OF held old] fresh_neq [OF fr old] by metis
  have "refcounts s' (g div 4096) = refcounts s (g div 4096) - (if g = old then 1 else 0)"
    if g: "held (free_mem (phys s)) g" "g \<noteq> zero_phys s" for g
  proof (cases "g = old")
    case True
    then show ?thesis by (simp add: s'_def rold)
  next
    case False
    then have "g div 4096 \<noteq> old div 4096" using held_idx [OF g(1) old] by metis
    then show ?thesis using False fresh_refcounts [OF fr g(1) ref] by (simp add: s'_def s2(4))
  qed
  moreover have "refcounts s' (new div 4096) = 1" using ne ref by (simp add: s'_def s2(4))
  moreover have "peek (frames s') new 4096 = peek (frames s) old 4096"
    using peek_poke [of "frames s" new "peek (frames s) old 4096"] by (simp add: eq' s2(5) frm)
  moreover have "mp_flags M (tables s' root) pg AND PTE_WRITABLE \<noteq> 0" using fl(2) by (simp add: eq' s2(3))
  ultimately have "fault_post M R root pg s s'" by (intro remapped_post [OF inv re root at(1)])
  with s2(1) dr show ?thesis unfolding s1_def by blast
qed

lemma handle_cow_fault_ok:
  assumes M: "mapper_ok M" and inv: "cow_inv M R s" and root: "root \<in> R" "user_page (a div 4096)"
    and fl: "leaf_flags fl" "fl AND PTE_WRITABLE \<noteq> 0"
  shows "(\<exists>s'. handle_cow_fault M root a fl s = Inr (True, s') \<and> fault_post M R root (a div 4096) s s') \<or>
    handle_cow_fault M root a fl s = Inr (False, s) \<and>
      (frame_at M s root (a div 4096) = None \<or> allocate 12 (phys s) = Inr (None, phys s))"
proof -
  define pg where "pg = a div 4096"
  have pg: "page_of M a = Inr pg" "user_page pg" using page_of_user [OF M root(2)] root(2) by (simp_all add: pg_def)
  have b: "buddy_inv (phys s)" "free_mem (phys s) \<subseteq> {..< MAX_FRAMES * 4096}" using inv by (simp_all add: cow_inv_def)
  have "valid_order 12" by (simp add: buddy_consts)
  from buddy_phys.palloc_total [OF b(1) this] obtain r c where al: "allocate 12 (phys s) = Inr (r, c)" by blast
  have none: "c = phys s" if "r = None" using buddy_phys.palloc_none [OF b(1)] al that by blast
  have fr: "fresh s c new" if "r = Some new" for new using allocate_fresh [OF b] al that by blast
  have zero: "is_zero_frame f s \<longleftrightarrow> f = zero_phys s" for f using inv by (simp add: is_zero_frame_def cow_inv_def)
  show ?thesis
  proof (cases "frame_at M s root pg")
    case None
    then show ?thesis by (simp add: handle_cow_fault_def pg flip: pg_def)
  next
    case (Some old)
    consider (z) "old = zero_phys s" | (sole) "old \<noteq> zero_phys s" "get_ref old s \<le> 1" | (sh) "old \<noteq> zero_phys s" "1 < get_ref old s" by linarith
    then show ?thesis
    proof cases
      case z
      show ?thesis
      proof (cases r)
        case None
        then show ?thesis using none by (simp add: handle_cow_fault_def pg Some z zero al flip: pg_def)
      next
        case (Some new)
        from cow_fault_zero [OF M inv root(1) pg(2) fl _ fr [OF this]] \<open>frame_at M s root pg = Some old\<close> z Some show ?thesis
          by (simp add: handle_cow_fault_def pg zero al flip: pg_def)
      qed
    next
      case sole
      from cow_fault_sole [OF M inv root(1) pg(2) fl Some sole] sole show ?thesis
        by (auto simp: handle_cow_fault_def pg Some zero simp flip: pg_def)
    next
      case sh
      show ?thesis
      proof (cases r)
        case None
        then show ?thesis using none sh Some by (simp add: handle_cow_fault_def pg zero al flip: pg_def)
      next
        case (Some new)
        from cow_fault_shared [OF M inv root(1) pg(2) fl \<open>frame_at M s root pg = Some old\<close> sh fr [OF this]] \<open>frame_at M s root pg = Some old\<close> sh Some show ?thesis
          by (auto simp: handle_cow_fault_def pg zero al simp flip: pg_def)
      qed
    qed
  qed
qed

section \<open>Isolation\<close>

text \<open>A store of one byte by user code: it reaches memory only through a writable page.\<close>

definition user_write :: "'pt mapper \<Rightarrow> nat \<Rightarrow> nat \<Rightarrow> u8 \<Rightarrow> 'pt vmm \<Rightarrow> 'pt vmm option" where
  "user_write M root a v s =
     (if writable M s root (a div 4096)
      then map_option (\<lambda>f. s\<lparr>frames := (frames s)(f + a mod 4096 := v)\<rparr>) (frame_at M s root (a div 4096)) else None)"

lemma peek_upd_in: "i < n \<Longrightarrow> peek (m(f + i := v)) f n = (peek m f n)[i := v]"
  by (rule nth_equalityI) (auto simp: peek_def nth_list_update)

lemma peek_upd_out: "x < f \<or> f + n \<le> x \<Longrightarrow> peek (m(x := v)) f n = peek m f n"
  by (rule peek_cong) auto

lemma user_write_isolated:
  assumes inv: "cow_inv M R s" and root: "root \<in> R" "user_page (a div 4096)" and w: "writable M s root (a div 4096)"
  shows "\<exists>s'. user_write M root a v s = Some s' \<and>
    page_bytes M s' root (a div 4096) = map_option (\<lambda>bs. bs[a mod 4096 := v]) (page_bytes M s root (a div 4096)) \<and>
    (\<forall>r p. r \<in> R \<and> user_page p \<and> (r, p) \<noteq> (root, a div 4096) \<longrightarrow> page_bytes M s' r p = page_bytes M s r p)"
proof -
  from w obtain f where f: "frame_at M s root (a div 4096) = Some f" by (auto simp: writable_def)
  note e = cow_invD [OF inv root f]
  have nz: "f \<noteq> zero_phys s" and sole: "users M R s f = {(root, a div 4096)}" using e(1) w by (auto simp: entry_ok_def split: if_splits)
  define s' where "s' = s\<lparr>frames := (frames s)(f + a mod 4096 := v)\<rparr>"
  have "page_bytes M s' r p = page_bytes M s r p" if rp: "r \<in> R" "user_page p" "(r, p) \<noteq> (root, a div 4096)" for r p
  proof (cases "frame_at M s r p")
    case (Some g)
    have "(r, p) \<notin> users M R s f" using rp(3) by (simp add: sole)
    then have "g \<noteq> f" using rp(1,2) Some by (auto simp: users_def)
    from held_disjoint [OF cow_invD(2) [OF inv rp(1,2) Some] e(2) this] have "f + a mod 4096 < g \<or> g + 4096 \<le> f + a mod 4096"
      using mod_less_divisor [of 4096 a] by linarith
    from peek_upd_out [OF this] show ?thesis using Some by (simp add: page_bytes_def s'_def)
  qed (simp add: page_bytes_def s'_def)
  moreover have "page_bytes M s' root (a div 4096) = map_option (\<lambda>bs. bs[a mod 4096 := v]) (page_bytes M s root (a div 4096))"
    using peek_upd_in [of "a mod 4096" 4096 "frames s" f v] f by (simp add: page_bytes_def s'_def)
  moreover have "user_write M root a v s = Some s'" using w f by (simp add: user_write_def s'_def)
  ultimately show ?thesis by blast
qed

text \<open>
  C26. A write fault on a shared page isolates the writer. Under the invariant of copy-on-write, with frames
  below 512 MiB, \<^verbatim>\<open>handle_cow_fault\<close> on a page of a writable area never panics and keeps the invariant. It
  fails only if the page is not mapped or the allocator is out of memory, and then changes nothing. If it
  succeeds, no process sees different bytes; the retried store then goes through, changes the one byte in the
  writer's page, and leaves every other page of every process as it was.
\<close>
theorem cow_isolation:
  assumes "mapper_ok M" "cow_inv M R s" "root \<in> R" "user_page (a div 4096)" "leaf_flags fl" "fl AND PTE_WRITABLE \<noteq> 0"
  shows "(\<exists>s' s''. handle_cow_fault M root a fl s = Inr (True, s') \<and> cow_inv M R s' \<and>
      (\<forall>r p. r \<in> R \<and> user_page p \<longrightarrow> page_bytes M s' r p = page_bytes M s r p) \<and>
      user_write M root a v s' = Some s'' \<and>
      page_bytes M s'' root (a div 4096) = map_option (\<lambda>bs. bs[a mod 4096 := v]) (page_bytes M s root (a div 4096)) \<and>
      (\<forall>r p. r \<in> R \<and> user_page p \<and> (r, p) \<noteq> (root, a div 4096) \<longrightarrow> page_bytes M s'' r p = page_bytes M s r p)) \<or>
    handle_cow_fault M root a fl s = Inr (False, s) \<and>
      (frame_at M s root (a div 4096) = None \<or> allocate 12 (phys s) = Inr (None, phys s))"
  using handle_cow_fault_ok [OF assms]
proof (elim disjE exE conjE)
  fix s' assume h: "handle_cow_fault M root a fl s = Inr (True, s')" and "fault_post M R root (a div 4096) s s'"
  then have post: "cow_inv M R s'" "writable M s' root (a div 4096)"
    "\<forall>r p. r \<in> R \<and> user_page p \<longrightarrow> page_bytes M s' r p = page_bytes M s r p" by (simp_all add: fault_post_def)
  from user_write_isolated [OF post(1) assms(3,4) post(2), of v] obtain s'' where
    "user_write M root a v s' = Some s''"
    "page_bytes M s'' root (a div 4096) = map_option (\<lambda>bs. bs[a mod 4096 := v]) (page_bytes M s' root (a div 4096))"
    "\<forall>r p. r \<in> R \<and> user_page p \<and> (r, p) \<noteq> (root, a div 4096) \<longrightarrow> page_bytes M s'' r p = page_bytes M s' r p" by blast
  with h post assms(3,4) show ?thesis by (intro disjI1 exI [of _ s'] exI [of _ s'']) simp
qed blast+

theorem cow_isolation_witness:
  "\<exists>s' s''. handle_cow_fault flat_mapper 16384 0x400010 7 sample_vmm = Inr (True, s') \<and>
     user_write flat_mapper 16384 0x400010 99 s' = Some s'' \<and>
     page_bytes flat_mapper s'' 20480 1024 = page_bytes flat_mapper sample_vmm 20480 1024"
proof -
  have "leaf_flags 7" "(7 :: u64) AND PTE_WRITABLE \<noteq> 0" by (simp_all add: leaf_flags_def PTE_PRESENT_def PTE_WRITABLE_def)
  moreover have "allocate 12 (phys sample_vmm) \<noteq> Inr (None, phys sample_vmm)" using demo_alloc by (auto simp: sample_vmm_def)
  moreover have "user_page (0x400010 div 4096)" using sample_user_page by simp
  ultimately show ?thesis
    using cow_isolation [OF flat_mapper_ok sample_cow_inv, of 16384 "0x400010" 7 99] sample_user_page by fastforce
qed

end
