(* ===== verification/Cow_Fork.thy ===== *)
theory Cow_Fork
  imports Cow_Props
begin

unbundle bit_operations_syntax

text \<open>\<^verbatim>\<open>AddressSpace::fork\<close>: the child shares every mapped page of the parent's areas, read-only on both sides.\<close>

section \<open>Flags and fresh tables\<close>

lemma shared_flags:
  assumes "leaf_flags fl"
  shows "leaf_flags (fl AND NOT PTE_WRITABLE)" "(fl AND NOT PTE_WRITABLE) AND PTE_WRITABLE = 0"
proof -
  have "(fl AND NOT PTE_WRITABLE) AND NOT 7 = (fl AND NOT 7) AND NOT PTE_WRITABLE" by (simp add: ac_simps)
  moreover have "(fl AND NOT PTE_WRITABLE) AND PTE_PRESENT = fl AND (NOT PTE_WRITABLE AND PTE_PRESENT)" by (simp add: ac_simps)
  moreover have "NOT PTE_WRITABLE AND PTE_PRESENT = PTE_PRESENT" by (simp add: PTE_WRITABLE_def PTE_PRESENT_def)
  ultimately show "leaf_flags (fl AND NOT PTE_WRITABLE)" using assms by (simp add: leaf_flags_def)
  show "(fl AND NOT PTE_WRITABLE) AND PTE_WRITABLE = 0" by (simp add: and.assoc)
qed

lemma copy_kernel_entries_user:
  assumes "mapper_ok M" "user_page pg"
  shows "mp_translate M (copy_kernel_entries M k) pg = None"
proof -
  from assms(1) have e: "entry_law M" by (simp add: mapper_ok_def)
  have z: "mp_translate M (mp_zero M) pg = None"
    and c: "\<And>i src pt. pml4_index (pg * 4096) \<noteq> i \<Longrightarrow> mp_translate M (mp_copy_entry M i src pt) pg = mp_translate M pt pg"
    using e by (simp_all add: entry_law_def)
  have u: "is_user_pml4_entry (pml4_index (pg * 4096))" using assms(2) by (simp add: user_page_def)
  have c': "mp_translate M (mp_copy_entry M i src pt) pg = mp_translate M pt pg" if "\<not> is_user_pml4_entry i" for i src pt
    by (rule c) (use that u in blast)
  have "mp_translate M (fold (\<lambda>i pt. if mp_unused M k i \<or> is_user_pml4_entry i then pt else mp_copy_entry M i k pt) is pt) pg
      = mp_translate M pt pg" for "is" pt
    by (induction "is" arbitrary: pt) (simp_all add: c')
  with z show ?thesis by (simp add: copy_kernel_entries_def)
qed

section \<open>Sharing one page\<close>

lemma share_inv:
  assumes inv: "cow_inv M R s" and R: "parent \<in> R" "child \<in> R" "user_page pg"
    and at: "frame_at M s parent pg = Some f" "frame_at M s child pg = None"
    and fa: "\<And>r p. frame_at M s' r p = (if r = child \<and> p = pg then Some f else frame_at M s r p)"
    and wr: "\<And>r p. writable M s' r p \<Longrightarrow> writable M s r p \<and> (r, p) \<noteq> (parent, pg)"
    and ph: "buddy_inv (phys s')" "free_mem (phys s') \<subseteq> free_mem (phys s)"
    and eq: "zero_phys s' = zero_phys s" "frames s' = frames s"
    and rc: "refcounts s' = (refcounts s)(f div 4096 := min 255 (refcounts s (f div 4096) + 1))"
    and bound: "f \<noteq> zero_phys s \<Longrightarrow> card (users M R s f) < 255"
  shows "cow_inv M R s'"
proof -
  have fin: "finite (users M R s f)" using inv by (simp add: cow_inv_def finite_users)
  note ef = cow_invD [OF inv R(1,3) at(1)]
  have us: "users M R s' g = (if g = f then insert (child, pg) (users M R s f) else users M R s g)" for g
    using R at(2) by (auto simp: users_def fa split: if_splits)
  have new: "(child, pg) \<notin> users M R s f" using at(2) by (simp add: users_def)
  have mem: "(parent, pg) \<in> users M R s f" using R at(1) by (simp add: users_def)
  have "entry_ok M R s' r p g" if rp: "r \<in> R" "user_page p" "frame_at M s' r p = Some g" for r p g
  proof -
    have held: "held (free_mem (phys s)) g"
      using cow_invD(2) [OF inv rp(1,2)] ef(2) rp(3) by (auto simp: fa split: if_splits)
    have old: "frame_at M s r p = Some g \<and> entry_ok M R s r p g" if "writable M s' r p"
    proof -
      have "frame_at M s r p \<noteq> None" using wr [OF that] by (simp add: writable_def)
      then have "frame_at M s r p = Some g" using rp(3) at(2) by (auto simp: fa split: if_splits)
      with cow_invD(1) [OF inv rp(1,2)] show ?thesis by blast
    qed
    have "\<not> writable M s' r p" if "g = f"
    proof
      assume w: "writable M s' r p"
      with old wr [OF w] that mem show False by (auto simp: entry_ok_def split: if_splits)
    qed
    moreover have "\<not> writable M s' r p" if "g = zero_phys s"
      using old wr that by (fastforce simp: entry_ok_def)
    moreover have "refcounts s' (g div 4096) = card (users M R s' g)" if "g \<noteq> zero_phys s"
    proof (cases "g = f")
      case True
      then have "refcounts s (f div 4096) = card (users M R s f)" using ef(1) that by (simp add: entry_ok_def)
      then show ?thesis using True bound that fin new by (simp add: rc us)
    next
      case False
      have "frame_at M s r p = Some g" using rp(3) False by (auto simp: fa split: if_splits)
      from cow_invD(1) [OF inv rp(1,2) this] that have "refcounts s (g div 4096) = card (users M R s g)" by (simp add: entry_ok_def)
      moreover have "g div 4096 \<noteq> f div 4096" using held_idx [OF held ef(2)] False by blast
      ultimately show ?thesis using False by (simp add: rc us)
    qed
    moreover have "users M R s' g = {(r, p)}" if "writable M s' r p" "g \<noteq> zero_phys s" "g \<noteq> f"
      using old [OF that(1)] wr [OF that(1)] that by (simp add: entry_ok_def us)
    ultimately show ?thesis using held_mono [OF held ph(2)] by (auto simp: entry_ok_def eq)
  qed
  moreover have "held (free_mem (phys s')) (zero_phys s)" using inv held_mono [OF _ ph(2)] by (simp add: cow_inv_def)
  ultimately show ?thesis using inv ph unfolding cow_inv_def eq by blast
qed

section \<open>The loop over the areas\<close>

text \<open>What the loop keeps: \<open>s0\<close> is the state in which the child has no pages yet.\<close>

definition forked :: "'pt mapper \<Rightarrow> nat \<Rightarrow> nat \<Rightarrow> 'pt vmm \<Rightarrow> 'pt vmm \<Rightarrow> bool" where
  "forked M parent child s0 s \<longleftrightarrow>
     frames s = frames s0 \<and> zero_phys s = zero_phys s0 \<and>
     (\<forall>r p. r \<noteq> child \<longrightarrow> frame_at M s r p = frame_at M s0 r p) \<and>
     (\<forall>p f. user_page p \<longrightarrow> frame_at M s child p = Some f \<longrightarrow> frame_at M s0 parent p = Some f) \<and>
     (\<forall>p. writable M s parent p \<longrightarrow> writable M s0 parent p)"

lemma forkedD:
  assumes "forked M parent child s0 s"
  shows "frames s = frames s0" "zero_phys s = zero_phys s0" "r \<noteq> child \<Longrightarrow> frame_at M s r p = frame_at M s0 r p"
    "user_page p \<Longrightarrow> frame_at M s child p = Some f \<Longrightarrow> frame_at M s0 parent p = Some f"
    "writable M s parent p \<Longrightarrow> writable M s0 parent p"
  using assms unfolding forked_def by blast+

definition sharable :: "'pt mapper \<Rightarrow> nat set \<Rightarrow> 'pt vmm \<Rightarrow> bool" where
  "sharable M R s \<longleftrightarrow> (\<forall>f. f \<noteq> zero_phys s \<longrightarrow> 2 * card (users M R s f) \<le> 255)"

lemma forked_bound:
  assumes fk: "forked M parent child s0 s" and R: "finite R" "parent \<in> R" "parent \<noteq> child" "child \<in> R"
    and sh: "sharable M R s0" and f: "f \<noteq> zero_phys s0" and none: "\<forall>p. user_page p \<longrightarrow> frame_at M s0 child p = None"
    and pg: "user_page pg" "frame_at M s parent pg = Some f" "frame_at M s child pg = None"
  shows "card (users M R s f) < 255"
proof -
  let ?U = "users M R s0 f" and ?c = "\<lambda>(r, p). (child, p)"
  have fin: "finite ?U" by (rule finite_users [OF R(1)])
  have "(r, p) \<in> ?U \<union> ?c ` ?U" if "(r, p) \<in> insert (child, pg) (users M R s f)" for r p
  proof (cases "r = child")
    case True
    have "user_page p" "frame_at M s0 parent p = Some f"
      using that pg(1,2) forkedD(3,4) [OF fk] R(3) True by (auto simp: users_def)
    then have "(parent, p) \<in> ?U" using R(2) by (simp add: users_def)
    then show ?thesis using True by force
  next
    case False
    then show ?thesis using that forkedD(3) [OF fk] by (auto simp: users_def)
  qed
  then have "insert (child, pg) (users M R s f) \<subseteq> ?U \<union> ?c ` ?U" by auto
  from card_mono [OF _ this] fin have "card (insert (child, pg) (users M R s f)) \<le> card ?U + card (?c ` ?U)"
    using card_Un_le [of ?U "?c ` ?U"] by simp
  also have "\<dots> \<le> 2 * card ?U" using card_image_le [OF fin, of ?c] by simp
  also have "\<dots> \<le> 255" using sh f by (simp add: sharable_def)
  finally show ?thesis using pg(3) finite_users [OF R(1), of M s f] by (simp add: users_def)
qed

lemma inc_ref_simps [simp]:
  "tables (inc_ref f s) = tables s" "frames (inc_ref f s) = frames s" "zero_phys (inc_ref f s) = zero_phys s" "phys (inc_ref f s) = phys s"
  by (simp_all add: inc_ref_def)

lemma inc_ref_held: "held F f \<Longrightarrow> refcounts (inc_ref f s) = (refcounts s)(f div 4096 := min 255 (refcounts s (f div 4096) + 1))"
  by (simp add: inc_ref_def held_def frame_idx_def)

text \<open>The parent's page after the optional change of its flags: the same frame, not writable.\<close>

lemma protect_ok:
  assumes M: "mapper_ok M" and fl: "leaf_flags fl" and at: "frame_at M s parent pg = Some f"
    and w: "writable M s parent pg \<longrightarrow> fl AND PTE_WRITABLE \<noteq> 0"
  shows "\<exists>pt. (if fl AND PTE_WRITABLE \<noteq> 0 then update_page_flags M parent pg (fl AND NOT PTE_WRITABLE) s else Inr (True, s))
      = Inr (True, s\<lparr>tables := (tables s)(parent := pt)\<rparr>) \<and>
    mp_translate M pt = mp_translate M (tables s parent) \<and> (\<forall>p. p \<noteq> pg \<longrightarrow> mp_flags M pt p = mp_flags M (tables s parent) p) \<and>
    mp_flags M pt pg AND PTE_WRITABLE = 0"
proof (cases "fl AND PTE_WRITABLE = 0")
  case True
  then have "\<not> writable M s parent pg" using w by blast
  then have "mp_flags M (tables s parent) pg AND PTE_WRITABLE = 0" using at by (simp add: writable_def)
  then show ?thesis using True by (intro exI [of _ "tables s parent"]) simp
next
  case False
  from M have "update_law M" by (simp add: mapper_ok_def)
  from this [unfolded update_law_def, rule_format, OF at shared_flags(1) [OF fl]] obtain pt where
    "mp_update M pg (fl AND NOT PTE_WRITABLE) (tables s parent) = Some pt" "mp_translate M pt = mp_translate M (tables s parent)"
    "mp_flags M pt = (mp_flags M (tables s parent))(pg := fl AND NOT PTE_WRITABLE)" by (elim exE conjE)
  then show ?thesis using False shared_flags(2) [OF fl] by (intro exI [of _ pt]) (simp add: update_page_flags_def)
qed

text \<open>A mapper that never refuses a page that is not mapped, that is, never lacks a frame for a table.\<close>

definition maps_all :: "'pt mapper \<Rightarrow> bool" where
  "maps_all M \<longleftrightarrow>
     (\<forall>pg f fl tf pt b. leaf_flags fl \<longrightarrow> buddy_inv b \<longrightarrow> mp_translate M pt pg = None \<longrightarrow>
        (\<exists>pt' b'. mp_map_table_flags M pg f fl tf pt b = Inr (True, pt', b')))"

text \<open>One page: either the mapping of the child fails, or the page is shared.\<close>

definition fork_step :: "'pt mapper \<Rightarrow> nat set \<Rightarrow> nat \<Rightarrow> nat \<Rightarrow> 'pt vmm \<Rightarrow> nat set \<Rightarrow> 'pt vmm \<Rightarrow> 'pt vmm \<Rightarrow> bool" where
  "fork_step M R parent child s0 P s s' \<longleftrightarrow>
     cow_inv M R s' \<and> forked M parent child s0 s' \<and>
     (\<forall>p \<in> P. frame_at M s' child p = frame_at M s0 parent p) \<and>
     (\<forall>p. frame_at M s child p \<noteq> None \<longrightarrow> frame_at M s' child p = frame_at M s child p)"

definition fork_end :: "'pt mapper \<Rightarrow> nat set \<Rightarrow> nat \<Rightarrow> nat \<Rightarrow> 'pt vmm \<Rightarrow> nat set \<Rightarrow> 'pt vmm \<Rightarrow> bool \<Rightarrow> 'pt vmm \<Rightarrow> bool" where
  "fork_end M R parent child s0 P s ok s' \<longleftrightarrow> (if ok then fork_step M R parent child s0 P s s' else \<not> maps_all M)"

lemma fork_page_share:
  assumes M: "mapper_ok M" and inv: "cow_inv M R s" and fk: "forked M parent child s0 s"
    and R: "parent \<in> R" "child \<in> R" "parent \<noteq> child" and pg: "user_page pg"
    and fl: "leaf_flags fl" and w: "writable M s0 parent pg \<Longrightarrow> fl AND PTE_WRITABLE \<noteq> 0"
    and at: "frame_at M s parent pg = Some f" "frame_at M s child pg = None"
    and bound: "f \<noteq> zero_phys s \<Longrightarrow> card (users M R s f) < 255"
  shows "\<exists>ok s'. bindV (if fl AND PTE_WRITABLE \<noteq> 0 then update_page_flags M parent pg (fl AND NOT PTE_WRITABLE) s else Inr (True, s)) (\<lambda>s.
      bindV (map_existing_frame M child pg f (fl AND NOT PTE_WRITABLE) s) (\<lambda>s. Inr (True, inc_ref f s))) = Inr (ok, s') \<and>
    fork_end M R parent child s0 {pg} s ok s'"
proof -
  have w': "writable M s parent pg \<longrightarrow> fl AND PTE_WRITABLE \<noteq> 0" using w forkedD(5) [OF fk] by blast
  from protect_ok [OF M fl at(1) w'] obtain pt where
    pt: "(if fl AND PTE_WRITABLE \<noteq> 0 then update_page_flags M parent pg (fl AND NOT PTE_WRITABLE) s else Inr (True, s))
        = Inr (True, s\<lparr>tables := (tables s)(parent := pt)\<rparr>)"
      "mp_translate M pt = mp_translate M (tables s parent)" "\<forall>p. p \<noteq> pg \<longrightarrow> mp_flags M pt p = mp_flags M (tables s parent) p"
      "mp_flags M pt pg AND PTE_WRITABLE = 0" by (elim exE conjE)
  define s1 where "s1 = s\<lparr>tables := (tables s)(parent := pt)\<rparr>"
  define tf where "tf = PTE_PRESENT OR PTE_WRITABLE OR PTE_USER_ACCESSIBLE"
  have s1: "tables s1 child = tables s child" "phys s1 = phys s" using R(3) by (simp_all add: s1_def)
  have b: "buddy_inv (phys s1)" using inv s1 by (simp add: cow_inv_def)
  from M have m: "map_law M (\<lambda>pg f fl. mp_map_table_flags M pg f fl tf)" by (simp add: mapper_ok_def)
  have n: "mp_translate M (tables s1 child) pg = None" using at(2) s1 by simp
  from map_lawD [OF m shared_flags(1) [OF fl] b n, of f] obtain ok ct b' where
    mp: "mp_map_table_flags M pg f (fl AND NOT PTE_WRITABLE) tf (tables s1 child) (phys s1) = Inr (ok, ct, b')"
      "buddy_inv b'" "free_mem b' \<subseteq> free_mem (phys s1)"
      "mp_translate M ct = (if ok then (mp_translate M (tables s1 child))(pg := Some f) else mp_translate M (tables s1 child))"
      "mp_flags M ct = (if ok then (mp_flags M (tables s1 child))(pg := fl AND NOT PTE_WRITABLE) else mp_flags M (tables s1 child))"
    by (elim exE conjE)
  define s2 where "s2 = s1\<lparr>tables := (tables s1)(child := ct), phys := b'\<rparr>"
  have map: "map_existing_frame M child pg f (fl AND NOT PTE_WRITABLE) s1 = Inr (ok, s2)"
    by (simp add: map_existing_frame_def set_table_def Let_def mp(1) s2_def flip: tf_def)
  show ?thesis
  proof (cases ok)
    case False
    then have "\<not> maps_all M" using mp(1) shared_flags(1) [OF fl] b n unfolding maps_all_def
      by (metis Inr_inject prod.inject)
    then show ?thesis using False pt(1) map by (intro exI [of _ False] exI [of _ s2]) (simp add: s1_def fork_end_def)
  next
    case True
    define s' where "s' = inc_ref f s2"
    have held: "held (free_mem (phys s)) f" by (rule cow_invD(2) [OF inv R(1) pg at(1)])
    have tb: "tables s' r = (if r = child then ct else if r = parent then pt else tables s r)" for r
      using R(3) by (simp add: s'_def s2_def s1_def)
    have fa: "frame_at M s' r p = (if r = child \<and> p = pg then Some f else frame_at M s r p)" for r p
      using mp(4) True pt(2) s1(1) R(3) by (simp add: tb)
    have fg: "mp_flags M (tables s' r) p = mp_flags M (tables s r) p" if "(r, p) \<noteq> (child, pg)" "(r, p) \<noteq> (parent, pg)" for r p
      using mp(5) True pt(3) s1(1) R(3) that by (auto simp: tb)
    have nw: "\<not> writable M s' child pg" "\<not> writable M s' parent pg"
      using mp(5) True shared_flags(2) [OF fl] pt(4) R(3) by (simp_all add: writable_def tb)
    have wr: "writable M s r p \<and> (r, p) \<noteq> (parent, pg)" if "writable M s' r p" for r p
    proof -
      have ne: "(r, p) \<noteq> (child, pg)" "(r, p) \<noteq> (parent, pg)" using nw that by auto
      with that fg [OF ne] fa [of r p] show ?thesis by (auto simp: writable_def)
    qed
    have eqs: "zero_phys s' = zero_phys s" "frames s' = frames s" "phys s' = b'" "refcounts s2 = refcounts s"
      by (simp_all add: s'_def s2_def s1_def)
    have "cow_inv M R s'"
      by (rule share_inv [OF inv R(1,2) pg at fa wr _ _ eqs(1,2) _ bound])
         (use mp(2,3) s1(2) eqs inc_ref_held [OF held, of s2] in \<open>simp_all add: s'_def\<close>)
    moreover have at0: "frame_at M s0 parent pg = Some f" using at(1) forkedD(3) [OF fk R(3)] by simp
    moreover have "forked M parent child s0 s'"
      unfolding forked_def
    proof (intro conjI allI impI)
      fix p assume "writable M s' parent p"
      with wr have "writable M s parent p" by blast
      then show "writable M s0 parent p" by (rule forkedD(5) [OF fk])
    next
      fix p g assume "user_page p" "frame_at M s' child p = Some g"
      then show "frame_at M s0 parent p = Some g" using forkedD(4) [OF fk] at0 by (auto simp: fa split: if_splits)
    next
      fix r p assume "r \<noteq> child"
      then show "frame_at M s' r p = frame_at M s0 r p" using forkedD(3) [OF fk] by (simp add: fa)
    qed (use eqs forkedD(1,2) [OF fk] in simp_all)
    ultimately have "fork_step M R parent child s0 {pg} s s'"
      using at(2) at0 by (auto simp: fork_step_def fa)
    then show ?thesis using pt(1) map True by (intro exI [of _ True] exI [of _ s']) (simp add: s1_def s'_def fork_end_def)
  qed
qed

lemma fork_step_trans:
  "fork_step M R parent child s0 P s s1 \<Longrightarrow> fork_step M R parent child s0 Q s1 s2 \<Longrightarrow>
   (\<forall>p \<in> P. frame_at M s0 parent p = None \<longrightarrow> user_page p) \<Longrightarrow> fork_step M R parent child s0 (P \<union> Q) s s2"
proof -
  assume a: "fork_step M R parent child s0 P s s1" "fork_step M R parent child s0 Q s1 s2"
    and u: "\<forall>p \<in> P. frame_at M s0 parent p = None \<longrightarrow> user_page p"
  have "frame_at M s2 child p = frame_at M s0 parent p" if p: "p \<in> P" for p
  proof (cases "frame_at M s0 parent p")
    case (Some f)
    then have "frame_at M s1 child p = Some f" using a(1) p by (simp add: fork_step_def)
    then show ?thesis using a(2) Some by (simp add: fork_step_def)
  next
    case None
    have "frame_at M s2 child p = None"
    proof (rule ccontr)
      assume "frame_at M s2 child p \<noteq> None"
      then obtain f where "frame_at M s2 child p = Some f" by blast
      with a(2) u p None forkedD(4) show False by (fastforce simp: fork_step_def)
    qed
    with None show ?thesis by simp
  qed
  moreover have "frame_at M s2 child p = frame_at M s child p" if "frame_at M s child p \<noteq> None" for p
    using a that by (simp add: fork_step_def)
  ultimately show ?thesis using a(2) unfolding fork_step_def by blast
qed

lemma fork_page_ok:
  assumes M: "mapper_ok M" and inv: "cow_inv M R s" and fk: "forked M parent child s0 s"
    and R: "parent \<in> R" "child \<in> R" "parent \<noteq> child" and pg: "user_page (a div 4096)"
    and fl: "leaf_flags fl" and w: "writable M s0 parent (a div 4096) \<longrightarrow> fl AND PTE_WRITABLE \<noteq> 0"
    and sh: "sharable M R s0" and none: "\<forall>p. user_page p \<longrightarrow> frame_at M s0 child p = None"
  shows "\<exists>ok s'. fork_page M parent child fl a s = Inr (ok, s') \<and> fork_end M R parent child s0 {a div 4096} s ok s'"
proof -
  define pg where "pg = a div 4096"
  have po: "page_of M a = Inr pg" using page_of_user [OF M pg] by (simp add: pg_def)
  have par: "frame_at M s parent pg = frame_at M s0 parent pg" by (rule forkedD(3) [OF fk R(3)])
  have u: "user_page pg" and w': "writable M s0 parent pg \<longrightarrow> fl AND PTE_WRITABLE \<noteq> 0" using pg w by (simp_all add: pg_def)
  have "\<exists>ok s'. fork_page M parent child fl a s = Inr (ok, s') \<and> fork_end M R parent child s0 {pg} s ok s'"
  proof (cases "frame_at M s parent pg")
    case None
    have "frame_at M s child pg = None"
      using forkedD(4) [OF fk u] par None by (cases "frame_at M s child pg") auto
    then have "fork_step M R parent child s0 {pg} s s" using inv fk par None by (simp add: fork_step_def)
    with None show ?thesis by (intro exI [of _ True] exI [of _ s]) (simp add: fork_page_def po fork_end_def)
  next
    case (Some f)
    show ?thesis
    proof (cases "frame_at M s child pg")
      case None
      have fin: "finite R" using inv by (simp add: cow_inv_def)
      have "card (users M R s f) < 255" if "f \<noteq> zero_phys s"
        by (rule forked_bound [OF fk fin R(1,3,2) sh _ none u Some None]) (use that forkedD(2) [OF fk] in simp)
      from fork_page_share [OF M inv fk R u fl _ Some None this] w' None Some show ?thesis
        by (simp add: fork_page_def po Let_def)
    next
      case (Some g)
      have "fork_step M R parent child s0 {pg} s s" using inv fk Some forkedD(4) [OF fk u Some] by (simp add: fork_step_def)
      with Some \<open>frame_at M s parent pg = Some f\<close> show ?thesis
        by (intro exI [of _ True] exI [of _ s]) (simp add: fork_page_def po fork_end_def)
    qed
  qed
  then show ?thesis by (simp only: pg_def)
qed

text \<open>The areas of the parent: below the user limit, with flags that agree with its writable pages.\<close>

definition area_page :: "vma \<Rightarrow> nat \<Rightarrow> nat" where
  "area_page v i = vma_start v div 4096 + i"

definition area_ok :: "'pt mapper \<Rightarrow> nat \<Rightarrow> 'pt vmm \<Rightarrow> vma \<Rightarrow> bool" where
  "area_ok M parent s v \<longleftrightarrow>
     vma_ok v \<and> leaf_flags (vma_flags v) \<and>
     (\<forall>i < size_pages v. user_page (area_page v i) \<and> (writable M s parent (area_page v i) \<longrightarrow> vma_flags v AND PTE_WRITABLE \<noteq> 0))"

lemma fork_step_refl: "cow_inv M R s \<Longrightarrow> forked M parent child s0 s \<Longrightarrow> fork_step M R parent child s0 {} s s"
  by (simp add: fork_step_def)

lemma fork_area_ok:
  assumes M: "mapper_ok M" and R: "parent \<in> R" "child \<in> R" "parent \<noteq> child"
    and sh: "sharable M R s0" and none: "\<forall>p. user_page p \<longrightarrow> frame_at M s0 child p = None" and v: "area_ok M parent s0 v"
  shows "set is \<subseteq> {..< size_pages v} \<Longrightarrow> cow_inv M R s \<Longrightarrow> forked M parent child s0 s \<Longrightarrow>
    \<exists>ok s'. fork_area is M parent child v s = Inr (ok, s') \<and> fork_end M R parent child s0 (area_page v ` set is) s ok s'"
proof (induction "is" arbitrary: s)
  case Nil
  then show ?case by (auto simp: fork_step_refl fork_end_def)
next
  case (Cons i "is")
  have i: "i < size_pages v" using Cons.prems(1) by simp
  have vo: "4096 dvd vma_start v" "vma_start v + 4096 * size_pages v < 2 ^ 64" using v by (simp_all add: area_ok_def vma_ok_def)
  have a: "(vma_start v + i * 4096) div 4096 = area_page v i" using vo(1) by (simp add: area_page_def)
  have u: "user_page (area_page v i)" "writable M s0 parent (area_page v i) \<longrightarrow> vma_flags v AND PTE_WRITABLE \<noteq> 0"
    and fl: "leaf_flags (vma_flags v)" using v i by (simp_all add: area_ok_def)
  have pf: "page_table_flags M v = vma_flags v" using M fl by (simp add: page_table_flags_def mapper_ok_def)
  have m: "mul64 i 4096 = Inr (i * 4096)" "add64 (vma_start v) (i * 4096) = Inr (vma_start v + i * 4096)"
    using i vo(2) by (simp_all add: mul64_def add64_def)
  from fork_page_ok [OF M Cons.prems(2,3) R _ fl _ sh none, of "vma_start v + i * 4096", unfolded a, OF u] obtain ok s1 where
    1: "fork_page M parent child (vma_flags v) (vma_start v + i * 4096) s = Inr (ok, s1)"
      "fork_end M R parent child s0 {area_page v i} s ok s1" by blast
  show ?case
  proof (cases ok)
    case False
    then show ?thesis using 1 by (intro exI [of _ False] exI [of _ s1]) (simp add: m pf fork_end_def)
  next
    case True
    with 1(2) have st: "fork_step M R parent child s0 {area_page v i} s s1" by (simp add: fork_end_def)
    then have "cow_inv M R s1" "forked M parent child s0 s1" by (simp_all add: fork_step_def)
    from Cons.IH [OF _ this] Cons.prems(1) obtain ok2 s2 where
      2: "fork_area is M parent child v s1 = Inr (ok2, s2)" "fork_end M R parent child s0 (area_page v ` set is) s1 ok2 s2" by auto
    have "fork_end M R parent child s0 (area_page v ` set (i # is)) s ok2 s2"
      using fork_step_trans [OF st, of "area_page v ` set is" s2] 2(2) u(1) by (simp add: fork_end_def split: if_splits)
    moreover have "fork_area (i # is) M parent child v s = Inr (ok2, s2)" using 1(1) 2(1) True by (simp add: m pf)
    ultimately show ?thesis by blast
  qed
qed

definition area_pages :: "vmas \<Rightarrow> nat set" where
  "area_pages es = (\<Union>v \<in> vset es. area_page v ` {..< size_pages v})"

lemma area_pages_simps [simp]:
  "area_pages [] = {}" "area_pages (None # es) = area_pages es"
  "area_pages (Some v # es) = area_page v ` {..< size_pages v} \<union> area_pages es"
  by (simp_all add: area_pages_def)

lemma fork_areas_ok:
  assumes M: "mapper_ok M" and R: "parent \<in> R" "child \<in> R" "parent \<noteq> child"
    and sh: "sharable M R s0" and none: "\<forall>p. user_page p \<longrightarrow> frame_at M s0 child p = None"
  shows "(\<forall>v \<in> vset es. area_ok M parent s0 v) \<Longrightarrow> cow_inv M R s \<Longrightarrow> forked M parent child s0 s \<Longrightarrow>
    \<exists>ok s'. fork_areas es M parent child s = Inr (ok, s') \<and> fork_end M R parent child s0 (area_pages es) s ok s'"
proof (induction es arbitrary: s)
  case Nil
  then show ?case by (auto simp: fork_step_refl fork_end_def)
next
  case (Cons e es)
  show ?case
  proof (cases e)
    case None
    then show ?thesis using Cons by simp
  next
    case (Some v)
    have v: "area_ok M parent s0 v" and rest: "\<forall>v \<in> vset es. area_ok M parent s0 v" using Cons.prems(1) Some by simp_all
    from fork_area_ok [OF M R sh none v _ Cons.prems(2,3), of "[0 ..< size_pages v]"] obtain ok s1 where
      1: "fork_area [0 ..< size_pages v] M parent child v s = Inr (ok, s1)"
        "fork_end M R parent child s0 (area_page v ` {..< size_pages v}) s ok s1" by (auto simp: atLeast0LessThan)
    show ?thesis
    proof (cases ok)
      case False
      then show ?thesis using 1 Some by (intro exI [of _ False] exI [of _ s1]) (simp add: fork_end_def)
    next
      case True
      with 1(2) have st: "fork_step M R parent child s0 (area_page v ` {..< size_pages v}) s s1" by (simp add: fork_end_def)
      then have "cow_inv M R s1" "forked M parent child s0 s1" by (simp_all add: fork_step_def)
      from Cons.IH [OF rest this] obtain ok2 s2 where
        2: "fork_areas es M parent child s1 = Inr (ok2, s2)" "fork_end M R parent child s0 (area_pages es) s1 ok2 s2" by blast
      have "\<forall>p \<in> area_page v ` {..< size_pages v}. frame_at M s0 parent p = None \<longrightarrow> user_page p" using v by (auto simp: area_ok_def)
      then have "fork_end M R parent child s0 (area_pages (e # es)) s ok2 s2"
        using fork_step_trans [OF st, of "area_pages es" s2] 2(2) Some by (simp add: fork_end_def split: if_splits)
      moreover have "fork_areas (e # es) M parent child s = Inr (ok2, s2)" using 1(1) 2(1) True Some by simp
      ultimately show ?thesis by blast
    qed
  qed
qed

section \<open>The child has the parent's memory\<close>

lemma new_user_table_ok:
  assumes M: "mapper_ok M" and inv: "cow_inv M R s" and new: "new_user_table M cr3 s = Inr (Some child, s1)"
  shows "child \<notin> R" "cow_inv M (insert child R) s1" "\<forall>p. user_page p \<longrightarrow> frame_at M s1 child p = None"
    "frames s1 = frames s" "zero_phys s1 = zero_phys s" "\<And>r. r \<noteq> child \<Longrightarrow> tables s1 r = tables s r"
    "users M (insert child R) s1 f = users M R s f"
proof -
  from new obtain b where al: "allocate 12 (phys s) = Inr (Some child, b)"
    and s1: "s1 = s\<lparr>phys := b, tables := (tables s)(child := copy_kernel_entries M (tables s cr3))\<rparr>"
    by (auto simp: new_user_table_def bindR_eq_Inr Let_def split: option.splits)
  have bi: "buddy_inv (phys s)" "free_mem (phys s) \<subseteq> {..< MAX_FRAMES * 4096}" and out: "\<forall>r \<in> R. r \<notin> free_mem (phys s)"
    using inv by (simp_all add: cow_inv_def)
  have fr: "fresh s b child" by (rule allocate_fresh [OF bi al])
  have "child \<in> {child ..< child + 4096}" by simp
  then have cin: "child \<in> free_mem (phys s)" "child \<notin> free_mem b" and sub: "free_mem b \<subseteq> free_mem (phys s)" "buddy_inv b"
    using fr unfolding fresh_def held_def disjnt_def by blast+
  show nR: "child \<notin> R" using out cin(1) by blast
  show none: "\<forall>p. user_page p \<longrightarrow> frame_at M s1 child p = None" using copy_kernel_entries_user [OF M] by (simp add: s1)
  show eqs: "frames s1 = frames s" "zero_phys s1 = zero_phys s" "\<And>r. r \<noteq> child \<Longrightarrow> tables s1 r = tables s r" by (simp_all add: s1)
  have us: "users M (insert child R) s1 f = users M R s f" for f
    using none nR eqs(3) by (fastforce simp: users_def)
  then show "users M (insert child R) s1 f = users M R s f" .
  have "entry_ok M (insert child R) s1 r p f" if rp: "r \<in> insert child R" "user_page p" "frame_at M s1 r p = Some f" for r p f
  proof -
    have "r \<noteq> child" using none rp by auto
    then have r: "r \<in> R" "tables s1 r = tables s r" using rp(1) eqs(3) by auto
    have "frame_at M s r p = Some f" using rp(3) r(2) by simp
    note e = cow_invD [OF inv r(1) rp(2) this]
    have "writable M s1 r p = writable M s r p" by (simp add: writable_def r(2))
    then show ?thesis using e(1) held_mono [OF e(2) sub(1)] unfolding entry_ok_def us by (simp add: s1)
  qed
  moreover have "held (free_mem b) (zero_phys s)" using inv held_mono [OF _ sub(1)] by (simp add: cow_inv_def)
  moreover have "\<forall>r \<in> insert child R. r \<notin> free_mem b" using out sub(1) cin(2) by blast
  moreover have "phys s1 = b" by (simp add: s1)
  moreover have "free_mem b \<subseteq> {..< MAX_FRAMES * 4096}" using sub(1) bi(2) by (rule order_trans)
  ultimately show "cow_inv M (insert child R) s1"
    using inv sub unfolding cow_inv_def eqs(1,2) by simp
qed


text \<open>The parent of the sample maps its page in a writable area; the child of a fork reads the same bytes.\<close>

definition sample_areas :: mm where
  "sample_areas = mm_new\<lparr>areas := (areas mm_new)[0 := Some \<lparr>vma_start = 0x400000, size_pages = 1, vma_flags = 7, kind = Anonymous\<rparr>]\<rparr>"

lemma sample_areas_vset: "vset (areas sample_areas) = {\<lparr>vma_start = 0x400000, size_pages = 1, vma_flags = 7, kind = Anonymous\<rparr>}"
  by (auto simp: sample_areas_def mm_new_def vmas_new_def vset_def vma_consts in_set_conv_nth nth_list_update split: if_splits)


end
