(* ===== verification/Ext2_Format.thy ===== *)
theory Ext2_Format
  imports Bytes
begin

text \<open>
  The ext2 crate, first layer: the computations its operations are written in, the sector device they run
  on, and the on-disk formats (\<^verbatim>\<open>ext2/src/error.rs\<close>, \<^verbatim>\<open>bitmap.rs\<close>,
  \<^verbatim>\<open>superblock.rs\<close>, \<^verbatim>\<open>bgd.rs\<close>, \<^verbatim>\<open>inode.rs\<close>, \<^verbatim>\<open>dirent.rs\<close>
  and \<^verbatim>\<open>hal/src/block.rs\<close>).

  \<^verbatim>\<open>u16\<close>, \<^verbatim>\<open>u32\<close> and \<^verbatim>\<open>u64\<close> values are naturals that every operation keeps
  below their bound: \<open>add32\<close>, \<open>sub32\<close>, \<open>mul32\<close> panic on overflow and \<open>div32\<close>, \<open>mod32\<close> on a zero
  divisor, an \<^verbatim>\<open>as\<close> cast is a \<open>mod\<close>. Byte slices are lists of bytes; an index or a range outside
  a slice_of panics.
\<close>

section \<open>Checked arithmetic and slices\<close>

definition add32 :: "nat \<Rightarrow> nat \<Rightarrow> nat res" where
  "add32 a b = (if a + b < 2 ^ 32 then Inr (a + b) else Inl Panic)"

definition sub32 :: "nat \<Rightarrow> nat \<Rightarrow> nat res" where
  "sub32 a b = (if b \<le> a then Inr (a - b) else Inl Panic)"

definition mul32 :: "nat \<Rightarrow> nat \<Rightarrow> nat res" where
  "mul32 a b = (if a * b < 2 ^ 32 then Inr (a * b) else Inl Panic)"

definition div32 :: "nat \<Rightarrow> nat \<Rightarrow> nat res" where
  "div32 a b = (if b = 0 then Inl Panic else Inr (a div b))"

definition mod32 :: "nat \<Rightarrow> nat \<Rightarrow> nat res" where
  "mod32 a b = (if b = 0 then Inl Panic else Inr (a mod b))"

lemma arith32_ok [simp]:
  "a + b < 2 ^ 32 \<Longrightarrow> add32 a b = Inr (a + b)" "b \<le> a \<Longrightarrow> sub32 a b = Inr (a - b)"
  "a * b < 2 ^ 32 \<Longrightarrow> mul32 a b = Inr (a * b)"
  "0 < b \<Longrightarrow> div32 a b = Inr (a div b)" "0 < b \<Longrightarrow> mod32 a b = Inr (a mod b)"
  by (simp_all add: add32_def sub32_def mul32_def div32_def mod32_def)

text \<open>\<^verbatim>\<open>u32 as i32\<close>, and \<^verbatim>\<open>i32\<close> addition and subtraction.\<close>

definition as_i32 :: "nat \<Rightarrow> int" where
  "as_i32 v = (if v < 2 ^ 31 then int v else int v - 2 ^ 32)"

definition chk_i32 :: "int \<Rightarrow> int res" where
  "chk_i32 v = (if - (2 ^ 31) \<le> v \<and> v < 2 ^ 31 then Inr v else Inl Panic)"

text \<open>\<^verbatim>\<open>buf[a..a + n]\<close>, read and overwritten, and a little-endian integer there.\<close>

definition slice_of :: "u8 list \<Rightarrow> nat \<Rightarrow> nat \<Rightarrow> u8 list res" where
  "slice_of b a n = (if a + n \<le> length b then Inr (take n (drop a b)) else Inl Panic)"

definition splice_at :: "u8 list \<Rightarrow> nat \<Rightarrow> u8 list \<Rightarrow> u8 list res" where
  "splice_at b a bs = (if a + length bs \<le> length b then Inr (take a b @ bs @ drop (a + length bs) b) else Inl Panic)"

definition get_le :: "nat \<Rightarrow> u8 list \<Rightarrow> nat \<Rightarrow> nat res" where
  "get_le n b a = bindR (slice_of b a n) (\<lambda>bs. Inr (le_val bs))"

definition put_le :: "nat \<Rightarrow> u8 list \<Rightarrow> nat \<Rightarrow> nat \<Rightarrow> u8 list res" where
  "put_le n b a v = splice_at b a (le_bytes n v)"

definition get_byte :: "u8 list \<Rightarrow> nat \<Rightarrow> u8 res" where
  "get_byte b a = (if a < length b then Inr (b ! a) else Inl Panic)"

section \<open>Computations\<close>

text \<open>
  \<^verbatim>\<open>Ext2Error\<close>, and a computation on a state \<open>'s\<close> that may panic, fail with an error
  (keeping what it had written so far) or return: \<open>bindE\<close> is the question mark operator. The crate's
  computations fail with an \<^verbatim>\<open>Ext2Error\<close>, those of the kernel adapter with an \<^verbatim>\<open>Errno\<close>.
\<close>

datatype Ext2Error = Io | BadMagic | UnsupportedFeature | NoSpace | TooLarge | NotFound | TooDeep

type_synonym ('e, 's, 'a) comp = "'s \<Rightarrow> (('e + 'a) \<times> 's) res"

type_synonym ('s, 'a) e2 = "(Ext2Error, 's, 'a) comp"

definition retE :: "'a \<Rightarrow> ('e, 's, 'a) comp" where
  "retE x s = Inr (Inr x, s)"

definition errE :: "'e \<Rightarrow> ('e, 's, 'a) comp" where
  "errE e s = Inr (Inl e, s)"

definition bindE :: "('e, 's, 'a) comp \<Rightarrow> ('a \<Rightarrow> ('e, 's, 'b) comp) \<Rightarrow> ('e, 's, 'b) comp" where
  "bindE m f s = bindR (m s) (\<lambda>(r, s'). case r of Inl e \<Rightarrow> Inr (Inl e, s') | Inr x \<Rightarrow> f x s')"

definition liftE :: "'a res \<Rightarrow> ('e, 's, 'a) comp" where
  "liftE r s = bindR r (\<lambda>x. Inr (Inr x, s))"

text \<open>
  A computation on the second half of a pair: the device, beside the inode record or the bitmaps that a caller
  lends mutably. \<open>getE\<close>, \<open>putE\<close> read and write that first half.
\<close>

definition onDev :: "('e, 'd, 'a) comp \<Rightarrow> ('e, 'c \<times> 'd, 'a) comp" where
  "onDev m s = bindR (m (snd s)) (\<lambda>(r, d). Inr (r, (fst s, d)))"

definition getE :: "('e, 'c \<times> 'd, 'c) comp" where
  "getE s = Inr (Inr (fst s), s)"

definition putE :: "'c \<Rightarrow> ('e, 'c \<times> 'd, unit) comp" where
  "putE c s = Inr (Inr (), (c, snd s))"

text \<open>Lend a local value \<open>c\<close> to a computation and return what became of it.\<close>

definition lendE :: "'c \<Rightarrow> ('e, 'c \<times> 'd, 'a) comp \<Rightarrow> ('e, 'd, 'a \<times> 'c) comp" where
  "lendE c m d = bindR (m (c, d)) (\<lambda>(r, (c', d')). Inr (case r of Inl e \<Rightarrow> Inl e | Inr x \<Rightarrow> Inr (x, c'), d'))"

text \<open>\<^verbatim>\<open>for x in xs { body }\<close>.\<close>

primrec foreachE :: "'a list \<Rightarrow> ('a \<Rightarrow> ('e, 's, unit) comp) \<Rightarrow> ('e, 's, unit) comp" where
  "foreachE [] f = retE ()"
| "foreachE (x # xs) f = bindE (f x) (\<lambda>_. foreachE xs f)"

text \<open>Running a computation on a state.\<close>

lemmas run_simps = retE_def errE_def bindE_def liftE_def onDev_def getE_def putE_def lendE_def

section \<open>The device\<close>

text \<open>
  \<^verbatim>\<open>MemDisk\<close>: \<open>disk_len\<close> bytes of contents. The strings of its errors are not distinguished
  (every caller maps them to \<^verbatim>\<open>Io\<close>).
\<close>

definition SECTOR_SIZE :: nat where
  "SECTOR_SIZE = 512"

record MemDisk =
  disk_len :: nat
  disk_data :: bytes

definition sector_count :: "MemDisk \<Rightarrow> nat" where
  "sector_count d = disk_len d div SECTOR_SIZE"

definition sectors_of :: "nat \<Rightarrow> nat" where
  "sectors_of cnt = (if cnt = 0 then 256 else cnt)"

definition read_sectors :: "nat \<Rightarrow> nat \<Rightarrow> nat \<Rightarrow> (MemDisk, u8 list) e2" where
  "read_sectors lba cnt buf_len d =
     (let n = sectors_of cnt; start = lba * SECTOR_SIZE; end' = start + n * SECTOR_SIZE in
      if buf_len < n * SECTOR_SIZE \<or> disk_len d < end' then Inr (Inl Io, d)
      else Inr (Inr (peek (disk_data d) start (n * SECTOR_SIZE)), d))"

definition write_sectors :: "nat \<Rightarrow> nat \<Rightarrow> u8 list \<Rightarrow> (MemDisk, unit) e2" where
  "write_sectors lba cnt buf d =
     (let n = sectors_of cnt; start = lba * SECTOR_SIZE; end' = start + n * SECTOR_SIZE in
      if length buf < n * SECTOR_SIZE \<or> disk_len d < end' then Inr (Inl Io, d)
      else Inr (Inr (), d\<lparr>disk_data := poke (disk_data d) start (take (n * SECTOR_SIZE) buf)\<rparr>))"

section \<open>Bitmaps\<close>

definition bit_mask :: "nat \<Rightarrow> u8" where
  "bit_mask n = push_bit (n mod 8) 1"

fun find_free_from :: "u8 list \<Rightarrow> nat list \<Rightarrow> nat option res" where
  "find_free_from bm [] = Inr None"
| "find_free_from bm (i # is) =
     bindR (get_byte bm (i div 8)) (\<lambda>b. if b AND bit_mask i = 0 then Inr (Some i) else find_free_from bm is)"

definition find_first_free_bit :: "u8 list \<Rightarrow> nat \<Rightarrow> nat option res" where
  "find_first_free_bit bm valid_bits = find_free_from bm [0 ..< valid_bits]"

definition set_bit_in :: "u8 list \<Rightarrow> nat \<Rightarrow> u8 list res" where
  "set_bit_in bm i = bindR (get_byte bm (i div 8)) (\<lambda>b. Inr (bm[i div 8 := b OR bit_mask i]))"

definition clear_bit_in :: "u8 list \<Rightarrow> nat \<Rightarrow> u8 list res" where
  "clear_bit_in bm i = bindR (get_byte bm (i div 8)) (\<lambda>b. Inr (bm[i div 8 := b AND NOT (bit_mask i)]))"

definition bit_is_set :: "u8 list \<Rightarrow> nat \<Rightarrow> bool" where
  "bit_is_set bm i \<longleftrightarrow> i div 8 < length bm \<and> (bm ! (i div 8)) AND bit_mask i \<noteq> 0"

fun count_free_from :: "u8 list \<Rightarrow> nat list \<Rightarrow> nat \<Rightarrow> nat res" where
  "count_free_from bm [] free = Inr free"
| "count_free_from bm (i # is) free =
     bindR (get_byte bm (i div 8)) (\<lambda>b.
       if b AND bit_mask i = 0 then bindR (add32 free 1) (count_free_from bm is) else count_free_from bm is free)"

definition count_free_bits :: "u8 list \<Rightarrow> nat \<Rightarrow> nat res" where
  "count_free_bits bm valid_bits = bindR (count_free_from bm [0 ..< valid_bits] 0) (\<lambda>free. Inr (free mod 2 ^ 16))"

section \<open>Superblock and block group descriptors\<close>

definition EXT2_MAGIC :: nat where
  "EXT2_MAGIC = 0xEF53"

definition ROOT_INO :: nat where
  "ROOT_INO = 2"

definition FEATURE_INCOMPAT_FILETYPE :: nat where
  "FEATURE_INCOMPAT_FILETYPE = 2"

record Superblock =
  block_size :: nat
  inodes_count :: nat
  blocks_count :: nat
  inodes_per_group :: nat
  blocks_per_group :: nat
  first_data_block :: nat
  inode_size :: nat
  bgdt_block :: nat
  num_groups :: nat
  first_ino :: nat

text \<open>\<^verbatim>\<open>1024u32 << n\<close>: a shift by the width or more panics, bits shifted out are lost.\<close>

definition shl32 :: "nat \<Rightarrow> nat \<Rightarrow> nat res" where
  "shl32 a n = (if n < 32 then Inr (a * 2 ^ n mod 2 ^ 32) else Inl Panic)"

definition Superblock_parse :: "u8 list \<Rightarrow> (Ext2Error + Superblock) res" where
  "Superblock_parse raw =
     (if length raw < 1024 then Inr (Inl Io) else
      bindR (get_le 2 raw 56) (\<lambda>magic.
      if magic \<noteq> EXT2_MAGIC then Inr (Inl BadMagic) else
      bindR (get_le 4 raw 24) (\<lambda>log_block_size.
      bindR (shl32 1024 log_block_size) (\<lambda>bs.
      bindR (get_le 4 raw 32) (\<lambda>bpg.
      bindR (get_le 4 raw 40) (\<lambda>ipg.
      bindR (get_le 4 raw 0) (\<lambda>icount.
      bindR (get_le 4 raw 4) (\<lambda>bcount.
      bindR (get_le 4 raw 20) (\<lambda>fdb.
      bindR (get_le 4 raw 76) (\<lambda>rev_level.
      bindR (if rev_level = 0 then Inr 128 else get_le 2 raw 88) (\<lambda>isize.
      bindR (if rev_level = 0 then Inr 0 else get_le 4 raw 96) (\<lambda>feature_incompat.
      bindR (if rev_level = 0 then Inr 11 else get_le 4 raw 84) (\<lambda>fino.
      if (of_nat feature_incompat :: u32) AND NOT (of_nat FEATURE_INCOMPAT_FILETYPE) \<noteq> 0
      then Inr (Inl UnsupportedFeature) else
      bindR (add32 bcount bpg) (\<lambda>t.
      bindR (sub32 t 1) (\<lambda>t.
      bindR (div32 t bpg) (\<lambda>ngroups.
      bindR (add32 fdb 1) (\<lambda>bgdt.
      Inr (Inr \<lparr>block_size = bs, inodes_count = icount, blocks_count = bcount,
                inodes_per_group = max ipg 1, blocks_per_group = max bpg 1, first_data_block = fdb,
                inode_size = (if isize = 0 then 128 else isize), bgdt_block = bgdt,
                num_groups = max ngroups 1, first_ino = (if fino = 0 then 11 else fino)\<rparr>))))))))))))))))))"

record BlockGroupDesc =
  block_bitmap :: nat
  inode_bitmap :: nat
  inode_table :: nat
  free_blocks :: nat
  free_inodes :: nat

text \<open>The descriptor that starts at offset \<open>off\<close>: \<^verbatim>\<open>BlockGroupDesc::parse(&buf[off..])\<close>.\<close>

definition BlockGroupDesc_parse :: "u8 list \<Rightarrow> nat \<Rightarrow> BlockGroupDesc res" where
  "BlockGroupDesc_parse buf off =
     bindR (get_le 4 buf off) (\<lambda>bb.
     bindR (get_le 4 buf (off + 4)) (\<lambda>ib.
     bindR (get_le 4 buf (off + 8)) (\<lambda>it.
     bindR (get_le 2 buf (off + 12)) (\<lambda>fb.
     bindR (get_le 2 buf (off + 14)) (\<lambda>fi.
     Inr \<lparr>block_bitmap = bb, inode_bitmap = ib, inode_table = it, free_blocks = fb, free_inodes = fi\<rparr>)))))"

definition bgd_location :: "Superblock \<Rightarrow> nat \<Rightarrow> (nat \<times> nat) res" where
  "bgd_location sb g =
     (let bgd_per_block = block_size sb div 32 in
      bindR (div32 g bgd_per_block) (\<lambda>q.
      bindR (add32 (bgdt_block sb) q) (\<lambda>bgd_block.
      bindR (mod32 g bgd_per_block) (\<lambda>r.
      bindR (mul32 r 32) (\<lambda>bgd_offset. Inr (bgd_block, bgd_offset))))))"

section \<open>Inode records\<close>

record RawInode =
  buf :: "u8 list"

definition RawInode_zeroed :: "nat \<Rightarrow> RawInode" where
  "RawInode_zeroed n = \<lparr>buf = replicate n 0\<rparr>"

definition i_mode :: "RawInode \<Rightarrow> nat res" where
  "i_mode raw = get_le 2 (buf raw) 0"

definition set_field :: "nat \<Rightarrow> RawInode \<Rightarrow> nat \<Rightarrow> nat \<Rightarrow> RawInode res" where
  "set_field n raw off v = bindR (put_le n (buf raw) off v) (\<lambda>b. Inr (raw\<lparr>buf := b\<rparr>))"

definition set_i_mode :: "RawInode \<Rightarrow> nat \<Rightarrow> RawInode res" where
  "set_i_mode raw v = set_field 2 raw 0 v"

definition links_count :: "RawInode \<Rightarrow> nat res" where
  "links_count raw = get_le 2 (buf raw) 26"

definition set_links_count :: "RawInode \<Rightarrow> nat \<Rightarrow> RawInode res" where
  "set_links_count raw v = set_field 2 raw 26 v"

definition set_blocks_512 :: "RawInode \<Rightarrow> nat \<Rightarrow> RawInode res" where
  "set_blocks_512 raw v = set_field 4 raw 28 v"

definition set_dtime :: "RawInode \<Rightarrow> nat \<Rightarrow> RawInode res" where
  "set_dtime raw v = set_field 4 raw 20 v"

text \<open>\<^verbatim>\<open>i_mode() & 0xF000\<close>, as the number of its high nibble.\<close>

definition mode_kind :: "RawInode \<Rightarrow> nat res" where
  "mode_kind raw = bindR (i_mode raw) (\<lambda>m. Inr (m div 2 ^ 12))"

definition is_dir :: "RawInode \<Rightarrow> bool res" where
  "is_dir raw = bindR (mode_kind raw) (\<lambda>k. Inr (k = 4))"

definition is_reg :: "RawInode \<Rightarrow> bool res" where
  "is_reg raw = bindR (mode_kind raw) (\<lambda>k. Inr (k = 8))"

definition is_symlink :: "RawInode \<Rightarrow> bool res" where
  "is_symlink raw = bindR (mode_kind raw) (\<lambda>k. Inr (k = 10))"

definition isize :: "RawInode \<Rightarrow> nat res" where
  "isize raw =
     bindR (get_le 4 (buf raw) 4) (\<lambda>size_lo.
     bindR (is_reg raw) (\<lambda>r.
     if r then bindR (get_le 4 (buf raw) 108) (\<lambda>size_hi. Inr (size_hi * 2 ^ 32 + size_lo)) else Inr size_lo))"

definition set_isize :: "RawInode \<Rightarrow> nat \<Rightarrow> RawInode res" where
  "set_isize raw v =
     bindR (set_field 4 raw 4 (v mod 2 ^ 32)) (\<lambda>raw.
     bindR (is_reg raw) (\<lambda>r. if r then set_field 4 raw 108 (v div 2 ^ 32 mod 2 ^ 32) else Inr raw))"

definition i_block :: "RawInode \<Rightarrow> nat \<Rightarrow> nat res" where
  "i_block raw i = get_le 4 (buf raw) (40 + i * 4)"

definition set_i_block :: "RawInode \<Rightarrow> nat \<Rightarrow> nat \<Rightarrow> RawInode res" where
  "set_i_block raw i v = set_field 4 raw (40 + i * 4) v"

definition is_fast_symlink :: "RawInode \<Rightarrow> bool res" where
  "is_fast_symlink raw = bindR (is_symlink raw) (\<lambda>l. if l then bindR (isize raw) (\<lambda>n. Inr (n < 60)) else Inr False)"

definition has_block_pointers :: "RawInode \<Rightarrow> bool res" where
  "has_block_pointers raw =
     bindR (mode_kind raw) (\<lambda>k.
     if k = 4 \<or> k = 8 \<or> k = 10 then bindR (is_fast_symlink raw) (\<lambda>f. Inr (\<not> f)) else Inr False)"

section \<open>Directory records\<close>

text \<open>A name is the list of its UTF-8 bytes; rounding up to a multiple of four is \<^verbatim>\<open>(8 + n + 3) & !3\<close>.\<close>

definition dirent_len :: "nat \<Rightarrow> nat" where
  "dirent_len name_len = (8 + name_len + 3) div 4 * 4"

definition write_dirent :: "u8 list \<Rightarrow> nat \<Rightarrow> nat \<Rightarrow> u8 list \<Rightarrow> u8 \<Rightarrow> u8 list res" where
  "write_dirent b ino rec_len name file_type =
     bindR (put_le 4 b 0 ino) (\<lambda>b.
     bindR (put_le 2 b 4 rec_len) (\<lambda>b.
     bindR (splice_at b 6 [of_nat (length name)]) (\<lambda>b.
     bindR (splice_at b 7 [file_type]) (\<lambda>b.
     splice_at b 8 name))))"

record ParsedDirent =
  pd_ino :: nat
  pd_rec_len :: nat
  pd_file_type :: u8
  pd_name :: "u8 list"

definition ParsedDirent_parse :: "u8 list \<Rightarrow> nat \<Rightarrow> ParsedDirent option res" where
  "ParsedDirent_parse b off =
     (if length b < off + 8 then Inr None else
      bindR (get_le 4 b off) (\<lambda>ino.
      bindR (get_le 2 b (off + 4)) (\<lambda>rec_len.
      if rec_len < 8 then Inr None else
      bindR (get_byte b (off + 6)) (\<lambda>name_len.
      bindR (get_byte b (off + 7)) (\<lambda>file_type.
      if length b < off + 8 + unat name_len then Inr None else
      bindR (slice_of b (off + 8) (unat name_len)) (\<lambda>name.
      Inr (Some \<lparr>pd_ino = ino, pd_rec_len = rec_len, pd_file_type = file_type, pd_name = name\<rparr>)))))))"

end
