(* ===== verification/Ext2_Volume.thy ===== *)
theory Ext2_Volume
  imports Ext2_Format
begin

text \<open>
  \<^verbatim>\<open>Ext2Core\<close> (\<^verbatim>\<open>ext2/src/volume.rs\<close>): block I/O, block and inode allocation, the inode
  table, the block-pointer tree of a file, and byte ranges of a file. The superblock never changes after mount
  and is an argument; the device is the state, here \<^verbatim>\<open>MemDisk\<close>, the one implementation of
  \<^verbatim>\<open>BlockDevice\<close> that is not a hardware driver. An operation that takes \<^verbatim>\<open>&mut RawInode\<close>
  works on the pair of the record and the device, so what it did to the record is kept on its error paths too.
\<close>

section \<open>Mount and block I/O\<close>

definition mount :: "(MemDisk, Superblock) e2" where
  "mount = bindE (read_sectors 2 2 1024) (\<lambda>raw. bindE (liftE (Superblock_parse raw)) (\<lambda>r.
     case r of Inl e \<Rightarrow> errE e | Inr sb \<Rightarrow> retE sb))"

definition sectors_per_block :: "Superblock \<Rightarrow> nat" where
  "sectors_per_block sb = block_size sb div SECTOR_SIZE mod 256"

definition read_block :: "Superblock \<Rightarrow> nat \<Rightarrow> u8 list \<Rightarrow> (MemDisk, u8 list) e2" where
  "read_block sb b bf =
     bindE (liftE (assertR (block_size sb \<le> length bf))) (\<lambda>_.
     if blocks_count sb \<le> b then errE Io else
     bindE (liftE (mul32 b (sectors_per_block sb))) (\<lambda>lba.
     bindE (read_sectors lba (sectors_per_block sb) (length bf)) (\<lambda>bs. retE (bs @ drop (length bs) bf))))"

definition block_vec :: "Superblock \<Rightarrow> nat \<Rightarrow> (MemDisk, u8 list) e2" where
  "block_vec sb b = read_block sb b (replicate (block_size sb) 0)"

definition write_block :: "Superblock \<Rightarrow> nat \<Rightarrow> u8 list \<Rightarrow> (MemDisk, unit) e2" where
  "write_block sb b bf =
     bindE (liftE (assertR (block_size sb \<le> length bf))) (\<lambda>_.
     if blocks_count sb \<le> b then errE Io else
     bindE (liftE (mul32 b (sectors_per_block sb))) (\<lambda>lba.
     write_sectors lba (sectors_per_block sb) bf))"

section \<open>Block group descriptors and free counts\<close>

definition read_bgd :: "Superblock \<Rightarrow> nat \<Rightarrow> (MemDisk, BlockGroupDesc) e2" where
  "read_bgd sb g =
     bindE (liftE (bgd_location sb g)) (\<lambda>(blk, off).
     bindE (block_vec sb blk) (\<lambda>bf. liftE (BlockGroupDesc_parse bf off)))"

definition adjust16 :: "u8 list \<Rightarrow> nat \<Rightarrow> int \<Rightarrow> u8 list res" where
  "adjust16 bf off delta =
     (if delta = 0 then Inr bf else
      bindR (get_le 2 bf off) (\<lambda>cur.
      bindR (chk_i32 (int cur + delta)) (\<lambda>v. put_le 2 bf off (nat (v mod 2 ^ 16)))))"

definition adjust_bgd_counts :: "Superblock \<Rightarrow> nat \<Rightarrow> int \<Rightarrow> int \<Rightarrow> int \<Rightarrow> (MemDisk, unit) e2" where
  "adjust_bgd_counts sb g free_blocks_delta free_inodes_delta used_dirs_delta =
     bindE (liftE (bgd_location sb g)) (\<lambda>(blk, off).
     bindE (block_vec sb blk) (\<lambda>bf.
     bindE (liftE (adjust16 bf (off + 12) free_blocks_delta)) (\<lambda>bf.
     bindE (liftE (adjust16 bf (off + 14) free_inodes_delta)) (\<lambda>bf.
     bindE (liftE (adjust16 bf (off + 16) used_dirs_delta)) (\<lambda>bf.
     write_block sb blk bf)))))"

definition adjust32 :: "u8 list \<Rightarrow> nat \<Rightarrow> int \<Rightarrow> u8 list res" where
  "adjust32 bf off delta =
     (if delta = 0 then Inr bf else
      bindR (get_le 4 bf off) (\<lambda>cur. put_le 4 bf off (nat ((int cur + delta) mod 2 ^ 32))))"

definition adjust_sb_counts :: "int \<Rightarrow> int \<Rightarrow> (MemDisk, unit) e2" where
  "adjust_sb_counts free_blocks_delta free_inodes_delta =
     bindE (read_sectors 2 2 1024) (\<lambda>raw.
     bindE (liftE (adjust32 raw 12 free_blocks_delta)) (\<lambda>raw.
     bindE (liftE (adjust32 raw 16 free_inodes_delta)) (\<lambda>raw.
     write_sectors 2 2 raw)))"

definition blocks_in_group :: "Superblock \<Rightarrow> nat \<Rightarrow> nat res" where
  "blocks_in_group sb g =
     bindR (mul32 g (blocks_per_group sb)) (\<lambda>t.
     bindR (add32 (first_data_block sb) t) (\<lambda>start.
     Inr (min (blocks_count sb - start) (blocks_per_group sb))))"

definition inodes_in_group :: "Superblock \<Rightarrow> nat \<Rightarrow> nat res" where
  "inodes_in_group sb g =
     bindR (mul32 g (inodes_per_group sb)) (\<lambda>start.
     Inr (min (inodes_count sb - start) (inodes_per_group sb)))"

section \<open>Allocation\<close>

text \<open>The absolute number of a bit of a group's bitmap.\<close>

definition group_block :: "Superblock \<Rightarrow> nat \<Rightarrow> nat \<Rightarrow> nat res" where
  "group_block sb g bitn =
     bindR (mul32 g (blocks_per_group sb)) (\<lambda>t.
     bindR (add32 (first_data_block sb) t) (\<lambda>start. add32 start bitn))"

definition group_inode :: "Superblock \<Rightarrow> nat \<Rightarrow> nat \<Rightarrow> nat res" where
  "group_inode sb g bitn =
     bindR (mul32 g (inodes_per_group sb)) (\<lambda>t.
     bindR (add32 t bitn) (\<lambda>t. add32 t 1))"

primrec alloc_block_in :: "Superblock \<Rightarrow> nat list \<Rightarrow> (MemDisk, nat option) e2" where
  "alloc_block_in sb [] = retE None"
| "alloc_block_in sb (g # gs) =
     bindE (read_bgd sb g) (\<lambda>bgd.
     if free_blocks bgd = 0 then alloc_block_in sb gs else
     bindE (liftE (blocks_in_group sb g)) (\<lambda>group_blocks.
     bindE (block_vec sb (block_bitmap bgd)) (\<lambda>bmap.
     bindE (liftE (find_first_free_bit bmap group_blocks)) (\<lambda>r.
     case r of
       None \<Rightarrow> alloc_block_in sb gs
     | Some bitn \<Rightarrow>
         bindE (liftE (set_bit_in bmap bitn)) (\<lambda>bmap.
         bindE (write_block sb (block_bitmap bgd) bmap) (\<lambda>_.
         bindE (adjust_bgd_counts sb g (- 1) 0 0) (\<lambda>_.
         bindE (adjust_sb_counts (- 1) 0) (\<lambda>_.
         bindE (liftE (group_block sb g bitn)) (\<lambda>block_num.
         bindE (write_block sb block_num (replicate (block_size sb) 0)) (\<lambda>_.
         retE (Some block_num)))))))))))"

definition alloc_block :: "Superblock \<Rightarrow> (MemDisk, nat option) e2" where
  "alloc_block sb = alloc_block_in sb [0 ..< num_groups sb]"

definition free_block :: "Superblock \<Rightarrow> nat \<Rightarrow> (MemDisk, unit) e2" where
  "free_block sb b =
     (if b < first_data_block sb \<or> blocks_count sb \<le> b then errE Io else
      bindE (liftE (div32 (b - first_data_block sb) (blocks_per_group sb))) (\<lambda>g.
      bindE (liftE (mod32 (b - first_data_block sb) (blocks_per_group sb))) (\<lambda>bitn.
      bindE (read_bgd sb g) (\<lambda>bgd.
      bindE (block_vec sb (block_bitmap bgd)) (\<lambda>bmap.
      bindE (liftE (clear_bit_in bmap bitn)) (\<lambda>bmap.
      bindE (write_block sb (block_bitmap bgd) bmap) (\<lambda>_.
      bindE (adjust_bgd_counts sb g 1 0 0) (\<lambda>_.
      adjust_sb_counts 1 0))))))))"

primrec alloc_inode_in :: "Superblock \<Rightarrow> bool \<Rightarrow> nat list \<Rightarrow> (MemDisk, nat option) e2" where
  "alloc_inode_in sb dir [] = retE None"
| "alloc_inode_in sb dir (g # gs) =
     bindE (read_bgd sb g) (\<lambda>bgd.
     if free_inodes bgd = 0 then alloc_inode_in sb dir gs else
     bindE (liftE (inodes_in_group sb g)) (\<lambda>group_inodes.
     bindE (block_vec sb (inode_bitmap bgd)) (\<lambda>bmap.
     bindE (liftE (find_first_free_bit bmap group_inodes)) (\<lambda>r.
     case r of
       None \<Rightarrow> alloc_inode_in sb dir gs
     | Some bitn \<Rightarrow>
         bindE (liftE (set_bit_in bmap bitn)) (\<lambda>bmap.
         bindE (write_block sb (inode_bitmap bgd) bmap) (\<lambda>_.
         bindE (adjust_bgd_counts sb g 0 (- 1) (if dir then 1 else 0)) (\<lambda>_.
         bindE (adjust_sb_counts 0 (- 1)) (\<lambda>_.
         bindE (liftE (group_inode sb g bitn)) (\<lambda>ino. retE (Some ino))))))))))"

definition alloc_inode :: "Superblock \<Rightarrow> bool \<Rightarrow> (MemDisk, nat option) e2" where
  "alloc_inode sb dir = alloc_inode_in sb dir [0 ..< num_groups sb]"

definition free_inode :: "Superblock \<Rightarrow> nat \<Rightarrow> bool \<Rightarrow> (MemDisk, unit) e2" where
  "free_inode sb ino dir =
     (if ino < 1 \<or> inodes_count sb < ino then errE Io else
      bindE (liftE (div32 (ino - 1) (inodes_per_group sb))) (\<lambda>g.
      bindE (liftE (mod32 (ino - 1) (inodes_per_group sb))) (\<lambda>bitn.
      bindE (read_bgd sb g) (\<lambda>bgd.
      bindE (block_vec sb (inode_bitmap bgd)) (\<lambda>bmap.
      bindE (liftE (clear_bit_in bmap bitn)) (\<lambda>bmap.
      bindE (write_block sb (inode_bitmap bgd) bmap) (\<lambda>_.
      bindE (adjust_bgd_counts sb g 0 1 (if dir then - 1 else 0)) (\<lambda>_.
      adjust_sb_counts 0 1))))))))"

section \<open>Inode table\<close>

definition inode_location :: "Superblock \<Rightarrow> nat \<Rightarrow> (MemDisk, nat \<times> nat) e2" where
  "inode_location sb ino =
     (if ino < 1 \<or> inodes_count sb < ino then errE Io else
      bindE (liftE (div32 (ino - 1) (inodes_per_group sb))) (\<lambda>g.
      if num_groups sb \<le> g then errE Io else
      bindE (liftE (mod32 (ino - 1) (inodes_per_group sb))) (\<lambda>index_in_group.
      bindE (liftE (bgd_location sb g)) (\<lambda>(bgd_block, bgd_off).
      bindE (block_vec sb bgd_block) (\<lambda>bgd_buf.
      bindE (liftE (get_le 4 bgd_buf (bgd_off + 8))) (\<lambda>inode_table_block.
      bindE (liftE (div32 (block_size sb) (inode_size sb))) (\<lambda>inodes_per_block.
      bindE (liftE (div32 index_in_group inodes_per_block)) (\<lambda>q.
      bindE (liftE (add32 inode_table_block q)) (\<lambda>table_block.
      bindE (liftE (mod32 index_in_group inodes_per_block)) (\<lambda>r.
      bindE (liftE (mul32 r (inode_size sb))) (\<lambda>offset_in_block.
      retE (table_block, offset_in_block))))))))))))"

definition read_inode :: "Superblock \<Rightarrow> nat \<Rightarrow> (MemDisk, RawInode) e2" where
  "read_inode sb ino =
     bindE (inode_location sb ino) (\<lambda>(table_block, off).
     bindE (block_vec sb table_block) (\<lambda>bf.
     bindE (liftE (slice_of bf off (inode_size sb))) (\<lambda>bs. retE \<lparr>buf = bs\<rparr>)))"

text \<open>\<^verbatim>\<open>copy_from_slice\<close> panics unless the record has exactly \<^verbatim>\<open>inode_size\<close> bytes.\<close>

definition write_inode :: "Superblock \<Rightarrow> nat \<Rightarrow> RawInode \<Rightarrow> (MemDisk, unit) e2" where
  "write_inode sb ino raw =
     bindE (inode_location sb ino) (\<lambda>(table_block, off).
     bindE (block_vec sb table_block) (\<lambda>bf.
     bindE (liftE (assertR (length (buf raw) = inode_size sb))) (\<lambda>_.
     bindE (liftE (splice_at bf off (buf raw))) (\<lambda>bf.
     write_block sb table_block bf))))"

section \<open>The block-pointer tree\<close>

definition read_block_ptr :: "Superblock \<Rightarrow> nat \<Rightarrow> nat \<Rightarrow> (MemDisk, nat option) e2" where
  "read_block_ptr sb b index =
     bindE (block_vec sb b) (\<lambda>bf.
     bindE (liftE (mul32 index 4)) (\<lambda>off.
     bindE (liftE (get_le 4 bf off)) (\<lambda>p. retE (if p = 0 then None else Some p))))"

text \<open>Follow one more level, unless there was a hole above it.\<close>

definition then_ptr :: "Superblock \<Rightarrow> nat option \<Rightarrow> nat \<Rightarrow> (MemDisk, nat option) e2" where
  "then_ptr sb r index = (case r of None \<Rightarrow> retE None | Some b \<Rightarrow> read_block_ptr sb b index)"

definition block_for_index :: "Superblock \<Rightarrow> RawInode \<Rightarrow> nat \<Rightarrow> (MemDisk, nat option) e2" where
  "block_for_index sb raw index =
     (if index < 12 then
        bindE (liftE (i_block raw index)) (\<lambda>b. retE (if b = 0 then None else Some b))
      else
        let ppb = block_size sb div 4; indirect_index = index - 12 in
        if indirect_index < ppb then
          bindE (liftE (i_block raw 12)) (\<lambda>b.
          if b = 0 then retE None else read_block_ptr sb b indirect_index)
        else
          let dbl_index = indirect_index - ppb in
          bindE (liftE (mul32 ppb ppb)) (\<lambda>dbl_capacity.
          if dbl_index < dbl_capacity then
            bindE (liftE (i_block raw 13)) (\<lambda>b.
            if b = 0 then retE None else
            bindE (read_block_ptr sb b (dbl_index div ppb)) (\<lambda>r.
            then_ptr sb r (dbl_index mod ppb)))
          else
            let tpl_index = dbl_index - dbl_capacity in
            bindE (liftE (mul32 dbl_capacity ppb)) (\<lambda>tpl_capacity.
            if tpl_index < tpl_capacity then
              bindE (liftE (i_block raw 14)) (\<lambda>b.
              if b = 0 then retE None else
              let rem = tpl_index mod dbl_capacity in
              bindE (read_block_ptr sb b (tpl_index div dbl_capacity)) (\<lambda>r.
              bindE (then_ptr sb r (rem div ppb)) (\<lambda>r.
              then_ptr sb r (rem mod ppb))))
            else retE None)))"

text \<open>\<^verbatim>\<open>alloc_block()?.ok_or(NoSpace)?\<close>.\<close>

definition alloc_or_nospace :: "Superblock \<Rightarrow> (MemDisk, nat) e2" where
  "alloc_or_nospace sb = bindE (alloc_block sb) (\<lambda>r. case r of None \<Rightarrow> errE NoSpace | Some b \<Rightarrow> retE b)"

definition get_or_alloc_ptr :: "Superblock \<Rightarrow> nat \<Rightarrow> nat \<Rightarrow> (MemDisk, nat) e2" where
  "get_or_alloc_ptr sb container index =
     bindE (block_vec sb container) (\<lambda>bf.
     bindE (liftE (mul32 index 4)) (\<lambda>off.
     bindE (liftE (get_le 4 bf off)) (\<lambda>existing.
     if existing \<noteq> 0 then retE existing else
     bindE (alloc_or_nospace sb) (\<lambda>nb.
     bindE (liftE (put_le 4 bf off nb)) (\<lambda>bf.
     bindE (write_block sb container bf) (\<lambda>_. retE nb))))))"

text \<open>The pointer in slot \<open>i\<close> of the inode record, allocated and stored in the record when it is zero.\<close>

definition get_or_alloc_slot :: "Superblock \<Rightarrow> nat \<Rightarrow> (RawInode \<times> MemDisk, nat) e2" where
  "get_or_alloc_slot sb i =
     bindE getE (\<lambda>raw.
     bindE (liftE (i_block raw i)) (\<lambda>b.
     if b \<noteq> 0 then retE b else
     bindE (onDev (alloc_or_nospace sb)) (\<lambda>nb.
     bindE (liftE (set_i_block raw i nb)) (\<lambda>raw.
     bindE (putE raw) (\<lambda>_. retE nb)))))"

definition block_for_index_alloc :: "Superblock \<Rightarrow> nat \<Rightarrow> (RawInode \<times> MemDisk, nat) e2" where
  "block_for_index_alloc sb index =
     (if index < 12 then get_or_alloc_slot sb index
      else
        let ppb = block_size sb div 4; indirect_index = index - 12 in
        if indirect_index < ppb then
          bindE (get_or_alloc_slot sb 12) (\<lambda>b. onDev (get_or_alloc_ptr sb b indirect_index))
        else
          let dbl_index = indirect_index - ppb in
          bindE (liftE (mul32 ppb ppb)) (\<lambda>dbl_capacity.
          if dbl_index < dbl_capacity then
            bindE (get_or_alloc_slot sb 13) (\<lambda>b.
            bindE (onDev (get_or_alloc_ptr sb b (dbl_index div ppb))) (\<lambda>b.
            onDev (get_or_alloc_ptr sb b (dbl_index mod ppb))))
          else
            let tpl_index = dbl_index - dbl_capacity in
            bindE (liftE (mul32 dbl_capacity ppb)) (\<lambda>tpl_capacity.
            if tpl_index < tpl_capacity then
              let rem = tpl_index mod dbl_capacity in
              bindE (get_or_alloc_slot sb 14) (\<lambda>b.
              bindE (onDev (get_or_alloc_ptr sb b (tpl_index div dbl_capacity))) (\<lambda>b.
              bindE (onDev (get_or_alloc_ptr sb b (rem div ppb))) (\<lambda>b.
              onDev (get_or_alloc_ptr sb b (rem mod ppb)))))
            else errE TooLarge)))"

section \<open>File data\<close>

text \<open>
  The two loops: \<open>done\<close> bytes of \<open>len\<close> are through. The divisor of \<^verbatim>\<open>file_pos / bs\<close> is the block
  size, and the block index is truncated to 32 bits.
\<close>

definition chunk :: "Superblock \<Rightarrow> nat \<Rightarrow> nat \<Rightarrow> nat \<Rightarrow> nat" where
  "chunk sb file_pos len done = min (block_size sb - file_pos mod block_size sb) (len - done)"

lemma chunk_pos: "0 < block_size sb \<Longrightarrow> done < len \<Longrightarrow> 0 < chunk sb p len done"
  by (simp add: chunk_def)

lemma chunk_less:
  "\<not> len \<le> done \<Longrightarrow> block_size sb \<noteq> 0 \<Longrightarrow> len - (done + chunk sb p len done) < len - done"
  using chunk_pos [of sb "done" len p] by linarith

function read_range_loop :: "Superblock \<Rightarrow> RawInode \<Rightarrow> nat \<Rightarrow> nat \<Rightarrow> nat \<Rightarrow> (u8 list \<times> MemDisk, unit) e2" where
  "read_range_loop sb raw offset len done =
     (if len \<le> done then retE () else
      bindE (liftE (add64 offset done)) (\<lambda>file_pos.
      if block_size sb = 0 then liftE (Inl Panic) else
      let n = chunk sb (offset + done) len done; block_off = file_pos mod block_size sb in
      bindE (onDev (block_for_index sb raw (file_pos div block_size sb mod 2 ^ 32))) (\<lambda>r.
      bindE getE (\<lambda>bf.
      bindE (case r of
          Some b \<Rightarrow>
            bindE (onDev (block_vec sb b)) (\<lambda>block_buf.
            bindE (liftE (slice_of block_buf block_off n)) (\<lambda>bs.
            bindE (liftE (splice_at bf done bs)) putE))
        | None \<Rightarrow> bindE (liftE (splice_at bf done (replicate n 0))) putE) (\<lambda>_.
      read_range_loop sb raw offset len (done + n))))))"
  by pat_completeness auto

termination
  by (relation "measure (\<lambda>(sb, raw, offset, len, done). len - done)") (simp_all add: chunk_less)

definition read_file_range :: "Superblock \<Rightarrow> RawInode \<Rightarrow> nat \<Rightarrow> (u8 list \<times> MemDisk, unit) e2" where
  "read_file_range sb raw offset = bindE getE (\<lambda>bf. read_range_loop sb raw offset (length bf) 0)"

text \<open>A whole block is written as it is, a part of one is patched into what the block holds.\<close>

definition write_piece :: "Superblock \<Rightarrow> nat \<Rightarrow> nat \<Rightarrow> nat \<Rightarrow> u8 list \<Rightarrow> (RawInode \<times> MemDisk, unit) e2" where
  "write_piece sb b n block_off piece =
     (if n = block_size sb then onDev (write_block sb b piece)
      else bindE (onDev (block_vec sb b)) (\<lambda>block_buf.
           bindE (liftE (splice_at block_buf block_off piece)) (\<lambda>block_buf.
           onDev (write_block sb b block_buf))))"

function write_range_loop :: "Superblock \<Rightarrow> nat \<Rightarrow> u8 list \<Rightarrow> nat \<Rightarrow> (RawInode \<times> MemDisk, unit) e2" where
  "write_range_loop sb offset dat done =
     (if length dat \<le> done then retE () else
      bindE (liftE (add64 offset done)) (\<lambda>file_pos.
      if block_size sb = 0 then liftE (Inl Panic) else
      let n = chunk sb (offset + done) (length dat) done in
      bindE (block_for_index_alloc sb (file_pos div block_size sb mod 2 ^ 32)) (\<lambda>b.
      bindE (write_piece sb b n (file_pos mod block_size sb) (take n (drop done dat))) (\<lambda>_.
      write_range_loop sb offset dat (done + n)))))"
  by pat_completeness auto

termination
  by (relation "measure (\<lambda>(sb, offset, dat, done). length dat - done)") (simp_all add: chunk_less)

declare read_range_loop.simps [simp del] write_range_loop.simps [simp del]

definition write_file_range :: "Superblock \<Rightarrow> nat \<Rightarrow> nat \<Rightarrow> u8 list \<Rightarrow> (RawInode \<times> MemDisk, nat) e2" where
  "write_file_range sb ino offset dat =
     (if dat = [] then retE 0 else
      bindE (write_range_loop sb offset dat 0) (\<lambda>_.
      bindE (liftE (add64 offset (length dat))) (\<lambda>new_size.
      bindE getE (\<lambda>raw.
      bindE (liftE (isize raw)) (\<lambda>old_size.
      bindE (if old_size < new_size then bindE (liftE (set_isize raw new_size)) putE else retE ()) (\<lambda>_.
      bindE getE (\<lambda>raw.
      bindE (onDev (write_inode sb ino raw)) (\<lambda>_. retE (length dat)))))))))"

section \<open>Walking the tree\<close>

text \<open>\<open>visit\<close> may change the first half of the state and the device.\<close>

type_synonym 'c visitor = "nat \<Rightarrow> ('c \<times> MemDisk, unit) e2"

definition visit_pointers :: "Superblock \<Rightarrow> nat \<Rightarrow> 'c visitor \<Rightarrow> ('c \<times> MemDisk, unit) e2" where
  "visit_pointers sb b body =
     bindE (onDev (block_vec sb b)) (\<lambda>bf.
     foreachE [0 ..< block_size sb div 4] (\<lambda>idx.
       bindE (liftE (get_le 4 bf (idx * 4))) (\<lambda>p. if p \<noteq> 0 then body p else retE ())))"

definition visit_pointer_block_targets :: "Superblock \<Rightarrow> nat \<Rightarrow> 'c visitor \<Rightarrow> ('c \<times> MemDisk, unit) e2" where
  "visit_pointer_block_targets sb b visit = visit_pointers sb b visit"

definition visit_slot :: "RawInode \<Rightarrow> nat \<Rightarrow> 'c visitor \<Rightarrow> ('c \<times> MemDisk, unit) e2" where
  "visit_slot raw i body = bindE (liftE (i_block raw i)) (\<lambda>b. if b \<noteq> 0 then body b else retE ())"

definition visit_inode_blocks :: "Superblock \<Rightarrow> RawInode \<Rightarrow> 'c visitor \<Rightarrow> ('c \<times> MemDisk, unit) e2" where
  "visit_inode_blocks sb raw visit =
     bindE (foreachE [0 ..< 12] (\<lambda>i. visit_slot raw i visit)) (\<lambda>_.
     bindE (visit_slot raw 12 (\<lambda>b. bindE (visit b) (\<lambda>_. visit_pointer_block_targets sb b visit))) (\<lambda>_.
     bindE (visit_slot raw 13 (\<lambda>b. bindE (visit b) (\<lambda>_.
       visit_pointers sb b (\<lambda>first_level. bindE (visit first_level) (\<lambda>_.
         visit_pointer_block_targets sb first_level visit))))) (\<lambda>_.
     visit_slot raw 14 (\<lambda>b. bindE (visit b) (\<lambda>_.
       visit_pointers sb b (\<lambda>second_level. bindE (visit second_level) (\<lambda>_.
         visit_pointers sb second_level (\<lambda>first_level. bindE (visit first_level) (\<lambda>_.
           visit_pointer_block_targets sb first_level visit)))))))))"

end
