(* ===== verification/Ext2_Dir.thy ===== *)
theory Ext2_Dir
  imports Ext2_Volume
begin

text \<open>
  Directories and symbolic links (\<^verbatim>\<open>ext2/src/dir.rs\<close>): listing, inserting and removing entries of a
  directory's data blocks, rewriting the parent entry, and the two representations of a link's target.
  A \<^verbatim>\<open>String\<close> is the list of its UTF-8 bytes.
\<close>

section \<open>Lossy decoding\<close>

text \<open>
  \<^verbatim>\<open>String::from_utf8_lossy\<close>: each maximal prefix of an ill-formed sequence becomes one replacement
  character (the bytes EF BF BD). \<open>utf8_len\<close> is the length and well-formedness of the first sequence.
\<close>

definition cont_byte :: "nat \<Rightarrow> bool" where
  "cont_byte b \<longleftrightarrow> 0x80 \<le> b \<and> b \<le> 0xBF"

definition second_ok :: "nat \<Rightarrow> nat \<Rightarrow> bool" where
  "second_ok a b =
     (if a = 0xE0 then 0xA0 \<le> b \<and> b \<le> 0xBF else
      if a = 0xED then 0x80 \<le> b \<and> b \<le> 0x9F else
      if a = 0xF0 then 0x90 \<le> b \<and> b \<le> 0xBF else
      if a = 0xF4 then 0x80 \<le> b \<and> b \<le> 0x8F else cont_byte b)"

definition utf8_width :: "nat \<Rightarrow> nat" where
  "utf8_width a =
     (if a < 0x80 then 1 else if 0xC2 \<le> a \<and> a \<le> 0xDF then 2 else
      if 0xE0 \<le> a \<and> a \<le> 0xEF then 3 else if 0xF0 \<le> a \<and> a \<le> 0xF4 then 4 else 0)"

text \<open>How many of the following bytes continue the sequence.\<close>

definition utf8_prefix :: "nat \<Rightarrow> nat list \<Rightarrow> nat" where
  "utf8_prefix a bs =
     (if bs = [] \<or> utf8_width a < 2 \<or> \<not> second_ok a (hd bs) then 0
      else 1 + length (takeWhile cont_byte (take (utf8_width a - 2) (tl bs))))"

function from_utf8_lossy :: "u8 list \<Rightarrow> u8 list" where
  "from_utf8_lossy [] = []"
| "from_utf8_lossy (b # bs) =
     (let a = unat b; k = utf8_prefix a (map unat bs) in
      (if k + 1 = utf8_width a then b # take k bs else [0xEF, 0xBF, 0xBD]) @ from_utf8_lossy (drop k bs))"
  by pat_completeness auto

termination
  by (relation "measure length") simp_all

section \<open>Directory entries\<close>

record DirEntry =
  de_ino :: nat
  de_file_type :: u8
  de_name :: "u8 list"

definition DOT :: "u8 list" where
  "DOT = [0x2E]"

definition DOTDOT :: "u8 list" where
  "DOTDOT = [0x2E, 0x2E]"

definition num_dir_blocks :: "Superblock \<Rightarrow> RawInode \<Rightarrow> nat res" where
  "num_dir_blocks sb raw =
     bindR (isize raw) (\<lambda>n.
     bindR (add64 n (block_size sb)) (\<lambda>t.
     bindR (sub64 t 1) (\<lambda>t.
     if block_size sb = 0 then Inl Panic else Inr (t div block_size sb))))"

definition dir_entry_at :: "u8 list \<Rightarrow> nat \<Rightarrow> DirEntry list res" where
  "dir_entry_at bf off =
     bindR (ParsedDirent_parse bf off) (\<lambda>r. Inr (case r of
         None \<Rightarrow> []
       | Some e \<Rightarrow>
           if pd_ino e \<noteq> 0 \<and> pd_name e \<noteq> [] then
             let name = from_utf8_lossy (pd_name e) in
             if name \<noteq> DOT \<and> name \<noteq> DOTDOT
             then [\<lparr>de_ino = pd_ino e, de_file_type = pd_file_type e, de_name = name\<rparr>] else []
           else []))"

text \<open>The loops over the records of one block stop on a record length below eight and so always advance.\<close>

function scan_entries :: "u8 list \<Rightarrow> nat \<Rightarrow> DirEntry list res" where
  "scan_entries bf off =
     (if length bf < off + 8 then Inr [] else
      case get_le 2 bf (off + 4) of
        Inl a \<Rightarrow> Inl a
      | Inr rec_len \<Rightarrow>
          if rec_len < 8 then Inr [] else
          bindR (dir_entry_at bf off) (\<lambda>es.
          bindR (scan_entries bf (off + rec_len)) (\<lambda>rest. Inr (es @ rest))))"
  by pat_completeness auto

termination
  by (relation "measure (\<lambda>(bf, off). length bf - off)") auto

declare scan_entries.simps [simp del]

primrec read_dir_blocks :: "Superblock \<Rightarrow> RawInode \<Rightarrow> nat list \<Rightarrow> (MemDisk, DirEntry list) e2" where
  "read_dir_blocks sb raw [] = retE []"
| "read_dir_blocks sb raw (i # is) =
     bindE (block_for_index sb raw i) (\<lambda>r.
     case r of
       None \<Rightarrow> read_dir_blocks sb raw is
     | Some b \<Rightarrow>
         bindE (block_vec sb b) (\<lambda>bf.
         bindE (liftE (scan_entries bf 0)) (\<lambda>es.
         bindE (read_dir_blocks sb raw is) (\<lambda>rest. retE (es @ rest)))))"

definition read_dir_entries :: "Superblock \<Rightarrow> RawInode \<Rightarrow> (MemDisk, DirEntry list) e2" where
  "read_dir_entries sb raw =
     bindE (liftE (num_dir_blocks sb raw)) (\<lambda>n. read_dir_blocks sb raw [0 ..< n mod 2 ^ 32])"

section \<open>Insertion\<close>

definition write_dirent_at :: "u8 list \<Rightarrow> nat \<Rightarrow> nat \<Rightarrow> nat \<Rightarrow> nat \<Rightarrow> u8 list \<Rightarrow> u8 \<Rightarrow> u8 list res" where
  "write_dirent_at bf off n ino rec_len name file_type =
     bindR (slice_of bf off n) (\<lambda>sub.
     bindR (write_dirent sub ino rec_len name file_type) (\<lambda>sub. splice_at bf off sub))"

text \<open>One block: \<open>Inr (Some bf')\<close> with the entry placed, \<open>Inr None\<close> when nothing fits.\<close>

function place_entry :: "u8 list \<Rightarrow> nat \<Rightarrow> u8 list \<Rightarrow> nat \<Rightarrow> u8 \<Rightarrow> (Ext2Error + u8 list option) res" where
  "place_entry bf off name ino file_type =
     (if length bf < off + 8 then Inr (Inr None) else
      bindR (get_le 4 bf off) (\<lambda>entry_ino.
      case get_le 2 bf (off + 4) of
        Inl a \<Rightarrow> Inl a
      | Inr rec_len \<Rightarrow>
          if rec_len < 8 then Inr (Inl Io) else
          bindR (get_byte bf (off + 6)) (\<lambda>name_len.
          let used_len = (if entry_ino = 0 then 0 else dirent_len (unat name_len)) in
          bindR (sub64 rec_len used_len) (\<lambda>slack.
          if dirent_len (length name) \<le> slack then
            (if entry_ino \<noteq> 0 then
               bindR (put_le 2 bf (off + 4) (used_len mod 2 ^ 16)) (\<lambda>bf.
               bindR (write_dirent_at bf (off + used_len) slack ino (slack mod 2 ^ 16) name file_type) (\<lambda>bf.
               Inr (Inr (Some bf))))
             else
               bindR (write_dirent_at bf off rec_len ino (rec_len mod 2 ^ 16) name file_type) (\<lambda>bf.
               Inr (Inr (Some bf))))
          else place_entry bf (off + rec_len) name ino file_type))))"
  by pat_completeness auto

termination
  by (relation "measure (\<lambda>(bf, off, _). length bf - off)") auto

declare place_entry.simps [simp del]

primrec add_in_blocks :: "Superblock \<Rightarrow> RawInode \<Rightarrow> u8 list \<Rightarrow> nat \<Rightarrow> u8 \<Rightarrow> nat list \<Rightarrow> (MemDisk, bool) e2" where
  "add_in_blocks sb raw name ino file_type [] = retE False"
| "add_in_blocks sb raw name ino file_type (i # is) =
     bindE (block_for_index sb raw i) (\<lambda>r.
     case r of
       None \<Rightarrow> add_in_blocks sb raw name ino file_type is
     | Some b \<Rightarrow>
         bindE (block_vec sb b) (\<lambda>bf.
         bindE (liftE (place_entry bf 0 name ino file_type)) (\<lambda>p.
         case p of
           Inl e \<Rightarrow> errE e
         | Inr (Some bf) \<Rightarrow> bindE (write_block sb b bf) (\<lambda>_. retE True)
         | Inr None \<Rightarrow> add_in_blocks sb raw name ino file_type is)))"

definition add_dir_entry :: "Superblock \<Rightarrow> nat \<Rightarrow> u8 list \<Rightarrow> nat \<Rightarrow> u8 \<Rightarrow> (RawInode \<times> MemDisk, unit) e2" where
  "add_dir_entry sb dir_ino name ino file_type =
     bindE getE (\<lambda>raw.
     bindE (liftE (num_dir_blocks sb raw)) (\<lambda>n.
     bindE (onDev (add_in_blocks sb raw name ino file_type [0 ..< n mod 2 ^ 32])) (\<lambda>placed.
     if placed then retE () else
     let new_block_index = n mod 2 ^ 32 in
     bindE (block_for_index_alloc sb new_block_index) (\<lambda>new_block.
     bindE (liftE (write_dirent (replicate (block_size sb) 0) ino (block_size sb mod 2 ^ 16) name file_type)) (\<lambda>bf.
     bindE (onDev (write_block sb new_block bf)) (\<lambda>_.
     bindE getE (\<lambda>raw.
     bindE (liftE (mul64 (new_block_index + 1) (block_size sb))) (\<lambda>sz.
     bindE (liftE (set_isize raw sz)) (\<lambda>raw.
     bindE (putE raw) (\<lambda>_. onDev (write_inode sb dir_ino raw)))))))))))"

section \<open>Removal and the parent entry\<close>

text \<open>\<^verbatim>\<open>prev\<close> is the offset of the record before \<open>off\<close> in the same block.\<close>

function unplace_entry :: "u8 list \<Rightarrow> nat \<Rightarrow> nat option \<Rightarrow> u8 list \<Rightarrow> (nat \<times> u8 \<times> u8 list) option res" where
  "unplace_entry bf off prev name =
     (if length bf < off + 8 then Inr None else
      bindR (get_le 4 bf off) (\<lambda>entry_ino.
      case get_le 2 bf (off + 4) of
        Inl a \<Rightarrow> Inl a
      | Inr rec_len \<Rightarrow>
          if rec_len < 8 then Inr None else
          bindR (get_byte bf (off + 6)) (\<lambda>name_len.
          bindR (get_byte bf (off + 7)) (\<lambda>file_type.
          if entry_ino \<noteq> 0 \<and> unat name_len = length name \<and> off + 8 + unat name_len \<le> length bf \<and>
             take (unat name_len) (drop (off + 8) bf) = name
          then
            bindR (case prev of
                Some p \<Rightarrow> bindR (get_le 2 bf (p + 4)) (\<lambda>p_rec_len.
                          put_le 2 bf (p + 4) ((p_rec_len + rec_len) mod 2 ^ 16))
              | None \<Rightarrow> put_le 4 bf off 0) (\<lambda>bf. Inr (Some (entry_ino, file_type, bf)))
          else unplace_entry bf (off + rec_len) (Some off) name))))"
  by pat_completeness auto

termination
  by (relation "measure (\<lambda>(bf, off, _). length bf - off)") auto

declare unplace_entry.simps [simp del]

primrec remove_in_blocks :: "Superblock \<Rightarrow> RawInode \<Rightarrow> u8 list \<Rightarrow> nat list \<Rightarrow> (MemDisk, nat \<times> u8) e2" where
  "remove_in_blocks sb raw name [] = errE NotFound"
| "remove_in_blocks sb raw name (i # is) =
     bindE (block_for_index sb raw i) (\<lambda>r.
     case r of
       None \<Rightarrow> remove_in_blocks sb raw name is
     | Some b \<Rightarrow>
         bindE (block_vec sb b) (\<lambda>bf.
         bindE (liftE (unplace_entry bf 0 None name)) (\<lambda>p.
         case p of
           Some (ino, ft, bf) \<Rightarrow> bindE (write_block sb b bf) (\<lambda>_. retE (ino, ft))
         | None \<Rightarrow> remove_in_blocks sb raw name is)))"

definition remove_dir_entry :: "Superblock \<Rightarrow> RawInode \<Rightarrow> u8 list \<Rightarrow> (MemDisk, nat \<times> u8) e2" where
  "remove_dir_entry sb raw name =
     bindE (liftE (num_dir_blocks sb raw)) (\<lambda>n. remove_in_blocks sb raw name [0 ..< n mod 2 ^ 32])"

function find_dotdot :: "u8 list \<Rightarrow> nat \<Rightarrow> nat option res" where
  "find_dotdot bf off =
     (if length bf < off + 8 then Inr None else
      case get_le 2 bf (off + 4) of
        Inl a \<Rightarrow> Inl a
      | Inr rec_len \<Rightarrow>
          if rec_len < 8 then Inr None else
          bindR (get_byte bf (off + 6)) (\<lambda>name_len.
          if unat name_len = 2 \<and> off + 8 + 2 \<le> length bf \<and> take 2 (drop (off + 8) bf) = DOTDOT
          then Inr (Some off) else find_dotdot bf (off + rec_len)))"
  by pat_completeness auto

termination
  by (relation "measure (\<lambda>(bf, off). length bf - off)") auto

declare find_dotdot.simps [simp del]

definition set_dotdot :: "Superblock \<Rightarrow> RawInode \<Rightarrow> nat \<Rightarrow> (MemDisk, unit) e2" where
  "set_dotdot sb raw new_parent_ino =
     bindE (block_for_index sb raw 0) (\<lambda>r.
     case r of
       None \<Rightarrow> errE Io
     | Some b \<Rightarrow>
         bindE (block_vec sb b) (\<lambda>bf.
         bindE (liftE (find_dotdot bf 0)) (\<lambda>p.
         case p of
           None \<Rightarrow> errE Io
         | Some off \<Rightarrow> bindE (liftE (put_le 4 bf off new_parent_ino)) (write_block sb b))))"

section \<open>Symbolic links\<close>

definition read_symlink_target :: "Superblock \<Rightarrow> RawInode \<Rightarrow> (MemDisk, u8 list) e2" where
  "read_symlink_target sb raw =
     bindE (liftE (isize raw)) (\<lambda>n.
     bindE (liftE (is_fast_symlink raw)) (\<lambda>fast.
     if fast then bindE (liftE (slice_of (buf raw) 40 n)) (\<lambda>bs. retE (from_utf8_lossy bs))
     else bindE (lendE (replicate n 0) (read_file_range sb raw 0)) (\<lambda>(_, bs). retE (from_utf8_lossy bs))))"

definition write_symlink_target :: "Superblock \<Rightarrow> nat \<Rightarrow> u8 list \<Rightarrow> (RawInode \<times> MemDisk, unit) e2" where
  "write_symlink_target sb ino target =
     bindE getE (\<lambda>raw.
     if length target < 60 then
       bindE (liftE (splice_at (buf raw) 40 target)) (\<lambda>b.
       bindE (liftE (set_isize (raw\<lparr>buf := b\<rparr>) (length target))) (\<lambda>raw.
       bindE (putE raw) (\<lambda>_. onDev (write_inode sb ino raw))))
     else
       bindE (onDev (write_inode sb ino raw)) (\<lambda>_.
       bindE (write_file_range sb ino 0 target) (\<lambda>_. retE ())))"

end
