(* ===== verification/Ext2_Repair.thy ===== *)
theory Ext2_Repair
  imports Ext2_Dir
begin

text \<open>
  Mount-time repair (\<^verbatim>\<open>ext2/src/repair.rs\<close>): the free counts are recomputed from the bitmaps, and
  blocks and inodes that no path from the root reaches are released. The bitmaps of that
  walk ignore numbers outside their range.
\<close>

section \<open>Lenient bitmaps\<close>

definition mark_bit :: "u8 list \<Rightarrow> nat \<Rightarrow> u8 list" where
  "mark_bit bm n = (if n div 8 < length bm then bm[n div 8 := (bm ! (n div 8)) OR bit_mask n] else bm)"

definition bit_set_at :: "u8 list \<Rightarrow> nat \<Rightarrow> bool" where
  "bit_set_at bm n \<longleftrightarrow> n div 8 < length bm \<and> (bm ! (n div 8)) AND bit_mask n \<noteq> 0"

definition mark_bit_1based :: "u8 list \<Rightarrow> nat \<Rightarrow> u8 list" where
  "mark_bit_1based bm ino = (if 1 \<le> ino then mark_bit bm (ino - 1) else bm)"

definition bit_set_1based :: "u8 list \<Rightarrow> nat \<Rightarrow> bool" where
  "bit_set_1based bm ino \<longleftrightarrow> 1 \<le> ino \<and> bit_set_at bm (ino - 1)"

section \<open>Free counts\<close>

record ReconcileReport =
  bgd_drift :: bool
  sb_drift :: bool
  total_free_blocks :: nat
  total_free_inodes :: nat

definition sb_free_counts :: "(MemDisk, nat \<times> nat) e2" where
  "sb_free_counts =
     bindE (read_sectors 2 2 1024) (\<lambda>raw.
     bindE (liftE (get_le 4 raw 12)) (\<lambda>fb.
     bindE (liftE (get_le 4 raw 16)) (\<lambda>fi. retE (fb, fi))))"

definition true_free_counts :: "Superblock \<Rightarrow> nat \<Rightarrow> BlockGroupDesc \<Rightarrow> (MemDisk, nat \<times> nat) e2" where
  "true_free_counts sb g bgd =
     bindE (block_vec sb (block_bitmap bgd)) (\<lambda>bbm.
     bindE (liftE (blocks_in_group sb g)) (\<lambda>nb.
     bindE (liftE (count_free_bits bbm nb)) (\<lambda>fb.
     bindE (block_vec sb (inode_bitmap bgd)) (\<lambda>ibm.
     bindE (liftE (inodes_in_group sb g)) (\<lambda>ni.
     bindE (liftE (count_free_bits ibm ni)) (\<lambda>fi. retE (fb, fi)))))))"

text \<open>The loop over the groups, with the totals so far.\<close>

primrec reconcile_groups ::
  "Superblock \<Rightarrow> nat list \<Rightarrow> bool \<Rightarrow> nat \<Rightarrow> nat \<Rightarrow> (MemDisk, bool \<times> nat \<times> nat) e2" where
  "reconcile_groups sb [] drift tb ti = retE (drift, tb, ti)"
| "reconcile_groups sb (g # gs) drift tb ti =
     bindE (read_bgd sb g) (\<lambda>bgd.
     bindE (true_free_counts sb g bgd) (\<lambda>(fb, fi).
     let differs = fb \<noteq> free_blocks bgd \<or> fi \<noteq> free_inodes bgd in
     bindE (if differs then adjust_bgd_counts sb g (int fb - int (free_blocks bgd)) (int fi - int (free_inodes bgd)) 0
            else retE ()) (\<lambda>_.
     bindE (liftE (add32 tb fb)) (\<lambda>tb.
     bindE (liftE (add32 ti fi)) (\<lambda>ti.
     reconcile_groups sb gs (drift \<or> differs) tb ti)))))"

definition reconcile_free_counts :: "Superblock \<Rightarrow> (MemDisk, ReconcileReport) e2" where
  "reconcile_free_counts sb =
     bindE sb_free_counts (\<lambda>(sb_free_blocks, sb_free_inodes).
     bindE (reconcile_groups sb [0 ..< num_groups sb] False 0 0) (\<lambda>(drift, tb, ti).
     let differs = tb \<noteq> sb_free_blocks \<or> ti \<noteq> sb_free_inodes in
     bindE (if differs then
              bindE (liftE (chk_i32 (as_i32 tb - as_i32 sb_free_blocks))) (\<lambda>db.
              bindE (liftE (chk_i32 (as_i32 ti - as_i32 sb_free_inodes))) (\<lambda>di.
              adjust_sb_counts db di))
            else retE ()) (\<lambda>_.
     retE \<lparr>bgd_drift = drift, sb_drift = differs, total_free_blocks = tb, total_free_inodes = ti\<rparr>)))"

section \<open>The reachability walk\<close>

text \<open>The state is the pair of the bitmaps of used inodes and used blocks, beside the device.\<close>

type_synonym used = "u8 list \<times> u8 list"

definition mark_block :: "nat \<Rightarrow> (used \<times> MemDisk, unit) e2" where
  "mark_block b = bindE getE (\<lambda>(ui, ub). putE (ui, mark_bit ub b))"

definition mark_inode :: "nat \<Rightarrow> (used \<times> MemDisk, unit) e2" where
  "mark_inode ino = bindE getE (\<lambda>(ui, ub). putE (mark_bit_1based ui ino, ub))"

text \<open>One visit, with \<open>descend\<close> the recursive call on a child.\<close>

definition mark_visit :: "Superblock \<Rightarrow> nat \<Rightarrow> (nat \<Rightarrow> (used \<times> MemDisk, unit) e2) \<Rightarrow> (used \<times> MemDisk, unit) e2" where
  "mark_visit sb ino descend =
     bindE (mark_inode ino) (\<lambda>_.
     bindE (onDev (read_inode sb ino)) (\<lambda>raw.
     bindE (liftE (has_block_pointers raw)) (\<lambda>ptrs.
     bindE (if ptrs then visit_inode_blocks sb raw mark_block else retE ()) (\<lambda>_.
     bindE (liftE (is_dir raw)) (\<lambda>dir.
     if dir then bindE (onDev (read_dir_entries sb raw)) (\<lambda>es. foreachE es (\<lambda>e. descend (de_ino e)))
     else retE ())))))"

primrec mark_reachable :: "Superblock \<Rightarrow> nat \<Rightarrow> nat \<Rightarrow> (used \<times> MemDisk, unit) e2" where
  "mark_reachable sb 0 ino =
     bindE getE (\<lambda>(ui, ub). if bit_set_1based ui ino then retE () else errE TooDeep)"
| "mark_reachable sb (Suc depth_left) ino =
     bindE getE (\<lambda>(ui, ub). if bit_set_1based ui ino then retE () else
       mark_visit sb ino (mark_reachable sb depth_left))"

section \<open>Orphans\<close>

text \<open>\<^verbatim>\<open>for b in a..a + n\<close>: the end of the range is computed first.\<close>

definition mark_range :: "nat \<Rightarrow> nat \<Rightarrow> (used \<times> MemDisk, unit) e2" where
  "mark_range a n = bindE (liftE (add32 a n)) (\<lambda>e. foreachE [a ..< e] mark_block)"

definition div_ceil32 :: "nat \<Rightarrow> nat \<Rightarrow> nat res" where
  "div_ceil32 a b = bindR (add32 a b) (\<lambda>t. bindR (sub32 t 1) (\<lambda>t. div32 t b))"

definition mark_group_metadata :: "Superblock \<Rightarrow> nat \<Rightarrow> nat \<Rightarrow> nat \<Rightarrow> (used \<times> MemDisk, unit) e2" where
  "mark_group_metadata sb bgdt_blocks inodes_per_block g =
     bindE (onDev (read_bgd sb g)) (\<lambda>bgd.
     bindE (mark_block (block_bitmap bgd)) (\<lambda>_.
     bindE (mark_block (inode_bitmap bgd)) (\<lambda>_.
     bindE (liftE (div_ceil32 (inodes_per_group sb) inodes_per_block)) (\<lambda>inode_table_blocks.
     bindE (mark_range (inode_table bgd) inode_table_blocks) (\<lambda>_.
     bindE (liftE (mul32 g (blocks_per_group sb))) (\<lambda>t.
     bindE (liftE (add32 (first_data_block sb) t)) (\<lambda>group_start.
     bindE (liftE (add32 group_start 1)) (\<lambda>t.
     bindE (liftE (add32 t bgdt_blocks)) (\<lambda>e.
     foreachE [group_start ..< e] mark_block)))))))))"

definition mark_fixed_metadata :: "Superblock \<Rightarrow> (used \<times> MemDisk, unit) e2" where
  "mark_fixed_metadata sb =
     bindE (foreachE [0 ..< first_data_block sb + 1] mark_block) (\<lambda>_.
     bindE (liftE (div_ceil32 (num_groups sb) (block_size sb div 32))) (\<lambda>bgdt_blocks.
     bindE (mark_range (bgdt_block sb) bgdt_blocks) (\<lambda>_.
     bindE (liftE (div32 (block_size sb) (inode_size sb))) (\<lambda>inodes_per_block.
     foreachE [0 ..< num_groups sb] (mark_group_metadata sb bgdt_blocks inodes_per_block)))))"

text \<open>One bitmap of one group: clear the set bits whose number (\<open>base\<close> plus the bit) \<open>live\<close> does not have.\<close>

fun sweep_bits :: "(nat \<Rightarrow> bool) \<Rightarrow> (nat \<Rightarrow> nat res) \<Rightarrow> nat list \<Rightarrow> u8 list \<Rightarrow> nat \<Rightarrow> (u8 list \<times> nat) res" where
  "sweep_bits live num [] bm freed = Inr (bm, freed)"
| "sweep_bits live num (i # is) bm freed =
     bindR (get_byte bm (i div 8)) (\<lambda>b.
     if b AND bit_mask i = 0 then sweep_bits live num is bm freed else
     bindR (num i) (\<lambda>n.
     if live n then sweep_bits live num is bm freed else
     bindR (add32 freed 1) (\<lambda>freed. sweep_bits live num is (bm[i div 8 := b AND NOT (bit_mask i)]) freed)))"

text \<open>The bitmap block \<open>b\<close> is written back only when a bit was cleared.\<close>

definition sweep_bitmap :: "Superblock \<Rightarrow> nat \<Rightarrow> nat res \<Rightarrow> (nat \<Rightarrow> bool) \<Rightarrow> (nat \<Rightarrow> nat res) \<Rightarrow> nat \<Rightarrow> (MemDisk, nat) e2" where
  "sweep_bitmap sb b bits live num freed =
     bindE (block_vec sb b) (\<lambda>bm.
     bindE (liftE bits) (\<lambda>n.
     bindE (liftE (sweep_bits live num [0 ..< n] bm freed)) (\<lambda>(bm', freed').
     bindE (if freed' \<noteq> freed then write_block sb b bm' else retE ()) (\<lambda>_. retE freed'))))"

primrec sweep_groups :: "Superblock \<Rightarrow> used \<Rightarrow> nat list \<Rightarrow> nat \<Rightarrow> nat \<Rightarrow> (MemDisk, nat \<times> nat) e2" where
  "sweep_groups sb u [] fb fi = retE (fb, fi)"
| "sweep_groups sb u (g # gs) fb fi =
     bindE (read_bgd sb g) (\<lambda>bgd.
     bindE (sweep_bitmap sb (block_bitmap bgd) (blocks_in_group sb g) (bit_set_at (snd u)) (group_block sb g) fb) (\<lambda>fb.
     bindE (sweep_bitmap sb (inode_bitmap bgd) (inodes_in_group sb g) (bit_set_1based (fst u)) (group_inode sb g) fi) (\<lambda>fi.
     sweep_groups sb u gs fb fi)))"

definition mark_all :: "Superblock \<Rightarrow> (used \<times> MemDisk, unit) e2" where
  "mark_all sb =
     bindE (mark_fixed_metadata sb) (\<lambda>_.
     bindE (mark_reachable sb 64 ROOT_INO) (\<lambda>_.
     foreachE [1 ..< first_ino sb] mark_inode))"

definition reclaim_orphans :: "Superblock \<Rightarrow> (MemDisk, nat \<times> nat) e2" where
  "reclaim_orphans sb =
     (let block_bytes = (blocks_count sb + 7) div 8; inode_bytes = (inodes_count sb + 7) div 8 in
      bindE (lendE (replicate inode_bytes 0, replicate block_bytes 0) (mark_all sb)) (\<lambda>(_, u).
      bindE (sweep_groups sb u [0 ..< num_groups sb] 0 0) (\<lambda>(fb, fi).
      bindE (if 0 < fb \<or> 0 < fi then bindE (reconcile_free_counts sb) (\<lambda>_. retE ()) else retE ()) (\<lambda>_.
      retE (fb, fi)))))"

section \<open>Inspection\<close>

definition inode_used :: "Superblock \<Rightarrow> nat \<Rightarrow> (MemDisk, bool) e2" where
  "inode_used sb ino =
     bindE (liftE (sub32 ino 1)) (\<lambda>i.
     bindE (liftE (div32 i (inodes_per_group sb))) (\<lambda>g.
     bindE (liftE (mod32 i (inodes_per_group sb))) (\<lambda>bitn.
     bindE (read_bgd sb g) (\<lambda>bgd.
     bindE (block_vec sb (inode_bitmap bgd)) (\<lambda>bm. retE (bit_set_at bm bitn))))))"

definition block_used :: "Superblock \<Rightarrow> nat \<Rightarrow> (MemDisk, bool) e2" where
  "block_used sb b =
     bindE (liftE (sub32 b (first_data_block sb))) (\<lambda>i.
     bindE (liftE (div32 i (blocks_per_group sb))) (\<lambda>g.
     bindE (liftE (mod32 i (blocks_per_group sb))) (\<lambda>bitn.
     bindE (read_bgd sb g) (\<lambda>bgd.
     bindE (block_vec sb (block_bitmap bgd)) (\<lambda>bm. retE (bit_set_at bm bitn))))))"

definition inode_mode :: "Superblock \<Rightarrow> nat \<Rightarrow> (MemDisk, nat) e2" where
  "inode_mode sb ino = bindE (read_inode sb ino) (\<lambda>raw. liftE (i_mode raw))"

definition bgd_free_counts :: "Superblock \<Rightarrow> nat \<Rightarrow> (MemDisk, nat \<times> nat) e2" where
  "bgd_free_counts sb g = bindE (read_bgd sb g) (\<lambda>bgd. retE (free_blocks bgd, free_inodes bgd))"

definition true_free_counts_group0 :: "Superblock \<Rightarrow> (MemDisk, nat \<times> nat) e2" where
  "true_free_counts_group0 sb = bindE (read_bgd sb 0) (true_free_counts sb 0)"

end
