(* ===== verification/Fs_Types.thy ===== *)
theory Fs_Types
  imports File_Types "HOL-Library.Signed_Division"
begin

text \<open>
  The types the file systems, the descriptor table and the system calls share (\<^verbatim>\<open>kernel/src/fs/types.rs\<close>): error
  numbers, file types, open flags, the \<open>stat\<close> record, and directory entries with their \<^verbatim>\<open>linux_dirent64\<close> encoding.
\<close>

unbundle bit_operations_syntax

section \<open>Errors\<close>

datatype Errno =
    EPERM | ENOENT | EIO | EBADF | ENOMEM | EFAULT | EBUSY | EEXIST | ENOTDIR | EISDIR | EINVAL | ENOSPC | EFBIG
  | EROFS | EPIPE | ERANGE | ENOSYS | ENOTEMPTY | ELOOP

fun errno_num :: "Errno \<Rightarrow> int" where
  "errno_num EPERM = 1" | "errno_num ENOENT = 2" | "errno_num EIO = 5" | "errno_num EBADF = 9"
| "errno_num ENOMEM = 12" | "errno_num EFAULT = 14" | "errno_num EBUSY = 16" | "errno_num EEXIST = 17"
| "errno_num ENOTDIR = 20" | "errno_num EISDIR = 21" | "errno_num EINVAL = 22" | "errno_num ENOSPC = 28"
| "errno_num EFBIG = 27" | "errno_num EROFS = 30" | "errno_num EPIPE = 32" | "errno_num ERANGE = 34"
| "errno_num ENOSYS = 38" | "errno_num ENOTEMPTY = 39" | "errno_num ELOOP = 40"

definition as_i64 :: "Errno \<Rightarrow> int" where
  "as_i64 e = - errno_num e"

section \<open>File types, flags and metadata\<close>

datatype FileType = Regular | Directory | CharDevice | BlockDevice | Symlink

fun as_dt_type :: "FileType \<Rightarrow> u8" where
  "as_dt_type Regular = 8" | "as_dt_type Directory = 4" | "as_dt_type CharDevice = 2" | "as_dt_type BlockDevice = 6"
| "as_dt_type Symlink = 10"

fun as_mode_bits :: "FileType \<Rightarrow> u32" where
  "as_mode_bits Regular = 0x8000" | "as_mode_bits Directory = 0x4000" | "as_mode_bits CharDevice = 0x2000"
| "as_mode_bits BlockDevice = 0x6000" | "as_mode_bits Symlink = 0xA000"

definition O_CREAT :: u32 where "O_CREAT = 0x40"
definition O_TRUNC :: u32 where "O_TRUNC = 0x200"
definition O_APPEND :: u32 where "O_APPEND = 0x400"
definition O_DIRECTORY :: u32 where "O_DIRECTORY = 0x10000"

definition is_write :: "u32 \<Rightarrow> bool" where
  "is_write fl \<longleftrightarrow> fl AND 3 \<noteq> 0"

definition is_directory :: "u32 \<Rightarrow> bool" where
  "is_directory fl \<longleftrightarrow> fl AND O_DIRECTORY \<noteq> 0"

text \<open>The nanosecond fields and the padding of the record are always zero.\<close>

record Stat =
  st_dev :: nat
  st_ino :: nat
  st_nlink :: nat
  st_mode :: u32
  st_uid :: nat
  st_gid :: nat
  st_rdev :: nat
  st_size :: int
  st_blksize :: int
  st_blocks :: int
  st_atime :: nat
  st_mtime :: nat
  st_ctime :: nat

definition stat_base :: "nat \<Rightarrow> u32 \<Rightarrow> nat \<Rightarrow> int \<Rightarrow> int \<Rightarrow> Stat" where
  "stat_base ino mode nlink sz blocks =
     \<lparr>st_dev = 1, st_ino = ino, st_nlink = nlink, st_mode = mode, st_uid = 0, st_gid = 0, st_rdev = 0,
      st_size = sz, st_blksize = 4096, st_blocks = blocks, st_atime = 0, st_mtime = 0, st_ctime = 0\<rparr>"

definition with_perm_bits :: "u32 \<Rightarrow> Stat \<Rightarrow> Stat" where
  "with_perm_bits bits s = s\<lparr>st_mode := (st_mode s AND NOT 0xFFF) OR (bits AND 0xFFF)\<rparr>"

definition with_nlink :: "nat \<Rightarrow> Stat \<Rightarrow> Stat" where
  "with_nlink n s = s\<lparr>st_nlink := n\<rparr>"

definition stat_dir :: "nat \<Rightarrow> Stat" where
  "stat_dir ino = stat_base ino (as_mode_bits Directory OR 0x1ED) 2 0 0"

definition stat_regular :: "nat \<Rightarrow> int \<Rightarrow> Stat" where
  "stat_regular ino sz = stat_base ino (as_mode_bits Regular OR 0x124) 1 sz ((sz + 511) sdiv 512)"

definition stat_regular_writable :: "nat \<Rightarrow> int \<Rightarrow> Stat" where
  "stat_regular_writable ino sz = (stat_regular ino sz)\<lparr>st_mode := as_mode_bits Regular OR 0x1A4\<rparr>"

definition stat_executable :: "nat \<Rightarrow> int \<Rightarrow> Stat" where
  "stat_executable ino sz = (stat_regular ino sz)\<lparr>st_mode := as_mode_bits Regular OR 0x16D\<rparr>"

definition stat_symlink :: "nat \<Rightarrow> int \<Rightarrow> Stat" where
  "stat_symlink ino target_len = stat_base ino (as_mode_bits Symlink OR 0x1FF) 1 target_len 0"

definition stat_chardev :: "nat \<Rightarrow> Stat" where
  "stat_chardev ino = stat_base ino (as_mode_bits CharDevice OR 0x1B6) 1 0 0"

text \<open>The type of an inode, from the type bits of its mode (\<open>Inode::file_type\<close>).\<close>

definition file_type :: "Stat \<Rightarrow> FileType" where
  "file_type s =
     (let t = st_mode s AND 0xF000 in
      if t = 0x4000 then Directory else if t = 0x2000 then CharDevice else if t = 0x6000 then BlockDevice
      else if t = 0xA000 then Symlink else Regular)"

lemma file_type_perm_bits [simp]: "file_type (with_perm_bits bits s) = file_type s"
proof -
  have "((st_mode s AND NOT 0xFFF) OR (bits AND 0xFFF)) AND 0xF000 = st_mode s AND 0xF000"
    by (simp add: bit.conj_disj_distrib2 and.assoc)
  then show ?thesis by (simp add: file_type_def with_perm_bits_def)
qed

lemma file_type_stat [simp]:
  "file_type (stat_dir i) = Directory" "file_type (stat_regular i n) = Regular"
  "file_type (stat_regular_writable i n) = Regular" "file_type (stat_executable i n) = Regular"
  "file_type (stat_symlink i n) = Symlink" "file_type (stat_chardev i) = CharDevice"
  "file_type (with_nlink k s) = file_type s"
  by (simp_all add: file_type_def stat_dir_def stat_regular_def stat_regular_writable_def stat_executable_def
      stat_symlink_def stat_chardev_def stat_base_def with_nlink_def)

section \<open>Directory entries\<close>

record VDirEntry =
  de_ino :: nat
  de_kind :: FileType
  de_name :: "u8 list"

text \<open>The name array with its length is the list of the bytes before the terminator.\<close>

definition dirent_new :: "nat \<Rightarrow> FileType \<Rightarrow> u8 list \<Rightarrow> VDirEntry" where
  "dirent_new ino kind nm = \<lparr>de_ino = ino, de_kind = kind, de_name = take (min (length nm) 255) nm\<rparr>"

definition dirent64_size :: "VDirEntry \<Rightarrow> nat" where
  "dirent64_size e = (19 + length (de_name e) + 1 + 7) div 8 * 8"

definition write_dirent64 :: "VDirEntry \<Rightarrow> nat \<Rightarrow> u8 list" where
  "write_dirent64 e next_off =
     le_bytes 8 (de_ino e) @ le_bytes 8 next_off @ le_bytes 2 (dirent64_size e) @ [as_dt_type (de_kind e)] @
     de_name e @ [0] @ replicate (dirent64_size e - (20 + length (de_name e))) 0"

fun pack_dirents :: "VDirEntry list \<Rightarrow> nat \<Rightarrow> nat \<Rightarrow> u8 list \<times> nat" where
  "pack_dirents [] off space = ([], off)"
| "pack_dirents (e # es) off space =
     (if space < dirent64_size e then ([], off)
      else case pack_dirents es (off + 1) (space - dirent64_size e) of
             (bs, off') \<Rightarrow> (write_dirent64 e (off + 1) @ bs, off'))"

definition getdents64_from_snapshot :: "VDirEntry list \<Rightarrow> nat \<Rightarrow> nat \<Rightarrow> u8 list \<times> nat" where
  "getdents64_from_snapshot entries off buf_len = pack_dirents (drop off entries) off buf_len"

lemma dirent64_size_ge: "24 \<le> dirent64_size e" "20 + length (de_name e) \<le> dirent64_size e"
  "dirent64_size e \<le> 27 + length (de_name e)" "dirent64_size e mod 8 = 0"
  by (simp_all add: dirent64_size_def)

function via_readdir :: "(nat \<Rightarrow> Errno + VDirEntry option) \<Rightarrow> nat \<Rightarrow> nat \<Rightarrow> (Errno + unit) \<times> u8 list \<times> nat" where
  "via_readdir readdir off space =
     (case readdir off of
        Inl e \<Rightarrow> (Inl e, [], off)
      | Inr None \<Rightarrow> (Inr (), [], off)
      | Inr (Some e) \<Rightarrow>
          if space < dirent64_size e then (Inr (), [], off)
          else case via_readdir readdir (off + 1) (space - dirent64_size e) of
                 (r, bs, off') \<Rightarrow> (r, write_dirent64 e (off + 1) @ bs, off'))"
  by pat_completeness auto
termination
proof (relation "measure (\<lambda>(_, _, space). space)", goal_cases)
  case (2 readdir off space a e)
  then show ?case using dirent64_size_ge(1) [of e] by simp
qed simp

declare via_readdir.simps [simp del]

definition getdents64_via_readdir :: "(nat \<Rightarrow> Errno + VDirEntry option) \<Rightarrow> nat \<Rightarrow> nat \<Rightarrow> int \<times> u8 list \<times> nat" where
  "getdents64_via_readdir readdir off buf_len =
     (case via_readdir readdir off buf_len of
        (Inl e, bs, off') \<Rightarrow> (as_i64 e, bs, off')
      | (Inr _, bs, off') \<Rightarrow> (int (length bs), bs, off'))"

section \<open>Reading directory records back\<close>

text \<open>
  A reader walks the records by their length field, as the C library does: inode number, offset of the next record, type
  and name up to the terminator.
\<close>

record dirent_view =
  v_ino :: nat
  v_off :: nat
  v_type :: u8
  v_name :: "u8 list"

definition view_at :: "u8 list \<Rightarrow> dirent_view" where
  "view_at bs =
     \<lparr>v_ino = le_val (take 8 bs), v_off = le_val (take 8 (drop 8 bs)), v_type = bs ! 18,
      v_name = takeWhile (\<lambda>b. b \<noteq> 0) (drop 19 bs)\<rparr>"

function parse_dirents :: "u8 list \<Rightarrow> dirent_view list" where
  "parse_dirents bs =
     (let reclen = le_val (take 2 (drop 16 bs)) in
      if length bs < 20 \<or> reclen = 0 then [] else view_at bs # parse_dirents (drop reclen bs))"
  by pat_completeness auto
termination by (relation "measure length") auto

declare parse_dirents.simps [simp del]

definition dirent_ok :: "VDirEntry \<Rightarrow> bool" where
  "dirent_ok e \<longleftrightarrow> de_ino e < 2 ^ 64 \<and> length (de_name e) \<le> 255 \<and> 0 \<notin> set (de_name e)"

definition view_of :: "VDirEntry \<Rightarrow> nat \<Rightarrow> dirent_view" where
  "view_of e next_off = \<lparr>v_ino = de_ino e, v_off = next_off, v_type = as_dt_type (de_kind e), v_name = de_name e\<rparr>"

lemma dirent_new_ok: "ino < 2 ^ 64 \<Longrightarrow> 0 \<notin> set nm \<Longrightarrow> dirent_ok (dirent_new ino kind nm)"
  by (auto simp: dirent_ok_def dirent_new_def dest: in_set_takeD)

lemma length_write_dirent64 [simp]: "length (write_dirent64 e off) = dirent64_size e"
  using dirent64_size_ge(2) [of e] by (simp add: write_dirent64_def)

lemma takeWhile_name: "0 \<notin> set nm \<Longrightarrow> takeWhile (\<lambda>b. b \<noteq> 0) (nm @ (0 :: u8) # rest) = nm"
  by (induction nm) auto

lemma parse_write:
  assumes e: "dirent_ok e" and off: "off < 2 ^ 64"
  shows "parse_dirents (write_dirent64 e off @ rest) = view_of e off # parse_dirents rest"
proof -
  let ?w = "write_dirent64 e off"
  have sz: "dirent64_size e < 256 ^ 2" using dirent64_size_ge(3) [of e] e by (simp add: dirent_ok_def)
  have w: "?w @ rest = le_bytes 8 (de_ino e) @ le_bytes 8 off @ le_bytes 2 (dirent64_size e) @
      [as_dt_type (de_kind e)] @ de_name e @ 0 # (replicate (dirent64_size e - (20 + length (de_name e))) 0 @ rest)"
    by (simp add: write_dirent64_def)
  have len: "le_val (take 2 (drop 16 (?w @ rest))) = dirent64_size e"
    unfolding w using sz by (simp add: le_val_le_bytes)
  have view: "view_at (?w @ rest) = view_of e off"
    unfolding w view_at_def view_of_def using e off
    by (simp add: le_val_le_bytes dirent_ok_def takeWhile_name nth_append)
  have ge: "24 \<le> dirent64_size e" by (rule dirent64_size_ge)
  show ?thesis
    unfolding parse_dirents.simps [of "?w @ rest"] Let_def len view using ge by simp
qed

lemma pack_dirents_spec:
  assumes "list_all dirent_ok es" "off + length es < 2 ^ 64" "pack_dirents es off space = (bs, off')"
  shows "\<exists>k \<le> length es. off' = off + k \<and> length bs = sum_list (map dirent64_size (take k es)) \<and> length bs \<le> space \<and>
    (k < length es \<longrightarrow> space < length bs + dirent64_size (es ! k)) \<and>
    parse_dirents bs = map2 view_of (take k es) [off + 1 ..< off + 1 + k]"
  using assms
proof (induction es arbitrary: off space bs off')
  case Nil
  then show ?case by (simp add: parse_dirents.simps [of "[]"])
next
  case (Cons e es)
  show ?case
  proof (cases "space < dirent64_size e")
    case True
    then show ?thesis using Cons.prems by (intro exI [of _ 0]) (auto simp: parse_dirents.simps [of "[]"])
  next
    case False
    obtain bs1 where p: "pack_dirents es (off + 1) (space - dirent64_size e) = (bs1, off')"
      and bs: "bs = write_dirent64 e (off + 1) @ bs1"
      using False Cons.prems(3) by (auto split: prod.splits)
    obtain k where k: "k \<le> length es" "off' = off + 1 + k" "length bs1 = sum_list (map dirent64_size (take k es))"
        "length bs1 \<le> space - dirent64_size e"
        "k < length es \<longrightarrow> space - dirent64_size e < length bs1 + dirent64_size (es ! k)"
        "parse_dirents bs1 = map2 view_of (take k es) [off + 1 + 1 ..< off + 1 + 1 + k]"
      using Cons.IH [OF _ _ p] Cons.prems(1,2) by auto
    have "parse_dirents bs = view_of e (off + 1) # parse_dirents bs1"
      unfolding bs using Cons.prems(1,2) by (intro parse_write) simp_all
    moreover have "[off + 1 ..< off + 1 + Suc k] = (off + 1) # [off + 1 + 1 ..< off + 1 + 1 + k]"
      by (simp add: upt_conv_Cons del: upt_Suc)
    ultimately have "parse_dirents bs = map2 view_of (take (Suc k) (e # es)) [off + 1 ..< off + 1 + Suc k]"
      using k(6) by (simp only: take_Suc_Cons list.simps zip_Cons_Cons prod.case)
    then show ?thesis using k False by (intro exI [of _ "Suc k"]) (auto simp: bs)
  qed
qed

definition listing :: "VDirEntry list \<Rightarrow> nat \<Rightarrow> Errno + VDirEntry option" where
  "listing entries i = Inr (if i < length entries then Some (entries ! i) else None)"

lemma via_readdir_listing:
  "off \<le> length entries \<Longrightarrow>
   via_readdir (listing entries) off space = (Inr (), pack_dirents (drop off entries) off space)"
proof (induction "listing entries" off space rule: via_readdir.induct)
  case (1 off space)
  show ?case
  proof (cases "off < length entries")
    case True
    then have d: "drop off entries = entries ! off # drop (off + 1) entries" by (simp add: Cons_nth_drop_Suc)
    have l: "listing entries off = Inr (Some (entries ! off))" using True by (simp add: listing_def)
    show ?thesis
    proof (cases "space < dirent64_size (entries ! off)")
      case True
      then show ?thesis unfolding d by (subst via_readdir.simps) (simp add: l)
    next
      case False
      have "via_readdir (listing entries) (off + 1) (space - dirent64_size (entries ! off)) =
          (Inr (), pack_dirents (drop (off + 1) entries) (off + 1) (space - dirent64_size (entries ! off)))"
        by (rule 1(1) [OF l refl False]) (use True in simp)
      then show ?thesis unfolding d by (subst via_readdir.simps) (simp add: l False split: prod.split)
    qed
  next
    case False
    then show ?thesis using 1(2) by (subst via_readdir.simps) (simp add: listing_def)
  qed
qed

text \<open>
  C32. A call of \<^verbatim>\<open>getdents64\<close> on a directory snapshot fills the buffer with as many records as fit, never more:
  read back by their length fields they are exactly the entries from the old to the new position, in order, each
  with the position of its successor, and the new position stops only where the next record would not fit. The
  second implementation, which asks the directory for one entry at a time, returns the same bytes and position.
\<close>

theorem getdents64_delivers_prefix:
  assumes "list_all dirent_ok entries" "length entries < 2 ^ 64" "off \<le> length entries"
    and "getdents64_from_snapshot entries off n = (bs, off')"
  shows "length bs \<le> n \<and> off \<le> off' \<and> off' \<le> length entries \<and>
    parse_dirents bs = map (\<lambda>i. view_of (entries ! i) (i + 1)) [off ..< off'] \<and>
    (off' < length entries \<longrightarrow> n < length bs + dirent64_size (entries ! off')) \<and>
    getdents64_via_readdir (listing entries) off n = (int (length bs), bs, off')"
proof -
  have p: "pack_dirents (drop off entries) off n = (bs, off')"
    using assms(4) by (simp add: getdents64_from_snapshot_def)
  have ok: "list_all dirent_ok (drop off entries)" using assms(1) by (auto simp: list_all_iff dest: in_set_dropD)
  obtain k where k: "k \<le> length entries - off" "off' = off + k" "length bs \<le> n"
      "k < length entries - off \<longrightarrow> n < length bs + dirent64_size (drop off entries ! k)"
      "parse_dirents bs = map2 view_of (take k (drop off entries)) [off + 1 ..< off + 1 + k]"
    using pack_dirents_spec [OF ok _ p] assms(2,3) by auto
  have "map2 view_of (take k (drop off entries)) [off + 1 ..< off + 1 + k] =
      map (\<lambda>i. view_of (entries ! i) (i + 1)) [off ..< off']"
    by (rule nth_equalityI) (use k assms(3) in \<open>auto simp del: upt_Suc\<close>)
  moreover have "getdents64_via_readdir (listing entries) off n = (int (length bs), bs, off')"
    by (simp add: getdents64_via_readdir_def via_readdir_listing [OF assms(3)] p)
  ultimately show ?thesis using k assms(3) by auto
qed

definition sample_listing :: "VDirEntry list" where
  "sample_listing = [dirent_new 1 Directory [46], dirent_new 7 Regular [97, 46, 116, 120, 116]]"

theorem getdents64_delivers_prefix_witness:
  "\<exists>bs. getdents64_from_snapshot sample_listing 0 40 = (bs, 1) \<and> length bs = 24 \<and>
     parse_dirents bs = [\<lparr>v_ino = 1, v_off = 1, v_type = 4, v_name = [46]\<rparr>]"
proof -
  obtain bs off' where g: "getdents64_from_snapshot sample_listing 0 40 = (bs, off')"
    by (cases "getdents64_from_snapshot sample_listing 0 40")
  then have l: "length bs = 24" "off' = 1"
    by (auto simp: getdents64_from_snapshot_def sample_listing_def dirent_new_def dirent64_size_def)
  have "list_all dirent_ok sample_listing" by (auto simp: sample_listing_def intro!: dirent_new_ok)
  moreover have "length sample_listing < 2 ^ 64" by (simp add: sample_listing_def)
  ultimately have "parse_dirents bs = map (\<lambda>i. view_of (sample_listing ! i) (i + 1)) [0 ..< 1]"
    using getdents64_delivers_prefix [OF _ _ _ g] l by blast
  then have "parse_dirents bs = [\<lparr>v_ino = 1, v_off = 1, v_type = 4, v_name = [46]\<rparr>]"
    by (simp add: view_of_def sample_listing_def dirent_new_def)
  with g l show ?thesis by blast
qed

end
