(* ===== verification/Ext2_Adapter.thy ===== *)
theory Ext2_Adapter
  imports Ext2_Repair Fs_Types
begin

text \<open>
  The kernel side of ext2 (\<^verbatim>\<open>kernel/src/fs/ext2.rs\<close>): the inode operations of the virtual file system over the
  crate, its own copies of the bitmap allocators, and open files. An operation is a computation on the device that
  may panic or fail with an \<^verbatim>\<open>Errno\<close>. An inode object is a value, the number and a snapshot of the
  record, as the code never changes one. Open files are cells holding the record and the position, which
  duplicated handles share; the time written into a deleted inode is an argument. The lock that serialises the
  operations has no counterpart.
\<close>

unbundle bit_operations_syntax

section \<open>Errors\<close>

fun errno_of :: "Ext2Error \<Rightarrow> Errno" where
  "errno_of Io = EIO" | "errno_of BadMagic = EIO" | "errno_of UnsupportedFeature = EIO"
| "errno_of Ext2Error.NoSpace = ENOSPC" | "errno_of TooLarge = EFBIG" | "errno_of NotFound = ENOENT"
| "errno_of TooDeep = ELOOP"

definition mapErr :: "('e \<Rightarrow> 'f) \<Rightarrow> ('e, 's, 'a) comp \<Rightarrow> ('f, 's, 'a) comp" where
  "mapErr f m s = bindR (m s) (\<lambda>(r, s). Inr (case r of Inl e \<Rightarrow> Inl (f e) | Inr x \<Rightarrow> Inr x, s))"

definition intoE :: "(Ext2Error, 's, 'a) comp \<Rightarrow> (Errno, 's, 'a) comp" where
  "intoE m = mapErr errno_of m"

text \<open>
  \<^verbatim>\<open>let _ = m\<close>; \<^verbatim>\<open>if let Ok(x) = m\<close>; and \<^verbatim>\<open>if let Err(e) = m { let _ = h; return Err(e) }\<close>.
\<close>

definition attemptE :: "('e, 's, 'a) comp \<Rightarrow> ('f, 's, 'a option) comp" where
  "attemptE m s = bindR (m s) (\<lambda>(r, s). Inr (Inr (case r of Inl _ \<Rightarrow> None | Inr x \<Rightarrow> Some x), s))"

definition onErrE :: "('e, 's, 'a) comp \<Rightarrow> ('e, 's, 'b) comp \<Rightarrow> ('e, 's, 'a) comp" where
  "onErrE m h s =
     bindR (m s) (\<lambda>(r, s). case r of Inr x \<Rightarrow> Inr (Inr x, s) | Inl e \<Rightarrow> bindR (h s) (\<lambda>(_, s). Inr (Inl e, s)))"

definition add16 :: "nat \<Rightarrow> nat \<Rightarrow> nat res" where
  "add16 a b = (if a + b < 2 ^ 16 then Inr (a + b) else Inl Panic)"

section \<open>The wrappers\<close>

definition x_block_vec :: "Superblock \<Rightarrow> nat \<Rightarrow> (Errno, MemDisk, u8 list) comp" where
  "x_block_vec sb b = intoE (block_vec sb b)"

definition x_write_block :: "Superblock \<Rightarrow> nat \<Rightarrow> u8 list \<Rightarrow> (Errno, MemDisk, unit) comp" where
  "x_write_block sb b bf = intoE (write_block sb b bf)"

definition x_read_inode :: "Superblock \<Rightarrow> nat \<Rightarrow> (Errno, MemDisk, RawInode) comp" where
  "x_read_inode sb ino = intoE (read_inode sb ino)"

definition x_write_inode :: "Superblock \<Rightarrow> nat \<Rightarrow> RawInode \<Rightarrow> (Errno, MemDisk, unit) comp" where
  "x_write_inode sb ino raw = intoE (write_inode sb ino raw)"

definition x_read_file_range :: "Superblock \<Rightarrow> RawInode \<Rightarrow> nat \<Rightarrow> (Errno, u8 list \<times> MemDisk, unit) comp" where
  "x_read_file_range sb raw offset = intoE (read_file_range sb raw offset)"

definition x_write_file_range :: "Superblock \<Rightarrow> nat \<Rightarrow> nat \<Rightarrow> u8 list \<Rightarrow> (Errno, RawInode \<times> MemDisk, nat) comp" where
  "x_write_file_range sb ino offset dat = intoE (write_file_range sb ino offset dat)"

definition free_all_blocks :: "Superblock \<Rightarrow> (Errno, RawInode \<times> MemDisk, unit) comp" where
  "free_all_blocks sb =
     bindE getE (\<lambda>raw.
     bindE (liftE (has_block_pointers raw)) (\<lambda>p.
     bindE (if p then
              bindE (intoE (visit_inode_blocks sb raw (\<lambda>b. onDev (free_block sb b)))) (\<lambda>_.
              foreachE [0 ..< 15] (\<lambda>i. bindE getE (\<lambda>raw. bindE (liftE (set_i_block raw i 0)) putE)))
            else retE ()) (\<lambda>_.
     bindE getE (\<lambda>raw.
     bindE (liftE (set_isize raw 0)) (\<lambda>raw.
     bindE (liftE (set_blocks_512 raw 0)) putE)))))"

definition truncate_to_zero :: "Superblock \<Rightarrow> nat \<Rightarrow> (Errno, RawInode \<times> MemDisk, unit) comp" where
  "truncate_to_zero sb ino =
     bindE (free_all_blocks sb) (\<lambda>_. bindE getE (\<lambda>raw. onDev (x_write_inode sb ino raw)))"

definition x_read_symlink_target :: "Superblock \<Rightarrow> RawInode \<Rightarrow> (Errno, MemDisk, u8 list) comp" where
  "x_read_symlink_target sb raw = intoE (read_symlink_target sb raw)"

definition ext2_file_type_to_vfs :: "u8 \<Rightarrow> FileType" where
  "ext2_file_type_to_vfs ft =
     (if ft = 2 then Directory else if ft = 7 then Symlink else if ft = 3 then BlockDevice
      else if ft = 4 then CharDevice else Regular)"

fun vfs_file_type_to_ext2 :: "FileType \<Rightarrow> u8" where
  "vfs_file_type_to_ext2 Directory = 2" | "vfs_file_type_to_ext2 Symlink = 7"
| "vfs_file_type_to_ext2 BlockDevice = 3" | "vfs_file_type_to_ext2 CharDevice = 4"
| "vfs_file_type_to_ext2 Regular = 1"

record Ext2DirEntry =
  xe_ino :: nat
  xe_kind :: FileType
  xe_name :: "u8 list"

definition x_read_dir_entries :: "Superblock \<Rightarrow> RawInode \<Rightarrow> (Errno, MemDisk, Ext2DirEntry list) comp" where
  "x_read_dir_entries sb raw =
     bindE (intoE (read_dir_entries sb raw)) (\<lambda>es.
     retE (map (\<lambda>e. \<lparr>xe_ino = DirEntry.de_ino e, xe_kind = ext2_file_type_to_vfs (de_file_type e), xe_name = DirEntry.de_name e\<rparr>) es))"

definition x_add_dir_entry :: "Superblock \<Rightarrow> nat \<Rightarrow> u8 list \<Rightarrow> nat \<Rightarrow> FileType \<Rightarrow> (Errno, RawInode \<times> MemDisk, unit) comp" where
  "x_add_dir_entry sb dir_ino name ino kind = intoE (add_dir_entry sb dir_ino name ino (vfs_file_type_to_ext2 kind))"

definition x_remove_dir_entry :: "Superblock \<Rightarrow> RawInode \<Rightarrow> u8 list \<Rightarrow> (Errno, MemDisk, nat \<times> FileType) comp" where
  "x_remove_dir_entry sb raw name =
     bindE (intoE (remove_dir_entry sb raw name)) (\<lambda>(ino, ft). retE (ino, ext2_file_type_to_vfs ft))"

definition x_set_dotdot :: "Superblock \<Rightarrow> RawInode \<Rightarrow> nat \<Rightarrow> (Errno, MemDisk, unit) comp" where
  "x_set_dotdot sb raw new_parent_ino = intoE (set_dotdot sb raw new_parent_ino)"

section \<open>The allocators of the adapter\<close>

definition x_bgd_location :: "Superblock \<Rightarrow> nat \<Rightarrow> (nat \<times> nat) res" where
  "x_bgd_location sb g =
     (let bgd_per_block = block_size sb div 32 in
      bindR (div32 g bgd_per_block) (\<lambda>q.
      bindR (add32 (bgdt_block sb) q) (\<lambda>bgd_block.
      bindR (mod32 g bgd_per_block) (\<lambda>r.
      bindR (mul32 r 32) (\<lambda>bgd_offset. Inr (bgd_block, bgd_offset))))))"

definition x_read_bgd :: "Superblock \<Rightarrow> nat \<Rightarrow> (Errno, MemDisk, BlockGroupDesc) comp" where
  "x_read_bgd sb g =
     bindE (liftE (x_bgd_location sb g)) (\<lambda>(blk, off).
     bindE (x_block_vec sb blk) (\<lambda>bf.
     bindE (liftE (get_le 4 bf off)) (\<lambda>bb.
     bindE (liftE (get_le 4 bf (off + 4))) (\<lambda>ib.
     bindE (liftE (get_le 4 bf (off + 8))) (\<lambda>it.
     bindE (liftE (get_le 2 bf (off + 12))) (\<lambda>fb.
     bindE (liftE (get_le 2 bf (off + 14))) (\<lambda>fi.
     retE \<lparr>block_bitmap = bb, inode_bitmap = ib, inode_table = it, free_blocks = fb, free_inodes = fi\<rparr>)))))))"

definition x_adjust_bgd_counts :: "Superblock \<Rightarrow> nat \<Rightarrow> int \<Rightarrow> int \<Rightarrow> int \<Rightarrow> (Errno, MemDisk, unit) comp" where
  "x_adjust_bgd_counts sb g free_blocks_delta free_inodes_delta used_dirs_delta =
     bindE (liftE (x_bgd_location sb g)) (\<lambda>(blk, off).
     bindE (x_block_vec sb blk) (\<lambda>bf.
     bindE (liftE (adjust16 bf (off + 12) free_blocks_delta)) (\<lambda>bf.
     bindE (liftE (adjust16 bf (off + 14) free_inodes_delta)) (\<lambda>bf.
     bindE (liftE (adjust16 bf (off + 16) used_dirs_delta)) (\<lambda>bf.
     x_write_block sb blk bf)))))"

definition x_adjust_sb_counts :: "int \<Rightarrow> int \<Rightarrow> (Errno, MemDisk, unit) comp" where
  "x_adjust_sb_counts free_blocks_delta free_inodes_delta =
     bindE (mapErr (\<lambda>_. EIO) (read_sectors 2 2 1024)) (\<lambda>raw.
     bindE (liftE (adjust32 raw 12 free_blocks_delta)) (\<lambda>raw.
     bindE (liftE (adjust32 raw 16 free_inodes_delta)) (\<lambda>raw.
     mapErr (\<lambda>_. EIO) (write_sectors 2 2 raw))))"

definition x_blocks_in_group :: "Superblock \<Rightarrow> nat \<Rightarrow> nat res" where
  "x_blocks_in_group sb g =
     bindR (mul32 g (blocks_per_group sb)) (\<lambda>t.
     bindR (add32 (first_data_block sb) t) (\<lambda>start.
     Inr (min (blocks_count sb - start) (blocks_per_group sb))))"

definition x_inodes_in_group :: "Superblock \<Rightarrow> nat \<Rightarrow> nat res" where
  "x_inodes_in_group sb g =
     bindR (mul32 g (inodes_per_group sb)) (\<lambda>start.
     Inr (min (inodes_count sb - start) (inodes_per_group sb)))"

text \<open>
  The loop over the bits of one group: the first clear bit is set in the bitmap and handed on, \<open>None\<close> when there is
  none.
\<close>

fun take_free_bit :: "u8 list \<Rightarrow> nat list \<Rightarrow> (nat \<times> u8 list) option res" where
  "take_free_bit bm [] = Inr None"
| "take_free_bit bm (i # is) =
     bindR (get_byte bm (i div 8)) (\<lambda>b.
       if b AND bit_mask i = 0 then Inr (Some (i, bm[i div 8 := b OR bit_mask i])) else take_free_bit bm is)"

primrec x_alloc_block_in :: "Superblock \<Rightarrow> nat list \<Rightarrow> (Errno, MemDisk, nat option) comp" where
  "x_alloc_block_in sb [] = retE None"
| "x_alloc_block_in sb (g # gs) =
     bindE (x_read_bgd sb g) (\<lambda>bgd.
     if free_blocks bgd = 0 then x_alloc_block_in sb gs else
     bindE (liftE (x_blocks_in_group sb g)) (\<lambda>group_blocks.
     bindE (x_block_vec sb (block_bitmap bgd)) (\<lambda>bmap.
     bindE (liftE (take_free_bit bmap [0 ..< group_blocks])) (\<lambda>r.
     case r of
       None \<Rightarrow> x_alloc_block_in sb gs
     | Some (bitn, bmap) \<Rightarrow>
         bindE (x_write_block sb (block_bitmap bgd) bmap) (\<lambda>_.
         bindE (x_adjust_bgd_counts sb g (- 1) 0 0) (\<lambda>_.
         bindE (x_adjust_sb_counts (- 1) 0) (\<lambda>_.
         bindE (liftE (mul32 g (blocks_per_group sb))) (\<lambda>t.
         bindE (liftE (add32 (first_data_block sb) t)) (\<lambda>t.
         bindE (liftE (add32 t bitn)) (\<lambda>block_num.
         bindE (x_write_block sb block_num (replicate (block_size sb) 0)) (\<lambda>_.
         retE (Some block_num))))))))))))"

definition x_alloc_block :: "Superblock \<Rightarrow> (Errno, MemDisk, nat option) comp" where
  "x_alloc_block sb = x_alloc_block_in sb [0 ..< num_groups sb]"

definition x_free_block :: "Superblock \<Rightarrow> nat \<Rightarrow> (Errno, MemDisk, unit) comp" where
  "x_free_block sb b =
     (if b < first_data_block sb \<or> blocks_count sb \<le> b then errE EIO else
      bindE (liftE (div32 (b - first_data_block sb) (blocks_per_group sb))) (\<lambda>g.
      bindE (liftE (mod32 (b - first_data_block sb) (blocks_per_group sb))) (\<lambda>bitn.
      bindE (x_read_bgd sb g) (\<lambda>bgd.
      bindE (x_block_vec sb (block_bitmap bgd)) (\<lambda>bmap.
      bindE (liftE (get_byte bmap (bitn div 8))) (\<lambda>byte.
      bindE (x_write_block sb (block_bitmap bgd) (bmap[bitn div 8 := byte AND NOT (bit_mask bitn)])) (\<lambda>_.
      bindE (x_adjust_bgd_counts sb g 1 0 0) (\<lambda>_.
      x_adjust_sb_counts 1 0))))))))"

primrec x_alloc_inode_in :: "Superblock \<Rightarrow> bool \<Rightarrow> nat list \<Rightarrow> (Errno, MemDisk, nat option) comp" where
  "x_alloc_inode_in sb dir [] = retE None"
| "x_alloc_inode_in sb dir (g # gs) =
     bindE (x_read_bgd sb g) (\<lambda>bgd.
     if free_inodes bgd = 0 then x_alloc_inode_in sb dir gs else
     bindE (liftE (x_inodes_in_group sb g)) (\<lambda>group_inodes.
     bindE (x_block_vec sb (inode_bitmap bgd)) (\<lambda>bmap.
     bindE (liftE (take_free_bit bmap [0 ..< group_inodes])) (\<lambda>r.
     case r of
       None \<Rightarrow> x_alloc_inode_in sb dir gs
     | Some (bitn, bmap) \<Rightarrow>
         bindE (x_write_block sb (inode_bitmap bgd) bmap) (\<lambda>_.
         bindE (x_adjust_bgd_counts sb g 0 (- 1) (if dir then 1 else 0)) (\<lambda>_.
         bindE (x_adjust_sb_counts 0 (- 1)) (\<lambda>_.
         bindE (liftE (mul32 g (inodes_per_group sb))) (\<lambda>t.
         bindE (liftE (add32 t bitn)) (\<lambda>t.
         bindE (liftE (add32 t 1)) (\<lambda>ino. retE (Some ino)))))))))))"

definition x_alloc_inode :: "Superblock \<Rightarrow> bool \<Rightarrow> (Errno, MemDisk, nat option) comp" where
  "x_alloc_inode sb dir = x_alloc_inode_in sb dir [0 ..< num_groups sb]"

definition x_free_inode :: "Superblock \<Rightarrow> nat \<Rightarrow> bool \<Rightarrow> (Errno, MemDisk, unit) comp" where
  "x_free_inode sb ino dir =
     (if ino < 1 \<or> inodes_count sb < ino then errE EIO else
      bindE (liftE (div32 (ino - 1) (inodes_per_group sb))) (\<lambda>g.
      bindE (liftE (mod32 (ino - 1) (inodes_per_group sb))) (\<lambda>bitn.
      bindE (x_read_bgd sb g) (\<lambda>bgd.
      bindE (x_block_vec sb (inode_bitmap bgd)) (\<lambda>bmap.
      bindE (liftE (get_byte bmap (bitn div 8))) (\<lambda>byte.
      bindE (x_write_block sb (inode_bitmap bgd) (bmap[bitn div 8 := byte AND NOT (bit_mask bitn)])) (\<lambda>_.
      bindE (x_adjust_bgd_counts sb g 0 1 (if dir then - 1 else 0)) (\<lambda>_.
      x_adjust_sb_counts 0 1))))))))"

section \<open>Mounting\<close>

text \<open>The messages of the mount errors are not distinguished.\<close>

definition x_reconcile_free_counts :: "Superblock \<Rightarrow> (Errno, MemDisk, unit) comp" where
  "x_reconcile_free_counts sb = bindE (intoE (reconcile_free_counts sb)) (\<lambda>_. retE ())"

definition x_reclaim_orphans :: "Superblock \<Rightarrow> (Errno, MemDisk, unit) comp" where
  "x_reclaim_orphans sb = bindE (intoE (reclaim_orphans sb)) (\<lambda>_. retE ())"

definition mount_and_repair :: "(unit, MemDisk, Superblock) comp" where
  "mount_and_repair =
     bindE (mapErr (\<lambda>_. ()) mount) (\<lambda>sb.
     bindE (mapErr (\<lambda>_. ()) (x_reconcile_free_counts sb)) (\<lambda>_.
     bindE (mapErr (\<lambda>_. ()) (x_reclaim_orphans sb)) (\<lambda>_. retE sb)))"

section \<open>Inodes\<close>

record Ext2Inode =
  x_ino :: nat
  x_raw :: RawInode

text \<open>An inode handed in by the caller may belong to another file system; of such a one only the type is asked.\<close>

datatype dyn_inode = Ext2Node Ext2Inode | OtherNode FileType

definition inode_new :: "Superblock \<Rightarrow> nat \<Rightarrow> (Errno, MemDisk, Ext2Inode) comp" where
  "inode_new sb ino = bindE (x_read_inode sb ino) (\<lambda>raw. retE \<lparr>x_ino = ino, x_raw = raw\<rparr>)"

definition x_root :: "Superblock \<Rightarrow> (Errno, MemDisk, Ext2Inode) comp" where
  "x_root sb = inode_new sb ROOT_INO"

text \<open>\<^verbatim>\<open>u64 as i64\<close>; the metadata of a file adds 511 to its size.\<close>

definition size_i64 :: "nat \<Rightarrow> int" where
  "size_i64 n = (if n < 2 ^ 63 then int n else int n - 2 ^ 64)"

definition file_stat :: "nat \<Rightarrow> nat \<Rightarrow> Stat res" where
  "file_stat ino n =
     (if size_i64 n + 511 < 2 ^ 63 then Inr (stat_regular_writable ino (size_i64 n)) else Inl Panic)"

definition x_stat :: "Ext2Inode \<Rightarrow> Stat res" where
  "x_stat i =
     bindR (i_mode (x_raw i)) (\<lambda>m. let perm = of_nat (m mod 2 ^ 12) in
     bindR (links_count (x_raw i)) (\<lambda>nlink.
     bindR (is_dir (x_raw i)) (\<lambda>d.
     if d then Inr (with_nlink nlink (with_perm_bits perm (stat_dir (x_ino i)))) else
     bindR (is_symlink (x_raw i)) (\<lambda>l.
     bindR (isize (x_raw i)) (\<lambda>n.
     if l then Inr (stat_symlink (x_ino i) (size_i64 n))
     else bindR (file_stat (x_ino i) n) (\<lambda>st. Inr (with_nlink nlink (with_perm_bits perm st))))))))"

definition x_file_type :: "Ext2Inode \<Rightarrow> FileType res" where
  "x_file_type i = bindR (x_stat i) (\<lambda>st. Inr (file_type st))"

definition x_lookup :: "Superblock \<Rightarrow> u8 list \<Rightarrow> Ext2Inode \<Rightarrow> (Errno, MemDisk, Ext2Inode) comp" where
  "x_lookup sb name i =
     bindE (liftE (is_dir (x_raw i))) (\<lambda>d.
     if \<not> d then errE ENOTDIR else
     bindE (x_read_dir_entries sb (x_raw i)) (\<lambda>es.
     case List.find (\<lambda>e. xe_name e = name) es of
       None \<Rightarrow> errE ENOENT
     | Some e \<Rightarrow> inode_new sb (xe_ino e)))"

definition x_dirent :: "Ext2DirEntry \<Rightarrow> VDirEntry" where
  "x_dirent e = dirent_new (xe_ino e) (xe_kind e) (xe_name e)"

definition x_readdir :: "Superblock \<Rightarrow> nat \<Rightarrow> Ext2Inode \<Rightarrow> (Errno, MemDisk, VDirEntry option) comp" where
  "x_readdir sb off i =
     bindE (liftE (is_dir (x_raw i))) (\<lambda>d.
     if \<not> d then errE ENOTDIR
     else if off = 0 then retE (Some (dirent_new (x_ino i) Directory DOT))
     else if off = 1 then retE (Some (dirent_new (x_ino i) Directory DOTDOT))
     else bindE (x_read_dir_entries sb (x_raw i)) (\<lambda>es.
       retE (if off - 2 < length es then Some (x_dirent (es ! (off - 2))) else None)))"

text \<open>The first lines of every operation on a directory.\<close>

definition in_dir :: "Ext2Inode \<Rightarrow> (Errno, 's, 'a) comp \<Rightarrow> (Errno, 's, 'a) comp" where
  "in_dir i m = bindE (liftE (is_dir (x_raw i))) (\<lambda>d. if \<not> d then errE ENOTDIR else m)"

definition some_or :: "Errno \<Rightarrow> 'a option \<Rightarrow> (Errno, 's, 'a) comp" where
  "some_or e r = (case r of None \<Rightarrow> errE e | Some x \<Rightarrow> retE x)"

definition fresh_raw :: "Superblock \<Rightarrow> nat \<Rightarrow> nat \<Rightarrow> RawInode res" where
  "fresh_raw sb mode links =
     bindR (set_i_mode (RawInode_zeroed (inode_size sb)) mode) (\<lambda>raw. set_links_count raw links)"

definition x_create :: "Superblock \<Rightarrow> u8 list \<Rightarrow> Ext2Inode \<Rightarrow> (Errno, MemDisk, Ext2Inode) comp" where
  "x_create sb name i =
     in_dir i (
     bindE (attemptE (x_lookup sb name i)) (\<lambda>r.
     case r of
       Some existing \<Rightarrow>
         bindE (liftE (x_file_type existing)) (\<lambda>k. if k = Directory then errE EISDIR else retE existing)
     | None \<Rightarrow>
         bindE (bindE (x_alloc_inode sb False) (some_or ENOSPC)) (\<lambda>new_ino.
         bindE (liftE (fresh_raw sb 0x81A4 1)) (\<lambda>new_raw.
         bindE (x_write_inode sb new_ino new_raw) (\<lambda>_.
         bindE (onErrE (lendE (x_raw i) (x_add_dir_entry sb (x_ino i) name new_ino Regular))
                       (x_free_inode sb new_ino False)) (\<lambda>_.
         inode_new sb new_ino))))))"

definition x_dirent_len :: "nat \<Rightarrow> nat" where
  "x_dirent_len name_len = (8 + name_len + 3) div 4 * 4"

definition x_write_dirent :: "u8 list \<Rightarrow> nat \<Rightarrow> nat \<Rightarrow> u8 list \<Rightarrow> FileType \<Rightarrow> u8 list res" where
  "x_write_dirent b ino rec_len name kind =
     bindR (put_le 4 b 0 ino) (\<lambda>b.
     bindR (put_le 2 b 4 rec_len) (\<lambda>b.
     bindR (splice_at b 6 [of_nat (length name)]) (\<lambda>b.
     bindR (splice_at b 7 [vfs_file_type_to_ext2 kind]) (\<lambda>b.
     splice_at b 8 name))))"

definition new_dir_block :: "Superblock \<Rightarrow> nat \<Rightarrow> nat \<Rightarrow> u8 list res" where
  "new_dir_block sb new_ino parent_ino =
     (let bs = block_size sb; dot_len = x_dirent_len 1 in
      bindR (slice_of (replicate bs 0) 0 dot_len) (\<lambda>s.
      bindR (x_write_dirent s new_ino dot_len DOT Directory) (\<lambda>s.
      bindR (splice_at (replicate bs 0) 0 s) (\<lambda>bf.
      bindR (sub64 bs dot_len) (\<lambda>remaining.
      bindR (slice_of bf dot_len remaining) (\<lambda>s.
      bindR (x_write_dirent s parent_ino (remaining mod 2 ^ 16) DOTDOT Directory) (\<lambda>s.
      splice_at bf dot_len s)))))))"

definition x_mkdir :: "Superblock \<Rightarrow> u8 list \<Rightarrow> Ext2Inode \<Rightarrow> (Errno, MemDisk, Ext2Inode) comp" where
  "x_mkdir sb name i =
     in_dir i (
     bindE (attemptE (x_lookup sb name i)) (\<lambda>r.
     if r \<noteq> None then errE EEXIST else
     bindE (bindE (x_alloc_inode sb True) (some_or ENOSPC)) (\<lambda>new_ino.
     bindE (x_alloc_block sb) (\<lambda>nb.
     case nb of
       None \<Rightarrow> bindE (attemptE (x_free_inode sb new_ino True)) (\<lambda>_. errE ENOSPC)
     | Some new_block \<Rightarrow>
         bindE (liftE (fresh_raw sb 0x41ED 2)) (\<lambda>new_raw.
         bindE (liftE (set_i_block new_raw 0 new_block)) (\<lambda>new_raw.
         bindE (liftE (set_isize new_raw (block_size sb))) (\<lambda>new_raw.
         bindE (liftE (new_dir_block sb new_ino (x_ino i))) (\<lambda>bf.
         bindE (x_write_block sb new_block bf) (\<lambda>_.
         bindE (x_write_inode sb new_ino new_raw) (\<lambda>_.
         bindE (onErrE (lendE (x_raw i) (x_add_dir_entry sb (x_ino i) name new_ino Directory))
                       (bindE (attemptE (x_free_block sb new_block)) (\<lambda>_. x_free_inode sb new_ino True))) (\<lambda>(_, dir_raw).
         bindE (liftE (links_count dir_raw)) (\<lambda>n.
         bindE (liftE (add16 n 1)) (\<lambda>n.
         bindE (liftE (set_links_count dir_raw n)) (\<lambda>parent_raw.
         bindE (x_write_inode sb (x_ino i) parent_raw) (\<lambda>_.
         inode_new sb new_ino)))))))))))))))"

definition x_unlink :: "Superblock \<Rightarrow> nat \<Rightarrow> u8 list \<Rightarrow> Ext2Inode \<Rightarrow> (Errno, MemDisk, unit) comp" where
  "x_unlink sb now name i =
     in_dir i (
     bindE (x_lookup sb name i) (\<lambda>child.
     bindE (liftE (x_file_type child)) (\<lambda>k.
     if k = Directory then errE EISDIR else
     bindE (x_remove_dir_entry sb (x_raw i) name) (\<lambda>(child_ino, _).
     bindE (x_read_inode sb child_ino) (\<lambda>child_raw.
     bindE (liftE (links_count child_raw)) (\<lambda>n.
     bindE (liftE (set_links_count child_raw (n - 1))) (\<lambda>child_raw.
     if n - 1 = 0 then
       bindE (lendE child_raw (free_all_blocks sb)) (\<lambda>(_, child_raw).
       bindE (liftE (set_dtime child_raw (now mod 2 ^ 32))) (\<lambda>child_raw.
       bindE (x_write_inode sb child_ino child_raw) (\<lambda>_.
       x_free_inode sb child_ino False)))
     else x_write_inode sb child_ino child_raw)))))))"

definition drop_link :: "Superblock \<Rightarrow> Ext2Inode \<Rightarrow> (Errno, MemDisk, unit) comp" where
  "drop_link sb i =
     bindE (liftE (links_count (x_raw i))) (\<lambda>n.
     bindE (liftE (set_links_count (x_raw i) (n - 1))) (\<lambda>parent_raw. x_write_inode sb (x_ino i) parent_raw))"

definition x_rmdir :: "Superblock \<Rightarrow> nat \<Rightarrow> u8 list \<Rightarrow> Ext2Inode \<Rightarrow> (Errno, MemDisk, unit) comp" where
  "x_rmdir sb now name i =
     in_dir i (
     bindE (x_lookup sb name i) (\<lambda>child.
     bindE (liftE (x_file_type child)) (\<lambda>k.
     if k \<noteq> Directory then errE ENOTDIR else
     bindE (x_readdir sb 2 child) (\<lambda>r.
     if r \<noteq> None then errE ENOTEMPTY else
     bindE (x_remove_dir_entry sb (x_raw i) name) (\<lambda>(child_ino, _).
     bindE (x_read_inode sb child_ino) (\<lambda>child_raw.
     bindE (lendE child_raw (free_all_blocks sb)) (\<lambda>(_, child_raw).
     bindE (liftE (set_dtime child_raw (now mod 2 ^ 32))) (\<lambda>child_raw.
     bindE (x_write_inode sb child_ino child_raw) (\<lambda>_.
     bindE (x_free_inode sb child_ino True) (\<lambda>_.
     drop_link sb i))))))))))"

definition x_take_child :: "Superblock \<Rightarrow> u8 list \<Rightarrow> Ext2Inode \<Rightarrow> (Errno, MemDisk, Ext2Inode) comp" where
  "x_take_child sb name i =
     in_dir i (
     bindE (x_lookup sb name i) (\<lambda>child.
     bindE (x_remove_dir_entry sb (x_raw i) name) (\<lambda>(_, kind).
     bindE (if kind = Directory then drop_link sb i else retE ()) (\<lambda>_. retE child))))"

definition dyn_file_type :: "dyn_inode \<Rightarrow> FileType res" where
  "dyn_file_type n = (case n of Ext2Node e \<Rightarrow> x_file_type e | OtherNode k \<Rightarrow> Inr k)"

definition x_insert_child :: "Superblock \<Rightarrow> u8 list \<Rightarrow> dyn_inode \<Rightarrow> Ext2Inode \<Rightarrow> (Errno, MemDisk, unit) comp" where
  "x_insert_child sb name node i =
     in_dir i (
     bindE (attemptE (x_lookup sb name i)) (\<lambda>r.
     if r \<noteq> None then errE EEXIST else
     bindE (liftE (dyn_file_type node)) (\<lambda>kind.
     case node of
       OtherNode _ \<Rightarrow> errE ENOSYS
     | Ext2Node e \<Rightarrow>
         bindE (lendE (x_raw i) (x_add_dir_entry sb (x_ino i) name (x_ino e) kind)) (\<lambda>(_, dir_raw).
         if kind = Directory then
           bindE (x_set_dotdot sb (x_raw e) (x_ino i)) (\<lambda>_.
           bindE (liftE (links_count dir_raw)) (\<lambda>n.
           bindE (liftE (add16 n 1)) (\<lambda>n.
           bindE (liftE (set_links_count dir_raw n)) (\<lambda>parent_raw.
           x_write_inode sb (x_ino i) parent_raw))))
         else retE ()))))"

definition x_readlink :: "Superblock \<Rightarrow> Ext2Inode \<Rightarrow> (Errno, MemDisk, u8 list) comp" where
  "x_readlink sb i =
     bindE (liftE (is_symlink (x_raw i))) (\<lambda>l. if \<not> l then errE EINVAL else x_read_symlink_target sb (x_raw i))"

text \<open>The record of the new link as far as the failing call got is what the clean-up frees the blocks of.\<close>

definition x_symlink :: "Superblock \<Rightarrow> u8 list \<Rightarrow> u8 list \<Rightarrow> Ext2Inode \<Rightarrow> (Errno, MemDisk, Ext2Inode) comp" where
  "x_symlink sb name target i =
     in_dir i (
     bindE (attemptE (x_lookup sb name i)) (\<lambda>r.
     if r \<noteq> None then errE EEXIST else
     bindE (bindE (x_alloc_inode sb False) (some_or ENOSPC)) (\<lambda>new_ino.
     bindE (liftE (fresh_raw sb 0xA1FF 1)) (\<lambda>new_raw.
     let clean_up = bindE (attemptE (free_all_blocks sb)) (\<lambda>_. onDev (x_free_inode sb new_ino False)) in
     bindE (lendE new_raw (
       bindE (onErrE (intoE (write_symlink_target sb new_ino target)) clean_up) (\<lambda>_.
       onErrE (onDev (lendE (x_raw i) (x_add_dir_entry sb (x_ino i) name new_ino Symlink))) clean_up))) (\<lambda>_.
     inode_new sb new_ino)))))"

text \<open>\<^verbatim>\<open>(mode_bits & 0xF000) | (mode & 0o7777)\<close>.\<close>

definition with_mode :: "u32 \<Rightarrow> RawInode \<Rightarrow> RawInode res" where
  "with_mode mode raw = bindR (i_mode raw) (\<lambda>m. set_i_mode raw (m div 2 ^ 12 * 2 ^ 12 + unat mode mod 2 ^ 12))"

definition x_chmod :: "Superblock \<Rightarrow> u32 \<Rightarrow> Ext2Inode \<Rightarrow> (Errno, MemDisk, unit) comp" where
  "x_chmod sb mode i =
     bindE (x_read_inode sb (x_ino i)) (\<lambda>raw.
     bindE (liftE (with_mode mode raw)) (\<lambda>raw. x_write_inode sb (x_ino i) raw))"

section \<open>Open files\<close>

record ofile =
  of_raw :: RawInode
  of_off :: nat

record ofiles =
  of_cell :: "nat \<Rightarrow> ofile"
  of_next :: nat

datatype x_handle = Ext2FileHandle nat nat | Ext2DirHandle nat "VDirEntry list" nat

definition x_open :: "Superblock \<Rightarrow> u32 \<Rightarrow> Ext2Inode \<Rightarrow> (Errno, ofiles \<times> MemDisk, x_handle) comp" where
  "x_open sb flags i =
     bindE (liftE (is_symlink (x_raw i))) (\<lambda>l.
     if l then errE EINVAL else
     bindE (liftE (is_dir (x_raw i))) (\<lambda>d.
     if d then
       if is_write flags then errE EISDIR else
       bindE (onDev (x_read_dir_entries sb (x_raw i))) (\<lambda>es.
       retE (Ext2DirHandle (x_ino i)
              (dirent_new (x_ino i) Directory DOT # dirent_new (x_ino i) Directory DOTDOT # map x_dirent es) 0))
     else
       bindE (if is_write flags \<and> flags AND O_TRUNC \<noteq> 0
              then onDev (lendE (x_raw i) (truncate_to_zero sb (x_ino i))) else retE ((), x_raw i)) (\<lambda>(_, raw).
       bindE (if flags AND O_APPEND \<noteq> 0 then liftE (isize raw) else retE 0) (\<lambda>start_offset.
       bindE getE (\<lambda>fs.
       bindE (putE (fs\<lparr>of_cell := (of_cell fs)(of_next fs := \<lparr>of_raw = raw, of_off = start_offset\<rparr>),
                       of_next := of_next fs + 1\<rparr>)) (\<lambda>_.
       retE (Ext2FileHandle (x_ino i) (of_next fs))))))))"

text \<open>A computation on the record of an open file, which keeps what it did to it also when it fails.\<close>

definition onCell :: "nat \<Rightarrow> ('e, RawInode \<times> MemDisk, 'a) comp \<Rightarrow> ('e, ofiles \<times> MemDisk, 'a) comp" where
  "onCell c m s =
     bindR (m (of_raw (of_cell (fst s) c), snd s)) (\<lambda>(r, (raw, d)).
     Inr (r, ((fst s)\<lparr>of_cell := (of_cell (fst s))(c := (of_cell (fst s) c)\<lparr>of_raw := raw\<rparr>)\<rparr>, d)))"

definition set_off :: "nat \<Rightarrow> nat \<Rightarrow> ('e, ofiles \<times> MemDisk, unit) comp" where
  "set_off c v =
     bindE getE (\<lambda>fs. putE (fs\<lparr>of_cell := (of_cell fs)(c := (of_cell fs c)\<lparr>of_off := v\<rparr>)\<rparr>))"

definition x_file_read :: "Superblock \<Rightarrow> nat \<Rightarrow> u8 list \<Rightarrow> (file_error, ofiles \<times> MemDisk, u8 list) comp" where
  "x_file_read sb c bf =
     bindE getE (\<lambda>fs.
     let raw = of_raw (of_cell fs c); offset = of_off (of_cell fs c) in
     bindE (liftE (isize raw)) (\<lambda>n.
     if n \<le> offset then retE [] else
     let k = min (length bf) (n - offset) in
     bindE (onDev (mapErr (\<lambda>_. IOError) (lendE (take k bf) (x_read_file_range sb raw offset)))) (\<lambda>(_, bs).
     bindE (liftE (add64 offset k)) (\<lambda>offset.
     bindE (set_off c offset) (\<lambda>_. retE bs)))))"

definition x_file_write :: "Superblock \<Rightarrow> nat \<Rightarrow> nat \<Rightarrow> u8 list \<Rightarrow> (file_error, ofiles \<times> MemDisk, nat) comp" where
  "x_file_write sb ino c bf =
     bindE getE (\<lambda>fs.
     let offset = of_off (of_cell fs c) in
     bindE (onCell c (mapErr (\<lambda>e. if e = ENOSPC then file_error.NoSpace else IOError)
                        (x_write_file_range sb ino offset bf))) (\<lambda>n.
     bindE (liftE (add64 offset n)) (\<lambda>offset.
     bindE (set_off c offset) (\<lambda>_. retE n))))"

definition x_handle_stat :: "x_handle \<Rightarrow> ofiles \<Rightarrow> Stat res" where
  "x_handle_stat h fs =
     (case h of
        Ext2FileHandle ino c \<Rightarrow> bindR (isize (of_raw (of_cell fs c))) (\<lambda>n. file_stat ino n)
      | Ext2DirHandle ino es off \<Rightarrow> Inr (stat_dir ino))"

definition x_handle_dup :: "x_handle \<Rightarrow> x_handle option" where
  "x_handle_dup h = (case h of Ext2FileHandle ino c \<Rightarrow> Some (Ext2FileHandle ino c) | Ext2DirHandle _ _ _ \<Rightarrow> None)"

definition x_file_seek :: "nat \<Rightarrow> int \<Rightarrow> int \<Rightarrow> (file_error, ofiles \<times> MemDisk, int) comp" where
  "x_file_seek c offset whence =
     bindE getE (\<lambda>fs.
     bindE (liftE (isize (of_raw (of_cell fs c)))) (\<lambda>n.
     case compute_seek (size_i64 (of_off (of_cell fs c))) (size_i64 n) offset whence of
       Inl e \<Rightarrow> errE e
     | Inr p \<Rightarrow> bindE (set_off c (nat p)) (\<lambda>_. retE p)))"

definition x_file_chmod :: "Superblock \<Rightarrow> nat \<Rightarrow> nat \<Rightarrow> u32 \<Rightarrow> (file_error, ofiles \<times> MemDisk, unit) comp" where
  "x_file_chmod sb ino c mode =
     onCell c (
       bindE getE (\<lambda>raw.
       bindE (liftE (with_mode mode raw)) (\<lambda>raw.
       bindE (putE raw) (\<lambda>_.
       onDev (mapErr (\<lambda>_. IOError) (x_write_inode sb ino raw))))))"

definition x_dir_getdents :: "nat \<Rightarrow> VDirEntry list \<Rightarrow> nat \<Rightarrow> nat \<Rightarrow> u8 list \<times> x_handle" where
  "x_dir_getdents ino es off n =
     (case getdents64_from_snapshot es off n of (bs, off') \<Rightarrow> (bs, Ext2DirHandle ino es off'))"

end
