(* ===== verification/Ext2_Blocks.thy ===== *)
theory Ext2_Blocks
  imports Ext2_Volume
begin

text \<open>
  Block I/O of an ext2 volume as reads and writes of a map from block numbers to contents (\<open>blk\<close>, \<open>set_blk\<close>):
  what each primitive of \<^verbatim>\<open>volume.rs\<close> returns on a volume whose geometry is sound, with the bits of a
  bitmap and the integer fields of a block.
\<close>

section \<open>Bits\<close>

lemma bit_mask_test [simp]: "(b :: u8) AND bit_mask i = 0 \<longleftrightarrow> \<not> bit b (i mod 8)"
  by (simp add: bit_mask_def push_bit_of_1 and_exp_eq_0_iff_not_bit)

lemma bit_is_set_iff: "bit_is_set bm i \<longleftrightarrow> i div 8 < length bm \<and> bit (bm ! (i div 8)) (i mod 8)"
  by (simp add: bit_is_set_def)

lemma bit_is_set_upd:
  assumes "i div 8 < length bm"
  shows "bit_is_set (bm[i div 8 := (bm ! (i div 8)) OR bit_mask i]) j \<longleftrightarrow> j = i \<or> bit_is_set bm j"
proof (cases "j div 8 = i div 8")
  case True
  have "bit (bit_mask i) (j mod 8) \<longleftrightarrow> j mod 8 = i mod 8"
    by (auto simp: bit_mask_def push_bit_of_1 bit_exp_iff)
  moreover have "j = i \<longleftrightarrow> j mod 8 = i mod 8"
    using True by (metis div_mult_mod_eq)
  ultimately show ?thesis using True assms by (auto simp: bit_is_set_iff bit_or_iff)
next
  case False
  then have "j \<noteq> i" by auto
  with False show ?thesis by (simp add: bit_is_set_iff nth_list_update_neq)
qed

lemma set_bit_in_ok:
  assumes "i < 8 * length bm"
  obtains bm' where "set_bit_in bm i = Inr bm'" "length bm' = length bm"
    "\<And>j. bit_is_set bm' j \<longleftrightarrow> j = i \<or> bit_is_set bm j"
proof -
  from assms have "i div 8 < length bm" by auto
  then show ?thesis
    by (intro that [of "bm[i div 8 := (bm ! (i div 8)) OR bit_mask i]"])
       (simp_all add: set_bit_in_def get_byte_def bit_is_set_upd)
qed

lemma find_free_from_ok:
  assumes "\<forall>i \<in> set is. i < 8 * length bm"
  shows "find_free_from bm is = Inr (case filter (\<lambda>i. \<not> bit_is_set bm i) is of [] \<Rightarrow> None | i # _ \<Rightarrow> Some i)"
  using assms
proof (induction "is")
  case Nil
  then show ?case by simp
next
  case (Cons i "is")
  then have "i div 8 < length bm" by auto
  with Cons show ?case by (simp add: get_byte_def bit_is_set_iff)
qed

lemma find_first_free_bit_ok:
  assumes "n \<le> 8 * length bm"
  shows "(find_first_free_bit bm n = Inr None \<and> (\<forall>i < n. bit_is_set bm i)) \<or>
    (\<exists>i < n. find_first_free_bit bm n = Inr (Some i) \<and> \<not> bit_is_set bm i)"
proof -
  have eq: "find_first_free_bit bm n =
      Inr (case filter (\<lambda>i. \<not> bit_is_set bm i) [0 ..< n] of [] \<Rightarrow> None | i # _ \<Rightarrow> Some i)"
    unfolding find_first_free_bit_def using assms by (intro find_free_from_ok) auto
  show ?thesis
  proof (cases "filter (\<lambda>i. \<not> bit_is_set bm i) [0 ..< n]")
    case Nil
    then show ?thesis using eq by (auto simp: filter_empty_conv)
  next
    case (Cons i is')
    then have "i \<in> set (filter (\<lambda>i. \<not> bit_is_set bm i) [0 ..< n])" by simp
    then have "i < n" "\<not> bit_is_set bm i" by auto
    then show ?thesis using eq Cons by auto
  qed
qed

section \<open>Fields of a buffer\<close>

definition field :: "nat \<Rightarrow> u8 list \<Rightarrow> nat \<Rightarrow> nat" where
  "field n b a = le_val (take n (drop a b))"

lemma get_le_ok [simp]: "a + n \<le> length b \<Longrightarrow> get_le n b a = Inr (field n b a)"
  by (simp add: get_le_def slice_of_def field_def)

lemma field_bound: "field n b a < 256 ^ n"
proof -
  have "le_val (take n (drop a b)) < 256 ^ length (take n (drop a b))" by (rule le_val_bound)
  also have "\<dots> \<le> 256 ^ n" by (intro power_increasing) auto
  finally show ?thesis by (simp add: field_def)
qed

definition put_field :: "nat \<Rightarrow> u8 list \<Rightarrow> nat \<Rightarrow> nat \<Rightarrow> u8 list" where
  "put_field n b a v = take a b @ le_bytes n v @ drop (a + n) b"

lemma put_le_ok [simp]: "a + n \<le> length b \<Longrightarrow> put_le n b a v = Inr (put_field n b a v)"
  by (simp add: put_le_def splice_at_def put_field_def)

lemma length_put_field [simp]: "a + n \<le> length b \<Longrightarrow> length (put_field n b a v) = length b"
  by (simp add: put_field_def)

lemma field_put_same: "a + n \<le> length b \<Longrightarrow> field n (put_field n b a v) a = v mod 256 ^ n"
  by (simp add: field_def put_field_def le_val_le_bytes)

lemma nth_put_field:
  assumes "a + n \<le> length b" "k < length b"
  shows "put_field n b a v ! k = (if a \<le> k \<and> k < a + n then le_bytes n v ! (k - a) else b ! k)"
  using assms by (auto simp: put_field_def nth_append)

lemma field_put_other:
  assumes "a + n \<le> length b" "a' + m \<le> a \<or> a + n \<le> a'" "a' + m \<le> length b"
  shows "field m (put_field n b a v) a' = field m b a'"
proof -
  have "take m (drop a' (put_field n b a v)) = take m (drop a' b)"
    by (rule nth_equalityI) (use assms in \<open>auto simp: nth_put_field\<close>)
  then show ?thesis by (simp add: field_def)
qed

section \<open>Blocks\<close>

definition blk :: "Superblock \<Rightarrow> MemDisk \<Rightarrow> nat \<Rightarrow> u8 list" where
  "blk sb d b = peek (disk_data d) (b * block_size sb) (block_size sb)"

definition set_blk :: "Superblock \<Rightarrow> MemDisk \<Rightarrow> nat \<Rightarrow> u8 list \<Rightarrow> MemDisk" where
  "set_blk sb d b bf = d\<lparr>disk_data := poke (disk_data d) (b * block_size sb) bf\<rparr>"

text \<open>The geometry that \<^verbatim>\<open>Superblock::parse\<close> does not check and the arithmetic relies on.\<close>

definition geometry :: "Superblock \<Rightarrow> bool" where
  "geometry sb \<longleftrightarrow>
     block_size sb \<in> {1024, 2048, 4096} \<and>
     blocks_count sb * (block_size sb div SECTOR_SIZE) < 2 ^ 32 \<and>
     0 < blocks_per_group sb \<and> blocks_per_group sb \<le> 8 * block_size sb \<and>
     0 < inodes_per_group sb \<and> inodes_per_group sb \<le> 8 * block_size sb \<and>
     first_data_block sb = (if block_size sb = 1024 then 1 else 0) \<and> bgdt_block sb = first_data_block sb + 1 \<and>
     num_groups sb = (blocks_count sb + blocks_per_group sb - 1) div blocks_per_group sb \<and>
     bgdt_block sb + num_groups sb div (block_size sb div 32) < blocks_count sb \<and>
     128 \<le> inode_size sb \<and> inode_size sb \<le> block_size sb \<and> inodes_count sb \<le> num_groups sb * inodes_per_group sb"

definition on_disk :: "Superblock \<Rightarrow> MemDisk \<Rightarrow> bool" where
  "on_disk sb d \<longleftrightarrow> geometry sb \<and> blocks_count sb * block_size sb \<le> disk_len d"

lemma geometryD:
  assumes "geometry sb"
  shows "block_size sb \<in> {1024, 2048, 4096}" "0 < block_size sb" "blocks_count sb < 2 ^ 31"
    "blocks_count sb * (block_size sb div SECTOR_SIZE) < 2 ^ 32"
    "0 < blocks_per_group sb" "blocks_per_group sb \<le> 8 * block_size sb"
    "0 < inodes_per_group sb" "inodes_per_group sb \<le> 8 * block_size sb"
    "first_data_block sb \<le> 1" "bgdt_block sb = first_data_block sb + 1"
    "num_groups sb = (blocks_count sb + blocks_per_group sb - 1) div blocks_per_group sb"
    "bgdt_block sb + num_groups sb div (block_size sb div 32) < blocks_count sb"
    "128 \<le> inode_size sb" "inode_size sb \<le> block_size sb" "inodes_count sb \<le> num_groups sb * inodes_per_group sb"
  using assms by (auto simp: geometry_def SECTOR_SIZE_def)

lemma length_blk [simp]: "length (blk sb d b) = block_size sb"
  by (simp add: blk_def)

lemma disk_len_set_blk [simp]: "disk_len (set_blk sb d b bf) = disk_len d"
  by (simp add: set_blk_def)

lemma on_disk_set_blk [simp]: "on_disk sb (set_blk sb d b bf) = on_disk sb d"
  by (simp add: on_disk_def)

lemma blk_set_blk:
  assumes "length bf = block_size sb"
  shows "blk sb (set_blk sb d b bf) c = (if c = b then bf else blk sb d c)"
proof (cases "c = b")
  case True
  then show ?thesis using assms peek_poke [of "disk_data d" "b * block_size sb" bf] by (simp add: blk_def set_blk_def)
next
  case False
  then have "c * block_size sb + block_size sb \<le> b * block_size sb \<or> b * block_size sb + block_size sb \<le> c * block_size sb"
    by (metis add.commute linorder_neqE_nat mult_Suc mult_le_mono1 Suc_leI)
  then show ?thesis using False assms by (simp add: blk_def set_blk_def peek_poke_other)
qed

lemma sectors_of_block:
  assumes "geometry sb"
  shows "sectors_of (sectors_per_block sb) * SECTOR_SIZE = block_size sb"
    "sectors_per_block sb = block_size sb div SECTOR_SIZE"
    "b * sectors_per_block sb * SECTOR_SIZE = b * block_size sb"
  using geometryD(1) [OF assms] by (auto simp: sectors_of_def sectors_per_block_def SECTOR_SIZE_def)

lemma lba_ok:
  assumes "geometry sb" "b < blocks_count sb"
  shows "mul32 b (sectors_per_block sb) = Inr (b * sectors_per_block sb)"
proof -
  have "b * sectors_per_block sb \<le> blocks_count sb * (block_size sb div SECTOR_SIZE)"
    using assms by (simp add: sectors_of_block)
  also have "\<dots> < 2 ^ 32" by (rule geometryD [OF assms(1)])
  finally show ?thesis by simp
qed

lemma block_end:
  assumes "on_disk sb d" "b < blocks_count sb"
  shows "b * block_size sb + block_size sb \<le> disk_len d"
proof -
  have "(b + 1) * block_size sb \<le> blocks_count sb * block_size sb" using assms by (intro mult_right_mono) auto
  then show ?thesis using assms by (simp add: on_disk_def)
qed

lemma block_vec_ok [simp]:
  assumes "on_disk sb d" "b < blocks_count sb"
  shows "block_vec sb b d = Inr (Inr (blk sb d b), d)"
proof -
  have g: "geometry sb" using assms by (simp add: on_disk_def)
  show ?thesis
    using assms(2) block_end [OF assms]
    by (simp add: block_vec_def read_block_def run_simps lba_ok [OF g] read_sectors_def
        sectors_of_block(1,3) [OF g] Let_def blk_def)
qed

lemma write_block_ok [simp]:
  assumes "on_disk sb d" "b < blocks_count sb" "length bf = block_size sb"
  shows "write_block sb b bf d = Inr (Inr (), set_blk sb d b bf)"
proof -
  have g: "geometry sb" using assms by (simp add: on_disk_def)
  show ?thesis
    using assms(2,3) block_end [OF assms(1,2)]
    by (simp add: write_block_def run_simps lba_ok [OF g] write_sectors_def
        sectors_of_block(1,3) [OF g] Let_def set_blk_def)
qed

section \<open>The superblock's sectors\<close>

text \<open>The superblock is at byte 1024, in block \<^verbatim>\<open>first_data_block\<close>.\<close>

definition sb_off :: "Superblock \<Rightarrow> nat" where
  "sb_off sb = (if block_size sb = 1024 then 0 else 1024)"

definition adj32 :: "u8 list \<Rightarrow> nat \<Rightarrow> int \<Rightarrow> u8 list" where
  "adj32 bf off delta =
     (if delta = 0 then bf else put_field 4 bf off (nat ((int (field 4 bf off) + delta) mod 2 ^ 32)))"

lemma adjust32_ok: "off + 4 \<le> length bf \<Longrightarrow> adjust32 bf off delta = Inr (adj32 bf off delta)"
  by (simp add: adjust32_def adj32_def)

lemma length_adj32 [simp]: "off + 4 \<le> length bf \<Longrightarrow> length (adj32 bf off delta) = length bf"
  by (simp add: adj32_def)

definition window :: "u8 list \<Rightarrow> nat \<Rightarrow> nat \<Rightarrow> u8 list" where
  "window b a n = take n (drop a b)"

lemma field_window: "k + n \<le> m \<Longrightarrow> field n (window b a m) k = field n b (a + k)"
  by (simp add: field_def window_def drop_take min_def add.commute)

lemma splice_put_field:
  assumes "a + m \<le> length b" "k + n \<le> m"
  shows "take a b @ put_field n (window b a m) k v @ drop (a + m) b = put_field n b (a + k) v"
proof (rule nth_equalityI)
  show "length (take a b @ put_field n (window b a m) k v @ drop (a + m) b) = length (put_field n b (a + k) v)"
    using assms by (simp add: window_def)
next
  fix i
  assume "i < length (take a b @ put_field n (window b a m) k v @ drop (a + m) b)"
  then have i: "i < length b" using assms by (simp add: window_def)
  have len: "length (window b a m) = m" using assms by (simp add: window_def)
  consider "i < a" | "a \<le> i" "i < a + m" | "a + m \<le> i" by linarith
  then show "(take a b @ put_field n (window b a m) k v @ drop (a + m) b) ! i = put_field n b (a + k) v ! i"
  proof cases
    case 1
    then show ?thesis using assms i by (simp add: nth_append nth_put_field)
  next
    case 2
    then have im: "i - a < m" by simp
    then have "put_field n (window b a m) k v ! (i - a) = put_field n b (a + k) v ! i"
      using 2 assms i len by (auto simp: nth_put_field window_def add.commute diff_diff_left)
    then show ?thesis using 2 assms i len im by (simp add: nth_append)
  next
    case 3
    then have "\<not> i - a < m" "\<not> i < a" by simp_all
    then show ?thesis using 3 assms i len by (simp add: nth_append nth_put_field)
  qed
qed

lemma splice_adj32:
  assumes "a + m \<le> length b" "k + 4 \<le> m"
  shows "take a b @ adj32 (window b a m) k v @ drop (a + m) b = adj32 b (a + k) v"
proof (cases "v = 0")
  case True
  have "take a b @ take m (drop a b) @ drop (a + m) b = b"
    by (metis append_take_drop_id drop_drop add.commute)
  then show ?thesis using True by (simp add: adj32_def window_def)
next
  case False
  then show ?thesis using assms by (simp add: adj32_def splice_put_field field_window)
qed

lemma window_adj32:
  assumes "a + m \<le> length b" "k + 4 \<le> m"
  shows "window (adj32 b (a + k) v) a m = adj32 (window b a m) k v"
proof -
  have "window (take a b @ adj32 (window b a m) k v @ drop (a + m) b) a m = adj32 (window b a m) k v"
    using assms by (simp add: window_def)
  then show ?thesis using splice_adj32 [OF assms] by simp
qed

lemma splice_adj32_2:
  assumes "a + m \<le> length b" "k + 4 \<le> m" "j + 4 \<le> m"
  shows "take a b @ adj32 (adj32 (window b a m) k v) j w @ drop (a + m) b = adj32 (adj32 b (a + k) v) (a + j) w"
proof -
  let ?c = "adj32 b (a + k) v"
  have c: "length ?c = length b" using assms by simp
  have eq: "take a ?c = take a b" "drop (a + m) ?c = drop (a + m) b"
    using splice_adj32 [OF assms(1,2), of v, symmetric] assms by (simp_all add: window_def)
  have "take a ?c @ adj32 (window ?c a m) j w @ drop (a + m) ?c = adj32 ?c (a + j) w"
    using c assms by (intro splice_adj32) auto
  then show ?thesis using eq window_adj32 [OF assms(1,2), of v] by simp
qed

lemma peek_window: "a + n \<le> m \<Longrightarrow> peek f (k + a) n = window (peek f k m) a n"
  by (rule nth_equalityI) (simp_all add: peek_def window_def add.assoc)

lemma sb_window:
  assumes "geometry sb"
  shows "sb_off sb + 1024 \<le> block_size sb" "first_data_block sb * block_size sb + sb_off sb = 1024"
    "peek (disk_data d) 1024 1024 = window (blk sb d (first_data_block sb)) (sb_off sb) 1024"
proof -
  show 1: "sb_off sb + 1024 \<le> block_size sb" and 2: "first_data_block sb * block_size sb + sb_off sb = 1024"
    using assms by (auto simp: geometry_def sb_off_def)
  show "peek (disk_data d) 1024 1024 = window (blk sb d (first_data_block sb)) (sb_off sb) 1024"
    using peek_window [OF 1, of "disk_data d" "first_data_block sb * block_size sb"] unfolding 2 blk_def .
qed

lemma poke_window:
  assumes "length raw = n" "a + n \<le> m"
  shows "poke f (k + a) raw = poke f k (take a (peek f k m) @ raw @ drop (a + n) (peek f k m))"
proof
  fix x
  consider "x < k" | "k \<le> x" "x < k + a" | "k + a \<le> x" "x < k + a + n" | "k + a + n \<le> x" "x < k + m" | "k + m \<le> x"
    by linarith
  then show "poke f (k + a) raw x = poke f k (take a (peek f k m) @ raw @ drop (a + n) (peek f k m)) x"
    by cases (use assms in \<open>auto simp: poke_def nth_append peek_def less_diff_conv2\<close>)
qed

lemma adjust_sb_counts_ok:
  assumes "on_disk sb d"
  shows "adjust_sb_counts db di d =
    Inr (Inr (), set_blk sb d (first_data_block sb)
      (adj32 (adj32 (blk sb d (first_data_block sb)) (sb_off sb + 12) db) (sb_off sb + 16) di))"
proof -
  have g: "geometry sb" using assms by (simp add: on_disk_def)
  have "first_data_block sb < blocks_count sb" using geometryD(10,12) [OF g] by simp
  from block_end [OF assms this] have len: "2048 \<le> disk_len d" using sb_window(1,2) [OF g] by linarith
  let ?b = "blk sb d (first_data_block sb)" and ?w = "peek (disk_data d) 1024 1024"
  have "poke (disk_data d) 1024 (adj32 (adj32 ?w 12 db) 16 di) =
      poke (disk_data d) (first_data_block sb * block_size sb)
        (take (sb_off sb) ?b @ adj32 (adj32 ?w 12 db) 16 di @ drop (sb_off sb + 1024) ?b)"
    using poke_window [of "adj32 (adj32 ?w 12 db) 16 di" 1024 "sb_off sb" "block_size sb" "disk_data d"
        "first_data_block sb * block_size sb"] sb_window(1,2) [OF g] by (simp add: blk_def)
  also have "take (sb_off sb) ?b @ adj32 (adj32 ?w 12 db) 16 di @ drop (sb_off sb + 1024) ?b =
      adj32 (adj32 ?b (sb_off sb + 12) db) (sb_off sb + 16) di"
    unfolding sb_window(3) [OF g, of d] using sb_window(1) [OF g] by (intro splice_adj32_2) auto
  finally show ?thesis
    using len by (simp add: adjust_sb_counts_def run_simps read_sectors_def write_sectors_def sectors_of_def
        SECTOR_SIZE_def adjust32_ok set_blk_def)
qed

section \<open>Block group descriptors\<close>

definition gblk :: "Superblock \<Rightarrow> nat \<Rightarrow> nat" where
  "gblk sb g = bgdt_block sb + g div (block_size sb div 32)"

definition goff :: "Superblock \<Rightarrow> nat \<Rightarrow> nat" where
  "goff sb g = g mod (block_size sb div 32) * 32"

definition desc_in :: "u8 list \<Rightarrow> nat \<Rightarrow> BlockGroupDesc" where
  "desc_in bf off =
     \<lparr>block_bitmap = field 4 bf off, inode_bitmap = field 4 bf (off + 4), inode_table = field 4 bf (off + 8),
      free_blocks = field 2 bf (off + 12), free_inodes = field 2 bf (off + 14)\<rparr>"

definition desc :: "Superblock \<Rightarrow> MemDisk \<Rightarrow> nat \<Rightarrow> BlockGroupDesc" where
  "desc sb d g = desc_in (blk sb d (gblk sb g)) (goff sb g)"

lemma goff_le: "geometry sb \<Longrightarrow> goff sb g + 32 \<le> block_size sb"
proof -
  assume g: "geometry sb"
  then have "block_size sb div 32 * 32 = block_size sb" "0 < block_size sb div 32" by (auto simp: geometry_def)
  then show ?thesis
    using mod_less_divisor [of "block_size sb div 32" g] unfolding goff_def
    by (metis Suc_leI add.commute mult_Suc mult_le_mono1)
qed

lemma gblk_less:
  assumes "geometry sb" "g < num_groups sb"
  shows "gblk sb g < blocks_count sb" "first_data_block sb < gblk sb g"
proof -
  have "g div (block_size sb div 32) \<le> num_groups sb div (block_size sb div 32)"
    using assms by (intro div_le_mono) simp
  then show "gblk sb g < blocks_count sb" "first_data_block sb < gblk sb g"
    using geometryD(10,12) [OF assms(1)] by (simp_all add: gblk_def)
qed

lemma bgd_location_ok:
  assumes "geometry sb" "g < num_groups sb"
  shows "bgd_location sb g = Inr (gblk sb g, goff sb g)"
proof -
  have "0 < block_size sb div 32" using assms by (auto simp: geometry_def)
  moreover have "gblk sb g < 2 ^ 32" using gblk_less [OF assms] geometryD(3) [OF assms(1)] by simp
  moreover have "goff sb g < 2 ^ 32" using goff_le [OF assms(1), of g] geometryD(1) [OF assms(1)] by auto
  ultimately show ?thesis by (simp add: bgd_location_def gblk_def goff_def Let_def)
qed

lemma read_bgd_ok [simp]:
  assumes "on_disk sb d" "g < num_groups sb"
  shows "read_bgd sb g d = Inr (Inr (desc sb d g), d)"
proof -
  have g: "geometry sb" using assms by (simp add: on_disk_def)
  show ?thesis
    using assms goff_le [OF g, of g] gblk_less [OF g assms(2)]
    by (simp add: read_bgd_def run_simps bgd_location_ok [OF g assms(2)] BlockGroupDesc_parse_def desc_def desc_in_def)
qed

definition adj16 :: "u8 list \<Rightarrow> nat \<Rightarrow> int \<Rightarrow> u8 list" where
  "adj16 bf off delta =
     (if delta = 0 then bf else put_field 2 bf off (nat ((int (field 2 bf off) + delta) mod 2 ^ 16)))"

lemma adjust16_ok:
  assumes "off + 2 \<le> length bf" "\<bar>delta\<bar> < 2 ^ 30"
  shows "adjust16 bf off delta = Inr (adj16 bf off delta)"
proof -
  have "int (field 2 bf off) < 65536" using field_bound [of 2 bf off] by simp
  then have "chk_i32 (int (field 2 bf off) + delta) = Inr (int (field 2 bf off) + delta)"
    using assms(2) unfolding chk_i32_def by (simp, linarith)
  then show ?thesis using assms(1) by (simp add: adjust16_def adj16_def)
qed

lemma length_adj16 [simp]: "off + 2 \<le> length bf \<Longrightarrow> length (adj16 bf off delta) = length bf"
  by (simp add: adj16_def)

lemma adjust_bgd_counts_ok [simp]:
  assumes "on_disk sb d" "g < num_groups sb" "\<bar>a\<bar> < 2 ^ 30" "\<bar>b\<bar> < 2 ^ 30" "\<bar>c\<bar> < 2 ^ 30"
  shows "adjust_bgd_counts sb g a b c d =
    Inr (Inr (), set_blk sb d (gblk sb g) (adj16 (adj16 (adj16 (blk sb d (gblk sb g)) (goff sb g + 12) a)
      (goff sb g + 14) b) (goff sb g + 16) c))"
proof -
  have g: "geometry sb" using assms by (simp add: on_disk_def)
  show ?thesis
    using assms goff_le [OF g, of g] gblk_less [OF g assms(2)]
    by (simp add: adjust_bgd_counts_def run_simps bgd_location_ok [OF g assms(2)] adjust16_ok)
qed

end
