(* ===== verification/Ext2_Alloc.thy ===== *)
theory Ext2_Alloc
  imports Ext2_Blocks
begin

text \<open>
  The block allocator of an ext2 volume: what a well-formed volume is (\<open>vol_ok\<close>: where its metadata is, that
  the metadata is marked used, that the free counts are those of the bitmaps), and that
  \<^verbatim>\<open>alloc_block\<close> takes a free block out of the set of used blocks and keeps the volume well-formed.
\<close>

section \<open>Well-formed volumes\<close>

definition nblk :: "Superblock \<Rightarrow> nat \<Rightarrow> nat" where
  "nblk sb g = min (blocks_count sb - (first_data_block sb + g * blocks_per_group sb)) (blocks_per_group sb)"

text \<open>The groups that have blocks (the number of groups is rounded up from the whole block count).\<close>

definition real_groups :: "Superblock \<Rightarrow> nat set" where
  "real_groups sb = {g. g < num_groups sb \<and> 0 < nblk sb g}"

definition bmap :: "Superblock \<Rightarrow> MemDisk \<Rightarrow> nat \<Rightarrow> u8 list" where
  "bmap sb d g = blk sb d (block_bitmap (desc sb d g))"

definition used :: "Superblock \<Rightarrow> MemDisk \<Rightarrow> nat set" where
  "used sb d = {b. first_data_block sb \<le> b \<and> b < blocks_count sb \<and>
     bit_is_set (bmap sb d ((b - first_data_block sb) div blocks_per_group sb))
                ((b - first_data_block sb) mod blocks_per_group sb)}"

text \<open>The volume's own blocks: boot and superblock, descriptors, bitmaps, inode tables.\<close>

definition fixed_blocks :: "Superblock \<Rightarrow> nat set" where
  "fixed_blocks sb = {..first_data_block sb} \<union> gblk sb ` {..<num_groups sb}"

definition itable_blocks :: "Superblock \<Rightarrow> nat" where
  "itable_blocks sb =
     (inodes_per_group sb + block_size sb div inode_size sb - 1) div (block_size sb div inode_size sb)"

definition block_bitmaps :: "Superblock \<Rightarrow> MemDisk \<Rightarrow> nat set" where
  "block_bitmaps sb d = (\<lambda>g. block_bitmap (desc sb d g)) ` real_groups sb"

definition inode_bitmaps :: "Superblock \<Rightarrow> MemDisk \<Rightarrow> nat set" where
  "inode_bitmaps sb d = (\<lambda>g. inode_bitmap (desc sb d g)) ` real_groups sb"

definition inode_tables :: "Superblock \<Rightarrow> MemDisk \<Rightarrow> nat set" where
  "inode_tables sb d = (\<Union>g \<in> real_groups sb. {inode_table (desc sb d g) ..< inode_table (desc sb d g) + itable_blocks sb})"

definition meta :: "Superblock \<Rightarrow> MemDisk \<Rightarrow> nat set" where
  "meta sb d = fixed_blocks sb \<union> block_bitmaps sb d \<union> inode_bitmaps sb d \<union> inode_tables sb d"

definition layout :: "Superblock \<Rightarrow> MemDisk \<Rightarrow> bool" where
  "layout sb d \<longleftrightarrow>
     meta sb d \<subseteq> {..<blocks_count sb} \<and> meta sb d - {..<first_data_block sb} \<subseteq> used sb d \<and>
     inj_on (\<lambda>g. block_bitmap (desc sb d g)) (real_groups sb) \<and>
     block_bitmaps sb d \<inter> (fixed_blocks sb \<union> inode_bitmaps sb d \<union> inode_tables sb d) = {} \<and>
     inode_tables sb d \<inter> (fixed_blocks sb \<union> inode_bitmaps sb d) = {} \<and>
     (\<forall>ino. 1 \<le> ino \<and> ino \<le> inodes_count sb \<longrightarrow> (ino - 1) div inodes_per_group sb \<in> real_groups sb)"

definition sb_free :: "Superblock \<Rightarrow> MemDisk \<Rightarrow> nat" where
  "sb_free sb d = field 4 (blk sb d (first_data_block sb)) (sb_off sb + 12)"

definition group_free :: "Superblock \<Rightarrow> MemDisk \<Rightarrow> nat \<Rightarrow> nat set" where
  "group_free sb d g = {i. i < nblk sb g \<and> \<not> bit_is_set (bmap sb d g) i}"

definition counts_ok :: "Superblock \<Rightarrow> MemDisk \<Rightarrow> bool" where
  "counts_ok sb d \<longleftrightarrow>
     (\<forall>g < num_groups sb. free_blocks (desc sb d g) = card (group_free sb d g)) \<and>
     sb_free sb d = (\<Sum>g < num_groups sb. free_blocks (desc sb d g))"

definition vol_ok :: "Superblock \<Rightarrow> MemDisk \<Rightarrow> bool" where
  "vol_ok sb d \<longleftrightarrow> on_disk sb d \<and> layout sb d \<and> counts_ok sb d"

lemma vol_okD:
  assumes "vol_ok sb d"
  shows "geometry sb" "on_disk sb d" "layout sb d" "counts_ok sb d"
  using assms by (simp_all add: vol_ok_def on_disk_def)

section \<open>Block numbers and groups\<close>

definition bnum :: "Superblock \<Rightarrow> nat \<Rightarrow> nat \<Rightarrow> nat" where
  "bnum sb g i = first_data_block sb + g * blocks_per_group sb + i"

lemma nblk_le: "nblk sb g \<le> blocks_per_group sb"
  by (simp add: nblk_def)

lemma bnum_props:
  assumes "i < nblk sb g"
  shows "first_data_block sb \<le> bnum sb g i" "bnum sb g i < blocks_count sb"
    "(bnum sb g i - first_data_block sb) div blocks_per_group sb = g"
    "(bnum sb g i - first_data_block sb) mod blocks_per_group sb = i"
proof -
  have i: "i < blocks_per_group sb" using assms nblk_le [of sb g] by linarith
  show "first_data_block sb \<le> bnum sb g i" by (simp add: bnum_def)
  show "bnum sb g i < blocks_count sb" using assms unfolding bnum_def nblk_def by linarith
  have "bnum sb g i - first_data_block sb = i + g * blocks_per_group sb" by (simp add: bnum_def)
  then show "(bnum sb g i - first_data_block sb) div blocks_per_group sb = g"
    "(bnum sb g i - first_data_block sb) mod blocks_per_group sb = i"
    using i by simp_all
qed

lemma bnum_cases:
  assumes "geometry sb" "first_data_block sb \<le> b" "b < blocks_count sb"
  obtains g i where "b = bnum sb g i" "i < nblk sb g" "g \<in> real_groups sb"
    "g = (b - first_data_block sb) div blocks_per_group sb" "i = (b - first_data_block sb) mod blocks_per_group sb"
proof -
  let ?n = "blocks_per_group sb" and ?k = "b - first_data_block sb"
  have n: "0 < ?n" by (rule geometryD [OF assms(1)])
  have eq: "b = bnum sb (?k div ?n) (?k mod ?n)"
    using assms(2) div_mult_mod_eq [of ?k ?n] by (simp add: bnum_def)
  have "?k mod ?n < ?n" using n by simp
  then have i: "?k mod ?n < nblk sb (?k div ?n)"
    using assms(3) eq unfolding nblk_def bnum_def by linarith
  have "?k div ?n < (blocks_count sb + ?n - 1) div ?n"
  proof -
    have "?k \<le> blocks_count sb - 1" using assms(3) by simp
    then have "?k div ?n \<le> (blocks_count sb - 1) div ?n" by (rule div_le_mono)
    also have "\<dots> < Suc ((blocks_count sb - 1) div ?n)" by simp
    also have "\<dots> = (blocks_count sb - 1 + ?n) div ?n" using div_add_self2 [of ?n "blocks_count sb - 1"] n by linarith
    also have "blocks_count sb - 1 + ?n = blocks_count sb + ?n - 1" using assms(3) by simp
    finally show ?thesis .
  qed
  then have "?k div ?n \<in> real_groups sb"
    using i by (simp add: real_groups_def geometryD(11) [OF assms(1)])
  with eq i that show ?thesis by blast
qed

lemma group_block_ok:
  assumes "geometry sb" "i < nblk sb g"
  shows "group_block sb g i = Inr (bnum sb g i)"
proof -
  have "bnum sb g i < 2 ^ 32" using bnum_props(2) [OF assms(2)] geometryD(3) [OF assms(1)] by simp
  then show ?thesis by (simp add: group_block_def bnum_def)
qed

lemma blocks_in_group_ok:
  assumes "geometry sb" "g < num_groups sb"
  shows "blocks_in_group sb g = Inr (nblk sb g)"
proof -
  have "g * blocks_per_group sb \<le> blocks_count sb + blocks_per_group sb - 1"
    using assms(2) unfolding geometryD(11) [OF assms(1)] using geometryD(5) [OF assms(1)]
    by (metis Suc_leI Suc_le_lessD less_imp_le_nat div_mult_self_is_m less_eq_div_iff_mult_less_eq)
  moreover have "blocks_per_group sb \<le> 2 ^ 15" "first_data_block sb \<le> 1" "blocks_count sb < 2 ^ 31"
    using geometryD(1,3,6,9) [OF assms(1)] by auto
  ultimately have "first_data_block sb + g * blocks_per_group sb < 2 ^ 32" by simp
  then show ?thesis by (simp add: blocks_in_group_def nblk_def)
qed

lemma bnum_used:
  "i < nblk sb g \<Longrightarrow> bnum sb g i \<in> used sb d \<longleftrightarrow> bit_is_set (bmap sb d g) i"
  using bnum_props [of i sb g] by (simp add: used_def)

lemma used_bnum:
  assumes "geometry sb" "b < blocks_count sb" "first_data_block sb \<le> b"
    "\<And>g i. b = bnum sb g i \<Longrightarrow> i < nblk sb g \<Longrightarrow> g \<in> real_groups sb \<Longrightarrow> P b"
  shows "P b"
  using bnum_cases [OF assms(1,3,2)] assms(4) by blast

section \<open>What the allocation writes\<close>

text \<open>Bit \<open>i\<close> of group \<open>g\<close> is taken: the bitmap with that bit set, both counters, the block's zeros.\<close>

definition taken :: "Superblock \<Rightarrow> MemDisk \<Rightarrow> nat \<Rightarrow> nat \<Rightarrow> u8 list \<Rightarrow> MemDisk" where
  "taken sb d g i bm =
     (let d1 = set_blk sb d (block_bitmap (desc sb d g)) bm;
          d2 = set_blk sb d1 (gblk sb g) (adj16 (blk sb d1 (gblk sb g)) (goff sb g + 12) (- 1));
          d3 = set_blk sb d2 (first_data_block sb) (adj32 (blk sb d2 (first_data_block sb)) (sb_off sb + 12) (- 1))
      in set_blk sb d3 (bnum sb g i) (replicate (block_size sb) 0))"

lemma blk_taken:
  assumes "geometry sb" "length bm = block_size sb" "block_bitmap (desc sb d g) \<notin> fixed_blocks sb" "g < num_groups sb"
  shows "blk sb (taken sb d g i bm) c =
    (if c = bnum sb g i then replicate (block_size sb) 0
     else if c = first_data_block sb then adj32 (blk sb d c) (sb_off sb + 12) (- 1)
     else if c = gblk sb g then adj16 (blk sb d c) (goff sb g + 12) (- 1)
     else if c = block_bitmap (desc sb d g) then bm else blk sb d c)"
proof -
  have "first_data_block sb < gblk sb g" by (rule gblk_less [OF assms(1,4)])
  moreover have "gblk sb g \<noteq> block_bitmap (desc sb d g)" "first_data_block sb \<noteq> block_bitmap (desc sb d g)"
    using assms(3,4) unfolding fixed_blocks_def by (metis UnCI image_eqI lessThan_iff, force)
  moreover have "goff sb g + 12 + 2 \<le> block_size sb" using goff_le [OF assms(1), of g] by simp
  moreover have "sb_off sb + 12 + 4 \<le> block_size sb" using sb_window(1) [OF assms(1)] by simp
  ultimately show ?thesis
    using assms(2) by (simp add: taken_def Let_def blk_set_blk)
qed

lemma on_disk_taken [simp]: "on_disk sb (taken sb d g i bm) = on_disk sb d"
  by (simp add: taken_def Let_def)

lemma desc_in_adj16:
  assumes "off + 32 \<le> length bf" "0 < field 2 bf (off + 12)"
  shows "desc_in (adj16 bf (off + 12) (- 1)) off = (desc_in bf off)\<lparr>free_blocks := field 2 bf (off + 12) - 1\<rparr>"
proof -
  have "field 2 bf (off + 12) < 65536" using field_bound [of 2 bf "off + 12"] by simp
  then have "nat ((int (field 2 bf (off + 12)) + - 1) mod 2 ^ 16) = field 2 bf (off + 12) - 1"
    using assms(2) by (simp add: nat_eq_iff of_nat_diff)
  moreover have "field 2 bf (off + 12) - 1 < 256 ^ 2" using \<open>field 2 bf (off + 12) < 65536\<close> by simp
  ultimately show ?thesis
    using assms by (simp add: desc_in_def adj16_def field_put_same field_put_other)
qed

lemma desc_in_adj16_other:
  assumes "off + 32 \<le> length bf" "off' + 32 \<le> length bf" "off' + 32 \<le> off \<or> off + 32 \<le> off'"
  shows "desc_in (adj16 bf (off + 12) v) off' = desc_in bf off'"
  using assms by (auto simp: desc_in_def adj16_def field_put_other)

lemma goff_apart:
  assumes "geometry sb" "gblk sb g' = gblk sb g" "g' \<noteq> g"
  shows "goff sb g' + 32 \<le> goff sb g \<or> goff sb g + 32 \<le> goff sb g'"
proof -
  let ?k = "block_size sb div 32"
  have "g' div ?k = g div ?k" using assms(2) by (simp add: gblk_def)
  with assms(3) have "g' mod ?k \<noteq> g mod ?k" by (metis div_mult_mod_eq)
  then have "g' mod ?k < g mod ?k \<or> g mod ?k < g' mod ?k" by linarith
  then show ?thesis unfolding goff_def by linarith
qed

text \<open>
  A volume in which group \<open>g\<close> counts a free block and \<open>bm\<close> is its bitmap with the free bit \<open>i\<close> set.
\<close>

definition takes :: "Superblock \<Rightarrow> MemDisk \<Rightarrow> nat \<Rightarrow> nat \<Rightarrow> u8 list \<Rightarrow> bool" where
  "takes sb d g i bm \<longleftrightarrow>
     vol_ok sb d \<and> g < num_groups sb \<and> i < nblk sb g \<and> \<not> bit_is_set (bmap sb d g) i \<and>
     0 < free_blocks (desc sb d g) \<and> length bm = block_size sb \<and>
     (\<forall>j. bit_is_set bm j \<longleftrightarrow> j = i \<or> bit_is_set (bmap sb d g) j)"

lemma takesD:
  assumes "takes sb d g i bm"
  shows "vol_ok sb d" "g < num_groups sb" "i < nblk sb g" "\<not> bit_is_set (bmap sb d g) i"
    "0 < free_blocks (desc sb d g)" "length bm = block_size sb"
    "bit_is_set bm j \<longleftrightarrow> j = i \<or> bit_is_set (bmap sb d g) j"
    "geometry sb" "layout sb d" "g \<in> real_groups sb"
  using assms by (auto simp: takes_def vol_ok_def on_disk_def real_groups_def)

lemma layoutD:
  assumes "layout sb d"
  shows "meta sb d \<subseteq> {..<blocks_count sb}" "b \<in> meta sb d \<Longrightarrow> first_data_block sb \<le> b \<Longrightarrow> b \<in> used sb d"
    "inj_on (\<lambda>g. block_bitmap (desc sb d g)) (real_groups sb)"
    "block_bitmaps sb d \<inter> (fixed_blocks sb \<union> inode_bitmaps sb d \<union> inode_tables sb d) = {}"
    "inode_tables sb d \<inter> (fixed_blocks sb \<union> inode_bitmaps sb d) = {}"
    "1 \<le> ino \<Longrightarrow> ino \<le> inodes_count sb \<Longrightarrow> (ino - 1) div inodes_per_group sb \<in> real_groups sb"
proof -
  have l: "layout sb d" by (rule assms)
  show "b \<in> used sb d" if "b \<in> meta sb d" "first_data_block sb \<le> b"
  proof -
    have "b \<in> meta sb d - {..<first_data_block sb}" using that by auto
    then show ?thesis using l unfolding layout_def by blast
  qed
qed (use assms in \<open>auto simp: layout_def\<close>)

lemma bitmap_block:
  assumes "layout sb d" "g \<in> real_groups sb"
  shows "block_bitmap (desc sb d g) < blocks_count sb" "block_bitmap (desc sb d g) \<notin> fixed_blocks sb"
    "block_bitmap (desc sb d g) \<in> meta sb d"
proof -
  have b: "block_bitmap (desc sb d g) \<in> block_bitmaps sb d" using assms(2) by (simp add: block_bitmaps_def)
  then show m: "block_bitmap (desc sb d g) \<in> meta sb d" by (simp add: meta_def)
  show "block_bitmap (desc sb d g) < blocks_count sb" using m layoutD(1) [OF assms(1)] by auto
  show "block_bitmap (desc sb d g) \<notin> fixed_blocks sb" using b layoutD(4) [OF assms(1)] by auto
qed

lemma bnum_not_meta:
  assumes "layout sb d" "i < nblk sb g" "\<not> bit_is_set (bmap sb d g) i"
  shows "bnum sb g i \<notin> meta sb d"
  using assms layoutD(2) [OF assms(1), of "bnum sb g i"] bnum_used [OF assms(2), of d] bnum_props(1) [OF assms(2)]
  by blast

lemma taken_blk:
  assumes t: "takes sb d g i bm"
  shows "blk sb (taken sb d g i bm) c =
    (if c = bnum sb g i then replicate (block_size sb) 0
     else if c = first_data_block sb then adj32 (blk sb d c) (sb_off sb + 12) (- 1)
     else if c = gblk sb g then adj16 (blk sb d c) (goff sb g + 12) (- 1)
     else if c = block_bitmap (desc sb d g) then bm else blk sb d c)"
  by (rule blk_taken [OF takesD(8,6) [OF t] bitmap_block(2) [OF takesD(9,10) [OF t]] takesD(2) [OF t]])

lemma taken_fresh:
  assumes t: "takes sb d g i bm"
  shows "bnum sb g i \<notin> meta sb d" "bnum sb g i \<notin> used sb d"
  using bnum_not_meta [OF takesD(9,3,4) [OF t]] bnum_used [OF takesD(3) [OF t]] takesD(4) [OF t] by auto

lemma meta_memb:
  "g < num_groups sb \<Longrightarrow> gblk sb g \<in> meta sb d" "first_data_block sb \<in> meta sb d"
  by (auto simp: meta_def fixed_blocks_def)

lemma taken_desc:
  assumes t: "takes sb d g i bm" and g': "g' < num_groups sb"
  shows "desc sb (taken sb d g i bm) g' =
    (if g' = g then (desc sb d g)\<lparr>free_blocks := free_blocks (desc sb d g) - 1\<rparr> else desc sb d g')"
proof -
  note geo = takesD(8) [OF t]
  have ne: "gblk sb g' \<noteq> bnum sb g i" using meta_memb(1) [OF g', of d] taken_fresh(1) [OF t] by metis
  have nf: "gblk sb g' \<noteq> first_data_block sb" using gblk_less(2) [OF geo g'] by simp
  have nb: "gblk sb g' \<noteq> block_bitmap (desc sb d g)"
    using bitmap_block(2) [OF takesD(9,10) [OF t]] g' unfolding fixed_blocks_def by (metis UnCI image_eqI lessThan_iff)
  have off: "goff sb g + 32 \<le> length (blk sb d (gblk sb g))" "goff sb g' + 32 \<le> length (blk sb d (gblk sb g))"
    using goff_le [OF geo] by simp_all
  show ?thesis
  proof (cases "g' = g")
    case True
    have "field 2 (blk sb d (gblk sb g)) (goff sb g + 12) = free_blocks (desc sb d g)"
      by (simp add: desc_def desc_in_def)
    then show ?thesis
      using True ne nf desc_in_adj16 [OF off(1)] takesD(5) [OF t] by (simp add: desc_def taken_blk [OF t])
  next
    case False
    show ?thesis
    proof (cases "gblk sb g' = gblk sb g")
      case True
      then show ?thesis
        using False ne nf desc_in_adj16_other [OF off goff_apart [OF geo True False]]
        by (simp add: desc_def taken_blk [OF t])
    next
      case False
      then show ?thesis using \<open>g' \<noteq> g\<close> ne nf nb by (simp add: desc_def taken_blk [OF t])
    qed
  qed
qed

lemma taken_places:
  assumes t: "takes sb d g i bm" and g': "g' < num_groups sb"
  shows "block_bitmap (desc sb (taken sb d g i bm) g') = block_bitmap (desc sb d g')"
    "inode_bitmap (desc sb (taken sb d g i bm) g') = inode_bitmap (desc sb d g')"
    "inode_table (desc sb (taken sb d g i bm) g') = inode_table (desc sb d g')"
  using taken_desc [OF assms] by auto

lemma real_less: "g \<in> real_groups sb \<Longrightarrow> g < num_groups sb"
  by (simp add: real_groups_def)

lemma taken_meta:
  assumes t: "takes sb d g i bm"
  shows "block_bitmaps sb (taken sb d g i bm) = block_bitmaps sb d"
    "inode_bitmaps sb (taken sb d g i bm) = inode_bitmaps sb d"
    "inode_tables sb (taken sb d g i bm) = inode_tables sb d"
    "meta sb (taken sb d g i bm) = meta sb d"
proof -
  show "block_bitmaps sb (taken sb d g i bm) = block_bitmaps sb d"
    "inode_bitmaps sb (taken sb d g i bm) = inode_bitmaps sb d"
    "inode_tables sb (taken sb d g i bm) = inode_tables sb d"
    by (auto simp: block_bitmaps_def inode_bitmaps_def inode_tables_def taken_places [OF t real_less])
  then show "meta sb (taken sb d g i bm) = meta sb d" by (simp add: meta_def)
qed

lemma taken_bmap:
  assumes t: "takes sb d g i bm" and g': "g' \<in> real_groups sb"
  shows "bmap sb (taken sb d g i bm) g' = (if g' = g then bm else bmap sb d g')"
proof -
  note b = bitmap_block [OF takesD(9) [OF t] g']
  have "block_bitmap (desc sb d g') \<noteq> bnum sb g i" using b(3) taken_fresh(1) [OF t] by metis
  moreover have "block_bitmap (desc sb d g') \<noteq> first_data_block sb" "block_bitmap (desc sb d g') \<noteq> gblk sb g"
    using b(2) takesD(2) [OF t] by (auto simp: fixed_blocks_def)
  moreover have "block_bitmap (desc sb d g') = block_bitmap (desc sb d g) \<longleftrightarrow> g' = g"
    using layoutD(3) [OF takesD(9) [OF t]] g' takesD(10) [OF t] by (auto simp: inj_on_def)
  ultimately show ?thesis
    by (simp add: bmap_def taken_places [OF t real_less [OF g']] taken_blk [OF t])
qed

lemma taken_used:
  assumes t: "takes sb d g i bm"
  shows "used sb (taken sb d g i bm) = insert (bnum sb g i) (used sb d)"
proof (rule set_eqI)
  fix b
  show "b \<in> used sb (taken sb d g i bm) \<longleftrightarrow> b \<in> insert (bnum sb g i) (used sb d)"
  proof (cases "first_data_block sb \<le> b \<and> b < blocks_count sb")
    case True
    then obtain h j where b: "b = bnum sb h j" "j < nblk sb h" "h \<in> real_groups sb"
      using bnum_cases [OF takesD(8) [OF t]] by metis
    have "b = bnum sb g i \<longleftrightarrow> h = g \<and> j = i"
      using b bnum_props(3,4) [OF b(2)] bnum_props(3,4) [OF takesD(3) [OF t]] by metis
    then show ?thesis
      using b bnum_used [OF b(2)] taken_bmap [OF t b(3)] takesD(7) [OF t, of j] by auto
  next
    case False
    then have "b \<noteq> bnum sb g i" using bnum_props(1,2) [OF takesD(3) [OF t]] by blast
    with False show ?thesis by (auto simp: used_def)
  qed
qed

lemma taken_group_free:
  assumes t: "takes sb d g i bm" and h: "h < num_groups sb"
  shows "group_free sb (taken sb d g i bm) h = (if h = g then group_free sb d g - {i} else group_free sb d h)"
proof (cases "h \<in> real_groups sb")
  case True
  then show ?thesis using taken_bmap [OF t True] takesD(7) [OF t] by (auto simp: group_free_def)
next
  case False
  then have "nblk sb h = 0" "h \<noteq> g" using h takesD(10) [OF t] by (auto simp: real_groups_def)
  then show ?thesis by (simp add: group_free_def)
qed

lemma taken_sb_free:
  assumes t: "takes sb d g i bm" and pos: "0 < sb_free sb d"
  shows "sb_free sb (taken sb d g i bm) = sb_free sb d - 1"
proof -
  let ?b = "blk sb d (first_data_block sb)" and ?o = "sb_off sb + 12"
  have len: "?o + 4 \<le> length ?b" using sb_window(1) [OF takesD(8) [OF t]] by simp
  have "first_data_block sb \<noteq> bnum sb g i" using meta_memb(2) [of sb d] taken_fresh(1) [OF t] by metis
  then have "sb_free sb (taken sb d g i bm) = field 4 (adj32 ?b ?o (- 1)) ?o"
    by (simp add: sb_free_def taken_blk [OF t])
  also have "\<dots> = nat ((int (field 4 ?b ?o) + - 1) mod 2 ^ 32) mod 256 ^ 4"
    using len by (simp add: adj32_def field_put_same)
  also have "\<dots> = sb_free sb d - 1"
    using pos field_bound [of 4 ?b ?o] by (simp add: sb_free_def nat_eq_iff of_nat_diff)
  finally show ?thesis .
qed

lemma taken_counts:
  assumes t: "takes sb d g i bm"
  shows "counts_ok sb (taken sb d g i bm)"
proof -
  let ?d = "taken sb d g i bm"
  have g: "g < num_groups sb" by (rule takesD [OF t])
  have c: "free_blocks (desc sb d h) = card (group_free sb d h)" if "h < num_groups sb" for h
    using vol_okD(4) [OF takesD(1) [OF t]] that by (simp add: counts_ok_def)
  have s: "sb_free sb d = (\<Sum>h < num_groups sb. free_blocks (desc sb d h))"
    using vol_okD(4) [OF takesD(1) [OF t]] by (simp add: counts_ok_def)
  have i: "i \<in> group_free sb d g" "finite (group_free sb d g)"
    using takesD(3,4) [OF t] by (simp_all add: group_free_def)
  have fb: "free_blocks (desc sb ?d h) = card (group_free sb ?d h)" if h: "h < num_groups sb" for h
    using taken_desc [OF t h] taken_group_free [OF t h] c [OF h] i by auto
  let ?f = "\<lambda>h. free_blocks (desc sb d h)"
  have "(\<Sum>h < num_groups sb. free_blocks (desc sb ?d h)) = (\<Sum>h < num_groups sb. if h = g then ?f g - 1 else ?f h)"
    using taken_desc [OF t] by (intro sum.cong) auto
  also have "\<dots> = (?f g - 1) + (\<Sum>h \<in> {..<num_groups sb} - {g}. if h = g then ?f g - 1 else ?f h)"
    using g by (subst sum.remove [of _ g]) auto
  also have "(\<Sum>h \<in> {..<num_groups sb} - {g}. if h = g then ?f g - 1 else ?f h) = sum ?f ({..<num_groups sb} - {g})"
    by (intro sum.cong) auto
  also have "?f g - 1 + sum ?f ({..<num_groups sb} - {g}) = sb_free sb d - 1"
    using s sum.remove [of "{..<num_groups sb}" g ?f] g takesD(5) [OF t] by simp
  also have "\<dots> = sb_free sb ?d"
    using taken_sb_free [OF t] s sum.remove [of "{..<num_groups sb}" g ?f] g takesD(5) [OF t] by simp
  finally show ?thesis using fb by (simp add: counts_ok_def)
qed

lemma taken_vol_ok:
  assumes t: "takes sb d g i bm"
  shows "vol_ok sb (taken sb d g i bm)"
proof -
  note l = takesD(9) [OF t]
  have "layout sb (taken sb d g i bm)"
    using l taken_places [OF t real_less] unfolding layout_def taken_meta [OF t] taken_used [OF t]
    by (auto simp: inj_on_def)
  then show ?thesis
    using taken_counts [OF t] vol_okD(2) [OF takesD(1) [OF t]] by (simp add: vol_ok_def)
qed

section \<open>Allocation\<close>

text \<open>
  What \<open>alloc_block\<close> guarantees of the block \<open>b\<close> it returns: it was free and is now the one more used block, it
  is zeroed, and no block outside the superblock, the descriptors and the block bitmaps has changed.
\<close>

definition allocated :: "Superblock \<Rightarrow> MemDisk \<Rightarrow> nat \<Rightarrow> MemDisk \<Rightarrow> bool" where
  "allocated sb d b d' \<longleftrightarrow>
     vol_ok sb d' \<and> b \<notin> used sb d \<and> first_data_block sb \<le> b \<and> b < blocks_count sb \<and> b \<notin> meta sb d \<and>
     used sb d' = insert b (used sb d) \<and> meta sb d' = meta sb d \<and> blk sb d' b = replicate (block_size sb) 0 \<and>
     (\<forall>c. c \<noteq> b \<and> c \<notin> fixed_blocks sb \<union> block_bitmaps sb d \<longrightarrow> blk sb d' c = blk sb d c) \<and>
     inode_tables sb d' = inode_tables sb d \<and> sb_free sb d' = sb_free sb d - 1 \<and>
     (\<forall>g < num_groups sb. inode_table (desc sb d' g) = inode_table (desc sb d g))"

lemma takes_sb_free:
  assumes t: "takes sb d g i bm"
  shows "0 < sb_free sb d"
proof -
  have "0 < (\<Sum>h < num_groups sb. free_blocks (desc sb d h))"
    using takesD(2,5) [OF t] by (intro sum_pos2 [of _ g]) auto
  then show ?thesis using vol_okD(4) [OF takesD(1) [OF t]] by (simp add: counts_ok_def)
qed

lemma taken_allocated:
  assumes t: "takes sb d g i bm"
  shows "allocated sb d (bnum sb g i) (taken sb d g i bm)"
  unfolding allocated_def
proof (intro conjI allI impI)
  fix c
  assume c: "c \<noteq> bnum sb g i \<and> c \<notin> fixed_blocks sb \<union> block_bitmaps sb d"
  have "block_bitmap (desc sb d g) \<in> block_bitmaps sb d" "gblk sb g \<in> fixed_blocks sb" "first_data_block sb \<in> fixed_blocks sb"
    using takesD(2,10) [OF t] by (auto simp: block_bitmaps_def fixed_blocks_def)
  with c have "c \<noteq> block_bitmap (desc sb d g)" "c \<noteq> gblk sb g" "c \<noteq> first_data_block sb" by auto
  then show "blk sb (taken sb d g i bm) c = blk sb d c" using c by (simp add: taken_blk [OF t])
qed (use taken_fresh [OF t] taken_used [OF t] taken_meta [OF t] taken_vol_ok [OF t] bnum_props [OF takesD(3) [OF t]]
      taken_places(3) [OF t] taken_sb_free [OF t takes_sb_free [OF t]] in \<open>simp_all add: taken_blk [OF t]\<close>)

lemma alloc_block_in_ok:
  assumes v: "vol_ok sb d" and gs: "\<forall>g \<in> set gs. g < num_groups sb"
  shows "(alloc_block_in sb gs d = Inr (Inr None, d) \<and> (\<forall>g \<in> set gs. group_free sb d g = {})) \<or>
    (\<exists>b d'. alloc_block_in sb gs d = Inr (Inr (Some b), d') \<and> allocated sb d b d')"
  using gs
proof (induction gs)
  case Nil
  then show ?case by (simp add: retE_def)
next
  case (Cons g gs)
  note geo = vol_okD(1) [OF v] and od = vol_okD(2) [OF v] and l = vol_okD(3) [OF v]
  have g: "g < num_groups sb" using Cons.prems by simp
  have fin: "finite (group_free sb d g)" by (simp add: group_free_def)
  have cnt: "free_blocks (desc sb d g) = card (group_free sb d g)"
    using vol_okD(4) [OF v] g by (simp add: counts_ok_def)
  show ?case
  proof (cases "free_blocks (desc sb d g) = 0")
    case True
    then have "group_free sb d g = {}" using cnt fin by simp
    moreover have "alloc_block_in sb (g # gs) d = alloc_block_in sb gs d"
      using True od g by (simp add: bindE_def)
    ultimately show ?thesis using Cons by simp
  next
    case False
    then have "group_free sb d g \<noteq> {}" using cnt fin by auto
    then obtain k where k: "k < nblk sb g" "\<not> bit_is_set (bmap sb d g) k" by (auto simp: group_free_def)
    then have real: "g \<in> real_groups sb" using g by (auto simp: real_groups_def)
    note bb = bitmap_block [OF l real]
    have n: "nblk sb g \<le> 8 * length (bmap sb d g)"
      using nblk_le [of sb g] geometryD(6) [OF geo] by (simp add: bmap_def)
    from find_first_free_bit_ok [OF n] k
    obtain i where i: "i < nblk sb g" "find_first_free_bit (bmap sb d g) (nblk sb g) = Inr (Some i)"
      "\<not> bit_is_set (bmap sb d g) i" by blast
    have "i < 8 * length (bmap sb d g)" using i n by simp
    from set_bit_in_ok [OF this] obtain bm where
      bm: "set_bit_in (bmap sb d g) i = Inr bm" "length bm = length (bmap sb d g)"
      "\<And>j. bit_is_set bm j \<longleftrightarrow> j = i \<or> bit_is_set (bmap sb d g) j" by metis
    have len: "length bm = block_size sb" using bm(2) by (simp add: bmap_def)
    have t: "takes sb d g i bm" using v g i bm(3) len False by (simp add: takes_def)
    have f: "first_data_block sb < blocks_count sb" using gblk_less [OF geo g] by simp
    have "alloc_block_in sb (g # gs) d = Inr (Inr (Some (bnum sb g i)), taken sb d g i bm)"
      using od g False bb(1) i(1) i(2) [unfolded bmap_def] bm(1) [unfolded bmap_def] len
        bnum_props(2) [OF i(1)] f goff_le [OF geo, of g] sb_window(1) [OF geo]
      by (simp add: run_simps blocks_in_group_ok [OF geo g] group_block_ok [OF geo i(1)] adjust_sb_counts_ok [of sb] taken_def adj16_def adj32_def
          Let_def)
    then show ?thesis using taken_allocated [OF t] by blast
  qed
qed

lemma alloc_block_ok:
  assumes v: "vol_ok sb d"
  shows "(alloc_block sb d = Inr (Inr None, d) \<and> {first_data_block sb ..< blocks_count sb} \<subseteq> used sb d) \<or>
    (\<exists>b d'. alloc_block sb d = Inr (Inr (Some b), d') \<and> allocated sb d b d')"
proof -
  have "\<forall>g \<in> set [0 ..< num_groups sb]. g < num_groups sb" by simp
  from alloc_block_in_ok [OF v this] show ?thesis
  proof (elim disjE conjE)
    assume n: "alloc_block_in sb [0 ..< num_groups sb] d = Inr (Inr None, d)"
      and full: "\<forall>g \<in> set [0 ..< num_groups sb]. group_free sb d g = {}"
    have "b \<in> used sb d" if b: "first_data_block sb \<le> b" "b < blocks_count sb" for b
    proof -
      obtain g i where g: "b = bnum sb g i" "i < nblk sb g" "g \<in> real_groups sb"
        using bnum_cases [OF vol_okD(1) [OF v] b] by metis
      then have "group_free sb d g = {}" using full by (simp add: real_groups_def)
      then show ?thesis using g bnum_used [OF g(2)] by (auto simp: group_free_def)
    qed
    then show ?thesis using n by (auto simp: alloc_block_def)
  qed (auto simp: alloc_block_def)
qed

end
