(* ===== verification/Ext2_Tree.thy ===== *)
theory Ext2_Tree
  imports Ext2_Alloc
begin

text \<open>
  The block-pointer tree of a file. A node is a slot of the inode record and a path of indices below it; its
  value is the block it holds, 0 for a hole. \<open>tree_ok\<close> says that the nodes of a file are distinct used blocks
  outside the volume's metadata; looking an index up follows its path, and looking it up with allocation only
  attaches fresh zeroed blocks at the holes of that path.
\<close>

section \<open>Blocks outside the allocator's metadata\<close>

lemma set_blk_desc:
  assumes "g < num_groups sb" "c \<notin> fixed_blocks sb" "length bf = block_size sb"
  shows "desc sb (set_blk sb d c bf) g = desc sb d g"
proof -
  have "gblk sb g \<noteq> c" using assms(1,2) by (auto simp: fixed_blocks_def)
  then show ?thesis using assms(3) by (simp add: desc_def blk_set_blk)
qed

lemma set_blk_keeps:
  assumes v: "vol_ok sb d" and c: "c \<notin> fixed_blocks sb \<union> block_bitmaps sb d" and len: "length bf = block_size sb"
  shows "used sb (set_blk sb d c bf) = used sb d" "meta sb (set_blk sb d c bf) = meta sb d"
    "inode_tables sb (set_blk sb d c bf) = inode_tables sb d" "vol_ok sb (set_blk sb d c bf)"
proof -
  let ?d = "set_blk sb d c bf"
  have desc: "desc sb ?d g = desc sb d g" if "g < num_groups sb" for g
    using that c len by (simp add: set_blk_desc)
  have bm: "bmap sb ?d g = bmap sb d g" if "g \<in> real_groups sb" for g
  proof -
    have "block_bitmap (desc sb d g) \<noteq> c" using that c by (auto simp: block_bitmaps_def)
    then show ?thesis using that len by (simp add: bmap_def desc real_less blk_set_blk)
  qed
  show u: "used sb ?d = used sb d"
  proof (rule set_eqI)
    fix b
    show "b \<in> used sb ?d \<longleftrightarrow> b \<in> used sb d"
    proof (cases "first_data_block sb \<le> b \<and> b < blocks_count sb")
      case True
      then obtain g i where g: "b = bnum sb g i" "i < nblk sb g" "g \<in> real_groups sb"
        using bnum_cases [OF vol_okD(1) [OF v]] by metis
      then show ?thesis using bnum_used [OF g(2)] bm by simp
    next
      case False
      then show ?thesis by (auto simp: used_def)
    qed
  qed
  show it: "inode_tables sb ?d = inode_tables sb d"
    by (auto simp: inode_tables_def desc real_less)
  have bi: "block_bitmaps sb ?d = block_bitmaps sb d" "inode_bitmaps sb ?d = inode_bitmaps sb d"
    by (auto simp: block_bitmaps_def inode_bitmaps_def desc real_less)
  with it show m: "meta sb ?d = meta sb d" by (simp add: meta_def)
  have "layout sb ?d"
    using vol_okD(3) [OF v] unfolding layout_def m u it bi by (auto simp: inj_on_def desc real_less)
  moreover have "counts_ok sb ?d"
  proof -
    have "first_data_block sb \<noteq> c" using c by (auto simp: fixed_blocks_def)
    then have "sb_free sb ?d = sb_free sb d" using len by (simp add: sb_free_def blk_set_blk)
    moreover have "group_free sb ?d g = group_free sb d g" if "g < num_groups sb" for g
      using bm [of g] that by (cases "g \<in> real_groups sb") (auto simp: group_free_def real_groups_def)
    ultimately show ?thesis using vol_okD(4) [OF v] by (simp add: counts_ok_def desc)
  qed
  ultimately show "vol_ok sb ?d" using vol_okD(2) [OF v] by (simp add: vol_ok_def)
qed

lemma not_meta: "c \<notin> meta sb d \<Longrightarrow> c \<notin> fixed_blocks sb \<union> block_bitmaps sb d"
  by (auto simp: meta_def)

section \<open>Nodes\<close>

definition ppb :: "Superblock \<Rightarrow> nat" where
  "ppb sb = block_size sb div 4"

definition ptr :: "Superblock \<Rightarrow> MemDisk \<Rightarrow> nat \<Rightarrow> nat \<Rightarrow> nat" where
  "ptr sb d b i = field 4 (blk sb d b) (i * 4)"

definition slot :: "RawInode \<Rightarrow> nat \<Rightarrow> nat" where
  "slot raw s = field 4 (buf raw) (40 + s * 4)"

definition child :: "Superblock \<Rightarrow> MemDisk \<Rightarrow> nat \<Rightarrow> nat \<Rightarrow> nat" where
  "child sb d b i = (if b = 0 then 0 else ptr sb d b i)"

definition node :: "Superblock \<Rightarrow> RawInode \<Rightarrow> MemDisk \<Rightarrow> nat \<times> nat list \<Rightarrow> nat" where
  "node sb raw d x = foldl (child sb d) (slot raw (fst x)) (snd x)"

text \<open>Slots 0 to 11 are direct, slots 12, 13 and 14 have one, two and three levels below them.\<close>

definition height :: "nat \<Rightarrow> nat" where
  "height s = s - 11"

definition valid_node :: "Superblock \<Rightarrow> nat \<times> nat list \<Rightarrow> bool" where
  "valid_node sb x \<longleftrightarrow> fst x < 15 \<and> length (snd x) \<le> height (fst x) \<and> (\<forall>i \<in> set (snd x). i < ppb sb)"

definition leaf :: "nat \<times> nat list \<Rightarrow> bool" where
  "leaf x \<longleftrightarrow> length (snd x) = height (fst x)"

lemma node_Nil [simp]: "node sb raw d (s, []) = slot raw s"
  by (simp add: node_def)

lemma node_snoc [simp]: "node sb raw d (s, p @ [i]) = child sb d (node sb raw d (s, p)) i"
  by (simp add: node_def)

lemma valid_Nil [simp]: "valid_node sb (s, []) \<longleftrightarrow> s < 15"
  by (simp add: valid_node_def)

lemma valid_snoc [simp]:
  "valid_node sb (s, p @ [i]) \<longleftrightarrow> valid_node sb (s, p) \<and> length p < height s \<and> i < ppb sb"
  by (auto simp: valid_node_def)

definition tree :: "Superblock \<Rightarrow> RawInode \<Rightarrow> MemDisk \<Rightarrow> nat set" where
  "tree sb raw d = node sb raw d ` {x. valid_node sb x} - {0}"

definition tree_ok :: "Superblock \<Rightarrow> RawInode \<Rightarrow> MemDisk \<Rightarrow> bool" where
  "tree_ok sb raw d \<longleftrightarrow>
     length (buf raw) = inode_size sb \<and> tree sb raw d \<subseteq> used sb d - meta sb d \<and>
     (\<forall>x y. valid_node sb x \<and> valid_node sb y \<and> node sb raw d x = node sb raw d y \<and> node sb raw d x \<noteq> 0 \<longrightarrow> x = y)"

lemma tree_okD:
  assumes "tree_ok sb raw d"
  shows "length (buf raw) = inode_size sb"
    "valid_node sb x \<Longrightarrow> node sb raw d x \<noteq> 0 \<Longrightarrow> node sb raw d x \<in> used sb d"
    "valid_node sb x \<Longrightarrow> node sb raw d x \<noteq> 0 \<Longrightarrow> node sb raw d x \<notin> meta sb d"
    "valid_node sb x \<Longrightarrow> node sb raw d x \<noteq> 0 \<Longrightarrow> node sb raw d x < blocks_count sb"
    "valid_node sb x \<Longrightarrow> valid_node sb y \<Longrightarrow> node sb raw d x = node sb raw d y \<Longrightarrow> node sb raw d x \<noteq> 0 \<Longrightarrow> x = y"
proof -
  show 1: "node sb raw d x \<in> used sb d" "node sb raw d x \<notin> meta sb d" if "valid_node sb x" "node sb raw d x \<noteq> 0"
  proof -
    have "node sb raw d x \<in> tree sb raw d" using that by (simp add: tree_def)
    then show "node sb raw d x \<in> used sb d" "node sb raw d x \<notin> meta sb d" using assms by (auto simp: tree_ok_def)
  qed
  show "node sb raw d x < blocks_count sb" if "valid_node sb x" "node sb raw d x \<noteq> 0"
    using 1(1) [OF that] by (simp add: used_def)
  show "length (buf raw) = inode_size sb" using assms by (simp add: tree_ok_def)
  show "x = y" if "valid_node sb x" "valid_node sb y" "node sb raw d x = node sb raw d y" "node sb raw d x \<noteq> 0"
    using assms that unfolding tree_ok_def by blast
qed

text \<open>The node of a block index.\<close>

definition capacity :: "Superblock \<Rightarrow> nat" where
  "capacity sb = 12 + ppb sb + ppb sb * ppb sb + ppb sb * ppb sb * ppb sb"

definition path_of :: "Superblock \<Rightarrow> nat \<Rightarrow> nat \<times> nat list" where
  "path_of sb index =
     (let n = ppb sb; k = index - 12; k2 = k - n; k3 = k2 - n * n in
      if index < 12 then (index, []) else if k < n then (12, [k])
      else if k2 < n * n then (13, [k2 div n, k2 mod n])
      else (14, [k3 div (n * n), k3 mod (n * n) div n, k3 mod (n * n) mod n]))"

lemma ppb_geometry:
  assumes "geometry sb"
  shows "0 < ppb sb" "ppb sb * 4 = block_size sb" "ppb sb \<le> 1024" "ppb sb * ppb sb < 2 ^ 32"
    "ppb sb * ppb sb * ppb sb < 2 ^ 32" "0 < ppb sb * ppb sb"
  using geometryD(1) [OF assms] by (auto simp: ppb_def)

lemma path_of_valid:
  assumes g: "geometry sb" and i: "index < capacity sb"
  shows "valid_node sb (path_of sb index)" "leaf (path_of sb index)"
proof -
  let ?n = "ppb sb" and ?k3 = "index - 12 - ppb sb - ppb sb * ppb sb"
  have n: "0 < ?n" "0 < ?n * ?n" using ppb_geometry [OF g] by simp_all
  have "index - 12 - ?n < ?n * ?n \<Longrightarrow> (index - 12 - ?n) div ?n < ?n"
    using n by (simp add: div_less_iff_less_mult)
  moreover have "?k3 mod (?n * ?n) div ?n < ?n" using n by (simp add: div_less_iff_less_mult)
  moreover have "?k3 div (?n * ?n) < ?n"
  proof -
    have "0 < ?n * ?n * ?n" using n by simp
    then have "?k3 < ?n * ?n * ?n" using i unfolding capacity_def by linarith
    then have "?k3 < ?n * (?n * ?n)" by (simp add: mult.assoc)
    then show ?thesis using n(2) by (simp add: div_less_iff_less_mult)
  qed
  ultimately show "valid_node sb (path_of sb index)" "leaf (path_of sb index)"
    using n by (auto simp: path_of_def Let_def valid_node_def leaf_def height_def)
qed

lemma path_of_inj:
  assumes "path_of sb i = path_of sb j"
  shows "i = j"
proof -
  let ?n = "ppb sb"
  have eq: "a = b" if "a div ?n = b div ?n" "a mod ?n = b mod ?n" for a b
    using that by (metis div_mult_mod_eq)
  have eq3: "a = b" if "a div (?n * ?n) = b div (?n * ?n)" "a mod (?n * ?n) div ?n = b mod (?n * ?n) div ?n"
    "a mod (?n * ?n) mod ?n = b mod (?n * ?n) mod ?n" for a b
    using eq [OF that(2,3)] that(1) by (metis div_mult_mod_eq)
  show ?thesis
    using assms unfolding path_of_def Let_def
    by (auto split: if_splits dest!: eq eq3)
qed

end
