(* ===== verification/Ext2_Index.thy ===== *)
theory Ext2_Index
  imports Ext2_Tree
begin

text \<open>
  \<^verbatim>\<open>block_for_index\<close> reads the node of an index; \<^verbatim>\<open>block_for_index_alloc\<close> makes the tree
  grow (\<open>grew\<close>) until that node exists, or stops with \<^verbatim>\<open>NoSpace\<close> or \<^verbatim>\<open>TooLarge\<close>.
\<close>

lemma bindE_liftE [simp]: "bindE (liftE (Inr x)) f = f x"
  by (rule ext) (simp add: bindE_def liftE_def)

section \<open>Lookup\<close>

definition hole_or :: "nat \<Rightarrow> nat option" where
  "hole_or b = (if b = 0 then None else Some b)"

lemma i_block_ok: "length (buf raw) = inode_size sb \<Longrightarrow> geometry sb \<Longrightarrow> s < 15 \<Longrightarrow> i_block raw s = Inr (slot raw s)"
  using geometryD(13) [of sb] by (simp add: i_block_def slot_def)

lemma read_block_ptr_ok:
  assumes "on_disk sb d" "b < blocks_count sb" "i < ppb sb"
  shows "read_block_ptr sb b i d = Inr (Inr (hole_or (ptr sb d b i)), d)"
proof -
  have "geometry sb" using assms by (simp add: on_disk_def)
  then have "i * 4 + 4 \<le> block_size sb" "i * 4 < 2 ^ 32" using ppb_geometry [of sb] assms(3) by auto
  then show ?thesis using assms by (simp add: read_block_ptr_def run_simps ptr_def hole_or_def)
qed

lemma then_ptr_ok:
  assumes "on_disk sb d" "b = 0 \<or> b < blocks_count sb" "i < ppb sb"
  shows "then_ptr sb (hole_or b) i d = Inr (Inr (hole_or (child sb d b i)), d)"
  using assms read_block_ptr_ok [of sb d b i] by (auto simp: then_ptr_def hole_or_def child_def retE_def)

lemma slot_ptr_ok:
  assumes "on_disk sb d" "b = 0 \<or> b < blocks_count sb" "i < ppb sb"
  shows "(if b = 0 then retE None else read_block_ptr sb b i) d = Inr (Inr (hole_or (child sb d b i)), d)"
  using then_ptr_ok [OF assms] by (auto simp: then_ptr_def hole_or_def split: if_splits)

lemma node_in_range:
  "tree_ok sb raw d \<Longrightarrow> valid_node sb x \<Longrightarrow> node sb raw d x = 0 \<or> node sb raw d x < blocks_count sb"
  using tree_okD(4) by blast

lemma path_nodes:
  "node sb raw d (s, [i]) = child sb d (slot raw s) i"
  "node sb raw d (s, [i, j]) = child sb d (child sb d (slot raw s) i) j"
  "node sb raw d (s, [i, j, k]) = child sb d (child sb d (child sb d (slot raw s) i) j) k"
  by (simp_all add: node_def)

lemma block_for_index_ok:
  assumes v: "vol_ok sb d" and t: "tree_ok sb raw d"
  shows "block_for_index sb raw index d =
    Inr (Inr (if index < capacity sb then hole_or (node sb raw d (path_of sb index)) else None), d)"
proof -
  note geo = vol_okD(1) [OF v] and od = vol_okD(2) [OF v]
  note len = tree_okD(1) [OF t] and P = ppb_geometry [OF geo]
  note ib = i_block_ok [OF len geo]
  let ?n = "ppb sb" and ?k = "index - 12"
  let ?k2 = "index - 12 - ppb sb"
  let ?k3 = "index - 12 - ppb sb - ppb sb * ppb sb"
  have rng: "node sb raw d x = 0 \<or> node sb raw d x < blocks_count sb" if "valid_node sb x" for x
    using node_in_range [OF t that] .
  consider "index < 12" | "12 \<le> index" "?k < ?n" | "12 \<le> index" "?n \<le> ?k" "?k2 < ?n * ?n"
    | "12 \<le> index" "?n \<le> ?k" "?n * ?n \<le> ?k2" by linarith
  then show ?thesis
  proof cases
    case 1
    then show ?thesis
      using ib [of index] by (simp add: block_for_index_def run_simps path_of_def capacity_def hole_or_def)
  next
    case 2
    have cap: "index < capacity sb" using 2 unfolding capacity_def by linarith
    have "slot raw 12 = 0 \<or> slot raw 12 < blocks_count sb" using rng [of "(12, [])"] by simp
    from slot_ptr_ok [OF od this 2(2)] show ?thesis
      using 2 cap ib [of 12] by (simp add: block_for_index_def bindE_def liftE_def path_of_def
          path_nodes ppb_def [symmetric] Let_def)
  next
    case 3
    have cap: "index < capacity sb" using 3 unfolding capacity_def by linarith
    have lt: "?k2 div ?n < ?n" "?k2 mod ?n < ?n" using 3 P(1) by (simp_all add: div_less_iff_less_mult)
    have r1: "slot raw 13 = 0 \<or> slot raw 13 < blocks_count sb" using rng [of "(13, [])"] by simp
    have r2: "child sb d (slot raw 13) (?k2 div ?n) = 0 \<or> child sb d (slot raw 13) (?k2 div ?n) < blocks_count sb"
      using rng [of "(13, [?k2 div ?n])"] lt by (simp add: path_nodes valid_node_def height_def)
    have step: "(if slot raw 13 = 0 then retE None
        else bindE (read_block_ptr sb (slot raw 13) (?k2 div ?n)) (\<lambda>r. then_ptr sb r (?k2 mod ?n))) d =
      Inr (Inr (hole_or (child sb d (child sb d (slot raw 13) (?k2 div ?n)) (?k2 mod ?n))), d)"
      using then_ptr_ok [OF od r2 lt(2)] read_block_ptr_ok [OF od _ lt(1), of "slot raw 13"] r1
      by (auto simp: bindE_def child_def hole_or_def retE_def then_ptr_def)
    show ?thesis
      using 3 cap P(4) ib [of 13] step
      by (simp add: block_for_index_def path_of_def path_nodes ppb_def [symmetric] Let_def
          del: diff_diff_left split del: if_split)
  next
    case 4
    show ?thesis
    proof (cases "?k3 < ?n * ?n * ?n")
      case True
      have cap: "index < capacity sb" using 4 True unfolding capacity_def by linarith
      let ?m = "?k3 mod (?n * ?n)"
      have lt: "?k3 div (?n * ?n) < ?n" "?m div ?n < ?n" "?m mod ?n < ?n"
        using True P(1,6) by (simp_all add: div_less_iff_less_mult mult.assoc)
      let ?b1 = "child sb d (slot raw 14) (?k3 div (?n * ?n))"
      let ?b2 = "child sb d ?b1 (?m div ?n)"
      have r1: "slot raw 14 = 0 \<or> slot raw 14 < blocks_count sb" using rng [of "(14, [])"] by simp
      have r2: "?b1 = 0 \<or> ?b1 < blocks_count sb"
        using rng [of "(14, [?k3 div (?n * ?n)])"] lt by (simp add: path_nodes valid_node_def height_def)
      have r3: "?b2 = 0 \<or> ?b2 < blocks_count sb"
        using rng [of "(14, [?k3 div (?n * ?n), ?m div ?n])"] lt by (simp add: path_nodes valid_node_def height_def)
      have step: "(if slot raw 14 = 0 then retE None
          else bindE (read_block_ptr sb (slot raw 14) (?k3 div (?n * ?n))) (\<lambda>r.
               bindE (then_ptr sb r (?m div ?n)) (\<lambda>r. then_ptr sb r (?m mod ?n)))) d =
        Inr (Inr (hole_or (child sb d ?b2 (?m mod ?n))), d)"
      proof (cases "slot raw 14 = 0")
        case True
        then show ?thesis by (simp add: child_def hole_or_def retE_def)
      next
        case False
        then have "slot raw 14 < blocks_count sb" using r1 by simp
        then show ?thesis
          using False read_block_ptr_ok [OF od _ lt(1), of "slot raw 14"] then_ptr_ok [OF od r2 lt(2)]
            then_ptr_ok [OF od r3 lt(3)] by (simp add: bindE_def child_def)
      qed
      show ?thesis
        unfolding block_for_index_def Let_def ppb_def [symmetric] using 4 True cap P(4,5) ib [of 14] step
        by (simp add: path_of_def path_nodes ppb_def [symmetric] Let_def
          del: diff_diff_left split del: if_split)
    next
      case False
      have cap: "\<not> index < capacity sb" using 4 False unfolding capacity_def by linarith
      show ?thesis
        using 4 False cap P(4,5)
        by (simp add: block_for_index_def bindE_def liftE_def retE_def ppb_def [symmetric] Let_def)
    qed
  qed
qed

end
