(* ===== verification/Ext2_Grow.thy ===== *)
theory Ext2_Grow
  imports Ext2_Index
begin

text \<open>
  How the tree of a file grows: \<open>grew\<close> relates an inode record and a volume to a later pair in which holes may
  have been filled with fresh zeroed blocks and nothing else has changed, neither the data of the file nor any
  block that belongs to something else.
\<close>

section \<open>Growth\<close>

text \<open>The bytes behind a leaf: zeros for a hole.\<close>

definition leaf_data :: "Superblock \<Rightarrow> RawInode \<Rightarrow> MemDisk \<Rightarrow> nat \<times> nat list \<Rightarrow> u8 list" where
  "leaf_data sb raw d x =
     (if node sb raw d x = 0 then replicate (block_size sb) 0 else blk sb d (node sb raw d x))"

definition same_rest :: "RawInode \<Rightarrow> RawInode \<Rightarrow> bool" where
  "same_rest raw raw' \<longleftrightarrow>
     length (buf raw') = length (buf raw) \<and> (\<forall>k. k < 40 \<or> 100 \<le> k \<longrightarrow> buf raw' ! k = buf raw ! k)"

definition others :: "Superblock \<Rightarrow> RawInode \<Rightarrow> MemDisk \<Rightarrow> nat set" where
  "others sb raw d = used sb d - meta sb d - tree sb raw d"

definition same_places :: "Superblock \<Rightarrow> MemDisk \<Rightarrow> MemDisk \<Rightarrow> bool" where
  "same_places sb d d' \<longleftrightarrow>
     meta sb d' = meta sb d \<and> inode_tables sb d' = inode_tables sb d \<and>
     (\<forall>g < num_groups sb. inode_table (desc sb d' g) = inode_table (desc sb d g))"

definition grew :: "Superblock \<Rightarrow> RawInode \<Rightarrow> MemDisk \<Rightarrow> RawInode \<Rightarrow> MemDisk \<Rightarrow> bool" where
  "grew sb raw d raw' d' \<longleftrightarrow>
     vol_ok sb d' \<and> tree_ok sb raw' d' \<and> same_places sb d d' \<and> same_rest raw raw' \<and>
     used sb d \<subseteq> used sb d' \<and> tree sb raw' d' \<subseteq> tree sb raw d \<union> - used sb d \<and>
     (\<forall>x. valid_node sb x \<and> node sb raw d x \<noteq> 0 \<longrightarrow> node sb raw' d' x = node sb raw d x) \<and>
     (\<forall>x. valid_node sb x \<and> leaf x \<longrightarrow> leaf_data sb raw' d' x = leaf_data sb raw d x) \<and>
     (\<forall>c \<in> others sb raw d \<union> inode_tables sb d. blk sb d' c = blk sb d c)"

lemma grewD:
  assumes "grew sb raw d raw' d'"
  shows "vol_ok sb d'" "tree_ok sb raw' d'" "same_places sb d d'" "same_rest raw raw'" "used sb d \<subseteq> used sb d'"
    "tree sb raw' d' \<subseteq> tree sb raw d \<union> - used sb d"
    "valid_node sb x \<Longrightarrow> node sb raw d x \<noteq> 0 \<Longrightarrow> node sb raw' d' x = node sb raw d x"
    "valid_node sb x \<Longrightarrow> leaf x \<Longrightarrow> leaf_data sb raw' d' x = leaf_data sb raw d x"
    "c \<in> others sb raw d \<union> inode_tables sb d \<Longrightarrow> blk sb d' c = blk sb d c"
  using assms unfolding grew_def by blast+

lemma grew_refl: "vol_ok sb d \<Longrightarrow> tree_ok sb raw d \<Longrightarrow> grew sb raw d raw d"
  by (simp add: grew_def same_places_def same_rest_def)

lemma others_step:
  assumes "same_places sb d d'" "used sb d \<subseteq> used sb d'" "tree sb raw' d' \<subseteq> tree sb raw d \<union> - used sb d"
  shows "others sb raw d \<subseteq> others sb raw' d'"
  using assms by (auto simp: others_def same_places_def)

lemma grew_trans:
  assumes a: "grew sb raw d raw1 d1" and b: "grew sb raw1 d1 raw2 d2"
  shows "grew sb raw d raw2 d2"
  unfolding grew_def
proof (intro conjI allI impI ballI)
  show "vol_ok sb d2" "tree_ok sb raw2 d2" by (rule grewD [OF b])+
  show "same_places sb d d2" using grewD(3) [OF a] grewD(3) [OF b] by (simp add: same_places_def)
  show "same_rest raw raw2" using grewD(4) [OF a] grewD(4) [OF b] by (simp add: same_rest_def)
  show "used sb d \<subseteq> used sb d2" using grewD(5) [OF a] grewD(5) [OF b] by blast
  show "tree sb raw2 d2 \<subseteq> tree sb raw d \<union> - used sb d"
    using grewD(5,6) [OF a] grewD(6) [OF b] by blast
next
  fix x
  assume "valid_node sb x \<and> node sb raw d x \<noteq> 0"
  then show "node sb raw2 d2 x = node sb raw d x" using grewD(7) [OF a, of x] grewD(7) [OF b, of x] by simp
next
  fix x
  assume "valid_node sb x \<and> leaf x"
  then show "leaf_data sb raw2 d2 x = leaf_data sb raw d x"
    using grewD(8) [OF a, of x] grewD(8) [OF b, of x] by simp
next
  fix c
  assume c: "c \<in> others sb raw d \<union> inode_tables sb d"
  have "c \<in> others sb raw1 d1 \<union> inode_tables sb d1"
    using c others_step [OF grewD(3,5,6) [OF a]] grewD(3) [OF a] by (auto simp: same_places_def)
  then show "blk sb d2 c = blk sb d c" using grewD(9) [OF a c] grewD(9) [OF b] by simp
qed

section \<open>Attaching one block\<close>

lemma allocatedD:
  assumes "allocated sb d b d'"
  shows "vol_ok sb d'" "b \<notin> used sb d" "b < blocks_count sb" "b \<notin> meta sb d" "used sb d' = insert b (used sb d)"
    "same_places sb d d'" "blk sb d' b = replicate (block_size sb) 0"
    "c \<noteq> b \<Longrightarrow> c \<notin> fixed_blocks sb \<union> block_bitmaps sb d \<Longrightarrow> blk sb d' c = blk sb d c" "b \<noteq> 0"
proof -
  show "b \<noteq> 0"
  proof
    assume "b = 0"
    then have "b \<in> meta sb d" by (simp add: meta_def fixed_blocks_def)
    then show False using assms by (simp add: allocated_def)
  qed
qed (use assms in \<open>auto simp: allocated_def same_places_def\<close>)

lemma tables_not_written:
  assumes "layout sb d" "c \<in> inode_tables sb d"
  shows "c \<notin> fixed_blocks sb \<union> block_bitmaps sb d" "c \<in> meta sb d"
  using layoutD(4,5) [OF assms(1)] assms(2) by (auto simp: meta_def)

lemma attach_grew:
  assumes t: "tree_ok sb raw d" and al: "allocated sb d nb d1"
    and x0: "valid_node sb x0" "node sb raw d x0 = 0"
    and v': "vol_ok sb d'" "used sb d' = used sb d1" "same_places sb d1 d'"
    and raw': "same_rest raw raw'"
    and N: "\<And>x. valid_node sb x \<Longrightarrow> node sb raw' d' x = (if x = x0 then nb else node sb raw d x)"
    and Z: "blk sb d' nb = replicate (block_size sb) 0"
    and B: "\<And>c. c \<in> used sb d - meta sb d \<Longrightarrow> (\<And>x. valid_node sb x \<Longrightarrow> \<not> leaf x \<Longrightarrow> node sb raw d x \<noteq> c) \<Longrightarrow>
      blk sb d' c = blk sb d c"
    and T: "\<And>c. c \<in> inode_tables sb d \<Longrightarrow> blk sb d' c = blk sb d c"
  shows "grew sb raw d raw' d'"
proof -
  note A = allocatedD [OF al]
  have places: "same_places sb d d'" using A(6) v'(3) by (simp add: same_places_def)
  have tree': "tree sb raw' d' \<subseteq> insert nb (tree sb raw d)"
    using N by (auto simp: tree_def)
  have in_tree: "tree sb raw d \<subseteq> used sb d - meta sb d" using t by (simp add: tree_ok_def)
  have tok: "tree_ok sb raw' d'"
    unfolding tree_ok_def
  proof (intro conjI allI impI)
    show "length (buf raw') = inode_size sb" using raw' tree_okD(1) [OF t] by (simp add: same_rest_def)
    show "tree sb raw' d' \<subseteq> used sb d' - meta sb d'"
      using tree' in_tree A(4,5) v'(2) places by (auto simp: same_places_def)
    fix x y
    assume a: "valid_node sb x \<and> valid_node sb y \<and> node sb raw' d' x = node sb raw' d' y \<and> node sb raw' d' x \<noteq> 0"
    have "node sb raw d z \<noteq> nb" if "valid_node sb z" for z
      using tree_okD(2) [OF t that] A(2,9) by metis
    then show "x = y"
      using a N [of x] N [of y] tree_okD(5) [OF t, of x y] by (metis (no_types))
  qed
  have leaf': "leaf_data sb raw' d' x = leaf_data sb raw d x" if x: "valid_node sb x" "leaf x" for x
  proof (cases "x = x0 \<or> node sb raw d x = 0")
    case True
    then show ?thesis using N [OF x(1)] x0(2) Z by (auto simp: leaf_data_def)
  next
    case False
    have "node sb raw d x \<in> used sb d - meta sb d" using False tree_okD(2,3) [OF t x(1)] by simp
    moreover have "node sb raw d y \<noteq> node sb raw d x" if "valid_node sb y" "\<not> leaf y" for y
      using tree_okD(5) [OF t that(1) x(1)] that(2) x(2) False by metis
    ultimately have "blk sb d' (node sb raw d x) = blk sb d (node sb raw d x)" by (rule B)
    then show ?thesis using False N [OF x(1)] by (simp add: leaf_data_def)
  qed
  have "blk sb d' c = blk sb d c" if c: "c \<in> others sb raw d" for c
  proof (rule B)
    show "c \<in> used sb d - meta sb d" using c by (simp add: others_def)
    fix x
    assume "valid_node sb x" "\<not> leaf x"
    then show "node sb raw d x \<noteq> c"
      using c tree_okD(2) [OF t] A(9) by (metis DiffE others_def tree_def Diff_iff image_eqI mem_Collect_eq singletonD
          meta_memb(2) atMost_iff fixed_blocks_def meta_def UnCI zero_le)
  qed
  then show ?thesis
    unfolding grew_def using v'(1) tok places raw' A(2,5) v'(2) tree' leaf' T N x0(2) by auto
qed

lemma zero_ptr:
  assumes "blk sb d b = replicate (block_size sb) 0"
  shows "ptr sb d b i = 0"
proof -
  have "le_val (replicate n 0) = 0" for n by (induction n) simp_all
  then show ?thesis using assms by (simp add: ptr_def field_def)
qed

text \<open>A block of the tree is not touched by an allocation.\<close>

lemma alloc_keeps_node:
  assumes "tree_ok sb raw d" "allocated sb d nb d1" "valid_node sb x" "node sb raw d x \<noteq> 0"
  shows "blk sb d1 (node sb raw d x) = blk sb d (node sb raw d x)" "node sb raw d x \<noteq> nb"
proof -
  have u: "node sb raw d x \<in> used sb d" "node sb raw d x \<notin> meta sb d" using assms tree_okD(2,3) by metis+
  show "node sb raw d x \<noteq> nb" using u(1) allocatedD(2) [OF assms(2)] by metis
  then show "blk sb d1 (node sb raw d x) = blk sb d (node sb raw d x)"
    using allocatedD(8) [OF assms(2)] not_meta [OF u(2)] by metis
qed

lemma attach_slot:
  assumes v: "vol_ok sb d" and t: "tree_ok sb raw d" and al: "allocated sb d nb d1"
    and s: "s < 15" "slot raw s = 0"
    and raw': "same_rest raw raw'" "\<And>s'. s' < 15 \<Longrightarrow> slot raw' s' = (if s' = s then nb else slot raw s')"
  shows "grew sb raw d raw' d1"
proof -
  have N: "node sb raw' d1 (s', p) = (if (s', p) = (s, []) then nb else node sb raw d (s', p))"
    if "valid_node sb (s', p)" for s' p
    using that
  proof (induction p rule: rev_induct)
    case Nil
    then show ?case using raw'(2) by simp
  next
    case (snoc i p)
    then have IH: "node sb raw' d1 (s', p) = (if (s', p) = (s, []) then nb else node sb raw d (s', p))"
      and vp: "valid_node sb (s', p)" by simp_all
    show ?case
    proof (cases "(s', p) = (s, [])")
      case True
      then have "node sb raw' d1 (s', p) = nb" "node sb raw d (s', p) = 0" "p @ [i] \<noteq> []"
        using IH s(2) by simp_all
      then show ?thesis
        using zero_ptr [OF allocatedD(7) [OF al]] unfolding node_snoc child_def by simp
    next
      case False
      then have eq: "node sb raw' d1 (s', p) = node sb raw d (s', p)" "p @ [i] \<noteq> []" using IH by auto
      show ?thesis
        unfolding node_snoc child_def eq(1) using eq(2) alloc_keeps_node(1) [OF t al vp] by (simp add: ptr_def)
    qed
  qed
  show ?thesis
  proof (rule attach_grew [OF t al, where ?x0.0 = "(s, [])"])
    show "\<And>x. valid_node sb x \<Longrightarrow> node sb raw' d1 x = (if x = (s, []) then nb else node sb raw d x)"
      using N by (metis surj_pair)
    show "blk sb d1 c = blk sb d c" if "c \<in> used sb d - meta sb d" for c
      using that allocatedD(2,8) [OF al] not_meta [of c sb d] by (metis DiffE)
    show "blk sb d1 c = blk sb d c" if "c \<in> inode_tables sb d" for c
      using that tables_not_written [OF vol_okD(3) [OF v] that] allocatedD(4,8) [OF al] by metis
  qed (use s allocatedD [OF al] raw'(1) in \<open>auto simp: same_places_def\<close>)
qed

lemma attach_ptr:
  assumes v: "vol_ok sb d" and t: "tree_ok sb raw d" and al: "allocated sb d nb d1"
    and x: "valid_node sb (s, p @ [i])" "node sb raw d (s, p) = c" "c \<noteq> 0" "ptr sb d c i = 0"
  shows "grew sb raw d raw (set_blk sb d1 c (put_field 4 (blk sb d c) (i * 4) nb))"
    "node sb raw (set_blk sb d1 c (put_field 4 (blk sb d c) (i * 4) nb)) (s, p @ [i]) = nb"
proof -
  let ?bf = "put_field 4 (blk sb d c) (i * 4) nb"
  let ?d = "set_blk sb d1 c ?bf"
  note geo = vol_okD(1) [OF v] and P = ppb_geometry [OF vol_okD(1) [OF v]] and A = allocatedD [OF al]
  have vp: "valid_node sb (s, p)" and i: "i < ppb sb" and h: "length p < height s" using x(1) by simp_all
  have off: "j * 4 + 4 \<le> length (blk sb d c)" if "j < ppb sb" for j using that P(2) by simp
  have len: "length ?bf = block_size sb" using off [OF i] by simp
  note kp = alloc_keeps_node [OF t al vp, unfolded x(2), OF x(3)]
  have cu: "c \<in> used sb d" "c \<notin> meta sb d" using tree_okD(2,3) [OF t vp] x(2,3) by auto
  have cm: "c \<notin> meta sb d1" using cu(2) A(6) by (simp add: same_places_def)
  note K = set_blk_keeps [OF A(1) not_meta [OF cm] len]
  have B: "blk sb ?d b = (if b = c then ?bf else blk sb d1 b)" for b using len by (simp add: blk_set_blk)
  have nbs: "nb < 256 ^ 4" using A(3) geometryD(3) [OF geo] by simp
  have pc: "ptr sb ?d c j = (if j = i then nb else ptr sb d c j)" if j: "j < ppb sb" for j
  proof (cases "j = i")
    case True
    then show ?thesis using B [of c] off [OF i] nbs by (simp add: ptr_def field_put_same)
  next
    case False
    then have "j * 4 + 4 \<le> i * 4 \<or> i * 4 + 4 \<le> j * 4" by linarith
    then show ?thesis using False B [of c] field_put_other [OF off [OF i] _ off [OF j]] by (simp add: ptr_def)
  qed
  have N: "node sb raw ?d (s', q) = (if (s', q) = (s, p @ [i]) then nb else node sb raw d (s', q))"
    if "valid_node sb (s', q)" for s' q
    using that
  proof (induction q rule: rev_induct)
    case Nil
    then show ?case by simp
  next
    case (snoc j q)
    then have IH: "node sb raw ?d (s', q) = (if (s', q) = (s, p @ [i]) then nb else node sb raw d (s', q))"
      and vq: "valid_node sb (s', q)" and j: "j < ppb sb" by simp_all
    consider "(s', q) = (s, p @ [i])" | "(s', q) \<noteq> (s, p @ [i])" "node sb raw d (s', q) = 0"
      | "(s', q) = (s, p)" | "(s', q) \<noteq> (s, p @ [i])" "(s', q) \<noteq> (s, p)" "node sb raw d (s', q) \<noteq> 0" by blast
    then show ?case
    proof cases
      case 1
      have "node sb raw d (s, p @ [i]) = 0" using x(2,4) by (simp add: child_def)
      then have "node sb raw d (s', q) = 0" using 1 by (simp only: )
      moreover have "node sb raw ?d (s', q) = nb" using IH unfolding 1 by (simp only: if_True simp_thms)
      moreover have "ptr sb ?d nb j = 0" using zero_ptr [of sb ?d nb j] B [of nb] kp(2) A(7) by simp
      moreover have "(s', q @ [j]) \<noteq> (s, p @ [i])" using 1 by auto
      ultimately show ?thesis by (simp only: node_snoc child_def if_False if_True if_cancel simp_thms)
    next
      case 2
      have "(s', q @ [j]) \<noteq> (s, p @ [i])" using 2(2) x(2,3) by auto
      moreover have "node sb raw ?d (s', q) = 0" using IH 2 by (simp only: if_False)
      ultimately show ?thesis using 2(2) by (simp only: node_snoc child_def if_False if_True simp_thms)
    next
      case 3
      then have "(s', q) \<noteq> (s, p @ [i])" by simp
      then have "node sb raw ?d (s', q) = c" using IH 3 x(2) by (simp only: if_False)
      then show ?thesis using 3 x(2,3) pc [OF j] unfolding node_snoc child_def by simp
    next
      case 4
      have "node sb raw d (s', q) \<noteq> c" using tree_okD(5) [OF t vq vp] 4(2,3) x(2) by metis
      then have "blk sb ?d (node sb raw d (s', q)) = blk sb d (node sb raw d (s', q))"
        using B alloc_keeps_node(1) [OF t al vq 4(3)] by simp
      moreover have "(s', q @ [j]) \<noteq> (s, p @ [i])" using 4(2) by auto
      moreover have "node sb raw ?d (s', q) = node sb raw d (s', q)" using IH 4(1) by (simp only: if_False)
      ultimately show ?thesis by (simp only: node_snoc child_def ptr_def if_False)
    qed
  qed
  show "node sb raw ?d (s, p @ [i]) = nb" using N [OF x(1)] by simp
  show "grew sb raw d raw ?d"
  proof (rule attach_grew [OF t al, where ?x0.0 = "(s, p @ [i])"])
    show "\<And>x. valid_node sb x \<Longrightarrow> node sb raw ?d x = (if x = (s, p @ [i]) then nb else node sb raw d x)"
      using N by (metis surj_pair)
    show "node sb raw d (s, p @ [i]) = 0" using x(2,4) by (simp add: child_def)
    show "vol_ok sb ?d" "used sb ?d = used sb d1" by (rule K)+
    show "same_places sb d1 ?d"
      using K(2,3) set_blk_desc [OF _ _ len] not_meta [OF cm] by (simp add: same_places_def)
    show "blk sb ?d nb = replicate (block_size sb) 0" using B [of nb] kp(2) A(7) by simp
    show "blk sb ?d b = blk sb d b" if "b \<in> used sb d - meta sb d"
      "\<And>y. valid_node sb y \<Longrightarrow> \<not> leaf y \<Longrightarrow> node sb raw d y \<noteq> b" for b
    proof -
      have "\<not> leaf (s, p)" using h by (simp add: leaf_def)
      then have "b \<noteq> c" using that(2) [OF vp] x(2) by metis
      then show ?thesis using B [of b] that(1) A(2,8) not_meta [of b sb d] by (metis DiffE)
    qed
    show "blk sb ?d b = blk sb d b" if "b \<in> inode_tables sb d" for b
    proof -
      have "b \<noteq> c" using tables_not_written(2) [OF vol_okD(3) [OF v] that] cu(2) by metis
      then show ?thesis
        using B [of b] tables_not_written [OF vol_okD(3) [OF v] that] A(4,8) by metis
    qed
  qed (use x(1) in \<open>simp_all add: same_rest_def\<close>)
qed

section \<open>Lookup with allocation\<close>

text \<open>
  \<open>gives\<close>: from a well-formed file the computation makes the tree grow, and either there is no space left or
  it returns a value that satisfies \<open>P\<close>.
\<close>

definition gives ::
  "Superblock \<Rightarrow> (RawInode \<times> MemDisk, 'a) e2 \<Rightarrow> RawInode \<Rightarrow> MemDisk \<Rightarrow> ('a \<Rightarrow> RawInode \<Rightarrow> MemDisk \<Rightarrow> bool) \<Rightarrow> bool" where
  "gives sb m raw d P \<longleftrightarrow>
     (\<exists>r raw' d'. m (raw, d) = Inr (r, raw', d') \<and> grew sb raw d raw' d' \<and>
       (case r of Inl e \<Rightarrow> e = NoSpace | Inr x \<Rightarrow> P x raw' d'))"

lemma gives_bind:
  assumes m: "gives sb m raw d P"
    and f: "\<And>x raw' d'. grew sb raw d raw' d' \<Longrightarrow> P x raw' d' \<Longrightarrow> gives sb (f x) raw' d' Q"
  shows "gives sb (bindE m f) raw d Q"
proof -
  from m obtain r raw' d' where r: "m (raw, d) = Inr (r, raw', d')" "grew sb raw d raw' d'"
    "case r of Inl e \<Rightarrow> e = NoSpace | Inr x \<Rightarrow> P x raw' d'" unfolding gives_def by blast
  show ?thesis
  proof (cases r)
    case (Inl e)
    then show ?thesis using r by (auto simp: gives_def bindE_def)
  next
    case (Inr x)
    from f [OF r(2), of x] Inr r(3) obtain r2 raw2 d2 where
      "f x (raw', d') = Inr (r2, raw2, d2)" "grew sb raw' d' raw2 d2"
      "case r2 of Inl e \<Rightarrow> e = NoSpace | Inr x \<Rightarrow> Q x raw2 d2" unfolding gives_def by auto
    then show ?thesis
      using r Inr grew_trans [OF r(2)] by (auto simp: gives_def bindE_def)
  qed
qed

lemma alloc_or_nospace_ok:
  assumes v: "vol_ok sb d"
  shows "alloc_or_nospace sb d = Inr (Inl NoSpace, d) \<or>
    (\<exists>nb d'. alloc_or_nospace sb d = Inr (Inr nb, d') \<and> allocated sb d nb d')"
  using alloc_block_ok [OF v] by (auto simp: alloc_or_nospace_def run_simps)

definition holds_node :: "Superblock \<Rightarrow> nat \<times> nat list \<Rightarrow> nat \<Rightarrow> RawInode \<Rightarrow> MemDisk \<Rightarrow> bool" where
  "holds_node sb x b raw d \<longleftrightarrow> b \<noteq> 0 \<and> node sb raw d x = b"

lemma set_i_block_ok:
  assumes "length (buf raw) = inode_size sb" "geometry sb" "s < 15" "nb < 2 ^ 32"
  obtains raw' where "set_i_block raw s nb = Inr raw'" "same_rest raw raw'"
    "\<And>s'. s' < 15 \<Longrightarrow> slot raw' s' = (if s' = s then nb else slot raw s')"
proof -
  have len: "40 + s' * 4 + 4 \<le> length (buf raw)" if "s' < 15" for s'
    using assms(1) geometryD(13) [OF assms(2)] that by simp
  let ?raw = "raw\<lparr>buf := put_field 4 (buf raw) (40 + s * 4) nb\<rparr>"
  show ?thesis
  proof (rule that [of ?raw])
    show "set_i_block raw s nb = Inr ?raw"
      using len [OF assms(3)] by (simp add: set_i_block_def set_field_def)
    show "same_rest raw ?raw"
      unfolding same_rest_def
    proof (intro conjI allI impI)
      show "length (buf ?raw) = length (buf raw)" using len [OF assms(3)] by simp
      fix k :: nat
      assume k: "k < 40 \<or> 100 \<le> k"
      show "buf ?raw ! k = buf raw ! k"
      proof (cases "k < length (buf raw)")
        case True
        then show ?thesis using k len [OF assms(3)] assms(3) by (auto simp: nth_put_field)
      next
        case False
        then have "\<not> k - (40 + s * 4) < 4" using len [OF assms(3)] by linarith
        then have "put_field 4 (buf raw) (40 + s * 4) nb ! k = buf raw ! k"
          using False len [OF assms(3)] by (simp add: put_field_def nth_append)
        then show ?thesis by simp
      qed
    qed
    show "slot ?raw s' = (if s' = s then nb else slot raw s')" if s': "s' < 15" for s'
    proof (cases "s' = s")
      case True
      then show ?thesis using len [OF assms(3)] assms(4) by (simp add: slot_def field_put_same)
    next
      case False
      then have "40 + s' * 4 + 4 \<le> 40 + s * 4 \<or> 40 + s * 4 + 4 \<le> 40 + s' * 4" by linarith
      then show ?thesis
        using False field_put_other [OF len [OF assms(3)] _ len [OF s']] by (simp add: slot_def)
    qed
  qed
qed

lemma get_or_alloc_slot_ok:
  assumes v: "vol_ok sb d" and t: "tree_ok sb raw d" and s: "s < 15"
  shows "gives sb (get_or_alloc_slot sb s) raw d (holds_node sb (s, []))"
proof (cases "slot raw s = 0")
  case False
  then show ?thesis
    using i_block_ok [OF tree_okD(1) [OF t] vol_okD(1) [OF v] s] grew_refl [OF v t]
    by (simp add: gives_def get_or_alloc_slot_def run_simps holds_node_def)
next
  case True
  note ib = i_block_ok [OF tree_okD(1) [OF t] vol_okD(1) [OF v] s]
  from alloc_or_nospace_ok [OF v] show ?thesis
  proof (elim disjE exE conjE)
    assume "alloc_or_nospace sb d = Inr (Inl NoSpace, d)"
    then show ?thesis
      using True ib grew_refl [OF v t] by (simp add: gives_def get_or_alloc_slot_def run_simps)
  next
    fix nb d1
    assume e: "alloc_or_nospace sb d = Inr (Inr nb, d1)" and al: "allocated sb d nb d1"
    have "nb < 2 ^ 32" using allocatedD(3) [OF al] geometryD(3) [OF vol_okD(1) [OF v]] by simp
    from set_i_block_ok [OF tree_okD(1) [OF t] vol_okD(1) [OF v] s this]
    obtain raw' where raw': "set_i_block raw s nb = Inr raw'" "same_rest raw raw'"
      "\<And>s'. s' < 15 \<Longrightarrow> slot raw' s' = (if s' = s then nb else slot raw s')" by metis
    have "grew sb raw d raw' d1" by (rule attach_slot [OF v t al s True raw'(2,3)])
    then show ?thesis
      using True ib e raw'(1) raw'(3) [OF s] allocatedD(9) [OF al]
      by (simp add: gives_def get_or_alloc_slot_def run_simps holds_node_def)
  qed
qed

lemma get_or_alloc_ptr_ok:
  assumes v: "vol_ok sb d" and t: "tree_ok sb raw d" and x: "valid_node sb (s, p @ [i])"
    and c: "holds_node sb (s, p) c raw d"
  shows "gives sb (onDev (get_or_alloc_ptr sb c i)) raw d (holds_node sb (s, p @ [i]))"
proof -
  note geo = vol_okD(1) [OF v] and od = vol_okD(2) [OF v]
  have vp: "valid_node sb (s, p)" and i: "i < ppb sb" using x by simp_all
  have c0: "c \<noteq> 0" "node sb raw d (s, p) = c" using c by (simp_all add: holds_node_def)
  have cb: "c < blocks_count sb" using tree_okD(4) [OF t vp] c0 by simp
  have off: "i * 4 + 4 \<le> block_size sb" "i * 4 < 2 ^ 32" using i ppb_geometry(2,3) [OF geo] by auto
  have nd: "node sb raw d (s, p @ [i]) = ptr sb d c i" using c0 by (simp add: child_def)
  show ?thesis
  proof (cases "ptr sb d c i = 0")
    case False
    then show ?thesis
      using od cb off grew_refl [OF v t] nd
      by (simp add: gives_def get_or_alloc_ptr_def run_simps holds_node_def ptr_def)
  next
    case True
    from alloc_or_nospace_ok [OF v] show ?thesis
    proof (elim disjE exE conjE)
      assume "alloc_or_nospace sb d = Inr (Inl NoSpace, d)"
      then show ?thesis
        using True od cb off grew_refl [OF v t]
        by (simp add: gives_def get_or_alloc_ptr_def run_simps ptr_def)
    next
      fix nb d1
      assume e: "alloc_or_nospace sb d = Inr (Inr nb, d1)" and al: "allocated sb d nb d1"
      note g = attach_ptr [OF v t al x c0(2,1) True]
      show ?thesis
        using True od cb off e g allocatedD(9) [OF al] vol_okD(2) [OF allocatedD(1) [OF al]]
        by (simp add: gives_def get_or_alloc_ptr_def run_simps ptr_def holds_node_def del: node_snoc)
    qed
  qed
qed

lemma valid_prefix: "valid_node sb (s, p @ q) \<Longrightarrow> valid_node sb (s, p)"
  by (auto simp: valid_node_def)

lemma down_ok:
  assumes "grew sb raw0 d0 raw d" "holds_node sb (s, p) b raw d" "valid_node sb (s, p @ [i])"
  shows "gives sb (onDev (get_or_alloc_ptr sb b i)) raw d (holds_node sb (s, p @ [i]))"
  using get_or_alloc_ptr_ok [OF grewD(1,2) [OF assms(1)] assms(3,2)] .

lemma level1_ok:
  assumes v: "vol_ok sb d" and t: "tree_ok sb raw d" and x: "valid_node sb (s, [i])"
  shows "gives sb (bindE (get_or_alloc_slot sb s) (\<lambda>b. onDev (get_or_alloc_ptr sb b i))) raw d
    (holds_node sb (s, [i]))"
proof (rule gives_bind)
  show "gives sb (get_or_alloc_slot sb s) raw d (holds_node sb (s, []))"
    using x by (intro get_or_alloc_slot_ok [OF v t]) (simp add: valid_node_def)
  fix b raw' d'
  assume "grew sb raw d raw' d'" "holds_node sb (s, []) b raw' d'"
  from down_ok [OF this] x show "gives sb (onDev (get_or_alloc_ptr sb b i)) raw' d' (holds_node sb (s, [i]))" by simp
qed

lemma bindE_assoc: "bindE (bindE m f) g = bindE m (\<lambda>x. bindE (f x) g)"
  by (rule ext) (auto simp: bindE_def bindR_def split: sum.splits prod.splits)

lemma level2_ok:
  assumes v: "vol_ok sb d" and t: "tree_ok sb raw d" and x: "valid_node sb (s, [i, j])"
  shows "gives sb (bindE (get_or_alloc_slot sb s) (\<lambda>b. bindE (onDev (get_or_alloc_ptr sb b i)) (\<lambda>b.
    onDev (get_or_alloc_ptr sb b j)))) raw d (holds_node sb (s, [i, j]))"
  unfolding bindE_assoc [symmetric]
proof (rule gives_bind [OF level1_ok [OF v t]])
  show "valid_node sb (s, [i])" using x by (auto simp: valid_node_def)
  fix b raw' d'
  assume "grew sb raw d raw' d'" "holds_node sb (s, [i]) b raw' d'"
  from down_ok [OF this] x show "gives sb (onDev (get_or_alloc_ptr sb b j)) raw' d' (holds_node sb (s, [i, j]))" by simp
qed

lemma level3_ok:
  assumes v: "vol_ok sb d" and t: "tree_ok sb raw d" and x: "valid_node sb (s, [i, j, k])"
  shows "gives sb (bindE (get_or_alloc_slot sb s) (\<lambda>b. bindE (onDev (get_or_alloc_ptr sb b i)) (\<lambda>b.
    bindE (onDev (get_or_alloc_ptr sb b j)) (\<lambda>b. onDev (get_or_alloc_ptr sb b k))))) raw d (holds_node sb (s, [i, j, k]))"
proof -
  have "gives sb (bindE (bindE (get_or_alloc_slot sb s) (\<lambda>b. bindE (onDev (get_or_alloc_ptr sb b i)) (\<lambda>b.
      onDev (get_or_alloc_ptr sb b j)))) (\<lambda>b. onDev (get_or_alloc_ptr sb b k))) raw d (holds_node sb (s, [i, j, k]))"
  proof (rule gives_bind [OF level2_ok [OF v t]])
    show "valid_node sb (s, [i, j])" using x by (auto simp: valid_node_def)
    fix b raw' d'
    assume "grew sb raw d raw' d'" "holds_node sb (s, [i, j]) b raw' d'"
    from down_ok [OF this] x
    show "gives sb (onDev (get_or_alloc_ptr sb b k)) raw' d' (holds_node sb (s, [i, j, k]))" by simp
  qed
  then show ?thesis by (simp only: bindE_assoc)
qed

lemma block_for_index_alloc_ok:
  assumes v: "vol_ok sb d" and t: "tree_ok sb raw d" and cap: "index < capacity sb"
  shows "gives sb (block_for_index_alloc sb index) raw d (holds_node sb (path_of sb index))"
proof -
  note geo = vol_okD(1) [OF v] and P = ppb_geometry [OF vol_okD(1) [OF v]]
  have valid: "valid_node sb (path_of sb index)" by (rule path_of_valid [OF geo cap])
  let ?n = "ppb sb" and ?k = "index - 12"
  let ?k2 = "index - 12 - ppb sb"
  let ?k3 = "index - 12 - ppb sb - ppb sb * ppb sb"
  consider "index < 12" | "12 \<le> index" "?k < ?n" | "12 \<le> index" "?n \<le> ?k" "?k2 < ?n * ?n"
    | "12 \<le> index" "?n \<le> ?k" "?n * ?n \<le> ?k2" by linarith
  then show ?thesis
  proof cases
    case 1
    then show ?thesis
      using get_or_alloc_slot_ok [OF v t, of index] by (simp add: block_for_index_alloc_def path_of_def)
  next
    case 2
    then have p: "path_of sb index = (12, [?k])" by (simp add: path_of_def Let_def)
    show ?thesis
      unfolding p block_for_index_alloc_def Let_def ppb_def [symmetric]
      using 2 level1_ok [OF v t valid [unfolded p]] by simp
  next
    case 3
    then have p: "path_of sb index = (13, [?k2 div ?n, ?k2 mod ?n])" by (simp add: path_of_def Let_def)
    show ?thesis
      unfolding p block_for_index_alloc_def Let_def ppb_def [symmetric]
      using 3 P(4) level2_ok [OF v t valid [unfolded p]] by (simp del: diff_diff_left)
  next
    case 4
    let ?m = "?k3 mod (?n * ?n)"
    from 4 have p: "path_of sb index = (14, [?k3 div (?n * ?n), ?m div ?n, ?m mod ?n])"
      by (simp add: path_of_def Let_def)
    have "0 < ?n * ?n * ?n" using P(1) by simp
    then have "?k3 < ?n * ?n * ?n" using cap unfolding capacity_def by linarith
    then show ?thesis
      unfolding p block_for_index_alloc_def Let_def ppb_def [symmetric]
      using 4 P(4,5) level3_ok [OF v t valid [unfolded p]] by (simp del: diff_diff_left)
  qed
qed

lemma block_for_index_alloc_too_large:
  assumes g: "geometry sb" and cap: "capacity sb \<le> index"
  shows "block_for_index_alloc sb index s = Inr (Inl TooLarge, s)"
proof -
  note P = ppb_geometry [OF g]
  have i: "12 \<le> index" "ppb sb \<le> index - 12" "ppb sb * ppb sb \<le> index - 12 - ppb sb"
    "ppb sb * ppb sb * ppb sb \<le> index - 12 - ppb sb - ppb sb * ppb sb"
    using cap unfolding capacity_def by linarith+
  show ?thesis
    unfolding block_for_index_alloc_def Let_def ppb_def [symmetric]
    using i P(4,5) by (simp add: errE_def del: diff_diff_left)
qed

end
