(* ===== verification/Ext2_File.thy ===== *)
theory Ext2_File
  imports Ext2_Grow
begin

text \<open>
  The bytes of a file (\<open>file_bytes\<close>, zeros in the holes): reading a range returns them, writing a range
  overwrites them there, and a write that succeeds leaves the inode record on the volume.
\<close>

section \<open>Contents\<close>

definition file_bytes :: "Superblock \<Rightarrow> RawInode \<Rightarrow> MemDisk \<Rightarrow> bytes" where
  "file_bytes sb raw d pos =
     (if pos div block_size sb < capacity sb
      then leaf_data sb raw d (path_of sb (pos div block_size sb)) ! (pos mod block_size sb) else 0)"

lemma length_leaf_data [simp]: "length (leaf_data sb raw d x) = block_size sb"
  by (simp add: leaf_data_def)

lemma same_block:
  assumes "pos mod bs + k < (bs :: nat)"
  shows "(pos + k) div bs = pos div bs" "(pos + k) mod bs = pos mod bs + k"
proof -
  have aux: "(r + bs * q) div bs = q" "(r + bs * q) mod bs = r" if "r < bs" for r q
    using that by simp_all
  have eq: "pos mod bs + k + bs * (pos div bs) = pos + k" by simp
  show "(pos + k) div bs = pos div bs" "(pos + k) mod bs = pos mod bs + k"
    using aux [OF assms, of "pos div bs"] unfolding eq by simp_all
qed

lemma peek_file_block:
  assumes "0 < block_size sb" "pos mod block_size sb + n \<le> block_size sb" "pos div block_size sb < capacity sb"
  shows "peek (file_bytes sb raw d) pos n =
    take n (drop (pos mod block_size sb) (leaf_data sb raw d (path_of sb (pos div block_size sb))))"
  by (rule nth_equalityI) (use assms in \<open>auto simp: peek_def file_bytes_def same_block\<close>)

lemma peek_file_beyond:
  assumes "pos mod block_size sb + n \<le> block_size sb" "capacity sb \<le> pos div block_size sb"
  shows "peek (file_bytes sb raw d) pos n = replicate n 0"
  by (rule nth_equalityI) (use assms in \<open>auto simp: peek_def file_bytes_def same_block\<close>)

lemma index_in_range:
  assumes "pos < 2 ^ 32 * (bs :: nat)" "0 < bs"
  shows "pos div bs mod 2 ^ 32 = pos div bs"
  using assms by (simp add: div_less_iff_less_mult)

lemma splice_ok: "a + length bs \<le> length b \<Longrightarrow> splice_at b a bs = Inr (take a b @ bs @ drop (a + length bs) b)"
  by (simp add: splice_at_def)

lemma bindE_onDev: "m d = Inr (Inr x, d') \<Longrightarrow> bindE (onDev m) f (c, d) = f x (c, d')"
  by (simp add: bindE_def onDev_def)

lemma bindE_getE: "bindE getE f (c, d) = f c (c, d)"
  by (simp add: bindE_def getE_def)

text \<open>One round of the read loop puts the next bytes of the file into the buffer.\<close>

lemma read_range_loop_ok:
  assumes v: "vol_ok sb d" and t: "tree_ok sb raw d" and rng: "offset + len \<le> 2 ^ 32 * block_size sb"
  shows "length bf = len \<Longrightarrow> done \<le> len \<Longrightarrow>
    read_range_loop sb raw offset len done (bf, d) =
      Inr (Inr (), take done bf @ peek (file_bytes sb raw d) (offset + done) (len - done), d)"
proof (induction "len - done" arbitrary: "done" bf rule: less_induct)
  case less
  note geo = vol_okD(1) [OF v] and od = vol_okD(2) [OF v]
  have bs: "0 < block_size sb" "block_size sb \<le> 4096" using geometryD(1) [OF geo] by auto
  show ?case
  proof (cases "len \<le> done")
    case True
    then show ?thesis
      unfolding read_range_loop.simps [of sb raw offset len "done"] using less.prems by (simp add: retE_def peek_def)
  next
    case False
    let ?pos = "offset + done"
    let ?n = "chunk sb ?pos len done" and ?off = "?pos mod block_size sb" and ?x = "path_of sb (?pos div block_size sb)"
    have n: "0 < ?n" "?off + ?n \<le> block_size sb" "done + ?n \<le> len"
      using chunk_pos [OF bs(1), of "done" len ?pos] False mod_less_divisor [OF bs(1), of ?pos]
      unfolding chunk_def by linarith+
    have pos: "?pos < 2 ^ 32 * block_size sb" using rng False by linarith
    also have "\<dots> \<le> 2 ^ 32 * 4096" using bs(2) by simp
    finally have p64: "?pos < 2 ^ 64" by simp
    have b0: "(block_size sb = 0) = False" using bs(1) by simp
    let ?piece = "peek (file_bytes sb raw d) ?pos ?n"
    let ?bf = "take done bf @ ?piece @ drop (done + ?n) bf"
    have piece: "bindE (case (if ?pos div block_size sb < capacity sb then hole_or (node sb raw d ?x) else None) of
          Some b \<Rightarrow>
            bindE (onDev (block_vec sb b)) (\<lambda>block_buf.
            bindE (liftE (slice_of block_buf ?off ?n)) (\<lambda>bs.
            bindE (liftE (splice_at bf done bs)) putE))
        | None \<Rightarrow> bindE (liftE (splice_at bf done (replicate ?n 0))) putE) f (bf, d) = f () (?bf, d)"
      for f :: "unit \<Rightarrow> (u8 list \<times> MemDisk, unit) e2"
    proof (cases "?pos div block_size sb < capacity sb \<and> node sb raw d ?x \<noteq> 0")
      case True
      then have b: "node sb raw d ?x < blocks_count sb"
        using tree_okD(4) [OF t path_of_valid(1) [OF geo]] by simp
      have "?piece = take ?n (drop ?off (blk sb d (node sb raw d ?x)))"
        using peek_file_block [OF bs(1) n(2)] True by (simp add: leaf_data_def)
      then show ?thesis
        using True b od n less.prems(1) by (simp add: run_simps hole_or_def slice_of_def splice_at_def)
    next
      case False
      then have "?piece = replicate ?n 0"
      proof (cases "?pos div block_size sb < capacity sb")
        case True
        moreover have "min ?n (block_size sb - ?off) = ?n" using n(2) by linarith
        ultimately show ?thesis using peek_file_block [OF bs(1) n(2) True, of raw d] False by (simp add: leaf_data_def)
      next
        case False
        then show ?thesis using peek_file_beyond [OF n(2)] by simp
      qed
      then show ?thesis
        using False n less.prems(1) by (auto simp: run_simps hole_or_def splice_at_def)
    qed
    have "read_range_loop sb raw offset len done (bf, d) = read_range_loop sb raw offset len (done + ?n) (?bf, d)"
      unfolding read_range_loop.simps [of sb raw offset len "done"] Let_def using False bs(1)
      by (simp only: add64_ok [OF p64] bindE_liftE index_in_range [OF pos bs(1)] bindE_getE piece if_False b0
          bindE_onDev [where m = "block_for_index sb raw (?pos div block_size sb)",
            OF block_for_index_ok [OF v t]])
    also have "\<dots> = Inr (Inr (), take (done + ?n) ?bf @ peek (file_bytes sb raw d) (offset + (done + ?n)) (len - (done + ?n)), d)"
      using n less.prems(1) by (intro less.hyps) auto
    also have "take (done + ?n) ?bf = take done bf @ ?piece" using n less.prems(1) by simp
    also have "(take done bf @ ?piece) @ peek (file_bytes sb raw d) (offset + (done + ?n)) (len - (done + ?n)) =
        take done bf @ peek (file_bytes sb raw d) ?pos (len - done)"
      using peek_append [of "file_bytes sb raw d" ?pos ?n "len - (done + ?n)", symmetric] n(3) by (simp add: add.assoc)
    finally show ?thesis .
  qed
qed

lemma read_file_range_ok:
  assumes "vol_ok sb d" "tree_ok sb raw d" "offset + length bf \<le> 2 ^ 32 * block_size sb"
  shows "read_file_range sb raw offset (bf, d) = Inr (Inr (), peek (file_bytes sb raw d) offset (length bf), d)"
  using read_range_loop_ok [OF assms(1,2,3) refl, of 0] by (simp add: read_file_range_def run_simps)

section \<open>Writing data\<close>

text \<open>What every step of a write keeps, whatever it does to the file's own data.\<close>

definition kept :: "Superblock \<Rightarrow> RawInode \<Rightarrow> MemDisk \<Rightarrow> RawInode \<Rightarrow> MemDisk \<Rightarrow> bool" where
  "kept sb raw d raw' d' \<longleftrightarrow>
     vol_ok sb d' \<and> tree_ok sb raw' d' \<and> same_places sb d d' \<and> same_rest raw raw' \<and>
     used sb d \<subseteq> used sb d' \<and> tree sb raw' d' \<subseteq> tree sb raw d \<union> - used sb d \<and>
     (\<forall>c \<in> others sb raw d \<union> inode_tables sb d. blk sb d' c = blk sb d c)"

lemma keptD:
  assumes "kept sb raw d raw' d'"
  shows "vol_ok sb d'" "tree_ok sb raw' d'" "same_places sb d d'" "same_rest raw raw'" "used sb d \<subseteq> used sb d'"
    "tree sb raw' d' \<subseteq> tree sb raw d \<union> - used sb d"
    "c \<in> others sb raw d \<union> inode_tables sb d \<Longrightarrow> blk sb d' c = blk sb d c"
  using assms unfolding kept_def by blast+

lemma kept_trans:
  assumes a: "kept sb raw d raw1 d1" and b: "kept sb raw1 d1 raw2 d2"
  shows "kept sb raw d raw2 d2"
  unfolding kept_def
proof (intro conjI ballI)
  show "vol_ok sb d2" "tree_ok sb raw2 d2" by (rule keptD [OF b])+
  show "same_places sb d d2" using keptD(3) [OF a] keptD(3) [OF b] by (simp add: same_places_def)
  show "same_rest raw raw2" using keptD(4) [OF a] keptD(4) [OF b] by (simp add: same_rest_def)
  show "used sb d \<subseteq> used sb d2" using keptD(5) [OF a] keptD(5) [OF b] by blast
  show "tree sb raw2 d2 \<subseteq> tree sb raw d \<union> - used sb d"
    using keptD(5,6) [OF a] keptD(6) [OF b] by blast
  fix c
  assume c: "c \<in> others sb raw d \<union> inode_tables sb d"
  have "c \<in> others sb raw1 d1 \<union> inode_tables sb d1"
    using c others_step [OF keptD(3,5,6) [OF a]] keptD(3) [OF a] by (auto simp: same_places_def)
  then show "blk sb d2 c = blk sb d c" using keptD(7) [OF a c] keptD(7) [OF b] by simp
qed

lemma grew_kept:
  assumes g: "grew sb raw d raw' d'"
  shows "kept sb raw d raw' d'" "file_bytes sb raw' d' = file_bytes sb raw d"
proof -
  show "kept sb raw d raw' d'" using g unfolding kept_def grew_def by blast
  have "geometry sb" using vol_okD(1) [OF grewD(1) [OF g]] .
  then show "file_bytes sb raw' d' = file_bytes sb raw d"
    using grewD(8) [OF g] path_of_valid by (auto simp: file_bytes_def fun_eq_iff)
qed

lemma kept_refl: "vol_ok sb d \<Longrightarrow> tree_ok sb raw d \<Longrightarrow> kept sb raw d raw d"
  using grew_kept(1) [OF grew_refl] .

text \<open>Overwriting the block of a leaf.\<close>

lemma write_leaf:
  assumes v: "vol_ok sb d" and t: "tree_ok sb raw d" and i: "index < capacity sb"
    and b: "holds_node sb (path_of sb index) b raw d" and len: "length bf = block_size sb"
  shows "kept sb raw d raw (set_blk sb d b bf)"
    "file_bytes sb raw (set_blk sb d b bf) pos =
      (if pos div block_size sb = index then bf ! (pos mod block_size sb) else file_bytes sb raw d pos)"
proof -
  let ?d = "set_blk sb d b bf" and ?x = "path_of sb index"
  note geo = vol_okD(1) [OF v]
  note px = path_of_valid [OF geo i]
  have b0: "b \<noteq> 0" "node sb raw d ?x = b" using b by (simp_all add: holds_node_def)
  have bu: "b \<in> used sb d" "b \<notin> meta sb d" using tree_okD(2,3) [OF t px(1)] b0 by simp_all
  note K = set_blk_keeps [OF v not_meta [OF bu(2)] len]
  have B: "blk sb ?d c = (if c = b then bf else blk sb d c)" for c using len by (simp add: blk_set_blk)
  have N: "node sb raw ?d (s, p) = node sb raw d (s, p)" if "valid_node sb (s, p)" for s p
    using that
  proof (induction p rule: rev_induct)
    case Nil
    then show ?case by simp
  next
    case (snoc j p)
    then have IH: "node sb raw ?d (s, p) = node sb raw d (s, p)" and vp: "valid_node sb (s, p)" "length p < height s"
      by simp_all
    have "\<not> leaf (s, p)" using vp(2) by (simp add: leaf_def)
    then have "node sb raw d (s, p) \<noteq> b" using tree_okD(5) [OF t vp(1) px(1)] px(2) b0 by metis
    then have "blk sb ?d (node sb raw d (s, p)) = blk sb d (node sb raw d (s, p))" using B by simp
    then show ?case by (simp only: node_snoc child_def ptr_def IH)
  qed
  have N': "node sb raw ?d x = node sb raw d x" if "valid_node sb x" for x using N that by (metis surj_pair)
  have tree: "tree sb raw ?d = tree sb raw d" using N' by (auto simp: tree_def)
  have tok: "tree_ok sb raw ?d"
    using t unfolding tree_ok_def tree K(1,2) using N' by metis
  have bt: "b \<in> tree sb raw d" using b0 px(1) by (auto simp: tree_def)
  have "b \<notin> inode_tables sb d" using bu(2) by (auto simp: meta_def)
  then show "kept sb raw d raw ?d"
    unfolding kept_def using K tok tree bt B set_blk_desc [OF _ _ len] not_meta [OF bu(2)]
    by (auto simp: same_places_def same_rest_def others_def)
  show "file_bytes sb raw ?d pos =
      (if pos div block_size sb = index then bf ! (pos mod block_size sb) else file_bytes sb raw d pos)"
  proof (cases "pos div block_size sb < capacity sb")
    case True
    let ?y = "path_of sb (pos div block_size sb)"
    note py = path_of_valid [OF geo True]
    have "node sb raw d ?y = b \<longleftrightarrow> pos div block_size sb = index"
      using tree_okD(5) [OF t py(1) px(1)] b0 path_of_inj by metis
    then show ?thesis using True N' [OF py(1)] B b0(1) by (auto simp: file_bytes_def leaf_data_def)
  next
    case False
    then show ?thesis using i by (auto simp: file_bytes_def)
  qed
qed

lemma write_piece_ok:
  assumes v: "vol_ok sb d" and t: "tree_ok sb raw d" and i: "pos div block_size sb < capacity sb"
    and b: "holds_node sb (path_of sb (pos div block_size sb)) b raw d"
    and fit: "pos mod block_size sb + length piece \<le> block_size sb"
  obtains d' where "write_piece sb b (length piece) (pos mod block_size sb) piece (raw, d) = Inr (Inr (), raw, d')"
    "kept sb raw d raw d'" "file_bytes sb raw d' = poke (file_bytes sb raw d) pos piece"
proof -
  note geo = vol_okD(1) [OF v] and od = vol_okD(2) [OF v]
  have bs: "0 < block_size sb" by (rule geometryD [OF geo])
  let ?off = "pos mod block_size sb" and ?x = "path_of sb (pos div block_size sb)"
  have bb: "b \<noteq> 0" "node sb raw d ?x = b" using b by (simp_all add: holds_node_def)
  then have lt: "b < blocks_count sb" using tree_okD(4) [OF t path_of_valid(1) [OF geo i]] by simp
  let ?bf = "take ?off (blk sb d b) @ piece @ drop (?off + length piece) (blk sb d b)"
  have len: "length ?bf = block_size sb" using fit by simp
  have run: "write_piece sb b (length piece) ?off piece (raw, d) = Inr (Inr (), raw, set_blk sb d b ?bf)"
  proof (cases "length piece = block_size sb")
    case True
    then have "?off = 0" using fit by simp
    then have bf: "?bf = piece" using True by (simp only: take_0 append_Nil add_0 drop_all length_blk order_refl append_Nil2)
    show ?thesis unfolding bf using True od lt by (simp add: write_piece_def run_simps)
  next
    case False
    then show ?thesis using od lt fit len by (simp add: write_piece_def run_simps splice_at_def)
  qed
  note W = write_leaf [OF v t i b len]
  have "file_bytes sb raw (set_blk sb d b ?bf) q = poke (file_bytes sb raw d) pos piece q" for q
  proof (cases "q div block_size sb = pos div block_size sb")
    case False
    have "\<not> (pos \<le> q \<and> q < pos + length piece)"
    proof
      assume q: "pos \<le> q \<and> q < pos + length piece"
      then have "?off + (q - pos) < block_size sb" using fit by linarith
      from same_block(1) [OF this] q False show False by simp
    qed
    then show ?thesis using W(2) [of q] False by (auto simp: poke_def)
  next
    case True
    have qm: "q mod block_size sb < block_size sb" using bs by simp
    have qp: "q = pos div block_size sb * block_size sb + q mod block_size sb"
      "pos = pos div block_size sb * block_size sb + ?off"
      using True by (metis div_mult_mod_eq)+
    have f: "file_bytes sb raw d q = blk sb d b ! (q mod block_size sb)"
      using True i bb by (simp add: file_bytes_def leaf_data_def)
    consider "q mod block_size sb < ?off" | "?off \<le> q mod block_size sb" "q mod block_size sb < ?off + length piece"
      | "?off + length piece \<le> q mod block_size sb" by linarith
    then have "?bf ! (q mod block_size sb) = poke (file_bytes sb raw d) pos piece q"
    proof cases
      case 1
      then have "\<not> pos \<le> q" using qp by linarith
      then show ?thesis using 1 f qm by (simp add: poke_def nth_append)
    next
      case 2
      have "q - pos = q mod block_size sb - ?off" "pos \<le> q" "q < pos + length piece"
        "q mod block_size sb - ?off < length piece"
        using 2 qp by linarith+
      then show ?thesis using 2 fit by (simp add: poke_def nth_append)
    next
      case 3
      then have "\<not> q < pos + length piece" "\<not> q mod block_size sb < ?off" "\<not> q mod block_size sb - ?off < length piece"
        using qp by linarith+
      then show ?thesis using 3 f qm fit by (simp add: poke_def nth_append)
    qed
    then show ?thesis using W(2) [of q] True by simp
  qed
  then show ?thesis using that run W(1) by blast
qed

text \<open>The write loop.\<close>

definition written :: "Superblock \<Rightarrow> RawInode \<Rightarrow> MemDisk \<Rightarrow> nat \<Rightarrow> u8 list \<Rightarrow>
    ((Ext2Error + unit) \<times> RawInode \<times> MemDisk) res \<Rightarrow> bool" where
  "written sb raw d pos dat res \<longleftrightarrow>
     (\<exists>r raw' d'. res = Inr (r, raw', d') \<and> kept sb raw d raw' d' \<and>
       (case r of
          Inl e \<Rightarrow> e = NoSpace \<or> e = TooLarge \<and> capacity sb * block_size sb < pos + length dat
        | Inr _ \<Rightarrow> file_bytes sb raw' d' = poke (file_bytes sb raw d) pos dat))"

lemma poke_poke: "poke (poke m a bs) (a + length bs) cs = poke m a (bs @ cs)"
  by (rule ext) (auto simp: poke_def nth_append)

lemma written_step:
  assumes k: "kept sb raw d raw1 d1" and f: "file_bytes sb raw1 d1 = poke (file_bytes sb raw d) pos piece"
    and w: "written sb raw1 d1 (pos + length piece) rest res"
  shows "written sb raw d pos (piece @ rest) res"
proof -
  from w obtain r raw' d' where r: "res = Inr (r, raw', d')" "kept sb raw1 d1 raw' d'"
    "case r of Inl e \<Rightarrow> e = NoSpace \<or> e = TooLarge \<and> capacity sb * block_size sb < pos + length piece + length rest
     | Inr _ \<Rightarrow> file_bytes sb raw' d' = poke (file_bytes sb raw1 d1) (pos + length piece) rest"
    unfolding written_def by blast
  show ?thesis
    unfolding written_def
    using r kept_trans [OF k r(2)] poke_poke [of "file_bytes sb raw d" pos piece rest] f
    by (cases r) (auto simp: add.assoc)
qed

lemma write_range_loop_ok:
  "vol_ok sb d \<Longrightarrow> tree_ok sb raw d \<Longrightarrow> offset + length dat \<le> 2 ^ 32 * block_size sb \<Longrightarrow> done \<le> length dat \<Longrightarrow>
    written sb raw d (offset + done) (drop done dat) (write_range_loop sb offset dat done (raw, d))"
proof (induction "length dat - done" arbitrary: "done" raw d rule: less_induct)
  case less
  note v = less.prems(1) and t = less.prems(2) and rng = less.prems(3)
  note geo = vol_okD(1) [OF v] and od = vol_okD(2) [OF v]
  have bs: "0 < block_size sb" "block_size sb \<le> 4096" using geometryD(1) [OF geo] by auto
  show ?case
  proof (cases "length dat \<le> done")
    case True
    then have "written sb raw d (offset + done) [] (Inr (Inr (), raw, d))"
      using kept_refl [OF v t] by (simp add: written_def)
    then show ?thesis
      unfolding write_range_loop.simps [of sb offset dat "done"] using True by (simp add: retE_def)
  next
    case False
    let ?pos = "offset + done"
    let ?n = "chunk sb ?pos (length dat) done" and ?off = "?pos mod block_size sb" and ?i = "?pos div block_size sb"
    let ?piece = "take ?n (drop done dat)"
    have n: "0 < ?n" "?off + ?n \<le> block_size sb" "done + ?n \<le> length dat"
      using chunk_pos [OF bs(1), of "done" "length dat" ?pos] False mod_less_divisor [OF bs(1), of ?pos]
      unfolding chunk_def by linarith+
    have pos: "?pos < 2 ^ 32 * block_size sb" using rng False by linarith
    also have "\<dots> \<le> 2 ^ 32 * 4096" using bs(2) by simp
    finally have p64: "?pos < 2 ^ 64" by simp
    have b0: "(block_size sb = 0) = False" using bs(1) by simp
    have len: "length ?piece = ?n" using n(3) by simp
    have loop: "write_range_loop sb offset dat done (raw, d) =
        bindE (block_for_index_alloc sb ?i) (\<lambda>b. bindE (write_piece sb b ?n ?off ?piece) (\<lambda>_.
          write_range_loop sb offset dat (done + ?n))) (raw, d)"
      unfolding write_range_loop.simps [of sb offset dat "done"] Let_def using False
      by (simp only: add64_ok [OF p64] bindE_liftE index_in_range [OF pos bs(1)] if_False b0)
    show ?thesis
    proof (cases "?i < capacity sb")
      case False
      then have "capacity sb * block_size sb \<le> ?i * block_size sb" by simp
      also have "\<dots> \<le> ?pos" by simp
      also have "?pos < ?pos + length (drop done dat)" using \<open>\<not> length dat \<le> done\<close> by simp
      finally show ?thesis
        unfolding loop using block_for_index_alloc_too_large [OF geo] False kept_refl [OF v t]
        by (simp add: bindE_def written_def)
    next
      case True
      from block_for_index_alloc_ok [OF v t True] obtain r raw1 d1 where
        r: "block_for_index_alloc sb ?i (raw, d) = Inr (r, raw1, d1)" "grew sb raw d raw1 d1"
        "case r of Inl e \<Rightarrow> e = NoSpace | Inr b \<Rightarrow> holds_node sb (path_of sb ?i) b raw1 d1"
        unfolding gives_def by blast
      note g = grew_kept [OF r(2)]
      show ?thesis
      proof (cases r)
        case (Inl e)
        then show ?thesis unfolding loop using r g by (simp add: bindE_def written_def)
      next
        case (Inr b)
        then have h: "holds_node sb (path_of sb ?i) b raw1 d1" using r(3) by simp
        have "?off + length ?piece \<le> block_size sb" using n(2) len by simp
        from write_piece_ok [OF keptD(1,2) [OF g(1)] True h this] obtain d2 where
          w: "write_piece sb b ?n ?off ?piece (raw1, d1) = Inr (Inr (), raw1, d2)"
          "kept sb raw1 d1 raw1 d2" "file_bytes sb raw1 d2 = poke (file_bytes sb raw1 d1) ?pos ?piece"
          unfolding len by metis
        have "written sb raw1 d2 (offset + (done + ?n)) (drop (done + ?n) dat) (write_range_loop sb offset dat (done + ?n) (raw1, d2))"
          using n keptD(1,2) [OF w(2)] rng by (intro less.hyps) auto
        then have rest: "written sb raw1 d2 (?pos + length ?piece) (drop (done + ?n) dat)
            (write_range_loop sb offset dat done (raw, d))"
          unfolding loop len using r(1) Inr w(1) by (simp add: bindE_def add.assoc)
        have "drop done dat = ?piece @ drop (done + ?n) dat"
          by (metis append_take_drop_id drop_drop add.commute)
        then show ?thesis
          using written_step [OF kept_trans [OF g(1) w(2)] _ rest] w(3) g(2) by simp
      qed
    qed
  qed
qed

section \<open>The inode record\<close>

definition iblk :: "Superblock \<Rightarrow> MemDisk \<Rightarrow> nat \<Rightarrow> nat" where
  "iblk sb d ino =
     inode_table (desc sb d ((ino - 1) div inodes_per_group sb)) +
     (ino - 1) mod inodes_per_group sb div (block_size sb div inode_size sb)"

definition ioff :: "Superblock \<Rightarrow> nat \<Rightarrow> nat" where
  "ioff sb ino = (ino - 1) mod inodes_per_group sb mod (block_size sb div inode_size sb) * inode_size sb"

lemma inode_place:
  assumes v: "vol_ok sb d" and ino: "1 \<le> ino" "ino \<le> inodes_count sb"
  shows "iblk sb d ino \<in> inode_tables sb d" "iblk sb d ino < blocks_count sb" "ioff sb ino + inode_size sb \<le> block_size sb"
    "inode_location sb ino d = Inr (Inr (iblk sb d ino, ioff sb ino), d)"
proof -
  note geo = vol_okD(1) [OF v] and od = vol_okD(2) [OF v] and l = vol_okD(3) [OF v]
  let ?g = "(ino - 1) div inodes_per_group sb" and ?k = "(ino - 1) mod inodes_per_group sb"
    and ?m = "block_size sb div inode_size sb"
  have g: "?g \<in> real_groups sb" by (rule layoutD(6) [OF l ino])
  have g': "?g < num_groups sb" by (rule real_less [OF g])
  have ipg: "0 < inodes_per_group sb" and isz: "0 < inode_size sb" "inode_size sb \<le> block_size sb"
    using geometryD(7,13,14) [OF geo] by simp_all
  have m: "0 < ?m" using isz by (simp add: div_greater_zero_iff)
  have "?k < inodes_per_group sb" using ipg by simp
  then have "?k div ?m < itable_blocks sb"
  proof -
    assume k: "?k < inodes_per_group sb"
    then have "?k div ?m \<le> (inodes_per_group sb - 1) div ?m" by (intro div_le_mono) linarith
    also have "\<dots> < (inodes_per_group sb - 1) div ?m + 1" by simp
    also have "\<dots> = (inodes_per_group sb - 1 + ?m) div ?m"
      using div_add_self2 [of ?m "inodes_per_group sb - 1"] m by linarith
    also have "inodes_per_group sb - 1 + ?m = inodes_per_group sb + ?m - 1" using ipg by simp
    finally show ?thesis by (simp add: itable_blocks_def)
  qed
  then show t: "iblk sb d ino \<in> inode_tables sb d"
    unfolding inode_tables_def iblk_def by (intro UN_I [OF g]) simp
  then show b: "iblk sb d ino < blocks_count sb" using layoutD(1) [OF l] by (auto simp: meta_def)
  have "?k mod ?m < ?m" using m by simp
  then have "(?k mod ?m + 1) * inode_size sb \<le> ?m * inode_size sb" by (intro mult_right_mono) auto
  also have "\<dots> \<le> block_size sb" by simp
  finally show o: "ioff sb ino + inode_size sb \<le> block_size sb" by (simp add: ioff_def)
  have lim: "blocks_count sb < 2 ^ 32" "block_size sb < 2 ^ 32" using geometryD(1,3) [OF geo] by auto
  have "?k mod ?m * inode_size sb < 2 ^ 32" using o lim by (simp add: ioff_def)
  moreover have "inode_table (desc sb d ?g) + ?k div ?m < 2 ^ 32" using b lim by (simp add: iblk_def)
  moreover have "get_le 4 (blk sb d (gblk sb ?g)) (goff sb ?g + 8) = Inr (inode_table (desc sb d ?g))"
    using goff_le [OF geo, of ?g] by (simp add: desc_def desc_in_def)
  ultimately show "inode_location sb ino d = Inr (Inr (iblk sb d ino, ioff sb ino), d)"
    using ino g' od ipg isz m gblk_less [OF geo g']
    by (simp add: inode_location_def run_simps bgd_location_ok [OF geo g'] iblk_def ioff_def del: One_nat_def)
qed

definition with_inode :: "Superblock \<Rightarrow> MemDisk \<Rightarrow> nat \<Rightarrow> RawInode \<Rightarrow> MemDisk" where
  "with_inode sb d ino raw =
     (let b = iblk sb d ino; off = ioff sb ino in
      set_blk sb d b (take off (blk sb d b) @ buf raw @ drop (off + inode_size sb) (blk sb d b)))"

lemma write_inode_ok:
  assumes v: "vol_ok sb d" and ino: "1 \<le> ino" "ino \<le> inodes_count sb" and len: "length (buf raw) = inode_size sb"
  shows "write_inode sb ino raw d = Inr (Inr (), with_inode sb d ino raw)"
    "vol_ok sb (with_inode sb d ino raw)" "used sb (with_inode sb d ino raw) = used sb d"
    "same_places sb d (with_inode sb d ino raw)"
    "c \<notin> inode_tables sb d \<Longrightarrow> blk sb (with_inode sb d ino raw) c = blk sb d c"
    "read_inode sb ino (with_inode sb d ino raw) = Inr (Inr raw, with_inode sb d ino raw)"
proof -
  note I = inode_place [OF v ino]
  let ?b = "iblk sb d ino" and ?off = "ioff sb ino"
  let ?bf = "take ?off (blk sb d ?b) @ buf raw @ drop (?off + inode_size sb) (blk sb d ?b)"
  let ?d = "with_inode sb d ino raw"
  have d: "?d = set_blk sb d ?b ?bf" by (simp add: with_inode_def Let_def)
  have bf: "length ?bf = block_size sb" using I(3) len by simp
  show "write_inode sb ino raw d = Inr (Inr (), ?d)"
    using I vol_okD(2) [OF v] len bf by (simp add: write_inode_def run_simps splice_at_def d)
  note w = tables_not_written [OF vol_okD(3) [OF v] I(1)]
  note K = set_blk_keeps [OF v w(1) bf]
  show v': "vol_ok sb ?d" and "used sb ?d = used sb d" using K by (simp_all add: d)
  have desc: "desc sb ?d g = desc sb d g" if "g < num_groups sb" for g
    using set_blk_desc [OF that _ bf] w(1) by (simp add: d)
  then show "same_places sb d ?d" using K by (simp add: same_places_def d)
  show "blk sb ?d c = blk sb d c" if "c \<notin> inode_tables sb d"
    using that I(1) blk_set_blk [OF bf] by (auto simp: d)
  have "(ino - 1) div inodes_per_group sb < num_groups sb"
    using real_less [OF layoutD(6) [OF vol_okD(3) [OF v] ino]] .
  then have ib: "iblk sb ?d ino = ?b" by (simp add: iblk_def desc)
  have "blk sb ?d ?b = ?bf" using blk_set_blk [OF bf] by (simp add: d)
  moreover have "take (inode_size sb) (drop ?off ?bf) = buf raw" using I(3) len by simp
  ultimately show "read_inode sb ino ?d = Inr (Inr raw, ?d)"
    using inode_place [OF v' ino] ib vol_okD(2) [OF v'] len by (simp add: read_inode_def run_simps slice_of_def)
qed

section \<open>Sizes\<close>

lemma field_same_rest:
  assumes "same_rest raw raw'" "a + n \<le> 40 \<or> 100 \<le> a" "a + n \<le> length (buf raw)"
  shows "field n (buf raw') a = field n (buf raw) a"
proof -
  have "take n (drop a (buf raw')) = take n (drop a (buf raw))"
    by (rule nth_equalityI) (use assms in \<open>auto simp: same_rest_def\<close>)
  then show ?thesis by (simp add: field_def)
qed

definition size_of :: "RawInode \<Rightarrow> nat" where
  "size_of raw =
     (if field 2 (buf raw) 0 div 2 ^ 12 = 8 then field 4 (buf raw) 108 * 2 ^ 32 + field 4 (buf raw) 4
      else field 4 (buf raw) 4)"

lemma isize_ok: "128 \<le> length (buf raw) \<Longrightarrow> isize raw = Inr (size_of raw)"
  by (simp add: isize_def is_reg_def mode_kind_def i_mode_def size_of_def)

definition sized :: "RawInode \<Rightarrow> nat \<Rightarrow> RawInode" where
  "sized raw v =
     (let b = put_field 4 (buf raw) 4 (v mod 2 ^ 32) in
      raw\<lparr>buf := (if field 2 (buf raw) 0 div 2 ^ 12 = 8 then put_field 4 b 108 (v div 2 ^ 32 mod 2 ^ 32) else b)\<rparr>)"

lemma set_isize_ok: "128 \<le> length (buf raw) \<Longrightarrow> set_isize raw v = Inr (sized raw v)"
  by (simp add: set_isize_def set_field_def is_reg_def mode_kind_def i_mode_def sized_def field_put_other Let_def)

lemma sized_keeps:
  assumes "128 \<le> length (buf raw)"
  shows "length (buf (sized raw v)) = length (buf raw)" "s < 15 \<Longrightarrow> slot (sized raw v) s = slot raw s"
    "v < 2 ^ 64 \<Longrightarrow> field 2 (buf raw) 0 div 2 ^ 12 = 8 \<Longrightarrow> size_of (sized raw v) = v"
proof -
  show "length (buf (sized raw v)) = length (buf raw)" using assms by (simp add: sized_def Let_def)
  show "slot (sized raw v) s = slot raw s" if "s < 15"
    using assms that by (simp add: sized_def Let_def slot_def field_put_other)
  assume v: "v < 2 ^ 64" and r: "field 2 (buf raw) 0 div 2 ^ 12 = 8"
  have "v div 2 ^ 32 < 2 ^ 32" using v by (simp add: div_less_iff_less_mult)
  then have "v div 2 ^ 32 mod 2 ^ 32 = v div 2 ^ 32" by simp
  then show "size_of (sized raw v) = v"
    using assms r div_mult_mod_eq [of v "2 ^ 32"] by (simp add: sized_def Let_def size_of_def field_put_other field_put_same)
qed

text \<open>The tree and the bytes of a file depend on the slots of the record and on the blocks of the tree only.\<close>

lemma node_cong:
  assumes s: "\<And>s. s < 15 \<Longrightarrow> slot raw' s = slot raw s"
    and b: "\<And>x. valid_node sb x \<Longrightarrow> node sb raw d x \<noteq> 0 \<Longrightarrow> blk sb d' (node sb raw d x) = blk sb d (node sb raw d x)"
    and x: "valid_node sb x"
  shows "node sb raw' d' x = node sb raw d x"
proof -
  have "node sb raw' d' (t, p) = node sb raw d (t, p)" if "valid_node sb (t, p)" for t p
    using that
  proof (induction p rule: rev_induct)
    case Nil
    then show ?case using s by simp
  next
    case (snoc j p)
    then have IH: "node sb raw' d' (t, p) = node sb raw d (t, p)" and vp: "valid_node sb (t, p)" by simp_all
    show ?case using b [OF vp] by (simp only: node_snoc child_def ptr_def IH split: if_split) simp
  qed
  then show ?thesis using x by (metis surj_pair)
qed

lemma file_cong:
  assumes g: "geometry sb" and s: "\<And>s. s < 15 \<Longrightarrow> slot raw' s = slot raw s"
    and b: "\<And>c. c \<in> tree sb raw d \<Longrightarrow> blk sb d' c = blk sb d c"
  shows "file_bytes sb raw' d' = file_bytes sb raw d" "tree sb raw' d' = tree sb raw d"
    "valid_node sb x \<Longrightarrow> node sb raw' d' x = node sb raw d x"
proof -
  have b': "blk sb d' (node sb raw d x) = blk sb d (node sb raw d x)" if "valid_node sb x" "node sb raw d x \<noteq> 0" for x
    using that by (intro b) (simp add: tree_def)
  show N: "node sb raw' d' x = node sb raw d x" if "valid_node sb x" for x by (rule node_cong [OF s b' that])
  show "tree sb raw' d' = tree sb raw d" using N by (auto simp: tree_def)
  have "leaf_data sb raw' d' x = leaf_data sb raw d x" if "valid_node sb x" for x
    using N [OF that] b' [OF that] by (simp add: leaf_data_def)
  then show "file_bytes sb raw' d' = file_bytes sb raw d"
    using path_of_valid(1) [OF g] by (auto simp: file_bytes_def fun_eq_iff)
qed

lemma tree_ok_cong:
  assumes t: "tree_ok sb raw d" and l: "length (buf raw') = length (buf raw)"
    and s: "\<And>s. s < 15 \<Longrightarrow> slot raw' s = slot raw s" and g: "geometry sb"
    and b: "\<And>c. c \<in> tree sb raw d \<Longrightarrow> blk sb d' c = blk sb d c"
    and u: "used sb d' = used sb d" "meta sb d' = meta sb d"
  shows "tree_ok sb raw' d'"
proof -
  have N: "node sb raw' d' x = node sb raw d x" if "valid_node sb x" for x
    by (rule file_cong(3) [OF g]) (erule s, erule b, rule that)
  have T: "tree sb raw' d' = tree sb raw d"
    by (rule file_cong(2) [OF g]) (erule s, erule b)
  show ?thesis
    unfolding tree_ok_def T u l
  proof (intro conjI allI impI)
    show "length (buf raw) = inode_size sb" "tree sb raw d \<subseteq> used sb d - meta sb d"
      using t unfolding tree_ok_def by blast+
    fix x y
    assume a: "valid_node sb x \<and> valid_node sb y \<and> node sb raw' d' x = node sb raw' d' y \<and> node sb raw' d' x \<noteq> 0"
    then have "valid_node sb x" "valid_node sb y" "node sb raw d x = node sb raw d y" "node sb raw d x \<noteq> 0"
      using N [of x] N [of y] by auto
    then show "x = y" by (rule tree_okD(5) [OF t])
  qed
qed

section \<open>Writing a range\<close>

lemma others_untouched:
  assumes t: "tree_ok sb other d" and dis: "tree sb other d \<inter> tree sb raw d = {}"
  shows "tree sb other d \<subseteq> others sb raw d"
  using assms by (auto simp: others_def tree_ok_def)

text \<open>A file whose blocks, and whose volume's metadata, are where they were.\<close>

lemma other_file_kept:
  assumes v: "vol_ok sb d'" and t: "tree_ok sb other d"
    and b: "\<And>c. c \<in> tree sb other d \<Longrightarrow> blk sb d' c = blk sb d c"
    and u: "used sb d \<subseteq> used sb d'" "meta sb d' = meta sb d"
  shows "tree_ok sb other d'" "file_bytes sb other d' = file_bytes sb other d"
proof -
  note geo = vol_okD(1) [OF v]
  have T: "tree sb other d' = tree sb other d" by (rule file_cong(2) [OF geo]) (rule refl, erule b)
  have N: "node sb other d' x = node sb other d x" if "valid_node sb x" for x
    by (rule file_cong(3) [OF geo]) (rule refl, erule b, rule that)
  show "file_bytes sb other d' = file_bytes sb other d" by (rule file_cong(1) [OF geo]) (rule refl, erule b)
  show "tree_ok sb other d'"
    unfolding tree_ok_def T
  proof (intro conjI allI impI)
    show "length (buf other) = inode_size sb" by (rule tree_okD [OF t])
    show "tree sb other d \<subseteq> used sb d' - meta sb d'" using t u unfolding tree_ok_def by blast
    fix x y
    assume a: "valid_node sb x \<and> valid_node sb y \<and> node sb other d' x = node sb other d' y \<and> node sb other d' x \<noteq> 0"
    then have "valid_node sb x" "valid_node sb y" "node sb other d x = node sb other d y" "node sb other d x \<noteq> 0"
      using N [of x] N [of y] by auto
    then show "x = y" by (rule tree_okD(5) [OF t])
  qed
qed

lemma others_read:
  assumes v: "vol_ok sb d" "vol_ok sb d'" and u: "used sb d \<subseteq> used sb d'" "meta sb d' = meta sb d"
    and b: "\<And>c. c \<in> others sb raw d \<Longrightarrow> blk sb d' c = blk sb d c"
    and t: "tree_ok sb other d" "tree sb other d \<inter> tree sb raw d = {}"
    and rng: "pos + length bf \<le> 2 ^ 32 * block_size sb"
  shows "read_file_range sb other pos (bf, d) = Inr (Inr (), peek (file_bytes sb other d) pos (length bf), d)"
    "read_file_range sb other pos (bf, d') = Inr (Inr (), peek (file_bytes sb other d) pos (length bf), d')"
proof -
  have b': "blk sb d' c = blk sb d c" if "c \<in> tree sb other d" for c
    using b others_untouched [OF t] that by blast
  note O = other_file_kept [OF v(2) t(1) b' u]
  show "read_file_range sb other pos (bf, d) = Inr (Inr (), peek (file_bytes sb other d) pos (length bf), d)"
    by (rule read_file_range_ok [OF v(1) t(1) rng])
  show "read_file_range sb other pos (bf, d') = Inr (Inr (), peek (file_bytes sb other d) pos (length bf), d')"
    using read_file_range_ok [OF v(2) O(1) rng] O(2) by simp
qed

text \<open>The last two steps: the size, and the record on the volume.\<close>

lemma finish_write:
  assumes k: "kept sb raw d raw1 d1" and ino: "1 \<le> ino" "ino \<le> inodes_count sb" and v: "vol_ok sb d"
    and raw2: "length (buf raw2) = length (buf raw1)" "\<And>s. s < 15 \<Longrightarrow> slot raw2 s = slot raw1 s"
  shows "vol_ok sb (with_inode sb d1 ino raw2)" "tree_ok sb raw2 (with_inode sb d1 ino raw2)"
    "file_bytes sb raw2 (with_inode sb d1 ino raw2) = file_bytes sb raw1 d1"
    "used sb d \<subseteq> used sb (with_inode sb d1 ino raw2)" "meta sb (with_inode sb d1 ino raw2) = meta sb d"
    "c \<in> others sb raw d \<Longrightarrow> blk sb (with_inode sb d1 ino raw2) c = blk sb d c"
proof -
  note v1 = keptD(1) [OF k] and t1 = keptD(2) [OF k]
  have len: "length (buf raw2) = inode_size sb" using raw2(1) tree_okD(1) [OF t1] by simp
  note W = write_inode_ok [OF v1 ino len]
  let ?d = "with_inode sb d1 ino raw2"
  have m: "meta sb ?d = meta sb d1" using W(4) by (simp add: same_places_def)
  have b: "blk sb ?d c = blk sb d1 c" if "c \<in> tree sb raw1 d1" for c
  proof (rule W(5))
    have "c \<notin> meta sb d1" using t1 that by (auto simp: tree_ok_def)
    then show "c \<notin> inode_tables sb d1" by (auto simp: meta_def)
  qed
  note geo = vol_okD(1) [OF v]
  show "vol_ok sb ?d" by (rule W)
  show "tree_ok sb raw2 ?d" by (rule tree_ok_cong [OF t1 raw2(1) _ geo _ W(3) m]) (erule raw2, erule b)
  show "file_bytes sb raw2 ?d = file_bytes sb raw1 d1" by (rule file_cong(1) [OF geo]) (erule raw2, erule b)
  show "used sb d \<subseteq> used sb ?d" using keptD(5) [OF k] W(3) by simp
  show "meta sb ?d = meta sb d" using m keptD(3) [OF k] by (simp add: same_places_def)
  assume c: "c \<in> others sb raw d"
  then have "c \<notin> inode_tables sb d1" using keptD(3) [OF k] by (auto simp: others_def meta_def same_places_def)
  then show "blk sb ?d c = blk sb d c" using W(5) keptD(7) [OF k] c by simp
qed

lemma write_file_range_ok:
  assumes v: "vol_ok sb d" and t: "tree_ok sb raw d"
    and ino: "1 \<le> ino" "ino \<le> inodes_count sb" and dat: "dat \<noteq> []"
    and rng: "offset + length dat \<le> 2 ^ 32 * block_size sb"
  obtains (failed) e raw' d' where "write_file_range sb ino offset dat (raw, d) = Inr (Inl e, raw', d')"
      "e = NoSpace \<or> e = TooLarge \<and> capacity sb * block_size sb < offset + length dat" "kept sb raw d raw' d'"
    | (complete) raw1 d1 raw2 where
      "write_file_range sb ino offset dat (raw, d) = Inr (Inr (length dat), raw2, with_inode sb d1 ino raw2)"
      "kept sb raw d raw1 d1" "file_bytes sb raw1 d1 = poke (file_bytes sb raw d) offset dat"
      "length (buf raw2) = length (buf raw1)" "\<And>s. s < 15 \<Longrightarrow> slot raw2 s = slot raw1 s"
      "is_reg raw = Inr True \<longrightarrow> size_of raw2 = max (size_of raw) (offset + length dat)"
proof -
  note geo = vol_okD(1) [OF v]
  have "written sb raw d offset dat (write_range_loop sb offset dat 0 (raw, d))"
    using write_range_loop_ok [OF v t rng, of 0] by simp
  then obtain r raw1 d1 where
    r: "write_range_loop sb offset dat 0 (raw, d) = Inr (r, raw1, d1)" "kept sb raw d raw1 d1"
    "case r of Inl e \<Rightarrow> e = NoSpace \<or> e = TooLarge \<and> capacity sb * block_size sb < offset + length dat
     | Inr _ \<Rightarrow> file_bytes sb raw1 d1 = poke (file_bytes sb raw d) offset dat"
    unfolding written_def by blast
  show ?thesis
  proof (cases r)
    case (Inl e)
    then show ?thesis using failed [of e raw1 d1] r dat by (simp add: write_file_range_def bindE_def)
  next
    case (Inr u)
    note v1 = keptD(1) [OF r(2)] and t1 = keptD(2) [OF r(2)]
    let ?new = "offset + length dat"
    let ?raw2 = "if size_of raw1 < ?new then sized raw1 ?new else raw1"
    have len1: "128 \<le> length (buf raw1)" using tree_okD(1) [OF t1] geometryD(13) [OF geo] by simp
    have "?new \<le> 2 ^ 32 * 4096" using rng geometryD(1) [OF geo] by auto
    then have new: "?new < 2 ^ 64" by simp
    have len2: "length (buf ?raw2) = length (buf raw1)" using sized_keeps(1) [OF len1] by simp
    then have "length (buf ?raw2) = inode_size sb" using tree_okD(1) [OF t1] by simp
    from write_inode_ok(1) [OF v1 ino this]
    have run: "write_file_range sb ino offset dat (raw, d) = Inr (Inr (length dat), ?raw2, with_inode sb d1 ino ?raw2)"
      using Inr r(1) dat add64_ok [OF new] isize_ok [OF len1] set_isize_ok [OF len1]
      by (cases "size_of raw1 < ?new") (simp_all add: write_file_range_def run_simps)
    have sl: "slot ?raw2 s = slot raw1 s" if "s < 15" for s using sized_keeps(2) [OF len1 that] by simp
    have sr: "field n (buf raw1) a = field n (buf raw) a" if "a + n \<le> 40 \<or> 100 \<le> a" "a + n \<le> 128" for n a
      using field_same_rest [OF keptD(4) [OF r(2)] that(1)] that(2) len1 keptD(4) [OF r(2)] by (simp add: same_rest_def)
    have "size_of ?raw2 = max (size_of raw) ?new" if "is_reg raw = Inr True"
    proof -
      have "length (buf raw) = length (buf raw1)" using keptD(4) [OF r(2)] by (simp add: same_rest_def)
      then have "field 2 (buf raw) 0 div 2 ^ 12 = 8" using that len1 by (simp add: is_reg_def mode_kind_def i_mode_def)
      then have "field 2 (buf raw1) 0 div 2 ^ 12 = 8" "size_of raw1 = size_of raw" using sr by (simp_all add: size_of_def)
      then show ?thesis using sized_keeps(3) [OF len1 new] by auto
    qed
    then show ?thesis using complete [OF run r(2) _ len2 sl] r(3) Inr by simp
  qed
qed

end
