(* ===== verification/Ext2_Props.thy ===== *)
theory Ext2_Props
  imports Ext2_File
begin

text \<open>
  The two contracts of the ext2 crate that its clients rely on: the block allocator as a set of used blocks,
  and a file as a sparse array of bytes.
\<close>

section \<open>A sample volume\<close>

text \<open>
  One group of 64 blocks of 1024 bytes: boot block, superblock, descriptors, the two bitmaps and two blocks of
  inode table are in use, the other 57 blocks are free.
\<close>

definition sample_sb :: Superblock where
  "sample_sb = \<lparr>block_size = 1024, inodes_count = 16, blocks_count = 64, inodes_per_group = 16,
     blocks_per_group = 8192, first_data_block = 1, inode_size = 128, bgdt_block = 2, num_groups = 1, first_ino = 11\<rparr>"

definition sample_disk :: MemDisk where
  "sample_disk = \<lparr>disk_len = 65536, disk_data = (\<lambda>a.
     if a = 1036 then 57 else if a = 2048 then 3 else if a = 2052 then 4 else if a = 2056 then 5
     else if a = 2060 then 57 else if a = 3072 then 0x3F else 0)\<rparr>"

definition sample_file :: RawInode where
  "sample_file = \<lparr>buf = 0 # 0x80 # replicate 126 0\<rparr>"

lemma field_peek: "off + n \<le> k \<Longrightarrow> field n (peek m a k) off = le_val (peek m (a + off) n)"
  using peek_window [of off n k m a] by (simp add: field_def window_def)

lemma peek_Suc: "peek m a 0 = []" "peek m a (Suc n) = m a # peek m (a + 1) n"
  by (simp_all add: peek_def upt_conv_Cons del: upt_Suc)

lemma le_val_peek:
  "le_val (peek m a 2) = unat (m a) + 256 * unat (m (a + 1))"
  "le_val (peek m a 4) = unat (m a) + 256 * (unat (m (a + 1)) + 256 * (unat (m (a + 2)) + 256 * unat (m (a + 3))))"
proof -
  have "2 = Suc (Suc 0)" "4 = Suc (Suc (Suc (Suc 0)))" by simp_all
  then show "le_val (peek m a 2) = unat (m a) + 256 * unat (m (a + 1))"
    "le_val (peek m a 4) = unat (m a) + 256 * (unat (m (a + 1)) + 256 * (unat (m (a + 2)) + 256 * unat (m (a + 3))))"
    by (simp_all only: peek_Suc le_val.simps) (simp_all add: numeral_3_eq_3)
qed

lemma nth_peek: "i < k \<Longrightarrow> peek m a k ! i = m (a + i)"
  by (simp add: peek_def)

lemma sample_volume_fields [simp]:
  "block_size sample_sb = 1024" "inodes_count sample_sb = 16" "blocks_count sample_sb = 64" "inodes_per_group sample_sb = 16"
  "blocks_per_group sample_sb = 8192" "first_data_block sample_sb = 1" "inode_size sample_sb = 128"
  "bgdt_block sample_sb = 2" "num_groups sample_sb = 1"
  by (simp_all add: sample_sb_def)

lemma sample_data:
  "disk_data sample_disk a =
     (if a = 1036 then 57 else if a = 2048 then 3 else if a = 2052 then 4 else if a = 2056 then 5
      else if a = 2060 then 57 else if a = 3072 then 0x3F else 0)"
  by (simp only: sample_disk_def MemDisk.select_convs)

lemma sample_data_bitmap: "disk_data sample_disk (3072 + k) = (if k = 0 then 0x3F else 0)"
  by (cases "k = 0") (simp_all add: sample_data)

lemma sample_geometry: "geometry sample_sb" "on_disk sample_sb sample_disk"
  by (simp_all add: geometry_def on_disk_def SECTOR_SIZE_def sample_disk_def)

lemma sample_desc:
  "desc sample_sb sample_disk 0 =
     \<lparr>block_bitmap = 3, inode_bitmap = 4, inode_table = 5, free_blocks = 57, free_inodes = 0\<rparr>"
  by (simp add: desc_def desc_in_def blk_def gblk_def goff_def field_peek le_val_peek sample_data)

lemma sample_bit: "bit_is_set (bmap sample_sb sample_disk 0) i \<longleftrightarrow> i < 6"
proof (cases "i < 8")
  case True
  then have "i \<in> {0, 1, 2, 3, 4, 5, 6, 7}" by auto
  then show ?thesis
    by (elim insertE) (simp_all add: bit_is_set_iff bmap_def sample_desc blk_def nth_peek sample_data)
next
  case False
  then show ?thesis
    by (simp add: bit_is_set_iff bmap_def sample_desc blk_def nth_peek sample_data_bitmap cong: conj_cong)
qed

lemma sample_real: "nblk sample_sb 0 = 63" "real_groups sample_sb = {0}"
proof -
  show n: "nblk sample_sb 0 = 63" by (simp add: nblk_def)
  have "g \<in> real_groups sample_sb \<longleftrightarrow> g = 0" for g
    using n by (cases g) (simp_all add: real_groups_def)
  then show "real_groups sample_sb = {0}" by blast
qed

lemma sample_used: "used sample_sb sample_disk = {1..6}"
proof (rule set_eqI)
  fix b
  show "b \<in> used sample_sb sample_disk \<longleftrightarrow> b \<in> {1..6}"
  proof (cases "b < 64")
    case True
    then have "(b - 1) div 8192 = 0" "(b - 1) mod 8192 = b - 1" by simp_all
    then have "b \<in> used sample_sb sample_disk \<longleftrightarrow> 1 \<le> b \<and> b - 1 < 6"
      using True by (simp only: used_def mem_Collect_eq sample_volume_fields sample_bit simp_thms)
    then show ?thesis by auto
  qed (simp add: used_def)
qed

lemma sample_meta:
  "fixed_blocks sample_sb = {0, 1, 2}" "block_bitmaps sample_sb sample_disk = {3}"
  "inode_bitmaps sample_sb sample_disk = {4}" "inode_tables sample_sb sample_disk = {5, 6}"
  "meta sample_sb sample_disk = {0, 1, 2, 3, 4, 5, 6}"
proof -
  have "{..Suc 0} = {0, 1 :: nat}" "{5 ..< 7 :: nat} = {5, 6}" by auto
  then show 1: "fixed_blocks sample_sb = {0, 1, 2}" "block_bitmaps sample_sb sample_disk = {3}"
    "inode_bitmaps sample_sb sample_disk = {4}" "inode_tables sample_sb sample_disk = {5, 6}"
    by (simp_all add: fixed_blocks_def gblk_def lessThan_Suc block_bitmaps_def inode_bitmaps_def inode_tables_def
        sample_real sample_desc itable_blocks_def insert_commute)
  show "meta sample_sb sample_disk = {0, 1, 2, 3, 4, 5, 6}" unfolding meta_def 1 by auto
qed

lemma sample_layout: "layout sample_sb sample_disk"
  unfolding layout_def sample_used sample_meta sample_real by (auto simp: inj_on_def)

lemma sample_counts: "counts_ok sample_sb sample_disk"
proof -
  have "group_free sample_sb sample_disk 0 = {6 ..< 63}"
    unfolding group_free_def sample_bit sample_real by auto
  moreover have "sb_free sample_sb sample_disk = 57"
    by (simp add: sb_free_def sb_off_def blk_def field_peek le_val_peek sample_data)
  ultimately show ?thesis by (simp add: counts_ok_def sample_desc)
qed

lemma sample_vol_ok: "vol_ok sample_sb sample_disk"
  using sample_geometry sample_layout sample_counts by (simp add: vol_ok_def)

lemma sample_slot: "s < 15 \<Longrightarrow> slot sample_file s = 0"
proof -
  have z: "le_val (replicate n 0) = 0" for n by (induction n) simp_all
  assume "s < 15"
  then have "min 4 (126 - (38 + s * 4)) = 4" by simp
  moreover have "40 + s * 4 = Suc (Suc (38 + s * 4))" by simp
  ultimately have "take 4 (drop (40 + s * 4) (buf sample_file)) = replicate 4 0"
    by (simp only: sample_file_def RawInode.select_convs drop_Suc_Cons drop_replicate take_replicate)
  then show ?thesis using z by (simp only: slot_def field_def)
qed

lemma foldl_child_0: "foldl (child sb d) 0 p = 0"
  by (induction p) (simp_all add: child_def)

lemma sample_tree: "tree sample_sb sample_file d = {}" "tree_ok sample_sb sample_file d"
proof -
  have n: "node sample_sb sample_file d x = 0" if "valid_node sample_sb x" for x
    using that sample_slot by (simp add: node_def valid_node_def foldl_child_0)
  then show t: "tree sample_sb sample_file d = {}" by (auto simp: tree_def)
  have len: "length (buf sample_file) = inode_size sample_sb"
    by (simp add: sample_file_def del: replicate.simps)
  show "tree_ok sample_sb sample_file d"
    unfolding tree_ok_def t
  proof (intro conjI allI impI)
    fix x y
    assume a: "valid_node sample_sb x \<and> valid_node sample_sb y \<and> node sample_sb sample_file d x = node sample_sb sample_file d y \<and>
      node sample_sb sample_file d x \<noteq> 0"
    from n [OF a [THEN conjunct1]] a [THEN conjunct2, THEN conjunct2, THEN conjunct2] show "x = y"
      by (rule notE [rotated])
  qed (rule len, rule empty_subsetI)
qed

section \<open>Properties\<close>

text \<open>
  C28. On a well-formed volume \<^verbatim>\<open>alloc_block\<close> neither panics nor fails. It answers that the volume
  is full, without writing anything, only when every block is in use; otherwise it returns a block that was free
  and is zeroed now, which becomes the one more used block, no other block outside the volume's metadata has
  changed, and the volume is well-formed again: its bitmaps, the group counters and the superblock's counter agree.
\<close>

theorem alloc_block_refines_set:
  assumes "vol_ok sb d"
  shows "(alloc_block sb d = Inr (Inr None, d) \<and> {first_data_block sb ..< blocks_count sb} \<subseteq> used sb d) \<or>
    (\<exists>b d'. alloc_block sb d = Inr (Inr (Some b), d') \<and>
       b \<in> {first_data_block sb ..< blocks_count sb} - used sb d \<and> used sb d' = insert b (used sb d) \<and>
       blk sb d' b = replicate (block_size sb) 0 \<and>
       (\<forall>c. c \<noteq> b \<and> c \<notin> meta sb d \<longrightarrow> blk sb d' c = blk sb d c) \<and>
       sb_free sb d' = sb_free sb d - 1 \<and> vol_ok sb d')"
  using alloc_block_ok [OF assms] not_meta by (fastforce simp: allocated_def)

theorem alloc_block_refines_set_witness:
  "vol_ok sample_sb sample_disk \<and>
   ((alloc_block sample_sb sample_disk = Inr (Inr None, sample_disk) \<and> {1 ..< 64} \<subseteq> used sample_sb sample_disk) \<or>
    (\<exists>b d'. alloc_block sample_sb sample_disk = Inr (Inr (Some b), d') \<and> b \<in> {1 ..< 64} - used sample_sb sample_disk \<and>
       used sample_sb d' = insert b (used sample_sb sample_disk) \<and> vol_ok sample_sb d'))"
  using alloc_block_refines_set [OF sample_vol_ok] sample_vol_ok by (simp only: sample_volume_fields) blast

text \<open>
  C29. A file is an array of bytes that starts out as zeros. Reading any range of it returns those bytes. Writing
  \<open>dat\<close> at \<open>offset\<close> does not panic and, unless the volume or the pointer tree is exhausted, overwrites exactly
  the bytes of that range, whichever of the direct and indirect blocks have to be allocated on the way; the updated
  inode record is on the volume, its size covers the write, and every other file whose blocks are disjoint reads
  as before, even when the write fails. (The range must end below $2^{32}$ blocks: the block index is truncated
  to 32 bits.)
\<close>

theorem write_overwrites_range:
  assumes v: "vol_ok sb d" and t: "tree_ok sb raw d"
    and ino: "1 \<le> ino" "ino \<le> inodes_count sb" and dat: "dat \<noteq> []"
    and rng: "offset + length dat \<le> 2 ^ 32 * block_size sb"
  shows "\<exists>r raw' d'. write_file_range sb ino offset dat (raw, d) = Inr (r, raw', d') \<and> vol_ok sb d' \<and>
    (\<forall>other from bf. tree_ok sb other d \<and> tree sb other d \<inter> tree sb raw d = {} \<and>
       from + length bf \<le> 2 ^ 32 * block_size sb \<longrightarrow>
       read_file_range sb other from (bf, d) = Inr (Inr (), peek (file_bytes sb other d) from (length bf), d) \<and>
       read_file_range sb other from (bf, d') = Inr (Inr (), peek (file_bytes sb other d) from (length bf), d')) \<and>
    (case r of
       Inl e \<Rightarrow> e = NoSpace \<or> e = TooLarge \<and> capacity sb * block_size sb < offset + length dat
     | Inr n \<Rightarrow> n = length dat \<and> read_inode sb ino d' = Inr (Inr raw', d') \<and>
         (is_reg raw = Inr True \<longrightarrow> isize raw' = Inr (max (size_of raw) (offset + length dat))) \<and>
         (\<forall>from bf. from + length bf \<le> 2 ^ 32 * block_size sb \<longrightarrow>
            read_file_range sb raw from (bf, d) = Inr (Inr (), peek (file_bytes sb raw d) from (length bf), d) \<and>
            read_file_range sb raw' from (bf, d') =
              Inr (Inr (), peek (poke (file_bytes sb raw d) offset dat) from (length bf), d')))"
proof (rule write_file_range_ok [OF v t ino dat rng])
  fix e raw' d'
  assume r: "write_file_range sb ino offset dat (raw, d) = Inr (Inl e, raw', d')" and k: "kept sb raw d raw' d'"
    and e: "e = NoSpace \<or> e = TooLarge \<and> capacity sb * block_size sb < offset + length dat"
  have m: "meta sb d' = meta sb d" using keptD(3) [OF k] by (simp add: same_places_def)
  have b: "blk sb d' c = blk sb d c" if "c \<in> others sb raw d" for c using keptD(7) [OF k] that by blast
  show ?thesis
    using r e keptD(1) [OF k] others_read [OF v keptD(1,5) [OF k] m b] by (intro exI conjI allI impI) auto
next
  fix raw1 d1 raw2
  let ?d = "with_inode sb d1 ino raw2"
  assume r: "write_file_range sb ino offset dat (raw, d) = Inr (Inr (length dat), raw2, ?d)"
    and k: "kept sb raw d raw1 d1" and f: "file_bytes sb raw1 d1 = poke (file_bytes sb raw d) offset dat"
    and raw2: "length (buf raw2) = length (buf raw1)" "\<And>s. s < 15 \<Longrightarrow> slot raw2 s = slot raw1 s"
    and size: "is_reg raw = Inr True \<longrightarrow> size_of raw2 = max (size_of raw) (offset + length dat)"
  have F: "vol_ok sb ?d" "tree_ok sb raw2 ?d" "file_bytes sb raw2 ?d = poke (file_bytes sb raw d) offset dat"
    "used sb d \<subseteq> used sb ?d" "meta sb ?d = meta sb d" "\<And>c. c \<in> others sb raw d \<Longrightarrow> blk sb ?d c = blk sb d c"
    using finish_write [OF k ino v raw2] f by simp_all
  have len: "length (buf raw2) = inode_size sb" by (rule tree_okD [OF F(2)])
  then have sz: "isize raw2 = Inr (size_of raw2)" using geometryD(13) [OF vol_okD(1) [OF v]] by (intro isize_ok) simp
  note W = write_inode_ok(6) [OF keptD(1) [OF k] ino len]
  have O: "\<forall>other from bf. tree_ok sb other d \<and> tree sb other d \<inter> tree sb raw d = {} \<and>
       from + length bf \<le> 2 ^ 32 * block_size sb \<longrightarrow>
       read_file_range sb other from (bf, d) = Inr (Inr (), peek (file_bytes sb other d) from (length bf), d) \<and>
       read_file_range sb other from (bf, ?d) = Inr (Inr (), peek (file_bytes sb other d) from (length bf), ?d)"
    using others_read [OF v F(1,4,5,6)] by blast
  have R: "\<forall>from bf. from + length bf \<le> 2 ^ 32 * block_size sb \<longrightarrow>
       read_file_range sb raw from (bf, d) = Inr (Inr (), peek (file_bytes sb raw d) from (length bf), d) \<and>
       read_file_range sb raw2 from (bf, ?d) =
         Inr (Inr (), peek (poke (file_bytes sb raw d) offset dat) from (length bf), ?d)"
    using read_file_range_ok [OF v t] read_file_range_ok [OF F(1,2)] unfolding F(3) by blast
  show ?thesis
    using r F(1) W sz size O R by (intro exI [of _ "Inr (length dat)"] exI [of _ raw2] exI [of _ ?d]) simp
qed

theorem write_overwrites_range_witness:
  "vol_ok sample_sb sample_disk \<and> tree_ok sample_sb sample_file sample_disk \<and>
   (\<exists>r raw' d'. write_file_range sample_sb 12 20000 [1, 2, 3] (sample_file, sample_disk) = Inr (r, raw', d') \<and>
     vol_ok sample_sb d' \<and>
     (case r of
        Inl e \<Rightarrow> e = NoSpace
      | Inr n \<Rightarrow> n = 3 \<and> read_inode sample_sb 12 d' = Inr (Inr raw', d') \<and>
          read_file_range sample_sb raw' 20001 ([0, 0], d') =
            Inr (Inr (), peek (poke (file_bytes sample_sb sample_file sample_disk) 20000 [1, 2, 3]) 20001 2, d')))"
proof -
  have cap: "\<not> capacity sample_sb * block_size sample_sb < 20000 + length [1, 2, 3 :: u8]"
    by (simp add: capacity_def ppb_def)
  have "20000 + length [1, 2, 3 :: u8] \<le> 2 ^ 32 * block_size sample_sb" by simp
  from write_overwrites_range [OF sample_vol_ok sample_tree(2) _ _ _ this, of 12] obtain r raw' d' where
    w: "write_file_range sample_sb 12 20000 [1, 2, 3] (sample_file, sample_disk) = Inr (r, raw', d')" "vol_ok sample_sb d'"
    "case r of
       Inl e \<Rightarrow> e = NoSpace \<or> e = TooLarge \<and> capacity sample_sb * block_size sample_sb < 20000 + length [1, 2, 3 :: u8]
     | Inr n \<Rightarrow> n = length [1, 2, 3 :: u8] \<and> read_inode sample_sb 12 d' = Inr (Inr raw', d') \<and>
         (is_reg sample_file = Inr True \<longrightarrow> isize raw' = Inr (max (size_of sample_file) (20000 + length [1, 2, 3 :: u8]))) \<and>
         (\<forall>from bf. from + length bf \<le> 2 ^ 32 * block_size sample_sb \<longrightarrow>
            read_file_range sample_sb sample_file from (bf, sample_disk) =
              Inr (Inr (), peek (file_bytes sample_sb sample_file sample_disk) from (length bf), sample_disk) \<and>
            read_file_range sample_sb raw' from (bf, d') =
              Inr (Inr (), peek (poke (file_bytes sample_sb sample_file sample_disk) 20000 [1, 2, 3]) from (length bf), d'))"
    by force
  show ?thesis
  proof (cases r)
    case (Inl e)
    then show ?thesis using w cap sample_vol_ok sample_tree(2) by auto
  next
    case (Inr n)
    with w(3) have n: "n = 3" "read_inode sample_sb 12 d' = Inr (Inr raw', d')"
      and all: "\<forall>from bf. from + length bf \<le> 2 ^ 32 * block_size sample_sb \<longrightarrow>
            read_file_range sample_sb sample_file from (bf, sample_disk) =
              Inr (Inr (), peek (file_bytes sample_sb sample_file sample_disk) from (length bf), sample_disk) \<and>
            read_file_range sample_sb raw' from (bf, d') =
              Inr (Inr (), peek (poke (file_bytes sample_sb sample_file sample_disk) 20000 [1, 2, 3]) from (length bf), d')"
      by simp_all
    have "length [0, 0 :: u8] = 2" by simp
    then have "read_file_range sample_sb raw' 20001 ([0, 0], d') =
        Inr (Inr (), peek (poke (file_bytes sample_sb sample_file sample_disk) 20000 [1, 2, 3]) 20001 2, d')"
      using all [rule_format, of 20001 "[0, 0]"] by (simp only: sample_volume_fields) simp
    then show ?thesis using n w(1,2) Inr sample_vol_ok sample_tree(2) by simp
  qed
qed

end
