(* ===== verification/Ext2_Adapter_Props.thy ===== *)
theory Ext2_Adapter_Props
  imports Ext2_Adapter Ext2_Props
begin

text \<open>
  The adapter keeps its own copies of the bitmap code of the crate. They are shown to be the same computations, on
  every disk and every superblock, errors and panics included, so that what is proved of the crate's allocators
  holds of the ones the kernel runs. Then open files: what a write, a seek and a read through one descriptor give,
  and what two descriptors of the same file lose.
\<close>

section \<open>Conversion of errors\<close>

lemma bindR_assoc: "bindR (bindR m f) g = bindR m (\<lambda>x. bindR (f x) g)"
  by (cases m) simp_all

lemma intoE_bind: "intoE (bindE m f) = bindE (intoE m) (\<lambda>x. intoE (f x))"
  by (auto simp: fun_eq_iff intoE_def mapErr_def bindE_def bindR_assoc split: sum.splits intro!: arg_cong [where f = "bindR _"])

lemma intoE_simps [simp]:
  "intoE (liftE r) = liftE r" "intoE (retE x) = retE x" "intoE (errE e) = errE (errno_of e)"
  by (cases r; simp add: fun_eq_iff intoE_def mapErr_def run_simps)
     (simp_all add: fun_eq_iff intoE_def mapErr_def run_simps)

lemma intoE_if: "intoE (if b then m else n) = (if b then intoE m else intoE n)"
  by simp

lemma intoE_prod: "intoE (case p of (a, b) \<Rightarrow> f a b) = (case p of (a, b) \<Rightarrow> intoE (f a b))"
  by (cases p) simp

lemma bindE_liftE_bind: "bindE (liftE (bindR r f)) g = bindE (liftE r) (\<lambda>x. bindE (liftE (f x)) g)"
  by (cases r) (simp_all add: fun_eq_iff run_simps)

lemma liftE_bind: "liftE (bindR r f) = bindE (liftE r) (\<lambda>x. liftE (f x))"
  by (cases r) (simp_all add: fun_eq_iff run_simps)

lemma liftE_Inr: "liftE (Inr x) = retE x"
  by (simp add: fun_eq_iff run_simps)

lemma sectors_into:
  "mapErr (\<lambda>_. EIO) (read_sectors lba n k) = intoE (read_sectors lba n k)"
  "mapErr (\<lambda>_. EIO) (write_sectors lba n b) = intoE (write_sectors lba n b)"
  by (simp_all add: fun_eq_iff mapErr_def intoE_def read_sectors_def write_sectors_def Let_def)

section \<open>The copies\<close>

lemma bgd_location_same: "x_bgd_location = bgd_location"
  by (simp add: fun_eq_iff x_bgd_location_def bgd_location_def)

lemma in_group_same: "x_blocks_in_group = blocks_in_group" "x_inodes_in_group = inodes_in_group"
  by (simp_all add: fun_eq_iff x_blocks_in_group_def blocks_in_group_def x_inodes_in_group_def inodes_in_group_def)

lemma read_bgd_same: "x_read_bgd sb g = intoE (read_bgd sb g)"
  by (simp add: x_read_bgd_def read_bgd_def bgd_location_same intoE_bind intoE_prod x_block_vec_def
      BlockGroupDesc_parse_def liftE_bind liftE_Inr)

lemma adjust_bgd_counts_same: "x_adjust_bgd_counts sb g a b c = intoE (adjust_bgd_counts sb g a b c)"
  by (simp add: x_adjust_bgd_counts_def adjust_bgd_counts_def bgd_location_same intoE_bind intoE_prod x_block_vec_def x_write_block_def)

lemma adjust_sb_counts_same: "x_adjust_sb_counts a b = intoE (adjust_sb_counts a b)"
  by (simp add: x_adjust_sb_counts_def adjust_sb_counts_def sectors_into intoE_bind)

text \<open>The inlined search is the search of the crate followed by setting the bit it found.\<close>

lemma take_free_bit_eq:
  "take_free_bit bm is =
     bindR (find_free_from bm is) (\<lambda>r. case r of
       None \<Rightarrow> Inr None
     | Some i \<Rightarrow> bindR (set_bit_in bm i) (\<lambda>bm'. Inr (Some (i, bm'))))"
proof (induction "is")
  case (Cons i "is")
  then show ?case by (cases "get_byte bm (i div 8)") (simp_all add: set_bit_in_def)
qed simp

lemma take_bit_bind:
  "bindE (liftE (take_free_bit bm [0 ..< n])) (\<lambda>r. case r of None \<Rightarrow> a | Some (i, bm') \<Rightarrow> f i bm') =
   bindE (liftE (find_first_free_bit bm n)) (\<lambda>r. case r of None \<Rightarrow> a | Some i \<Rightarrow> bindE (liftE (set_bit_in bm i)) (f i))"
  unfolding take_free_bit_eq find_first_free_bit_def bindE_liftE_bind
  by (intro arg_cong [where f = "bindE _"] ext)
     (auto simp: fun_eq_iff run_simps bindR_assoc split: option.split)

lemmas copy_simps = intoE_bind intoE_if intoE_prod read_bgd_same adjust_bgd_counts_same adjust_sb_counts_same
  x_block_vec_def x_write_block_def in_group_same

lemma alloc_block_same: "x_alloc_block sb = intoE (alloc_block sb)"
proof -
  have "x_alloc_block_in sb gs = intoE (alloc_block_in sb gs)" for gs
  proof (induction gs)
    case (Cons g gs)
    have o: "intoE (case r of None \<Rightarrow> m | Some x \<Rightarrow> f x) = (case r of None \<Rightarrow> intoE m | Some x \<Rightarrow> intoE (f x))" for r :: "nat option" and m f
      by (simp split: option.split)
    show ?case
      by (simp add: copy_simps take_bit_bind o Cons group_block_def bindE_liftE_bind cong: if_cong option.case_cong)
  qed simp
  then show ?thesis by (simp add: x_alloc_block_def alloc_block_def)
qed

lemma alloc_inode_same: "x_alloc_inode sb dir = intoE (alloc_inode sb dir)"
proof -
  have "x_alloc_inode_in sb dir gs = intoE (alloc_inode_in sb dir gs)" for gs
  proof (induction gs)
    case (Cons g gs)
    have o: "intoE (case r of None \<Rightarrow> m | Some x \<Rightarrow> f x) = (case r of None \<Rightarrow> intoE m | Some x \<Rightarrow> intoE (f x))" for r :: "nat option" and m f
      by (simp split: option.split)
    show ?case
      by (simp add: copy_simps take_bit_bind o Cons group_inode_def bindE_liftE_bind cong: if_cong option.case_cong)
  qed simp
  then show ?thesis by (simp add: x_alloc_inode_def alloc_inode_def)
qed

lemma free_block_same: "x_free_block sb b = intoE (free_block sb b)"
  by (simp add: x_free_block_def free_block_def copy_simps clear_bit_in_def bindE_liftE_bind bindE_liftE cong: if_cong)

lemma free_inode_same: "x_free_inode sb ino dir = intoE (free_inode sb ino dir)"
  by (simp add: x_free_inode_def free_inode_def copy_simps clear_bit_in_def bindE_liftE_bind bindE_liftE cong: if_cong)

section \<open>Open files\<close>

text \<open>What a write to a file does, in one piece.\<close>

lemma file_write_cases:
  assumes v: "vol_ok sb d" and t: "tree_ok sb raw d" and ino: "1 \<le> ino" "ino \<le> inodes_count sb" and dat: "dat \<noteq> []"
    and rng: "offset + length dat \<le> 2 ^ 32 * block_size sb"
  obtains (failed) e raw' d' where "write_file_range sb ino offset dat (raw, d) = Inr (Inl e, raw', d')" "vol_ok sb d'"
      "e = Ext2Error.NoSpace \<or> e = TooLarge"
    | (complete) raw' d' where "write_file_range sb ino offset dat (raw, d) = Inr (Inr (length dat), raw', d')"
      "vol_ok sb d'" "tree_ok sb raw' d'" "file_bytes sb raw' d' = poke (file_bytes sb raw d) offset dat"
      "is_reg raw = Inr True \<Longrightarrow> isize raw' = Inr (max (size_of raw) (offset + length dat))"
      "read_inode sb ino d' = Inr (Inr raw', d')" "used sb d \<subseteq> used sb d'" "meta sb d' = meta sb d"
      "\<And>c. c \<in> others sb raw d \<Longrightarrow> blk sb d' c = blk sb d c"
proof (rule write_file_range_ok [OF v t ino dat rng])
  fix e raw' d'
  assume "write_file_range sb ino offset dat (raw, d) = Inr (Inl e, raw', d')" "kept sb raw d raw' d'"
    "e = Ext2Error.NoSpace \<or> e = TooLarge \<and> capacity sb * block_size sb < offset + length dat"
  then show thesis using failed keptD(1) by blast
next
  fix raw1 d1 raw2
  assume r: "write_file_range sb ino offset dat (raw, d) = Inr (Inr (length dat), raw2, with_inode sb d1 ino raw2)"
    and k: "kept sb raw d raw1 d1" and f: "file_bytes sb raw1 d1 = poke (file_bytes sb raw d) offset dat"
    and raw2: "length (buf raw2) = length (buf raw1)" "\<And>s. s < 15 \<Longrightarrow> slot raw2 s = slot raw1 s"
    and sz: "is_reg raw = Inr True \<longrightarrow> size_of raw2 = max (size_of raw) (offset + length dat)"
  note F = finish_write [OF k ino v raw2]
  have len: "length (buf raw2) = inode_size sb" by (rule tree_okD [OF F(2)])
  then have "isize raw2 = Inr (size_of raw2)" using geometryD(13) [OF vol_okD(1) [OF v]] by (intro isize_ok) simp
  then show thesis
    using complete [OF r F(1,2) _ _ write_inode_ok(6) [OF keptD(1) [OF k] ino len] F(4,5,6)] F(3) f sz by simp
qed

lemma x_write_run:
  assumes "of_cell fs c = \<lparr>of_raw = raw, of_off = off\<rparr>" and "off + length bf < 2 ^ 64"
  shows "write_file_range sb ino off bf (raw, d) = Inr (Inr (length bf), raw', d') \<Longrightarrow>
      x_file_write sb ino c bf (fs, d) =
        Inr (Inr (length bf), fs\<lparr>of_cell := (of_cell fs)(c := \<lparr>of_raw = raw', of_off = off + length bf\<rparr>)\<rparr>, d')"
    and "write_file_range sb ino off bf (raw, d) = Inr (Inl e, raw', d') \<Longrightarrow>
      x_file_write sb ino c bf (fs, d) =
        Inr (Inl (if e = Ext2Error.NoSpace then file_error.NoSpace else IOError),
             fs\<lparr>of_cell := (of_cell fs)(c := \<lparr>of_raw = raw', of_off = off\<rparr>)\<rparr>, d')"
  using assms
  by (cases e; simp add: x_file_write_def x_write_file_range_def intoE_def mapErr_def run_simps onCell_def set_off_def Let_def)+

lemma x_seek_run:
  assumes "of_cell fs c = \<lparr>of_raw = raw, of_off = off\<rparr>" and "isize raw = Inr n" and "pos < 2 ^ 63"
  shows "x_file_seek c (int pos) 0 (fs, d) =
    Inr (Inr (int pos), fs\<lparr>of_cell := (of_cell fs)(c := \<lparr>of_raw = raw, of_off = pos\<rparr>)\<rparr>, d)"
  using assms by (simp add: x_file_seek_def run_simps compute_seek_def set_off_def)

lemma x_read_run:
  assumes "of_cell fs c = \<lparr>of_raw = raw, of_off = off\<rparr>" and "isize raw = Inr n" and "off + length bf \<le> n"
    and "off + length bf < 2 ^ 64" and "bf \<noteq> []"
    and "read_file_range sb raw off (bf, d) = Inr (Inr (), bs, d)"
  shows "x_file_read sb c bf (fs, d) =
    Inr (Inr bs, fs\<lparr>of_cell := (of_cell fs)(c := \<lparr>of_raw = raw, of_off = off + length bf\<rparr>)\<rparr>, d)"
proof -
  have "\<not> n \<le> off" "min (length bf) (n - off) = length bf" using assms(3,5) by (cases bf; auto)+
  then show ?thesis
    using assms by (simp add: x_file_read_def x_read_file_range_def intoE_def mapErr_def run_simps set_off_def Let_def)
qed

section \<open>Two writers\<close>

lemma write_piece_used:
  assumes v: "vol_ok sb d" and b: "b < blocks_count sb" "b \<notin> meta sb d"
    and w: "write_piece sb b (length piece) off piece (raw, d) = Inr (Inr (), raw, d')"
    and fit: "off + length piece \<le> block_size sb"
  shows "used sb d' = used sb d"
proof -
  note od = vol_okD(2) [OF v]
  define bf where "bf = (if length piece = block_size sb then piece
    else take off (blk sb d b) @ piece @ drop (off + length piece) (blk sb d b))"
  have len: "length bf = block_size sb" using fit by (simp add: bf_def)
  have "d' = set_blk sb d b bf"
    using w od b len fit unfolding bf_def
    by (cases "length piece = block_size sb") (simp_all add: write_piece_def run_simps splice_at_def)
  then show ?thesis using set_blk_keeps(1) [OF v not_meta [OF b(2)] len] by simp
qed

text \<open>The first write to an empty file, into its first block, takes one free block and cannot fail while there is one.\<close>

lemma first_write:
  assumes v: "vol_ok sb d" and t: "tree_ok sb raw d" and s0: "slot raw 0 = 0"
    and ino: "1 \<le> ino" "ino \<le> inodes_count sb" and dat: "dat \<noteq> []" "length dat \<le> block_size sb"
    and room: "\<not> {first_data_block sb ..< blocks_count sb} \<subseteq> used sb d"
  obtains raw' d' b where "write_file_range sb ino 0 dat (raw, d) = Inr (Inr (length dat), raw', d')"
    "b \<notin> used sb d" "used sb d' = insert b (used sb d)"
proof -
  note geo = vol_okD(1) [OF v]
  have bs: "0 < block_size sb" "block_size sb \<le> 4096" using geometryD(1) [OF geo] by auto
  have cap: "0 < capacity sb" by (simp add: capacity_def)
  from alloc_block_ok [OF v] room obtain b d1 where
    a: "alloc_or_nospace sb d = Inr (Inr b, d1)" "allocated sb d b d1"
    by (auto simp: alloc_or_nospace_def run_simps)
  have "b < 2 ^ 32" using allocatedD(3) [OF a(2)] geometryD(3) [OF geo] by simp
  from set_i_block_ok [OF tree_okD(1) [OF t] geo _ this, of 0] obtain raw1 where "set_i_block raw 0 b = Inr raw1" by auto
  then have run: "block_for_index_alloc sb 0 (raw, d) = Inr (Inr b, raw1, d1)"
    using s0 i_block_ok [OF tree_okD(1) [OF t] geo, of 0] a(1)
    by (simp add: block_for_index_alloc_def get_or_alloc_slot_def run_simps)
  with block_for_index_alloc_ok [OF v t cap] have g: "grew sb raw d raw1 d1" "holds_node sb (path_of sb 0) b raw1 d1"
    by (simp_all add: gives_def)
  from write_piece_ok [OF grewD(1,2) [OF g(1)], of 0 b dat] g(2) cap dat(2) obtain d2 where
    w: "write_piece sb b (length dat) 0 dat (raw1, d1) = Inr (Inr (), raw1, d2)" "kept sb raw1 d1 raw1 d2"
    by auto
  have "b \<notin> meta sb d1" using allocatedD(4) [OF a(2)] allocatedD(6) [OF a(2)] by (simp add: same_places_def)
  from write_piece_used [OF grewD(1) [OF g(1)] allocatedD(3) [OF a(2)] this w(1)] dat(2)
  have u: "used sb d2 = insert b (used sb d)" using allocatedD(5) [OF a(2)] by simp
  have loop: "write_range_loop sb 0 dat 0 (raw, d) = Inr (Inr (), raw1, d2)"
    using bs dat run w(1) write_range_loop.simps [of sb 0 dat 0] write_range_loop.simps [of sb 0 dat "length dat"]
    by (simp add: chunk_def run_simps)
  have len: "128 \<le> length (buf raw1)" using tree_okD(1) [OF grewD(2) [OF g(1)]] geometryD(13) [OF geo] by simp
  define raw2 where "raw2 = (if size_of raw1 < length dat then sized raw1 (length dat) else raw1)"
  have len2: "length (buf raw2) = inode_size sb"
    using sized_keeps(1) [OF len] tree_okD(1) [OF grewD(2) [OF g(1)]] by (simp add: raw2_def)
  note W = write_inode_ok [OF keptD(1) [OF w(2)] ino len2]
  have "length dat < 2 ^ 64" using dat(2) bs by simp
  then have "write_file_range sb ino 0 dat (raw, d) = Inr (Inr (length dat), raw2, with_inode sb d2 ino raw2)"
    using loop dat(1) add64_ok [of 0 "length dat"] isize_ok [OF len] set_isize_ok [OF len] W(1)
    by (cases "size_of raw1 < length dat") (simp_all add: write_file_range_def run_simps raw2_def)
  then show ?thesis using that allocatedD(2) [OF a(2)] u W(3) by metis
qed

text \<open>A file without blocks reads as zeros, whatever is on the volume.\<close>

lemma empty_file:
  assumes "tree sb raw d = {}" and "geometry sb"
  shows "tree sb raw d' = {}" "file_bytes sb raw d' = (\<lambda>_. 0)" "slot raw 0 = 0"
    "tree_ok sb raw d \<Longrightarrow> tree_ok sb raw d'"
proof -
  have s: "slot raw k = 0" if "k < 15" for k
  proof -
    have "slot raw k \<in> node sb raw d ` {x. valid_node sb x}"
      using that by (intro image_eqI [of _ _ "(k, [])"]) simp_all
    then show ?thesis using assms(1) by (auto simp: tree_def)
  qed
  then show "slot raw 0 = 0" by simp
  have n: "node sb raw d' x = 0" if "valid_node sb x" for x
    using that s by (cases x) (simp add: node_def valid_node_def foldl_child_0)
  then show "tree sb raw d' = {}" by (auto simp: tree_def)
  then show "tree_ok sb raw d \<Longrightarrow> tree_ok sb raw d'" using n by (auto simp: tree_ok_def)
  show "file_bytes sb raw d' = (\<lambda>_. 0)"
    using n path_of_valid [OF assms(2)] geometryD(1) [OF assms(2)] by (auto simp: file_bytes_def leaf_data_def fun_eq_iff)
qed

section \<open>Properties\<close>

text \<open>
  C38. The adapter's own block and inode allocators, and its own directory-record writer, do exactly what those of the
  crate do: on every disk and for every superblock they write the same blocks in the same order, return the same
  numbers, fail in the same cases (with the error converted) and panic in the same cases.
\<close>

theorem adapter_allocators_agree:
  "x_alloc_block sb = intoE (alloc_block sb) \<and> x_free_block sb b = intoE (free_block sb b) \<and>
   x_alloc_inode sb dir = intoE (alloc_inode sb dir) \<and> x_free_inode sb ino dir = intoE (free_inode sb ino dir) \<and>
   x_write_dirent bf ino n name kind = write_dirent bf ino n name (vfs_file_type_to_ext2 kind) \<and>
   ext2_file_type_to_vfs (vfs_file_type_to_ext2 kind) = kind"
  by (cases kind)
     (simp_all add: alloc_block_same free_block_same alloc_inode_same free_inode_same x_write_dirent_def write_dirent_def
        ext2_file_type_to_vfs_def)

text \<open>
  C39. Writing through an open file of the disk, seeking back and reading gives the written bytes. On a well-formed
  volume the write either fails (with the error for a full volume, or an I/O error for a file that would be too
  long) or reports all bytes; then seeking to where the write began and reading as many bytes returns them, and
  the file that later opens will find is the old one overwritten there.
\<close>

theorem ext2_write_seek_read:
  assumes v: "vol_ok sb d" and t: "tree_ok sb raw d" and reg: "is_reg raw = Inr True"
    and ino: "1 \<le> ino" "ino \<le> inodes_count sb" and c: "of_cell fs c = \<lparr>of_raw = raw, of_off = off\<rparr>"
    and dat: "dat \<noteq> []" and rng: "off + length dat \<le> 2 ^ 32 * block_size sb"
  shows "\<exists>r fs1 d1. x_file_write sb ino c dat (fs, d) = Inr (r, fs1, d1) \<and> vol_ok sb d1 \<and>
    (case r of
       Inl e \<Rightarrow> e = file_error.NoSpace \<or> e = IOError
     | Inr n \<Rightarrow> n = length dat \<and>
         (\<exists>fs2 fs3. x_file_seek c (int off) 0 (fs1, d1) = Inr (Inr (int off), fs2, d1) \<and>
            x_file_read sb c (replicate n 0) (fs2, d1) = Inr (Inr dat, fs3, d1)) \<and>
         (\<exists>raw'. read_inode sb ino d1 = Inr (Inr raw', d1) \<and>
            file_bytes sb raw' d1 = poke (file_bytes sb raw d) off dat))"
proof (rule file_write_cases [OF v t ino dat rng])
  have bs: "block_size sb \<le> 4096" using geometryD(1) [OF vol_okD(1) [OF v]] by auto
  then have lim: "off + length dat < 2 ^ 63" using rng by (auto intro: le_less_trans)
  then have lim': "off + length dat < 2 ^ 64" by simp
  {
    fix e raw' d'
    assume "write_file_range sb ino off dat (raw, d) = Inr (Inl e, raw', d')" "vol_ok sb d'"
      "e = Ext2Error.NoSpace \<or> e = TooLarge"
    then show ?thesis using x_write_run(2) [OF c lim'] by auto
  next
    fix raw' d'
    assume w: "write_file_range sb ino off dat (raw, d) = Inr (Inr (length dat), raw', d')" "vol_ok sb d'"
      "tree_ok sb raw' d'" "file_bytes sb raw' d' = poke (file_bytes sb raw d) off dat"
      and sz: "is_reg raw = Inr True \<Longrightarrow> isize raw' = Inr (max (size_of raw) (off + length dat))"
      and ri: "read_inode sb ino d' = Inr (Inr raw', d')"
    let ?fs1 = "fs\<lparr>of_cell := (of_cell fs)(c := \<lparr>of_raw = raw', of_off = off + length dat\<rparr>)\<rparr>"
    let ?fs2 = "?fs1\<lparr>of_cell := (of_cell ?fs1)(c := \<lparr>of_raw = raw', of_off = off\<rparr>)\<rparr>"
    note w1 = x_write_run(1) [OF c lim' w(1)]
    have s: "x_file_seek c (int off) 0 (?fs1, d') = Inr (Inr (int off), ?fs2, d')"
      by (rule x_seek_run [OF _ sz [OF reg]]) (use lim in simp_all)
    have "read_file_range sb raw' off (replicate (length dat) 0, d') = Inr (Inr (), dat, d')"
      using read_file_range_ok [OF w(2,3), of off "replicate (length dat) 0"] rng w(4) by (simp add: w(4) peek_poke)
    then have "\<exists>fs3. x_file_read sb c (replicate (length dat) 0) (?fs2, d') = Inr (Inr dat, fs3, d')"
      using x_read_run [of ?fs2 c raw' off _ "replicate (length dat) 0" sb d' dat] sz [OF reg] lim' dat by auto
    then show ?thesis using w1 w(2,4) s ri by (intro exI conjI) auto
  }
qed

definition sample_opens :: ofiles where
  "sample_opens = \<lparr>of_cell = (\<lambda>_. \<lparr>of_raw = sample_file, of_off = 0\<rparr>), of_next = 2\<rparr>"

lemma sample_file_fields: "is_reg sample_file = Inr True" "size_of sample_file = 0"
proof -
  have z: "le_val (replicate n 0) = 0" for n by (induction n) simp_all
  have "take 4 (drop 4 (buf sample_file)) = replicate 4 0" "take 4 (drop 108 (buf sample_file)) = replicate 4 0"
    by (simp_all add: sample_file_def numeral_eq_Suc)
  then show "size_of sample_file = 0" by (simp add: size_of_def field_def z)
  have "take 2 (buf sample_file) = [0, 0x80]" "2 \<le> length (buf sample_file)"
    by (simp_all add: sample_file_def numeral_2_eq_2)
  then show "is_reg sample_file = Inr True"
    by (simp add: is_reg_def mode_kind_def i_mode_def get_le_def slice_of_def)
qed

theorem ext2_write_seek_read_witness:
  "vol_ok sample_sb sample_disk \<and> tree_ok sample_sb sample_file sample_disk \<and>
   (\<exists>r fs1 d1. x_file_write sample_sb 12 0 [1, 2, 3] (sample_opens, sample_disk) = Inr (r, fs1, d1) \<and> vol_ok sample_sb d1 \<and>
     (case r of
        Inl e \<Rightarrow> e = file_error.NoSpace \<or> e = IOError
      | Inr n \<Rightarrow> n = 3 \<and>
          (\<exists>fs2 fs3. x_file_seek 0 0 0 (fs1, d1) = Inr (Inr 0, fs2, d1) \<and>
             x_file_read sample_sb 0 (replicate n 0) (fs2, d1) = Inr (Inr [1, 2, 3], fs3, d1))))"
proof -
  have c: "of_cell sample_opens 0 = \<lparr>of_raw = sample_file, of_off = 0\<rparr>" by (simp add: sample_opens_def)
  have "0 + length [1, 2, 3 :: u8] \<le> 2 ^ 32 * block_size sample_sb" by simp
  from ext2_write_seek_read [OF sample_vol_ok sample_tree(2) sample_file_fields(1) _ _ c _ this, of 12]
  obtain r fs1 d1 where w: "x_file_write sample_sb 12 0 [1, 2, 3] (sample_opens, sample_disk) = Inr (r, fs1, d1)"
    "vol_ok sample_sb d1"
    "case r of
       Inl e \<Rightarrow> e = file_error.NoSpace \<or> e = IOError
     | Inr n \<Rightarrow> n = length [1, 2, 3 :: u8] \<and>
         (\<exists>fs2 fs3. x_file_seek 0 (int 0) 0 (fs1, d1) = Inr (Inr (int 0), fs2, d1) \<and>
            x_file_read sample_sb 0 (replicate n 0) (fs2, d1) = Inr (Inr [1, 2, 3], fs3, d1)) \<and>
         (\<exists>raw'. read_inode sample_sb 12 d1 = Inr (Inr raw', d1) \<and>
            file_bytes sample_sb raw' d1 = poke (file_bytes sample_sb sample_file sample_disk) 0 [1, 2, 3])"
    by force
  then show ?thesis using sample_vol_ok sample_tree(2) by (cases r) auto
qed

text \<open>
  C40. Two processes that open the same empty file lose data. Each descriptor keeps its own copy of the inode
  record, so when both write (and both are told that all their bytes were written), the file on the volume holds
  the bytes of the second writer only: the block of the first one is no longer part of the file, and the size is
  that of the second write, even when the first one was longer.
\<close>

theorem two_writers_lose_data:
  assumes v: "vol_ok sb d" and t: "tree_ok sb raw d" and reg: "is_reg raw = Inr True" and empty: "tree sb raw d = {}" "size_of raw = 0"
    and ino: "1 \<le> ino" "ino \<le> inodes_count sb" and ne: "c1 \<noteq> c2"
    and cells: "of_cell fs c1 = \<lparr>of_raw = raw, of_off = 0\<rparr>" "of_cell fs c2 = \<lparr>of_raw = raw, of_off = 0\<rparr>"
    and dat: "dat1 \<noteq> []" "length dat1 \<le> block_size sb" "dat2 \<noteq> []" "length dat2 \<le> block_size sb"
    and free: "{b1, b2} \<subseteq> {first_data_block sb ..< blocks_count sb} - used sb d" "b1 \<noteq> b2"
  shows "\<exists>fs1 d1 fs2 d2 raw'. x_file_write sb ino c1 dat1 (fs, d) = Inr (Inr (length dat1), fs1, d1) \<and>
    x_file_write sb ino c2 dat2 (fs1, d1) = Inr (Inr (length dat2), fs2, d2) \<and>
    read_inode sb ino d2 = Inr (Inr raw', d2) \<and> isize raw' = Inr (length dat2) \<and>
    (\<forall>pos bf. pos + length bf \<le> 2 ^ 32 * block_size sb \<longrightarrow>
       read_file_range sb raw' pos (bf, d2) = Inr (Inr (), peek (poke (\<lambda>_. 0) 0 dat2) pos (length bf), d2))"
proof -
  note geo = vol_okD(1) [OF v]
  have "block_size sb \<le> 4096" using geometryD(1) [OF geo] by auto
  then have lim: "0 + length dat1 < 2 ^ 64" "0 + length dat2 < 2 ^ 64" using dat by simp_all
  have rng: "0 + length dat1 \<le> 2 ^ 32 * block_size sb" "0 + length dat2 \<le> 2 ^ 32 * block_size sb" using dat by simp_all
  note E = empty_file [OF empty(1) geo]
  have room: "\<not> {first_data_block sb ..< blocks_count sb} \<subseteq> used sb d" using free by auto
  obtain raw1 d1 b where w1: "write_file_range sb ino 0 dat1 (raw, d) = Inr (Inr (length dat1), raw1, d1)"
    and u1: "used sb d1 = insert b (used sb d)"
    by (rule first_write [OF v t E(3) ino dat(1,2) room])
  have v1: "vol_ok sb d1" by (rule file_write_cases [OF v t ino dat(1) rng(1)]) (use w1 in simp_all)
  have "b1 \<notin> used sb d1 \<or> b2 \<notin> used sb d1" using u1 free by auto
  then have room1: "\<not> {first_data_block sb ..< blocks_count sb} \<subseteq> used sb d1" using free by auto
  note t1 = E(4) [OF t, of d1]
  obtain raw2 d2 where w2: "write_file_range sb ino 0 dat2 (raw, d1) = Inr (Inr (length dat2), raw2, d2)"
    by (rule first_write [OF v1 t1 E(3) ino dat(3,4) room1])
  have R: "vol_ok sb d2" "tree_ok sb raw2 d2" "file_bytes sb raw2 d2 = poke (\<lambda>_. 0) 0 dat2"
    "isize raw2 = Inr (length dat2)" "read_inode sb ino d2 = Inr (Inr raw2, d2)"
    by (rule file_write_cases [OF v1 t1 ino dat(3) rng(2)]; use w2 E(2) [of d1] reg empty(2) in simp)+
  note r1 = x_write_run(1) [OF cells(1) lim(1) w1]
  let ?fs1 = "fs\<lparr>of_cell := (of_cell fs)(c1 := \<lparr>of_raw = raw1, of_off = 0 + length dat1\<rparr>)\<rparr>"
  have "of_cell ?fs1 c2 = \<lparr>of_raw = raw, of_off = 0\<rparr>" using cells(2) ne by simp
  note r2 = x_write_run(1) [OF this lim(2) w2]
  have "\<forall>pos bf. pos + length bf \<le> 2 ^ 32 * block_size sb \<longrightarrow>
       read_file_range sb raw2 pos (bf, d2) = Inr (Inr (), peek (poke (\<lambda>_. 0) 0 dat2) pos (length bf), d2)"
    using read_file_range_ok [OF R(1,2)] R(3) by simp
  then show ?thesis using r1 r2 R(4,5) by blast
qed

theorem two_writers_lose_data_witness:
  "\<exists>fs1 d1 fs2 d2 raw'. x_file_write sample_sb 12 0 [1, 2, 3] (sample_opens, sample_disk) = Inr (Inr 3, fs1, d1) \<and>
    x_file_write sample_sb 12 1 [9] (fs1, d1) = Inr (Inr 1, fs2, d2) \<and>
    read_inode sample_sb 12 d2 = Inr (Inr raw', d2) \<and> isize raw' = Inr 1 \<and>
    read_file_range sample_sb raw' 0 ([7, 7, 7], d2) = Inr (Inr (), [9, 0, 0], d2)"
proof -
  have c: "of_cell sample_opens 0 = \<lparr>of_raw = sample_file, of_off = 0\<rparr>" "of_cell sample_opens 1 = \<lparr>of_raw = sample_file, of_off = 0\<rparr>"
    by (simp_all add: sample_opens_def)
  have f: "{10, 11} \<subseteq> {first_data_block sample_sb ..< blocks_count sample_sb} - used sample_sb sample_disk"
    by (simp add: sample_used)
  have p: "peek (poke (\<lambda>_. 0) 0 [9 :: u8]) 0 (length [7, 7, 7 :: u8]) = [9, 0, 0]"
    by (simp add: peek_def poke_def upt_rec)
  obtain fs1 d1 fs2 d2 raw' where w:
    "x_file_write sample_sb 12 0 [1, 2, 3] (sample_opens, sample_disk) = Inr (Inr (length [1, 2, 3 :: u8]), fs1, d1)"
    "x_file_write sample_sb 12 1 [9] (fs1, d1) = Inr (Inr (length [9 :: u8]), fs2, d2)"
    "read_inode sample_sb 12 d2 = Inr (Inr raw', d2)" "isize raw' = Inr (length [9 :: u8])"
    "\<forall>pos bf. pos + length bf \<le> 2 ^ 32 * block_size sample_sb \<longrightarrow>
       read_file_range sample_sb raw' pos (bf, d2) = Inr (Inr (), peek (poke (\<lambda>_. 0) 0 [9]) pos (length bf), d2)"
    using two_writers_lose_data [OF sample_vol_ok sample_tree(2) sample_file_fields(1) sample_tree(1) sample_file_fields(2)
      _ _ _ c _ _ _ _ f, of 12 "[1, 2, 3]" "[9]"] by force
  have "0 + length [7, 7, 7 :: u8] \<le> 2 ^ 32 * block_size sample_sb" by simp
  from w(5) [rule_format, OF this] p
  have "read_file_range sample_sb raw' 0 ([7, 7, 7], d2) = Inr (Inr (), [9, 0, 0], d2)" by simp
  then show ?thesis using w(1-4) by (intro exI conjI) simp_all
qed

end
