(* ===== verification/Port_Io.thy ===== *)
theory Port_Io
  imports Prelude
begin

text \<open>
  The port-I/O seam of the device drivers (\<^verbatim>\<open>src/hal/src/lib.rs\<close>). The trait \<open>PortIo\<close> is a record of its six
  operations over a device state, which every access may change; a driver takes the record as its argument, as
  the code is generic over the trait. The two implementations the crate itself has, the register map
  \<open>MockIo\<close> and the scripted port \<open>ScriptedIo\<close>, are instances of the record.
\<close>

type_synonym u16 = "16 word"

record 's port_io =
  inb :: "u16 \<Rightarrow> 's \<Rightarrow> u8 \<times> 's"
  outb :: "u16 \<Rightarrow> u8 \<Rightarrow> 's \<Rightarrow> 's"
  inw :: "u16 \<Rightarrow> 's \<Rightarrow> u16 \<times> 's"
  outw :: "u16 \<Rightarrow> u16 \<Rightarrow> 's \<Rightarrow> 's"
  inl :: "u16 \<Rightarrow> 's \<Rightarrow> u32 \<times> 's"
  outl :: "u16 \<Rightarrow> u32 \<Rightarrow> 's \<Rightarrow> 's"

section \<open>The register map\<close>

type_synonym mock_state = "u16 \<Rightarrow> u32 option"

definition mock_read :: "u16 \<Rightarrow> mock_state \<Rightarrow> u32" where
  "mock_read p m = (case m p of None \<Rightarrow> 0 | Some v \<Rightarrow> v)"

definition MockIo :: "mock_state port_io" where
  "MockIo =
     \<lparr>inb = (\<lambda>p m. (ucast (mock_read p m), m)), outb = (\<lambda>p v m. m(p \<mapsto> ucast v)),
      inw = (\<lambda>p m. (ucast (mock_read p m), m)), outw = (\<lambda>p v m. m(p \<mapsto> ucast v)),
      inl = (\<lambda>p m. (mock_read p m, m)), outl = (\<lambda>p v m. m(p \<mapsto> v))\<rparr>"

section \<open>The scripted port\<close>

record scripted =
  reads :: "u16 \<Rightarrow> u32 list"
  sticky :: "u16 \<Rightarrow> u32 option"
  writes :: "(u16 \<times> u32) list"

definition scripted_new :: scripted where
  "scripted_new = \<lparr>reads = (\<lambda>_. []), sticky = (\<lambda>_. None), writes = []\<rparr>"

definition queue_read :: "u16 \<Rightarrow> u32 \<Rightarrow> scripted \<Rightarrow> scripted" where
  "queue_read p v s = s\<lparr>reads := (reads s)(p := reads s p @ [v])\<rparr>"

definition queue_reads :: "u16 \<Rightarrow> u32 list \<Rightarrow> scripted \<Rightarrow> scripted" where
  "queue_reads p vs s = fold (queue_read p) vs s"

definition scripted_read :: "u16 \<Rightarrow> scripted \<Rightarrow> u32 \<times> scripted" where
  "scripted_read p s =
     (case reads s p of
        v # vs \<Rightarrow> (v, s\<lparr>reads := (reads s)(p := vs), sticky := (sticky s)(p \<mapsto> v)\<rparr>)
      | [] \<Rightarrow> ((case sticky s p of None \<Rightarrow> 0 | Some v \<Rightarrow> v), s))"

definition scripted_write :: "u16 \<Rightarrow> u32 \<Rightarrow> scripted \<Rightarrow> scripted" where
  "scripted_write p v s = s\<lparr>writes := writes s @ [(p, v)]\<rparr>"

definition ScriptedIo :: "scripted port_io" where
  "ScriptedIo =
     \<lparr>inb = (\<lambda>p s. map_prod ucast id (scripted_read p s)), outb = (\<lambda>p v. scripted_write p (ucast v)),
      inw = (\<lambda>p s. map_prod ucast id (scripted_read p s)), outw = (\<lambda>p v. scripted_write p (ucast v)),
      inl = scripted_read, outl = scripted_write\<rparr>"

lemma scripted_ops:
  "inb ScriptedIo p s = map_prod ucast id (scripted_read p s)" "outb ScriptedIo p v s = scripted_write p (ucast v) s"
  by (simp_all add: ScriptedIo_def)

lemma ucast_u32_u8 [simp]: "(ucast (ucast (x :: u8) :: u32) :: u8) = x"
  by (rule bit_word_eqI) (simp add: bit_simps)

lemma queue_reads_eq: "queue_reads p vs s = s\<lparr>reads := (reads s)(p := reads s p @ vs)\<rparr>"
  by (induction vs arbitrary: s) (simp_all add: queue_reads_def queue_read_def)

text \<open>
  A script of reads is served in order: reading a port as often as values were queued on a fresh script yields
  these values, and the last of them from then on.
\<close>

primrec read_times :: "nat \<Rightarrow> u16 \<Rightarrow> scripted \<Rightarrow> u32 list \<times> scripted" where
  "read_times 0 p s = ([], s)"
| "read_times (Suc n) p s =
     (case scripted_read p s of (v, s) \<Rightarrow> case read_times n p s of (vs, s) \<Rightarrow> (v # vs, s))"

lemma read_times_queue:
  "reads s p = vs \<Longrightarrow> fst (read_times (length vs + k) p s) =
     vs @ replicate k (if vs = [] then (case sticky s p of None \<Rightarrow> 0 | Some v \<Rightarrow> v) else last vs)"
proof (induction vs arbitrary: s)
  case Nil
  then have "read_times k p s = (replicate k (case sticky s p of None \<Rightarrow> 0 | Some v \<Rightarrow> v), s)"
    by (induction k) (simp_all add: scripted_read_def)
  then show ?case by simp
next
  case (Cons v vs)
  define s' where "s' = s\<lparr>reads := (reads s)(p := vs), sticky := (sticky s)(p \<mapsto> v)\<rparr>"
  have "scripted_read p s = (v, s')" using Cons.prems by (simp add: scripted_read_def s'_def)
  moreover have "reads s' p = vs" "sticky s' p = Some v" by (simp_all add: s'_def)
  ultimately show ?case using Cons.IH [of s'] by (auto split: prod.split)
qed

end
