(* ===== verification/Rtc.thy ===== *)
theory Rtc
  imports Port_Io Bytes "HOL-Library.Signed_Division"
begin

text \<open>
  The CMOS real-time clock (\<^verbatim>\<open>src/hal/src/rtc.rs\<close>): the register reads with their bounded polling, the decoding of
  the four register formats, and the civil-calendar arithmetic, in checked 64-bit and 8-bit integers as the code
  computes it. The chip is the port-I/O argument. The calendar the arithmetic is compared with is the Gregorian
  one, generated from its rule for the length of a month by stepping day by day from 1970-01-01.
\<close>

unbundle bit_operations_syntax

section \<open>Calendar arithmetic\<close>

text \<open>Checked 64-bit signed and 8-bit unsigned results.\<close>

definition i64 :: "int \<Rightarrow> int res" where
  "i64 x = (if - (2 ^ 63) \<le> x \<and> x < 2 ^ 63 then Inr x else Inl Panic)"

definition chk8 :: "nat \<Rightarrow> nat res" where
  "chk8 x = (if x < 256 then Inr x else Inl Panic)"

definition days_from_civil :: "int \<Rightarrow> nat \<Rightarrow> nat \<Rightarrow> int res" where
  "days_from_civil y m d =
     bindR (if m \<le> 2 then i64 (y - 1) else Inr y) (\<lambda>y.
     bindR (if 0 \<le> y then Inr y else i64 (y - 399)) (\<lambda>n.
     let era = n sdiv 400 in
     bindR (i64 (era * 400)) (\<lambda>e.
     bindR (i64 (y - e)) (\<lambda>yoe.
     let m = int m; d = int d in
     bindR (i64 (153 * (if 2 < m then m - 3 else m + 9) + 2)) (\<lambda>k.
     bindR (i64 (k sdiv 5 + d - 1)) (\<lambda>doy.
     bindR (i64 (yoe * 365 + yoe sdiv 4 - yoe sdiv 100 + doy)) (\<lambda>doe.
     bindR (i64 (era * 146097)) (\<lambda>x.
     bindR (i64 (x + doe)) (\<lambda>x.
     i64 (x - 719468))))))))))"

section \<open>Reading the chip\<close>

definition CMOS_INDEX :: u16 where "CMOS_INDEX = 0x70"
definition CMOS_DATA :: u16 where "CMOS_DATA = 0x71"
definition REG_SECONDS :: u8 where "REG_SECONDS = 0x00"
definition REG_MINUTES :: u8 where "REG_MINUTES = 0x02"
definition REG_HOURS :: u8 where "REG_HOURS = 0x04"
definition REG_DAY :: u8 where "REG_DAY = 0x07"
definition REG_MONTH :: u8 where "REG_MONTH = 0x08"
definition REG_YEAR :: u8 where "REG_YEAR = 0x09"
definition REG_STATUS_A :: u8 where "REG_STATUS_A = 0x0A"
definition REG_STATUS_B :: u8 where "REG_STATUS_B = 0x0B"
definition STATUS_A_UPDATE_IN_PROGRESS :: u8 where "STATUS_A_UPDATE_IN_PROGRESS = 0x80"
definition STATUS_B_BINARY :: u8 where "STATUS_B_BINARY = 4"
definition STATUS_B_24H :: u8 where "STATUS_B_24H = 2"
definition MAX_ATTEMPTS :: nat where "MAX_ATTEMPTS = 1000"

definition bcd_to_bin :: "u8 \<Rightarrow> nat res" where
  "bcd_to_bin v =
     bindR (chk8 (unat (drop_bit 4 v) * 10)) (\<lambda>t. chk8 (unat (v AND 0x0F) + t))"

record RawTime =
  second :: u8
  minute :: u8
  hour :: u8
  day :: u8
  month :: u8
  year :: u8

definition cmos_read :: "'s port_io \<Rightarrow> u8 \<Rightarrow> 's \<Rightarrow> u8 \<times> 's" where
  "cmos_read io reg s = inb io CMOS_DATA (outb io CMOS_INDEX reg s)"

definition update_in_progress :: "'s port_io \<Rightarrow> 's \<Rightarrow> bool \<times> 's" where
  "update_in_progress io s =
     (case cmos_read io REG_STATUS_A s of (v, s) \<Rightarrow> (v AND STATUS_A_UPDATE_IN_PROGRESS \<noteq> 0, s))"

definition read_raw_snapshot :: "'s port_io \<Rightarrow> 's \<Rightarrow> RawTime \<times> 's" where
  "read_raw_snapshot io s =
     (case cmos_read io REG_SECONDS s of (sec, s) \<Rightarrow>
      case cmos_read io REG_MINUTES s of (mi, s) \<Rightarrow>
      case cmos_read io REG_HOURS s of (h, s) \<Rightarrow>
      case cmos_read io REG_DAY s of (d, s) \<Rightarrow>
      case cmos_read io REG_MONTH s of (mo, s) \<Rightarrow>
      case cmos_read io REG_YEAR s of (y, s) \<Rightarrow>
        (\<lparr>second = sec, minute = mi, hour = h, day = d, month = mo, year = y\<rparr>, s))"

primrec wait_uip :: "nat \<Rightarrow> 's port_io \<Rightarrow> 's \<Rightarrow> 's" where
  "wait_uip 0 io s = s"
| "wait_uip (Suc n) io s = (case update_in_progress io s of (busy, s) \<Rightarrow> if \<not> busy then s else wait_uip n io s)"

primrec stable_attempts :: "nat \<Rightarrow> 's port_io \<Rightarrow> 's \<Rightarrow> RawTime option \<times> 's" where
  "stable_attempts 0 io s = (None, s)"
| "stable_attempts (Suc n) io s =
     (case read_raw_snapshot io (wait_uip MAX_ATTEMPTS io s) of (fst_raw, s) \<Rightarrow>
      case read_raw_snapshot io (wait_uip MAX_ATTEMPTS io s) of (snd_raw, s) \<Rightarrow>
        if fst_raw = snd_raw then (Some fst_raw, s) else stable_attempts n io s)"

definition read_stable_snapshot :: "'s port_io \<Rightarrow> 's \<Rightarrow> RawTime option \<times> 's" where
  "read_stable_snapshot io s = stable_attempts MAX_ATTEMPTS io s"

text \<open>The decoding of a snapshot under the format bits of status register B.\<close>

definition decode_fields :: "RawTime \<Rightarrow> u8 \<Rightarrow> (nat \<times> nat \<times> nat \<times> nat \<times> nat \<times> nat) res" where
  "decode_fields raw status_b =
     (if status_b AND STATUS_B_BINARY \<noteq> 0
      then Inr (unat (second raw), unat (minute raw), unat (hour raw AND 0x7F), unat (day raw), unat (month raw),
                unat (year raw))
      else bindR (bcd_to_bin (second raw)) (\<lambda>sec.
           bindR (bcd_to_bin (minute raw)) (\<lambda>mi.
           bindR (bcd_to_bin (hour raw AND 0x7F)) (\<lambda>h.
           bindR (bcd_to_bin (day raw)) (\<lambda>d.
           bindR (bcd_to_bin (month raw)) (\<lambda>mo.
           bindR (bcd_to_bin (year raw)) (\<lambda>y. Inr (sec, mi, h, d, mo, y))))))))"

definition hour_of_day :: "bool \<Rightarrow> nat \<Rightarrow> u8 \<Rightarrow> nat res" where
  "hour_of_day pm h status_b =
     (if status_b AND STATUS_B_24H = 0
      then if pm \<and> h \<noteq> 12 then chk8 (h + 12) else if \<not> pm \<and> h = 12 then Inr 0 else Inr h
      else Inr h)"

definition read_unix_time :: "'s port_io \<Rightarrow> 's \<Rightarrow> (u64 option \<times> 's) res" where
  "read_unix_time io s =
     (case read_stable_snapshot io s of
        (None, s) \<Rightarrow> Inr (None, s)
      | (Some raw, s) \<Rightarrow>
          case cmos_read io REG_STATUS_B s of (status_b, s) \<Rightarrow>
            let pm = hour raw AND 0x80 \<noteq> 0 in
            bindR (decode_fields raw status_b) (\<lambda>(sec, mi, h, d, mo, year_2digit).
            bindR (hour_of_day pm h status_b) (\<lambda>h.
            bindR (days_from_civil (2000 + int year_2digit) mo d) (\<lambda>days.
            let secs_of_day = int h * 3600 + int mi * 60 + int sec in
            bindR (i64 (days * 86400)) (\<lambda>t.
            bindR (i64 (t + secs_of_day)) (\<lambda>t.
            Inr (Some (word_of_int t), s)))))))"

section \<open>The Gregorian calendar\<close>

type_synonym civil = "int \<times> nat \<times> nat"

definition leap :: "int \<Rightarrow> bool" where
  "leap y \<longleftrightarrow> 4 dvd y \<and> (\<not> 100 dvd y \<or> 400 dvd y)"

definition days_in_month :: "int \<Rightarrow> nat \<Rightarrow> nat" where
  "days_in_month y m = (if m = 2 then if leap y then 29 else 28 else if m \<in> {4, 6, 9, 11} then 30 else 31)"

fun valid_civil :: "civil \<Rightarrow> bool" where
  "valid_civil (y, m, d) \<longleftrightarrow> 1 \<le> m \<and> m \<le> 12 \<and> 1 \<le> d \<and> d \<le> days_in_month y m"

fun next_day :: "civil \<Rightarrow> civil" where
  "next_day (y, m, d) =
     (if d < days_in_month y m then (y, m, d + 1) else if m < 12 then (y, m + 1, 1) else (y + 1, 1, 1))"

primrec civil_day :: "nat \<Rightarrow> civil" where
  "civil_day 0 = (1970, 1, 1)"
| "civil_day (Suc n) = next_day (civil_day n)"

text \<open>The number the code computes, without the overflow checks.\<close>

definition shifted_year :: "int \<Rightarrow> nat \<Rightarrow> int" where
  "shifted_year y m = (if m \<le> 2 then y - 1 else y)"

definition year_start :: "int \<Rightarrow> int" where
  "year_start y = y div 400 * 146097 + (y mod 400) * 365 + (y mod 400) div 4 - (y mod 400) div 100 - 719468"

definition day_of_year :: "nat \<Rightarrow> nat \<Rightarrow> int" where
  "day_of_year m d = (153 * (if 2 < m then int m - 3 else int m + 9) + 2) div 5 + int d - 1"

definition civil_number :: "int \<Rightarrow> nat \<Rightarrow> nat \<Rightarrow> int" where
  "civil_number y m d = year_start (shifted_year y m) + day_of_year m d"

lemma sdiv_nonneg: "0 \<le> a \<Longrightarrow> 0 < b \<Longrightarrow> (a :: int) sdiv b = a div b"
  by (simp add: signed_divide_int_def sgn_if)

lemma sdiv_era: "(if 0 \<le> y then y else y - 399) sdiv 400 = (y :: int) div 400"
proof (cases "0 \<le> y")
  case True
  then show ?thesis by (simp add: sdiv_nonneg)
next
  case False
  then have "(y - 399) sdiv 400 = - ((399 - y) div 400)"
    by (simp add: signed_divide_int_def sgn_if)
  also have "(399 - y) div 400 = - (y div 400)"
  proof (rule int_div_pos_eq)
    show "399 - y = 400 * - (y div 400) + (399 - y mod 400)"
      using mult_div_mod_eq [of 400 y] by linarith
  qed (simp_all add: order.trans [OF less_imp_le [OF pos_mod_bound]])
  finally show ?thesis using False by simp
qed

lemma i64_eq: "- 9223372036854775808 \<le> x \<Longrightarrow> x < 9223372036854775808 \<Longrightarrow> i64 x = Inr x"
  by (simp add: i64_def)

lemma days_from_civil_eq:
  assumes y: "\<bar>y\<bar> \<le> 2 ^ 40" and m: "m < 2 ^ 32" and d: "d < 2 ^ 32"
  shows "days_from_civil y m d = Inr (civil_number y m d)"
proof -
  define z where "z = shifted_year y m"
  define e yo where "e = z div 400" and "yo = z mod 400"
  define k where "k = 153 * (if 2 < int m then int m - 3 else int m + 9) + 2"
  have y': "- 1099511627776 \<le> y" "y \<le> 1099511627776" using y by simp_all
  then have z: "- 1099511627777 \<le> z" "z \<le> 1099511627776" by (auto simp: z_def shifted_year_def)
  have ze: "z = 400 * e + yo" and r: "0 \<le> yo" "yo < 400" by (simp_all add: e_def yo_def)
  have e: "- 1099511627777 \<le> e" "e \<le> 1099511627777" using ze r z by linarith+
  have d': "0 \<le> int d" "int d < 4294967296" using d by simp_all
  have k: "0 \<le> k" "k \<le> 2199023255552" using m by (simp_all add: k_def)
  then have kd: "0 \<le> k div 5" "k div 5 \<le> 2199023255552" by simp_all
  have q: "0 \<le> yo div 4" "yo div 4 \<le> 100" "0 \<le> yo div 100" "yo div 100 \<le> 4" using r by simp_all
  have doy: "day_of_year m d = k div 5 + int d - 1" by (simp add: day_of_year_def k_def)
  note bounds = z e r d' k kd q
  have 1: "(if m \<le> 2 then i64 (y - 1) else Inr y) = Inr z"
    using y' by (simp add: z_def shifted_year_def i64_eq)
  have 2: "(if 0 \<le> z then Inr z else i64 (z - 399)) = Inr (if 0 \<le> z then z else z - 399)"
    using z by (simp add: i64_eq)
  have 3: "i64 (e * 400) = Inr (e * 400)" by (rule i64_eq) (use bounds in linarith)+
  have 4: "i64 yo = Inr yo" by (rule i64_eq) (use bounds in linarith)+
  have 5: "i64 k = Inr k" by (rule i64_eq) (use bounds in linarith)+
  have 6: "i64 (k sdiv 5 + int d - 1) = Inr (k div 5 + int d - 1)"
    unfolding sdiv_nonneg [OF k(1) zero_less_numeral] by (rule i64_eq) (use bounds in linarith)+
  let ?doe = "yo * 365 + yo div 4 - yo div 100 + (k div 5 + int d - 1)"
  have 7: "i64 (yo * 365 + yo sdiv 4 - yo sdiv 100 + (k div 5 + int d - 1)) = Inr ?doe"
    unfolding sdiv_nonneg [OF r(1) zero_less_numeral] by (rule i64_eq) (use bounds in linarith)+
  have 8: "i64 (e * 146097) = Inr (e * 146097)" by (rule i64_eq) (use bounds in linarith)+
  have 9: "i64 (e * 146097 + ?doe) = Inr (e * 146097 + ?doe)" by (rule i64_eq) (use bounds in linarith)+
  have 10: "i64 (e * 146097 + ?doe - 719468) = Inr (e * 146097 + ?doe - 719468)"
    by (rule i64_eq) (use bounds in linarith)+
  have yoe: "z - e * 400 = yo" using ze by simp
  have era: "(if 0 \<le> z then z else z - 399) sdiv 400 = e" by (simp only: sdiv_era e_def)
  have n: "civil_number y m d = e * 146097 + ?doe - 719468"
    unfolding civil_number_def z_def [symmetric] year_start_def e_def [symmetric] yo_def [symmetric] doy by simp
  show ?thesis
    unfolding days_from_civil_def 1 bindR_Inr 2 Let_def era 3 yoe 4 k_def [symmetric] 5 6 7 8 9 10 n by (rule refl)
qed

subsection \<open>The number of a day counts the days since the epoch\<close>

lemma div_Suc_int: "0 \<le> k \<Longrightarrow> (k + 1) div int b = k div int b + (if (k + 1) mod int b = 0 then 1 else 0)"
proof (elim nonneg_int_cases)
  fix n assume "k = int n"
  moreover have "int n + 1 = int (Suc n)" by simp
  ultimately show ?thesis by (simp only: zdiv_int [symmetric] zmod_int [symmetric] div_Suc) simp
qed

lemma year_step:
  assumes "a' = a + (if p then 1 else 0)" "b' = b + (if q then 1 else 0)" "q \<Longrightarrow> p" "l \<longleftrightarrow> p \<and> \<not> q"
  shows "c + (k + 1) * 365 + a' - b' - t = c + k * 365 + a - b - t + (if l then 366 else 365 :: int)"
  using assms by auto

lemma year_start_Suc: "year_start (y + 1) = year_start y + (if leap (y + 1) then 366 else 365)"
proof -
  define e k where "e = y div 400" and "k = y mod 400"
  have y: "y = 400 * e + k" and k: "0 \<le> k" "k < 400" by (simp_all add: e_def k_def)
  show ?thesis
  proof (cases "k = 399")
    case True
    then have y1: "y + 1 = 400 * (e + 1)" using y by simp
    have "year_start (y + 1) = (e + 1) * 146097 - 719468" by (simp add: year_start_def y1)
    moreover have "leap (y + 1)" unfolding leap_def y1 by (simp add: dvd_mult2 [of 4 400])
    moreover have "year_start y = e * 146097 + 399 * 365 + 99 - 3 - 719468"
      unfolding year_start_def e_def [symmetric] k_def [symmetric] True by simp
    ultimately show ?thesis by simp
  next
    case False
    then have k1: "0 \<le> k + 1" "k + 1 < 400" using k by simp_all
    have y1: "y + 1 = 400 * e + (k + 1)" using y by simp
    have "(y + 1) div 400 = e" "(y + 1) mod 400 = k + 1"
      by (rule int_div_pos_eq [OF y1 k1], rule int_mod_pos_eq [OF y1 k1])
    then have s: "year_start (y + 1) = e * 146097 + (k + 1) * 365 + (k + 1) div 4 - (k + 1) div 100 - 719468"
      by (simp add: year_start_def)
    have "4 dvd 400 * e" "100 dvd 400 * e" "400 dvd 400 * e" by (simp_all add: dvd_mult2)
    then have dv: "4 dvd y + 1 \<longleftrightarrow> (k + 1) mod 4 = 0" "100 dvd y + 1 \<longleftrightarrow> (k + 1) mod 100 = 0"
        "400 dvd y + 1 \<longleftrightarrow> 400 dvd k + 1"
      unfolding y1 dvd_eq_mod_eq_0 [of _ "k + 1", symmetric] by (simp_all only: dvd_add_right_iff)
    have "\<not> 400 dvd k + 1" using k k1 by (intro zdvd_not_zless) simp_all
    then have l: "leap (y + 1) \<longleftrightarrow> (k + 1) mod 4 = 0 \<and> \<not> (k + 1) mod 100 = 0"
      unfolding leap_def dv by (simp only: simp_thms)
    have q: "(k + 1) div 4 = k div 4 + (if (k + 1) mod 4 = 0 then 1 else 0)"
      "(k + 1) div 100 = k div 100 + (if (k + 1) mod 100 = 0 then 1 else 0)"
      using div_Suc_int [OF k(1), of 4] div_Suc_int [OF k(1), of 100] by simp_all
    have m: "(k + 1) mod 4 = 0" if "(k + 1) mod 100 = 0"
      using that dvd_trans [of 4 100 "k + 1"] unfolding dvd_eq_mod_eq_0 [of _ "k + 1"] by simp
    show ?thesis
      unfolding s year_start_def [of y] e_def [symmetric] k_def [symmetric] by (rule year_step [OF q m l])
  qed
qed

lemma month_cases:
  assumes "1 \<le> m" "m \<le> (12 :: nat)"
  obtains "m = 1" | "m = 2" | "m = 3" | "m = 4" | "m = 5" | "m = 6" | "m = 7" | "m = 8" | "m = 9" | "m = 10"
    | "m = 11" | "m = 12"
proof -
  have "m = 1 \<or> m = 2 \<or> m = 3 \<or> m = 4 \<or> m = 5 \<or> m = 6 \<or> m = 7 \<or> m = 8 \<or> m = 9 \<or> m = 10 \<or> m = 11 \<or> m = 12"
    using assms by presburger
  then show ?thesis using that by blast
qed

lemma day_of_year_month:
  assumes "1 \<le> m" "m < 12" "m \<noteq> 2"
  shows "day_of_year (m + 1) 1 = day_of_year m (days_in_month y m) + 1"
proof -
  have "1 \<le> m" "m \<le> 12" using assms by simp_all
  then show ?thesis using assms
    by (cases rule: month_cases) (simp_all add: day_of_year_def days_in_month_def)
qed

lemma civil_number_next:
  assumes "valid_civil c"
  shows "(case next_day c of (y, m, d) \<Rightarrow> civil_number y m d) = (case c of (y, m, d) \<Rightarrow> civil_number y m d) + 1"
proof -
  obtain y m d where c: "c = (y, m, d)" by (cases c)
  have v: "1 \<le> m" "m \<le> 12" "1 \<le> d" "d \<le> days_in_month y m" using assms by (simp_all add: c)
  consider "d < days_in_month y m" | "d = days_in_month y m" "m = 12" | "d = days_in_month y m" "m = 2"
    | "d = days_in_month y m" "m < 12" "m \<noteq> 2"
    using v by linarith
  then show ?thesis
  proof cases
    case 1
    then show ?thesis by (simp add: c civil_number_def day_of_year_def)
  next
    case 2
    then show ?thesis by (simp add: c civil_number_def shifted_year_def day_of_year_def days_in_month_def)
  next
    case 3
    have "year_start y = year_start (y - 1) + (if leap y then 366 else 365)"
      using year_start_Suc [of "y - 1"] by simp
    with 3 show ?thesis by (simp add: c civil_number_def shifted_year_def day_of_year_def days_in_month_def)
  next
    case 4
    then have "shifted_year y (m + 1) = shifted_year y m" using v by (auto simp: shifted_year_def)
    with 4 day_of_year_month [of m y] v show ?thesis by (simp add: c civil_number_def)
  qed
qed

lemma next_day_valid: "valid_civil c \<Longrightarrow> valid_civil (next_day c)"
  by (cases c) (auto simp: days_in_month_def)

lemma civil_day_valid: "valid_civil (civil_day n)"
  by (induction n) (simp_all only: civil_day.simps next_day_valid, simp add: days_in_month_def)

lemma civil_number_civil_day: "civil_day n = (y, m, d) \<Longrightarrow> civil_number y m d = int n"
proof (induction n arbitrary: y m d)
  case 0
  then show ?case by (auto simp: civil_number_def shifted_year_def year_start_def day_of_year_def)
next
  case (Suc n)
  obtain y' m' d' where c: "civil_day n = (y', m', d')" by (cases "civil_day n")
  show ?case using civil_number_next [OF civil_day_valid [of n]] Suc.IH [OF c] Suc.prems by (simp add: c)
qed

subsection \<open>Every date from the epoch on is reached\<close>

lemma civil_day_in_month:
  "civil_day n = (y, m, 1) \<Longrightarrow> 1 + k \<le> days_in_month y m \<Longrightarrow> civil_day (n + k) = (y, m, 1 + k)"
  by (induction k) simp_all

lemma civil_day_month_end:
  assumes "civil_day n = (y, m, 1)"
  shows "civil_day (n + days_in_month y m) = (if m < 12 then (y, m + 1, 1) else (y + 1, 1, 1))"
proof -
  have "0 < days_in_month y m" by (simp add: days_in_month_def)
  then obtain k where k: "days_in_month y m = Suc k" by (cases "days_in_month y m") simp_all
  have "civil_day (n + k) = (y, m, 1 + k)" using civil_day_in_month [OF assms] k by simp
  then show ?thesis by (simp add: k)
qed

lemma civil_day_month_ex:
  assumes "\<exists>n. civil_day n = (y, 1, 1)" "m < 12"
  shows "\<exists>n. civil_day n = (y, m + 1, 1)"
  using assms(2)
proof (induction m)
  case 0
  then show ?case using assms(1) by simp
next
  case (Suc m)
  then obtain n where "civil_day n = (y, m + 1, 1)" by auto
  from civil_day_month_end [OF this] Suc.prems show ?case by (intro exI) simp
qed

lemma civil_day_year_ex: "\<exists>n. civil_day n = (1970 + int k, 1, 1)"
proof (induction k)
  case 0
  then show ?case by (intro exI [of _ 0]) simp
next
  case (Suc k)
  obtain n where "civil_day n = (1970 + int k, 11 + 1, 1)" using civil_day_month_ex [OF Suc, of 11] by auto
  from civil_day_month_end [OF this] show ?case by (intro exI) (simp add: algebra_simps)
qed

lemma civil_day_ex:
  assumes "valid_civil (y, m, d)" "1970 \<le> y"
  shows "civil_day (nat (civil_number y m d)) = (y, m, d)"
proof -
  have y: "y = 1970 + int (nat (y - 1970))" using assms(2) by simp
  have "\<exists>n. civil_day n = (y, 1, 1)" using civil_day_year_ex [of "nat (y - 1970)"] y by simp
  moreover have "m - 1 < 12" "m - 1 + 1 = m" using assms(1) by auto
  ultimately obtain n where n: "civil_day n = (y, m, 1)" using civil_day_month_ex [of y "m - 1"] by auto
  have "civil_day (n + (d - 1)) = (y, m, d)" using civil_day_in_month [OF n, of "d - 1"] assms(1) by simp
  with civil_number_civil_day [OF this] show ?thesis by (simp only: nat_int)
qed

section \<open>The four register formats\<close>

text \<open>
  A number as a register shows it: in binary, or as two decimal digits. The hour is also shown on a twelve-hour
  dial, with bit 7 for the afternoon.
\<close>

definition reg_byte :: "bool \<Rightarrow> nat \<Rightarrow> u8" where
  "reg_byte binary n = (if binary then of_nat n else of_nat (16 * (n div 10) + n mod 10))"

definition hour_byte :: "bool \<Rightarrow> bool \<Rightarrow> nat \<Rightarrow> u8" where
  "hour_byte binary h24 h =
     (if h24 then reg_byte binary h
      else reg_byte binary (if h mod 12 = 0 then 12 else h mod 12) OR (if 12 \<le> h then 0x80 else 0))"

definition shows_time :: "(u8 \<Rightarrow> u8) \<Rightarrow> civil \<Rightarrow> nat \<Rightarrow> nat \<Rightarrow> nat \<Rightarrow> bool" where
  "shows_time regs c h mi sec =
     (case c of (y, m, d) \<Rightarrow>
      let binary = regs REG_STATUS_B AND STATUS_B_BINARY \<noteq> 0; h24 = regs REG_STATUS_B AND STATUS_B_24H \<noteq> 0 in
        regs REG_SECONDS = reg_byte binary sec \<and> regs REG_MINUTES = reg_byte binary mi \<and>
        regs REG_HOURS = hour_byte binary h24 h \<and> regs REG_DAY = reg_byte binary d \<and>
        regs REG_MONTH = reg_byte binary m \<and> regs REG_YEAR = reg_byte binary (nat (y - 2000)))"

definition reg_val :: "bool \<Rightarrow> u8 \<Rightarrow> nat res" where
  "reg_val binary v = (if binary then Inr (unat v) else bcd_to_bin v)"

lemma high_nibble: "unat (drop_bit 4 (v :: u8)) = unat v div 16"
  by (subst unat_drop_bit_eq) (simp add: drop_bit_eq_div)

lemma low_nibble: "unat (v AND 0x0F :: u8) = unat v mod 16"
  unfolding take_bit_eq_mod [of 4 "unat v", simplified, symmetric]
  by (simp only: take_bit_eq_mask unsigned_and_eq) (simp add: mask_eq_exp_minus_1)

lemma reg_val_byte:
  assumes "n < 100"
  shows "reg_val binary (reg_byte binary n) = Inr n"
proof (cases binary)
  case True
  then show ?thesis using assms by (simp add: reg_val_def reg_byte_def)
next
  case False
  define v :: u8 where "v = of_nat (16 * (n div 10) + n mod 10)"
  have n: "n div 10 < 10" using assms by (simp add: less_mult_imp_div_less)
  then have "16 * (n div 10) + n mod 10 < 256" using mod_less_divisor [of 10 n] by linarith
  then have u: "unat v = n mod 10 + n div 10 * 16" unfolding v_def unat_of_nat_u8 by simp
  have "n mod 10 < 16" using mod_less_divisor [of 10 n] by linarith
  then have "unat (drop_bit 4 v) = n div 10" "unat (v AND 0x0F) = n mod 10"
    unfolding high_nibble low_nibble u by (simp_all only: div_mult_self1 mod_mult_self1) simp_all
  moreover have "reg_byte binary n = v" using False by (simp only: reg_byte_def v_def if_False)
  ultimately show ?thesis using False n assms by (simp add: reg_val_def bcd_to_bin_def chk8_def)
qed

definition clock_hour :: "bool \<Rightarrow> bool \<Rightarrow> u8 \<Rightarrow> nat res" where
  "clock_hour binary h24 v =
     bindR (reg_val binary (v AND 0x7F)) (\<lambda>x.
       let pm = v AND 0x80 \<noteq> 0 in
       if \<not> h24 then if pm \<and> x \<noteq> 12 then chk8 (x + 12) else if \<not> pm \<and> x = 12 then Inr 0 else Inr x
       else Inr x)"

lemma clock_hour_byte:
  assumes "h < 24"
  shows "clock_hour binary h24 (hour_byte binary h24 h) = Inr h"
proof -
  have "\<forall>h \<in> set [0 ..< 24]. clock_hour True True (hour_byte True True h) = Inr h"
    "\<forall>h \<in> set [0 ..< 24]. clock_hour True False (hour_byte True False h) = Inr h"
    "\<forall>h \<in> set [0 ..< 24]. clock_hour False True (hour_byte False True h) = Inr h"
    "\<forall>h \<in> set [0 ..< 24]. clock_hour False False (hour_byte False False h) = Inr h" by code_simp+
  then show ?thesis using assms by (cases binary; cases h24) simp_all
qed

lemma decode_fields_eq:
  "decode_fields raw status_b =
     (let b = status_b AND STATUS_B_BINARY \<noteq> 0 in
      bindR (reg_val b (second raw)) (\<lambda>sec.
      bindR (reg_val b (minute raw)) (\<lambda>mi.
      bindR (reg_val b (hour raw AND 0x7F)) (\<lambda>h.
      bindR (reg_val b (day raw)) (\<lambda>d.
      bindR (reg_val b (month raw)) (\<lambda>mo.
      bindR (reg_val b (year raw)) (\<lambda>y. Inr (sec, mi, h, d, mo, y))))))))"
  by (simp add: decode_fields_def reg_val_def)

lemma bcd_to_bin_le:
  assumes "unat v < 16 * k" "k \<le> 16"
  shows "\<exists>n < 16 + 10 * k. bcd_to_bin v = Inr n"
proof -
  have "v AND 0x0F \<le> 0x0F" by (rule word_and_le1)
  then have 1: "unat (v AND 0x0F) \<le> 15" by (simp add: word_le_nat_alt)
  have 2: "unat (drop_bit 4 v) < k" using assms(1) by (simp add: high_nibble less_mult_imp_div_less mult.commute)
  then have "unat (drop_bit 4 v) * 10 + 10 \<le> 10 * k" by linarith
  with 1 2 assms(2) show ?thesis by (simp add: bcd_to_bin_def chk8_def)
qed

lemma bcd_to_bin_total: "\<exists>n < 256. bcd_to_bin v = Inr n"
  using bcd_to_bin_le [of v 16] unsigned_less [of v] by fastforce

lemma low_bits: "unat (v AND 0x7F :: u8) < 128"
proof -
  have "v AND 0x7F \<le> 0x7F" by (rule word_and_le1)
  then show ?thesis by (simp add: word_le_nat_alt)
qed

lemma bcd_hour_total: "\<exists>n < 100. bcd_to_bin (v AND 0x7F) = Inr n"
  using bcd_to_bin_le [of "v AND 0x7F" 8] low_bits [of v] by fastforce

lemma decode_fields_total:
  "\<exists>sec mi h d mo y. decode_fields raw status_b = Inr (sec, mi, h, d, mo, y) \<and>
     sec < 256 \<and> mi < 256 \<and> h < 128 \<and> d < 256 \<and> mo < 256 \<and> y < 256"
proof (cases "status_b AND STATUS_B_BINARY \<noteq> 0")
  case True
  have "unat (hour raw AND 0x7F) < 128" by (rule low_bits)
  moreover have "unat v < 256" for v :: u8 using unsigned_less [of v] by simp
  ultimately show ?thesis using True by (simp add: decode_fields_def)
next
  case False
  then show ?thesis
    using bcd_to_bin_total [of "second raw"] bcd_to_bin_total [of "minute raw"] bcd_hour_total [of "hour raw"]
      bcd_to_bin_total [of "day raw"] bcd_to_bin_total [of "month raw"] bcd_to_bin_total [of "year raw"]
    by (fastforce simp: decode_fields_def)
qed

lemma hour_of_day_total: "h < 128 \<Longrightarrow> \<exists>h' < 256. hour_of_day pm h b = Inr h'"
  by (auto simp: hour_of_day_def chk8_def)

section \<open>Reading the time\<close>

text \<open>
  The documented behaviour of the chip while its registers hold still: selecting a register through the index
  port and reading the data port yields that register.
\<close>

definition cmos_ok :: "'s port_io \<Rightarrow> ('s \<Rightarrow> bool) \<Rightarrow> (u8 \<Rightarrow> u8) \<Rightarrow> bool" where
  "cmos_ok io I regs \<longleftrightarrow> (\<forall>s r. I s \<longrightarrow> fst (cmos_read io r s) = regs r \<and> I (snd (cmos_read io r s)))"

lemma cmos_readE:
  assumes "cmos_ok io I regs" "I s"
  obtains s' where "cmos_read io r s = (regs r, s')" "I s'"
proof
  show "cmos_read io r s = (regs r, snd (cmos_read io r s))"
    using assms unfolding cmos_ok_def by (intro prod_eqI) simp_all
  show "I (snd (cmos_read io r s))" using assms unfolding cmos_ok_def by blast
qed

lemma wait_uip_ok: "cmos_ok io I regs \<Longrightarrow> I s \<Longrightarrow> I (wait_uip n io s)"
proof (induction n arbitrary: s)
  case (Suc n)
  obtain s' where "cmos_read io REG_STATUS_A s = (regs REG_STATUS_A, s')" "I s'"
    using Suc.prems by (rule cmos_readE)
  then show ?case using Suc by (simp add: update_in_progress_def)
qed simp

definition raw_of :: "(u8 \<Rightarrow> u8) \<Rightarrow> RawTime" where
  "raw_of regs =
     \<lparr>second = regs REG_SECONDS, minute = regs REG_MINUTES, hour = regs REG_HOURS, day = regs REG_DAY,
      month = regs REG_MONTH, year = regs REG_YEAR\<rparr>"

lemma snapshot_ok:
  assumes c: "cmos_ok io I regs" and i: "I s"
  shows "\<exists>s'. read_raw_snapshot io s = (raw_of regs, s') \<and> I s'"
proof -
  obtain s1 where 1: "cmos_read io REG_SECONDS s = (regs REG_SECONDS, s1)" "I s1" using c i by (rule cmos_readE)
  obtain s2 where 2: "cmos_read io REG_MINUTES s1 = (regs REG_MINUTES, s2)" "I s2" using c 1(2) by (rule cmos_readE)
  obtain s3 where 3: "cmos_read io REG_HOURS s2 = (regs REG_HOURS, s3)" "I s3" using c 2(2) by (rule cmos_readE)
  obtain s4 where 4: "cmos_read io REG_DAY s3 = (regs REG_DAY, s4)" "I s4" using c 3(2) by (rule cmos_readE)
  obtain s5 where 5: "cmos_read io REG_MONTH s4 = (regs REG_MONTH, s5)" "I s5" using c 4(2) by (rule cmos_readE)
  obtain s6 where 6: "cmos_read io REG_YEAR s5 = (regs REG_YEAR, s6)" "I s6" using c 5(2) by (rule cmos_readE)
  show ?thesis by (simp add: read_raw_snapshot_def 1 2 3 4 5 6 raw_of_def)
qed

lemma stable_ok:
  assumes c: "cmos_ok io I regs" and i: "I s"
  shows "\<exists>s'. read_stable_snapshot io s = (Some (raw_of regs), s') \<and> I s'"
proof -
  let ?w = "wait_uip MAX_ATTEMPTS io"
  obtain s1 where 1: "read_raw_snapshot io (?w s) = (raw_of regs, s1)" "I s1"
    using snapshot_ok [OF c wait_uip_ok [OF c i]] by blast
  obtain s2 where 2: "read_raw_snapshot io (?w s1) = (raw_of regs, s2)" "I s2"
    using snapshot_ok [OF c wait_uip_ok [OF c 1(2)]] by blast
  have "stable_attempts (Suc k) io s = (Some (raw_of regs), s2)" for k by (simp add: 1 2)
  from this [of "MAX_ATTEMPTS - 1"] have "read_stable_snapshot io s = (Some (raw_of regs), s2)"
    by (simp only: read_stable_snapshot_def) (simp add: MAX_ATTEMPTS_def)
  with 2(2) show ?thesis by blast
qed

text \<open>Whatever the chip does, a snapshot is only used when it was read twice in a row.\<close>

lemma stable_read_twice:
  assumes "stable_attempts n io s = (Some raw, s')"
  shows "\<exists>s1 s2. read_raw_snapshot io s1 = (raw, s2) \<and>
    read_raw_snapshot io (wait_uip MAX_ATTEMPTS io s2) = (raw, s')"
  using assms
proof (induction n arbitrary: s)
  case (Suc n)
  then show ?case by (fastforce split: prod.splits if_splits)
qed simp

lemma civil_number_range:
  assumes "2000 \<le> y" "y < 2256" "m < 256" "d < 256"
  shows "- 2000000 \<le> civil_number y m d" "civil_number y m d \<le> 2000000"
proof -
  define z where "z = shifted_year y m"
  have z: "1999 \<le> z" "z < 2256" using assms by (auto simp: z_def shifted_year_def)
  have "0 \<le> z div 400" "z div 400 \<le> 5" using z by simp_all
  moreover have "0 \<le> z mod 400" "z mod 400 < 400" by simp_all
  moreover from this have "0 \<le> (z mod 400) div 4" "(z mod 400) div 4 \<le> 100" "0 \<le> (z mod 400) div 100"
    "(z mod 400) div 100 \<le> 4" by linarith+
  moreover have "- 1000 \<le> day_of_year m d" "day_of_year m d \<le> 20000" using assms by (auto simp: day_of_year_def)
  ultimately show "- 2000000 \<le> civil_number y m d" "civil_number y m d \<le> 2000000"
    unfolding civil_number_def z_def [symmetric] year_start_def by linarith+
qed

text \<open>It never panics either, whatever the registers contain.\<close>

lemma read_unix_time_total: "\<exists>r. read_unix_time io s = Inr r"
proof -
  obtain r s1 where 1: "read_stable_snapshot io s = (r, s1)" by (cases "read_stable_snapshot io s")
  show ?thesis
  proof (cases r)
    case None
    then show ?thesis by (simp add: read_unix_time_def 1)
  next
    case (Some raw)
    obtain b s2 where 2: "cmos_read io REG_STATUS_B s1 = (b, s2)" by (cases "cmos_read io REG_STATUS_B s1")
    obtain sec mi h d mo y where 3: "decode_fields raw b = Inr (sec, mi, h, d, mo, y)"
      and lt: "sec < 256" "mi < 256" "h < 128" "d < 256" "mo < 256" "y < 256"
      using decode_fields_total [of raw b] by blast
    obtain h' where 4: "hour_of_day (hour raw AND 0x80 \<noteq> 0) h b = Inr h'" "h' < 256"
      using hour_of_day_total [OF lt(3)] by blast
    have 5: "days_from_civil (2000 + int y) mo d = Inr (civil_number (2000 + int y) mo d)"
      using lt by (intro days_from_civil_eq) simp_all
    define n where "n = civil_number (2000 + int y) mo d"
    have n: "- 2000000 \<le> n" "n \<le> 2000000" unfolding n_def using lt by (intro civil_number_range; simp)+
    have 6: "i64 (n * 86400) = Inr (n * 86400)" by (rule i64_eq) (use n in linarith)+
    have 7: "i64 (n * 86400 + (int h' * 3600 + int mi * 60 + int sec)) =
        Inr (n * 86400 + (int h' * 3600 + int mi * 60 + int sec))"
      by (rule i64_eq) (use n 4(2) lt in linarith)+
    show ?thesis by (simp add: read_unix_time_def 1 Some 2 3 4(1) 5 n_def [symmetric] 6 7 Let_def)
  qed
qed

text \<open>
  C30. On a chip whose registers show a civil date of the years 2000 to 2099 and a time of day, in any of the
  formats that status register B selects (binary or decimal digits, 24-hour or 12-hour dial),
  \<open>read_unix_time\<close> returns the Unix time: 86400 times the number of days by which the Gregorian calendar steps
  from 1970-01-01 to that date, plus the seconds of the day. This holds even while the chip reports an update in
  progress, since the polls are bounded.
\<close>

theorem read_unix_time_correct:
  assumes c: "cmos_ok io I regs" and i: "I s"
    and n: "civil_day n = (y, m, d)" and y: "2000 \<le> y" "y \<le> 2099"
    and t: "h < 24" "mi < 60" "sec < 60" and r: "shows_time regs (y, m, d) h mi sec"
  shows "\<exists>s'. read_unix_time io s = Inr (Some (of_nat (86400 * n + 3600 * h + 60 * mi + sec)), s') \<and> I s'"
proof -
  define b where "b = regs REG_STATUS_B"
  define bin where "bin = (b AND STATUS_B_BINARY \<noteq> 0)"
  define h24 where "h24 = (b AND STATUS_B_24H \<noteq> 0)"
  have raw: "raw_of regs = \<lparr>second = reg_byte bin sec, minute = reg_byte bin mi, hour = hour_byte bin h24 h,
      day = reg_byte bin d, month = reg_byte bin m, year = reg_byte bin (nat (y - 2000))\<rparr>"
    using r by (simp add: shows_time_def raw_of_def bin_def h24_def b_def Let_def)
  obtain s1 where 1: "read_stable_snapshot io s = (Some (raw_of regs), s1)" "I s1" using stable_ok [OF c i] by blast
  obtain s2 where 2: "cmos_read io REG_STATUS_B s1 = (b, s2)" "I s2"
    using cmos_readE [OF c 1(2), of REG_STATUS_B] unfolding b_def by blast
  have v: "valid_civil (y, m, d)" using civil_day_valid [of n] n by simp
  then have md: "m \<le> 12" "d \<le> 31" by (auto simp: days_in_month_def split: if_splits)
  obtain x where x: "reg_val bin (hour_byte bin h24 h AND 0x7F) = Inr x"
      "hour_of_day (hour_byte bin h24 h AND 0x80 \<noteq> 0) x b = Inr h"
    using clock_hour_byte [OF t(1), of bin h24]
    by (auto simp: clock_hour_def bindR_eq_Inr hour_of_day_def h24_def Let_def)
  have 3: "decode_fields (raw_of regs) b = Inr (sec, mi, x, d, m, nat (y - 2000))"
    using t md y by (simp add: decode_fields_eq raw bin_def [symmetric] reg_val_byte x(1) Let_def)
  have 4: "days_from_civil (2000 + int (nat (y - 2000))) m d = Inr (int n)"
    using md y days_from_civil_eq [of y m d] civil_number_civil_day [OF n] by simp
  have "n \<le> 2000000"
    using civil_number_range(2) [of y m d] civil_number_civil_day [OF n] md y by simp
  then have n': "0 \<le> int n" "int n \<le> 2000000" by simp_all
  have 5: "i64 (int n * 86400) = Inr (int n * 86400)" by (rule i64_eq) (use n' in linarith)+
  have 6: "i64 (int n * 86400 + (int h * 3600 + int mi * 60 + int sec)) =
      Inr (int (86400 * n + 3600 * h + 60 * mi + sec))"
    by (subst i64_eq) (use n' t in simp_all)
  have hr: "hour (raw_of regs) = hour_byte bin h24 h" by (simp add: raw)
  have "read_unix_time io s = Inr (Some (word_of_int (int (86400 * n + 3600 * h + 60 * mi + sec))), s2)"
    unfolding read_unix_time_def 1(1) Let_def prod.case option.case 2(1) 3 bindR_Inr hr x(2) 4 5 6 by (rule refl)
  then show ?thesis using 2(2) by (simp only: of_int_of_nat_eq) blast
qed

text \<open>
  A chip with its registers in an array, in the decimal 12-hour format, showing 2026-07-23 21:34:56 while it
  reports an update in progress.
\<close>

definition sample_regs :: "u8 \<Rightarrow> u8" where
  "sample_regs = (\<lambda>_. 0)(REG_SECONDS := 0x56, REG_MINUTES := 0x34, REG_HOURS := 0x89, REG_DAY := 0x23,
     REG_MONTH := 0x07, REG_YEAR := 0x26, REG_STATUS_A := 0x80)"

definition sample_chip :: "(u8 \<times> (u8 \<Rightarrow> u8)) port_io" where
  "sample_chip =
     \<lparr>inb = (\<lambda>p s. (if p = CMOS_DATA then snd s (fst s) else 0, s)),
      outb = (\<lambda>p v s. if p = CMOS_INDEX then (v, snd s) else s),
      inw = (\<lambda>p s. (0, s)), outw = (\<lambda>p v s. s), inl = (\<lambda>p s. (0, s)), outl = (\<lambda>p v s. s)\<rparr>"

lemma sample_chip_ok: "cmos_ok sample_chip (\<lambda>s. snd s = sample_regs) sample_regs"
  by (simp add: cmos_ok_def sample_chip_def cmos_read_def)

lemma sample_day: "civil_day 20657 = (2026, 7, 23)"
proof -
  have "civil_number 2026 7 23 = 20657"
    by (simp add: civil_number_def shifted_year_def year_start_def day_of_year_def)
  then show ?thesis using civil_day_ex [of 2026 7 23] by (simp add: days_in_month_def)
qed

lemma sample_shows: "shows_time sample_regs (2026, 7, 23) 21 34 56"
  by code_simp

theorem read_unix_time_correct_witness:
  "\<exists>s'. read_unix_time sample_chip (0, sample_regs) = Inr (Some 1784842496, s') \<and> snd s' = sample_regs"
  using read_unix_time_correct [OF sample_chip_ok _ sample_day _ _ _ _ _ sample_shows, of "(0, sample_regs)"]
  by simp

end
