(* ===== verification/Keyboard.thy ===== *)
theory Keyboard
  imports Prelude
begin

text \<open>
  The PS/2 keyboard decoder (\<^verbatim>\<open>src/hal/src/keyboard.rs\<close>): the character tables, the output record with its four
  character slots, and the modifier state machine, one scancode byte at a time. The lemmas relate the modifier
  state to the log of key transitions the decoder itself reports, and show that every printable character can be
  typed.
\<close>

unbundle bit_operations_syntax

section \<open>Output\<close>

record RawKey =
  keycode :: u8
  pressed :: bool

definition MAX_CHARS :: nat where "MAX_CHARS = 4"

text \<open>The inline array with its fill count is the list of the characters written so far.\<close>

record KeyOutput =
  raw :: "RawKey option"
  chars :: "char list"

definition empty_output :: KeyOutput where
  "empty_output = \<lparr>raw = None, chars = []\<rparr>"

definition push_char :: "char \<Rightarrow> KeyOutput \<Rightarrow> KeyOutput res" where
  "push_char c out = (if length (chars out) < MAX_CHARS then Inr (out\<lparr>chars := chars out @ [c]\<rparr>) else Inl Panic)"

primrec push_chars :: "char list \<Rightarrow> KeyOutput \<Rightarrow> KeyOutput res" where
  "push_chars [] out = Inr out"
| "push_chars (c # cs) out = bindR (push_char c out) (push_chars cs)"

section \<open>Character tables\<close>

text \<open>
  The match of \<open>scancode_to_base_char\<close> as a table: a key with one character, a symbol key (shifted, unshifted) and
  a letter key (upper case, lower case).
\<close>

datatype key_entry = Key char | Symbol char char | Letter char char

fun entry_char :: "key_entry \<Rightarrow> bool \<Rightarrow> bool \<Rightarrow> char" where
  "entry_char (Key c) shifted upper = c"
| "entry_char (Symbol a b) shifted upper = (if shifted then a else b)"
| "entry_char (Letter a b) shifted upper = (if upper then a else b)"

definition key_table :: "(u8 \<times> key_entry) list" where
  "key_table =
     [(0x02, Symbol (CHR ''!'') (CHR ''1'')), (0x03, Symbol (CHR ''@'') (CHR ''2'')), (0x04, Symbol (CHR ''#'') (CHR ''3'')),
      (0x05, Symbol (CHR ''$'') (CHR ''4'')), (0x06, Symbol (CHR ''%'') (CHR ''5'')), (0x07, Symbol (CHR ''^'') (CHR ''6'')),
      (0x08, Symbol (CHR ''&'') (CHR ''7'')), (0x09, Symbol (CHR ''*'') (CHR ''8'')), (0x0A, Symbol (CHR ''('') (CHR ''9'')),
      (0x0B, Symbol (CHR '')'') (CHR ''0'')), (0x0C, Symbol (CHR ''_'') (CHR ''-'')), (0x0D, Symbol (CHR ''+'') (CHR ''='')),
      (0x0E, Key (CHR 0x08)), (0x0F, Key (CHR 0x09)), (0x1C, Key (CHR 0x0A)), (0x01, Key (CHR 0x1B)), (0x39, Key (CHR '' '')),
      (0x10, Letter (CHR ''Q'') (CHR ''q'')), (0x11, Letter (CHR ''W'') (CHR ''w'')), (0x12, Letter (CHR ''E'') (CHR ''e'')),
      (0x13, Letter (CHR ''R'') (CHR ''r'')), (0x14, Letter (CHR ''T'') (CHR ''t'')), (0x15, Letter (CHR ''Y'') (CHR ''y'')),
      (0x16, Letter (CHR ''U'') (CHR ''u'')), (0x17, Letter (CHR ''I'') (CHR ''i'')), (0x18, Letter (CHR ''O'') (CHR ''o'')),
      (0x19, Letter (CHR ''P'') (CHR ''p'')), (0x1A, Symbol (CHR ''{'') (CHR ''['')), (0x1B, Symbol (CHR ''}'') (CHR '']'')),
      (0x2B, Symbol (CHR ''|'') (CHR 0x5C)),
      (0x1E, Letter (CHR ''A'') (CHR ''a'')), (0x1F, Letter (CHR ''S'') (CHR ''s'')), (0x20, Letter (CHR ''D'') (CHR ''d'')),
      (0x21, Letter (CHR ''F'') (CHR ''f'')), (0x22, Letter (CHR ''G'') (CHR ''g'')), (0x23, Letter (CHR ''H'') (CHR ''h'')),
      (0x24, Letter (CHR ''J'') (CHR ''j'')), (0x25, Letter (CHR ''K'') (CHR ''k'')), (0x26, Letter (CHR ''L'') (CHR ''l'')),
      (0x27, Symbol (CHR '':'') (CHR '';'')), (0x28, Symbol (CHR 0x22) (CHR 0x27)), (0x29, Symbol (CHR ''~'') (CHR 0x60)),
      (0x2C, Letter (CHR ''Z'') (CHR ''z'')), (0x2D, Letter (CHR ''X'') (CHR ''x'')), (0x2E, Letter (CHR ''C'') (CHR ''c'')),
      (0x2F, Letter (CHR ''V'') (CHR ''v'')), (0x30, Letter (CHR ''B'') (CHR ''b'')), (0x31, Letter (CHR ''N'') (CHR ''n'')),
      (0x32, Letter (CHR ''M'') (CHR ''m'')), (0x33, Symbol (CHR ''<'') (CHR '','')), (0x34, Symbol (CHR ''>'') (CHR ''.'')),
      (0x35, Symbol (CHR ''?'') (CHR ''/''))]"

definition scancode_to_base_char :: "u8 \<Rightarrow> bool \<Rightarrow> bool \<Rightarrow> char option" where
  "scancode_to_base_char sc shifted upper = map_option (\<lambda>e. entry_char e shifted upper) (map_of key_table sc)"

definition code_of :: "char \<Rightarrow> nat" where
  "code_of c = of_char c"

definition is_ascii_alphabetic :: "char \<Rightarrow> bool" where
  "is_ascii_alphabetic c \<longleftrightarrow> (65 \<le> code_of c \<and> code_of c \<le> 90) \<or> (97 \<le> code_of c \<and> code_of c \<le> 122)"

definition to_ascii_uppercase :: "char \<Rightarrow> char" where
  "to_ascii_uppercase c = (if 97 \<le> code_of c \<and> code_of c \<le> 122 then char_of (code_of c - 32) else c)"

definition scancode_to_char :: "u8 \<Rightarrow> bool \<Rightarrow> bool \<Rightarrow> bool \<Rightarrow> char option" where
  "scancode_to_char sc shifted caps ctrl =
     (let upper = (shifted \<noteq> caps); base = scancode_to_base_char sc shifted upper in
      if ctrl
      then case base of
             None \<Rightarrow> base
           | Some c \<Rightarrow>
               if is_ascii_alphabetic c then Some (char_of (code_of (to_ascii_uppercase c) - 65 + 1))
               else if c = CHR 0x5C then Some (CHR 0x1C)
               else if c = CHR ''['' then Some (CHR 0x1B)
               else if c = CHR '']'' then Some (CHR 0x1D)
               else base
      else base)"

section \<open>The decoder\<close>

record KeyDecoder =
  shift :: bool
  ctrl :: bool
  caps :: bool
  ext :: bool

definition decoder_new :: KeyDecoder where
  "decoder_new = \<lparr>shift = False, ctrl = False, caps = False, ext = False\<rparr>"

text \<open>The escape sequence of an extended key.\<close>

definition extended_chars :: "u8 \<Rightarrow> char list" where
  "extended_chars sc =
     (case map_of [(0x48, ''[A''), (0x50, ''[B''), (0x4D, ''[C''), (0x4B, ''[D''), (0x47, ''[H''), (0x4F, ''[F''),
                   (0x49, ''[5~''), (0x51, ''[6~'')] sc of
        Some cs \<Rightarrow> CHR 0x1B # cs
      | None \<Rightarrow> if sc = 0x53 then [CHR 0x7F] else [])"

definition process :: "u8 \<Rightarrow> KeyDecoder \<Rightarrow> (KeyOutput \<times> KeyDecoder) res" where
  "process scancode d =
     (if scancode = 0xE0 then Inr (empty_output, d\<lparr>ext := True\<rparr>)
      else
        let e = ext d; d = d\<lparr>ext := False\<rparr>;
            press = scancode < 0x80;
            code = (if e then 0x80 OR (scancode AND 0x7F) else scancode AND 0x7F);
            out = empty_output\<lparr>raw := Some \<lparr>keycode = code, pressed = press\<rparr>\<rparr>
        in
        if 0x80 \<le> scancode
        then let base = scancode AND 0x7F in
             Inr (out,
                  if \<not> e \<and> (base = 0x2A \<or> base = 0x36) then d\<lparr>shift := False\<rparr>
                  else if base = 0x1D then d\<lparr>ctrl := False\<rparr>
                  else d)
        else if e
        then if scancode = 0x1D then Inr (out, d\<lparr>ctrl := True\<rparr>)
             else bindR (push_chars (extended_chars scancode) out) (\<lambda>out. Inr (out, d))
        else if scancode = 0x2A \<or> scancode = 0x36 then Inr (out, d\<lparr>shift := True\<rparr>)
        else if scancode = 0x1D then Inr (out, d\<lparr>ctrl := True\<rparr>)
        else if scancode = 0x3A then Inr (out, d\<lparr>caps := \<not> caps d\<rparr>)
        else case scancode_to_char scancode (shift d) (caps d) (ctrl d) of
               Some c \<Rightarrow> bindR (push_char c out) (\<lambda>out. Inr (out, d))
             | None \<Rightarrow> Inr (out, d))"

section \<open>Every scancode is decoded\<close>

lemma push_chars_ok:
  "length (chars out) + length cs \<le> MAX_CHARS \<Longrightarrow> push_chars cs out = Inr (out\<lparr>chars := chars out @ cs\<rparr>)"
  by (induction cs arbitrary: out) (simp_all add: push_char_def)

lemma extended_chars_length: "length (extended_chars sc) \<le> MAX_CHARS"
  by (simp add: extended_chars_def MAX_CHARS_def)

definition press_chars :: "u8 \<Rightarrow> KeyDecoder \<Rightarrow> char list" where
  "press_chars sc d =
     (if ext d then if sc = 0x1D then [] else extended_chars sc
      else if sc \<in> {0x2A, 0x36, 0x1D, 0x3A} then []
      else case scancode_to_char sc (shift d) (caps d) (ctrl d) of Some c \<Rightarrow> [c] | None \<Rightarrow> [])"

definition code_for :: "u8 \<Rightarrow> bool \<Rightarrow> u8" where
  "code_for sc e = (if e then 0x80 OR (sc AND 0x7F) else sc AND 0x7F)"

text \<open>The decoder in one equation: what it reports, and the modifiers after a key transition.\<close>

lemma process_eq:
  "process sc d =
     Inr (if sc = 0xE0 then (empty_output, d\<lparr>ext := True\<rparr>)
          else (\<lparr>raw = Some \<lparr>keycode = code_for sc (ext d), pressed = sc < 0x80\<rparr>,
                 chars = if sc < 0x80 then press_chars sc d else []\<rparr>,
                if 0x80 \<le> sc
                then if \<not> ext d \<and> (sc AND 0x7F = 0x2A \<or> sc AND 0x7F = 0x36) then d\<lparr>ext := False, shift := False\<rparr>
                     else if sc AND 0x7F = 0x1D then d\<lparr>ext := False, ctrl := False\<rparr> else d\<lparr>ext := False\<rparr>
                else if ext d then if sc = 0x1D then d\<lparr>ext := False, ctrl := True\<rparr> else d\<lparr>ext := False\<rparr>
                else if sc = 0x2A \<or> sc = 0x36 then d\<lparr>ext := False, shift := True\<rparr>
                else if sc = 0x1D then d\<lparr>ext := False, ctrl := True\<rparr>
                else if sc = 0x3A then d\<lparr>ext := False, caps := \<not> caps d\<rparr>
                else d\<lparr>ext := False\<rparr>))"
proof -
  have l: "length (extended_chars sc) \<le> MAX_CHARS" by (rule extended_chars_length)
  show ?thesis
    using l by (auto simp: process_def Let_def code_for_def press_chars_def empty_output_def push_chars_ok push_char_def
        MAX_CHARS_def not_le split: option.split)
qed

section \<open>The modifiers follow the key log\<close>

lemma and_7F: "x < 0x80 \<Longrightarrow> x AND 0x7F = (x :: u8)"
  using and_mask_self [of x 7] by (simp add: word_less_nat_alt mask_eq_exp_minus_1)

lemma code_for_base:
  assumes "v AND 0x80 = 0"
  shows "code_for sc False = v \<longleftrightarrow> sc AND 0x7F = v" "code_for sc True \<noteq> v"
proof -
  have "code_for sc True AND 0x80 = 0x80"
    by (simp add: code_for_def bit.conj_disj_distrib2 and.assoc)
  then show "code_for sc True \<noteq> v" using assms by auto
qed (simp add: code_for_def)

lemma code_for_ctrl:
  "code_for sc True = 0x9D \<longleftrightarrow> sc AND 0x7F = 0x1D" "code_for sc False \<noteq> 0x9D"
proof -
  have 1: "code_for sc True AND 0x7F = sc AND 0x7F"
    by (simp add: code_for_def bit.conj_disj_distrib2 and.assoc)
  show "code_for sc True = 0x9D \<longleftrightarrow> sc AND 0x7F = 0x1D"
  proof
    assume "code_for sc True = 0x9D"
    with 1 show "sc AND 0x7F = 0x1D" by simp
  qed (simp add: code_for_def)
  have "code_for sc False AND 0x80 = 0" by (simp add: code_for_def and.assoc)
  then show "code_for sc False \<noteq> 0x9D" by auto
qed

text \<open>A modifier is down when the last transition of one of its keys in the log is a press.\<close>

definition held_down :: "u8 set \<Rightarrow> RawKey list \<Rightarrow> bool \<Rightarrow> bool" where
  "held_down K es h = fold (\<lambda>e h. if keycode e \<in> K then pressed e else h) es h"

definition toggled :: "u8 \<Rightarrow> RawKey list \<Rightarrow> bool" where
  "toggled k es = odd (length (filter (\<lambda>e. keycode e = k \<and> pressed e) es))"

primrec run :: "u8 list \<Rightarrow> KeyDecoder \<Rightarrow> (KeyOutput list \<times> KeyDecoder) res" where
  "run [] d = Inr ([], d)"
| "run (b # bs) d = bindR (process b d) (\<lambda>(out, d). bindR (run bs d) (\<lambda>(outs, d). Inr (out # outs, d)))"

definition key_log :: "KeyOutput list \<Rightarrow> RawKey list" where
  "key_log outs = List.map_filter raw outs"

definition typed :: "KeyOutput list \<Rightarrow> string" where
  "typed outs = concat (map chars outs)"

lemma code_for_modifier:
  "code_for sc e \<in> {0x2A, 0x36} \<longleftrightarrow> \<not> e \<and> (sc AND 0x7F = 0x2A \<or> sc AND 0x7F = 0x36)"
  "code_for sc e \<in> {0x1D, 0x9D} \<longleftrightarrow> sc AND 0x7F = 0x1D"
  "code_for sc e = 0x3A \<longleftrightarrow> \<not> e \<and> sc AND 0x7F = 0x3A"
  using code_for_base [of "0x2A" sc] code_for_base [of "0x36" sc] code_for_base [of "0x1D" sc]
    code_for_base [of "0x3A" sc] code_for_ctrl [of sc]
  by (cases e; simp)+

lemma process_step:
  assumes "process b d = Inr (out, d')"
  defines "es \<equiv> key_log [out]"
  shows "shift d' = held_down {0x2A, 0x36} es (shift d)"
    and "ctrl d' = held_down {0x1D, 0x9D} es (ctrl d)"
    and "caps d' = (caps d \<noteq> toggled 0x3A es)"
    and "ext d' = (b = 0xE0)"
proof -
  define p where "p \<longleftrightarrow> b < 0x80"
  have p: "0x80 \<le> b \<longleftrightarrow> \<not> p" by (simp add: p_def not_less)
  have low: "p \<Longrightarrow> b AND 0x7F = b" unfolding p_def by (rule and_7F)
  define base where "base = b AND 0x7F"
  define code where "code = code_for b (ext d)"
  have sh: "code \<in> {0x2A, 0x36} \<longleftrightarrow> \<not> ext d \<and> (base = 0x2A \<or> base = 0x36)"
    and ct: "code \<in> {0x1D, 0x9D} \<longleftrightarrow> base = 0x1D" and ca: "code = 0x3A \<longleftrightarrow> \<not> ext d \<and> base = 0x3A"
    unfolding code_def base_def by (rule code_for_modifier)+
  have "b = 0xE0 \<and> es = [] \<and> d' = d\<lparr>ext := True\<rparr> \<or>
      b \<noteq> 0xE0 \<and> es = [\<lparr>keycode = code, pressed = p\<rparr>] \<and>
      d' = d\<lparr>ext := False, shift := if code \<in> {0x2A, 0x36} then p else shift d,
             ctrl := if code \<in> {0x1D, 0x9D} then p else ctrl d, caps := caps d \<noteq> (code = 0x3A \<and> p)\<rparr>"
    using assms(1) low unfolding process_eq es_def p p_def [symmetric] code_def [symmetric] base_def [symmetric] sh ct ca
    by (cases "b = 0xE0"; cases p; cases "ext d")
       (auto simp: key_log_def List.map_filter_def empty_output_def split: if_splits)
  then show "shift d' = held_down {0x2A, 0x36} es (shift d)" "ctrl d' = held_down {0x1D, 0x9D} es (ctrl d)"
    "caps d' = (caps d \<noteq> toggled 0x3A es)" "ext d' = (b = 0xE0)"
    by (elim disjE conjE; simp add: held_down_def toggled_def)+
qed

lemma held_down_append: "held_down K (es @ es') h = held_down K es' (held_down K es h)"
  by (simp add: held_down_def)

lemma key_log_Cons: "key_log (out # outs) = key_log [out] @ key_log outs"
  by (simp add: key_log_def List.map_filter_def)

lemma toggled_append: "toggled k (es @ es') \<longleftrightarrow> toggled k es \<noteq> toggled k es'"
  by (simp add: toggled_def)

lemma process_chars: "process b d = Inr (out, d') \<Longrightarrow> length (chars out) \<le> MAX_CHARS"
  using extended_chars_length [of b]
  by (auto simp: process_eq empty_output_def press_chars_def MAX_CHARS_def split: if_splits option.splits)

lemma run_follows_log:
  "\<exists>outs. run bs d =
     Inr (outs, \<lparr>shift = held_down {0x2A, 0x36} (key_log outs) (shift d),
                ctrl = held_down {0x1D, 0x9D} (key_log outs) (ctrl d),
                caps = (caps d \<noteq> toggled 0x3A (key_log outs)),
                ext = (if bs = [] then ext d else last bs = 0xE0)\<rparr>) \<and>
     length outs = length bs \<and> (\<forall>out \<in> set outs. length (chars out) \<le> MAX_CHARS)"
proof (induction bs arbitrary: d)
  case Nil
  then show ?case by (simp add: key_log_def List.map_filter_def held_down_def toggled_def)
next
  case (Cons b bs)
  obtain out d1 where 1: "process b d = Inr (out, d1)" unfolding process_eq by (metis surj_pair)
  note st = process_step [OF 1] process_chars [OF 1]
  obtain outs where 2: "run bs d1 =
     Inr (outs, \<lparr>shift = held_down {0x2A, 0x36} (key_log outs) (shift d1),
                ctrl = held_down {0x1D, 0x9D} (key_log outs) (ctrl d1),
                caps = (caps d1 \<noteq> toggled 0x3A (key_log outs)),
                ext = (if bs = [] then ext d1 else last bs = 0xE0)\<rparr>)"
    and l: "length outs = length bs" "\<forall>out \<in> set outs. length (chars out) \<le> MAX_CHARS"
    using Cons.IH [of d1] by blast
  show ?case
    by (rule exI [of _ "out # outs"])
       (use l st in \<open>auto simp: 1 2 key_log_Cons [of out outs] held_down_append toggled_append\<close>)
qed


section \<open>Typing\<close>

text \<open>The bytes of pressing and releasing a key, with Shift held around it if wanted.\<close>

definition type_key :: "u8 \<Rightarrow> bool \<Rightarrow> u8 list" where
  "type_key k sh = (if sh then [0x2A, k, k OR 0x80, 0xAA] else [k, k OR 0x80])"

definition idle_decoder :: "bool \<Rightarrow> KeyDecoder" where
  "idle_decoder c = \<lparr>shift = False, ctrl = False, caps = c, ext = False\<rparr>"

definition is_plain :: "u8 \<Rightarrow> bool" where
  "is_plain k \<longleftrightarrow> k < 0x80 \<and> k \<noteq> 0x1D \<and> k \<noteq> 0x2A \<and> k \<noteq> 0x36 \<and> k \<noteq> 0x3A \<and> k \<noteq> 0xE0 \<and> \<not> 0x80 \<le> k \<and>
     \<not> k OR 0x80 < 0x80 \<and> 0x80 \<le> k OR 0x80 \<and> k OR 0x80 \<noteq> 0xE0 \<and> (k OR 0x80) AND 0x7F = k"

lemma key_table_plain: "list_all (\<lambda>(k, e). is_plain k) key_table" "distinct (map fst key_table)"
  by code_simp+

lemma type_plain_key:
  assumes c: "scancode_to_char k sh cl False = Some c"
  shows "\<exists>outs. run (type_key k sh) (idle_decoder cl) = Inr (outs, idle_decoder cl) \<and> typed outs = [c]"
proof -
  obtain e where "(k, e) \<in> set key_table"
    using c by (auto simp: scancode_to_char_def scancode_to_base_char_def dest: map_of_SomeD)
  then have "is_plain k" using key_table_plain(1) by (auto simp: list_all_iff)
  then have k': "k < 0x80" "k \<noteq> 0x1D" "k \<noteq> 0x2A" "k \<noteq> 0x36" "k \<noteq> 0x3A" "k \<noteq> 0xE0" "\<not> 0x80 \<le> k" "\<not> k OR 0x80 < 0x80"
      "0x80 \<le> k OR 0x80" "k OR 0x80 \<noteq> 0xE0" "(k OR 0x80) AND 0x7F = k"
    unfolding is_plain_def by blast+
  have press: "process k \<lparr>shift = sh, ctrl = False, caps = cl, ext = False\<rparr> =
      Inr (\<lparr>raw = Some \<lparr>keycode = code_for k False, pressed = True\<rparr>, chars = [c]\<rparr>,
           \<lparr>shift = sh, ctrl = False, caps = cl, ext = False\<rparr>)"
    if "scancode_to_char k sh cl False = Some c" for sh
    using k' that by (simp add: process_eq press_chars_def)
  have release: "process (k OR 0x80) \<lparr>shift = sh, ctrl = False, caps = cl, ext = False\<rparr> =
      Inr (\<lparr>raw = Some \<lparr>keycode = code_for (k OR 0x80) False, pressed = False\<rparr>, chars = []\<rparr>,
           \<lparr>shift = sh, ctrl = False, caps = cl, ext = False\<rparr>)" for sh
    unfolding process_eq using k' by simp
  have shift: "process 0x2A (idle_decoder cl) =
      Inr (\<lparr>raw = Some \<lparr>keycode = code_for 0x2A False, pressed = True\<rparr>, chars = []\<rparr>,
           \<lparr>shift = True, ctrl = False, caps = cl, ext = False\<rparr>)"
    "process 0xAA \<lparr>shift = True, ctrl = False, caps = cl, ext = False\<rparr> =
      Inr (\<lparr>raw = Some \<lparr>keycode = code_for 0xAA False, pressed = False\<rparr>, chars = []\<rparr>, idle_decoder cl)"
    by (simp_all add: process_eq press_chars_def idle_decoder_def)
  show ?thesis
  proof (cases sh)
    case True
    then have c: "scancode_to_char k True cl False = Some c" using c by simp
    show ?thesis using True by (simp add: type_key_def typed_def shift press [OF c] release)
  next
    case False
    then have c: "scancode_to_char k False cl False = Some c" using c by simp
    show ?thesis using False press [OF c] release [of False] by (simp add: type_key_def typed_def idle_decoder_def)
  qed
qed

definition typable :: "bool \<Rightarrow> char list" where
  "typable cl = map (\<lambda>(k, e). entry_char e False cl) key_table @ map (\<lambda>(k, e). entry_char e True (\<not> cl)) key_table"

text \<open>The 95 printable ASCII characters, the two quotes, the backslash and the backquote by their codes.\<close>

definition printable :: string where
  "printable =
     '' !#$%&()*+,-./0123456789:;<=>?@ABCDEFGHIJKLMNOPQRSTUVWXYZ[]^_abcdefghijklmnopqrstuvwxyz{|}~'' @ [CHR 0x22, CHR 0x27, CHR 0x5C, CHR 0x60]"

lemma typable_covers: "set printable \<subseteq> set (typable cl)"
proof -
  have "set printable \<subseteq> set (typable True)" "set printable \<subseteq> set (typable False)"
    by (simp_all add: typable_def key_table_def printable_def)
  then show ?thesis by (cases cl) simp_all
qed

lemma typable_key:
  assumes "c \<in> set (typable cl)"
  shows "\<exists>k sh. scancode_to_char k sh cl False = Some c"
proof -
  have "\<exists>k e sh. (k, e) \<in> set key_table \<and> entry_char e sh (sh \<noteq> cl) = c"
  proof -
    from assms obtain k e where "(k, e) \<in> set key_table" "entry_char e False cl = c \<or> entry_char e True (\<not> cl) = c"
      by (auto simp: typable_def)
    then show ?thesis by (metis (full_types))
  qed
  then obtain k e sh where "(k, e) \<in> set key_table" "entry_char e sh (sh \<noteq> cl) = c" by blast
  moreover from this(1) have "map_of key_table k = Some e" using key_table_plain(2) by simp
  ultimately show ?thesis by (auto simp: scancode_to_char_def scancode_to_base_char_def intro!: exI [of _ k] exI [of _ sh])
qed

text \<open>
  Every printable ASCII character can be typed: for either state of Caps Lock there is a key which, pressed
  and released with or without Shift around it, makes the idle decoder emit exactly that character and return to
  the same state.
\<close>

theorem keyboard_types_ascii:
  assumes "c \<in> set printable"
  shows "\<exists>k sh outs. run (type_key k sh) (idle_decoder cl) = Inr (outs, idle_decoder cl) \<and> typed outs = [c]"
proof -
  obtain k sh where "scancode_to_char k sh cl False = Some c"
    using typable_key typable_covers assms by blast
  from type_plain_key [OF this] show ?thesis by blast
qed

theorem keyboard_types_ascii_witness:
  "\<exists>k sh outs. run (type_key k sh) (idle_decoder True) = Inr (outs, idle_decoder True) \<and> typed outs = ''~''"
  using keyboard_types_ascii [of "CHR ''~''" True] by (simp add: printable_def)

text \<open>
  With both Shift keys down, releasing one of them ends the shifted state although the other is still held.
\<close>

lemma second_shift_ignored:
  "\<exists>outs d. run [0x2A, 0x36, 0xB6, 0x1E] decoder_new = Inr (outs, d) \<and> typed outs = ''a''"
  by (simp add: process_eq decoder_new_def typed_def press_chars_def empty_output_def) code_simp

end
