(* ===== verification/Mouse.thy ===== *)
theory Mouse
  imports Port_Io Bytes
begin

text \<open>
  The PS/2 mouse (\<^verbatim>\<open>src/hal/src/mouse.rs\<close>): the packet decoder as a state machine over the bytes of the auxiliary
  device, and the enable sequence of the 8042 controller over the port-I/O seam with its bounded polls.
\<close>

unbundle bit_operations_syntax

section \<open>Packets\<close>

record MouseEvent =
  dx :: int
  dy :: int
  buttons :: u8

record PacketDecoder =
  pbytes :: "u8 list"
  index :: nat

definition packet_new :: PacketDecoder where
  "packet_new = \<lparr>pbytes = [0, 0, 0], index = 0\<rparr>"

text \<open>The conversion of an \<^verbatim>\<open>i32\<close> to an \<^verbatim>\<open>i16\<close>.\<close>

definition as_i16 :: "int \<Rightarrow> int" where
  "as_i16 x = (x + 2 ^ 15) mod 2 ^ 16 - 2 ^ 15"

definition push_byte :: "u8 \<Rightarrow> PacketDecoder \<Rightarrow> (MouseEvent option \<times> PacketDecoder) res" where
  "push_byte b d =
     (if index d = 0 \<and> b AND 0x08 = 0 then Inr (None, d)
      else if \<not> index d < length (pbytes d) then Inl Panic
      else let d = d\<lparr>pbytes := (pbytes d)[index d := b]\<rparr> in
        if index d < 2 then Inr (None, d\<lparr>index := index d + 1\<rparr>)
        else let d = d\<lparr>index := 0\<rparr>; b0 = pbytes d ! 0; b1 = pbytes d ! 1; b2 = pbytes d ! 2 in
          if b0 AND 0xC0 \<noteq> 0 then Inr (None, d)
          else Inr (Some \<lparr>dx = as_i16 (if b0 AND 0x10 \<noteq> 0 then uint b1 - 256 else uint b1),
                         dy = as_i16 (if b0 AND 0x20 \<noteq> 0 then uint b2 - 256 else uint b2),
                         buttons = b0 AND 0x07\<rparr>, d))"

section \<open>The controller\<close>

definition DATA_PORT :: u16 where "DATA_PORT = 0x60"
definition STATUS_CMD_PORT :: u16 where "STATUS_CMD_PORT = 0x64"
definition STATUS_OUTPUT_FULL :: u8 where "STATUS_OUTPUT_FULL = 1"
definition STATUS_INPUT_FULL :: u8 where "STATUS_INPUT_FULL = 2"
definition TIMEOUT_POLLS :: nat where "TIMEOUT_POLLS = 100000"

datatype MouseInitError = AuxEnableTimeout | ReportingNotAcked

primrec wait_write :: "nat \<Rightarrow> 's port_io \<Rightarrow> 's \<Rightarrow> bool \<times> 's" where
  "wait_write 0 io s = (False, s)"
| "wait_write (Suc n) io s =
     (case inb io STATUS_CMD_PORT s of (v, s) \<Rightarrow> if v AND STATUS_INPUT_FULL = 0 then (True, s) else wait_write n io s)"

primrec wait_read :: "nat \<Rightarrow> 's port_io \<Rightarrow> 's \<Rightarrow> bool \<times> 's" where
  "wait_read 0 io s = (False, s)"
| "wait_read (Suc n) io s =
     (case inb io STATUS_CMD_PORT s of (v, s) \<Rightarrow> if v AND STATUS_OUTPUT_FULL \<noteq> 0 then (True, s) else wait_read n io s)"

definition write_command :: "u8 \<Rightarrow> 's port_io \<Rightarrow> 's \<Rightarrow> bool \<times> 's" where
  "write_command cmd io s =
     (case wait_write TIMEOUT_POLLS io s of (ok, s) \<Rightarrow> if \<not> ok then (False, s) else (True, outb io STATUS_CMD_PORT cmd s))"

definition write_data :: "u8 \<Rightarrow> 's port_io \<Rightarrow> 's \<Rightarrow> bool \<times> 's" where
  "write_data v io s =
     (case wait_write TIMEOUT_POLLS io s of (ok, s) \<Rightarrow> if \<not> ok then (False, s) else (True, outb io DATA_PORT v s))"

definition read_data :: "'s port_io \<Rightarrow> 's \<Rightarrow> u8 option \<times> 's" where
  "read_data io s =
     (case wait_read TIMEOUT_POLLS io s of
        (ok, s) \<Rightarrow> if \<not> ok then (None, s) else (case inb io DATA_PORT s of (v, s) \<Rightarrow> (Some v, s)))"

definition mouse_write :: "u8 \<Rightarrow> 's port_io \<Rightarrow> 's \<Rightarrow> bool \<times> 's" where
  "mouse_write v io s = (case write_command 0xD4 io s of (ok, s) \<Rightarrow> if ok then write_data v io s else (False, s))"

definition enable_aux :: "'s port_io \<Rightarrow> 's \<Rightarrow> (MouseInitError + unit) \<times> 's" where
  "enable_aux io s =
     (case write_command 0xA8 io s of (ok, s) \<Rightarrow>
      if \<not> ok then (Inl AuxEnableTimeout, s) else
      case write_command 0x20 io s of (ok, s) \<Rightarrow>
      if \<not> ok then (Inl AuxEnableTimeout, s) else
      case read_data io s of (r, s) \<Rightarrow>
      case r of None \<Rightarrow> (Inl AuxEnableTimeout, s) | Some config \<Rightarrow>
      let config = (config OR 0x02) AND NOT 0x20 in
      case write_command 0x60 io s of (ok, s) \<Rightarrow>
      if \<not> ok then (Inl AuxEnableTimeout, s) else
      case write_data config io s of (ok, s) \<Rightarrow>
      if \<not> ok then (Inl AuxEnableTimeout, s) else
      case mouse_write 0xF6 io s of (ok, s) \<Rightarrow>
      if \<not> ok then (Inl AuxEnableTimeout, s) else
      case read_data io s of (_, s) \<Rightarrow>
      case mouse_write 0xF4 io s of (ok, s) \<Rightarrow>
      if \<not> ok then (Inl AuxEnableTimeout, s) else
      case read_data io s of (r, s) \<Rightarrow>
      if r \<noteq> Some 0xFA then (Inl ReportingNotAcked, s) else (Inr (), s))"

section \<open>Decoding a packet stream\<close>

text \<open>The three bytes a mouse sends for a motion within nine bits signed.\<close>

definition packet :: "MouseEvent \<Rightarrow> u8 list" where
  "packet e =
     [(buttons e AND 0x07) OR 0x08 OR (if dx e < 0 then 0x10 else 0) OR (if dy e < 0 then 0x20 else 0),
      word_of_int (dx e), word_of_int (dy e)]"

definition in_range :: "MouseEvent \<Rightarrow> bool" where
  "in_range e \<longleftrightarrow> - 256 \<le> dx e \<and> dx e < 256 \<and> - 256 \<le> dy e \<and> dy e < 256 \<and> buttons e < 8"

definition synced :: "PacketDecoder \<Rightarrow> bool" where
  "synced d \<longleftrightarrow> length (pbytes d) = 3 \<and> index d = 0"

definition packet_inv :: "PacketDecoder \<Rightarrow> bool" where
  "packet_inv d \<longleftrightarrow> length (pbytes d) = 3 \<and> index d \<le> 2"

primrec feed :: "u8 list \<Rightarrow> PacketDecoder \<Rightarrow> (MouseEvent list \<times> PacketDecoder) res" where
  "feed [] d = Inr ([], d)"
| "feed (b # bs) d =
     bindR (push_byte b d) (\<lambda>(r, d). bindR (feed bs d) (\<lambda>(es, d). Inr ((case r of None \<Rightarrow> es | Some e \<Rightarrow> e # es), d)))"

lemma push_byte_inv: "packet_inv d \<Longrightarrow> \<exists>r d'. push_byte b d = Inr (r, d') \<and> packet_inv d'"
  by (auto simp: packet_inv_def push_byte_def Let_def)

lemma feed_total: "packet_inv d \<Longrightarrow> \<exists>es d'. feed bs d = Inr (es, d') \<and> packet_inv d'"
proof (induction bs arbitrary: d)
  case (Cons b bs)
  obtain r d1 where 1: "push_byte b d = Inr (r, d1)" "packet_inv d1" using push_byte_inv [OF Cons.prems] by blast
  obtain es d2 where "feed bs d1 = Inr (es, d2)" "packet_inv d2" using Cons.IH [OF 1(2)] by blast
  with 1 show ?case by simp
qed simp

lemma feed_append:
  "feed (bs @ cs) d = bindR (feed bs d) (\<lambda>(es, d). bindR (feed cs d) (\<lambda>(es', d). Inr (es @ es', d)))"
proof (induction bs arbitrary: d)
  case Nil
  then show ?case by (cases "feed cs d") (auto split: prod.split)
next
  case (Cons b bs)
  show ?case
    by (cases "push_byte b d") (auto simp: Cons.IH bindR_def split: sum.splits prod.splits option.splits)
qed

lemma packet_first:
  fixes bt :: u8 and p q :: bool
  assumes "bt < 8"
  defines "b0 \<equiv> (bt AND 0x07) OR 0x08 OR (if p then 0x10 else 0) OR (if q then 0x20 else 0)"
  shows "b0 AND 0x08 \<noteq> 0" "b0 AND 0xC0 = 0" "b0 AND 0x10 \<noteq> 0 \<longleftrightarrow> p" "b0 AND 0x20 \<noteq> 0 \<longleftrightarrow> q" "b0 AND 0x07 = bt"
proof -
  have "bt AND mask 3 = bt" using assms(1) by (intro and_mask_self) (simp add: word_less_nat_alt)
  then have bt: "bt AND 0x07 = bt" by (simp add: mask_eq_exp_minus_1)
  have z: "bt AND 0x08 = 0" "bt AND 0xC0 = 0" "bt AND 0x10 = 0" "bt AND 0x20 = 0"
    by (subst bt [symmetric], simp add: and.assoc)+
  show "b0 AND 0x08 \<noteq> 0" "b0 AND 0xC0 = 0" "b0 AND 0x10 \<noteq> 0 \<longleftrightarrow> p" "b0 AND 0x20 \<noteq> 0 \<longleftrightarrow> q" "b0 AND 0x07 = bt"
    unfolding b0_def bt by (simp_all add: bit.conj_disj_distrib2 z bt)
qed

lemma delta_decode:
  assumes "- 256 \<le> x" "x < 256"
  shows "as_i16 (if x < 0 then uint (word_of_int x :: u8) - 256 else uint (word_of_int x :: u8)) = x"
proof -
  have u: "uint (word_of_int x :: u8) = x mod 256" by (simp add: uint_word_of_int)
  have "(if x < 0 then x mod 256 - 256 else x mod 256) = x"
  proof (cases "x < 0")
    case True
    have "x mod 256 = (x + 256) mod 256" by simp
    also have "\<dots> = x + 256" using True assms by (intro mod_pos_pos_trivial) simp_all
    finally show ?thesis using True by simp
  qed (use assms in simp)
  then show ?thesis unfolding u using assms by (simp add: as_i16_def)
qed

lemma feed_packet:
  assumes d: "synced d" and e: "in_range e"
  shows "\<exists>d'. feed (packet e) d = Inr ([e], d') \<and> synced d'"
proof -
  obtain x1 x2 x3 where b: "pbytes d = [x1, x2, x3]"
    using d by (auto simp: synced_def numeral_3_eq_3 length_Suc_conv)
  define b0 where "b0 = (buttons e AND 0x07) OR 0x08 OR (if dx e < 0 then 0x10 else 0) OR (if dy e < 0 then 0x20 else 0)"
  have "buttons e < 8" using e by (simp add: in_range_def)
  note f = packet_first [OF this, of "dx e < 0" "dy e < 0", folded b0_def]
  have i: "index d = 0" using d by (simp add: synced_def)
  have x: "as_i16 (if dx e < 0 then uint (word_of_int (dx e) :: u8) - 256 else uint (word_of_int (dx e) :: u8)) = dx e"
    and y: "as_i16 (if dy e < 0 then uint (word_of_int (dy e) :: u8) - 256 else uint (word_of_int (dy e) :: u8)) = dy e"
    using e by (auto simp only: in_range_def intro!: delta_decode)
  have "d = \<lparr>pbytes = [x1, x2, x3], index = 0\<rparr>" using b i by (cases d) simp
  then have "push_byte b0 d = Inr (None, \<lparr>pbytes = [b0, x2, x3], index = 1\<rparr>)"
    "push_byte v \<lparr>pbytes = [b0, x2, x3], index = 1\<rparr> = Inr (None, \<lparr>pbytes = [b0, v, x3], index = 2\<rparr>)"
    "push_byte w \<lparr>pbytes = [b0, v, x3], index = 2\<rparr> =
       Inr (Some \<lparr>dx = as_i16 (if dx e < 0 then uint v - 256 else uint v),
                 dy = as_i16 (if dy e < 0 then uint w - 256 else uint w), buttons = buttons e\<rparr>,
            \<lparr>pbytes = [b0, v, w], index = 0\<rparr>)" for v w
    using f by (simp_all add: push_byte_def Let_def)
  then have "feed (packet e) d = Inr ([e], \<lparr>pbytes = [b0, word_of_int (dx e), word_of_int (dy e)], index = 0\<rparr>)"
    unfolding packet_def b0_def [symmetric] by (simp add: x y)
  then show ?thesis by (simp add: synced_def)
qed

lemma feed_noise:
  "synced d \<Longrightarrow> list_all (\<lambda>b. b AND 0x08 = 0) bs \<Longrightarrow> feed bs d = Inr ([], d)"
  by (induction bs) (simp_all add: synced_def push_byte_def)

lemma feed_packets:
  "synced d \<Longrightarrow> list_all in_range es \<Longrightarrow> \<exists>d'. feed (concat (map packet es)) d = Inr (es, d') \<and> synced d'"
proof (induction es arbitrary: d)
  case (Cons e es)
  obtain d1 where 1: "feed (packet e) d = Inr ([e], d1)" "synced d1" using feed_packet [of d e] Cons.prems by auto
  obtain d2 where "feed (concat (map packet es)) d1 = Inr (es, d2)" "synced d2" using Cons.IH [OF 1(2)] Cons.prems(2) by auto
  with 1 show ?case by (simp add: feed_append)
qed simp

text \<open>
  The packet decoder never indexes outside its buffer, whatever bytes arrive. Started between two packets it
  skips bytes that cannot begin a packet, and then returns exactly the motions and buttons of the packets sent,
  for motions of nine bits signed in both directions, and is between two packets again.
\<close>

theorem mouse_packets_roundtrip:
  "(\<exists>es d. feed bs packet_new = Inr (es, d) \<and> packet_inv d) \<and>
   (synced d \<and> list_all (\<lambda>b. b AND 0x08 = 0) noise \<and> list_all in_range es \<longrightarrow>
    (\<exists>d'. feed (noise @ concat (map packet es)) d = Inr (es, d') \<and> synced d'))"
proof (intro conjI impI, goal_cases)
  case 1
  have "packet_inv packet_new" by (simp add: packet_inv_def packet_new_def)
  from feed_total [OF this] show ?case by blast
next
  case 2
  then obtain d' where "feed (concat (map packet es)) d = Inr (es, d')" "synced d'" using feed_packets by blast
  with feed_noise 2 show ?case by (simp add: feed_append)
qed

definition sample_events :: "MouseEvent list" where
  "sample_events = [\<lparr>dx = 10, dy = - 256, buttons = 3\<rparr>, \<lparr>dx = - 1, dy = 255, buttons = 0\<rparr>]"

theorem mouse_packets_roundtrip_witness:
  "\<exists>d'. feed ([0x00, 0xF7] @ concat (map packet sample_events)) packet_new = Inr (sample_events, d') \<and> synced d'"
  using mouse_packets_roundtrip [of "[]" packet_new "[0x00, 0xF7]" sample_events]
  by (simp add: synced_def packet_new_def in_range_def sample_events_def)

section \<open>The enable sequence\<close>

text \<open>A controller that never takes a byte makes the sequence fail after its bounded polls, with nothing written.\<close>

lemma wait_write_stuck:
  assumes "\<And>s. I s \<Longrightarrow> fst (inb io STATUS_CMD_PORT s) AND STATUS_INPUT_FULL \<noteq> 0 \<and> I (snd (inb io STATUS_CMD_PORT s))"
    and "I s"
  shows "\<exists>s'. wait_write n io s = (False, s') \<and> I s'"
  using assms(2)
proof (induction n arbitrary: s)
  case (Suc n)
  then show ?case using assms(1) [OF Suc.prems] by (auto split: prod.split)
qed simp

lemma enable_aux_stuck:
  assumes "\<And>s. I s \<Longrightarrow> fst (inb io STATUS_CMD_PORT s) AND STATUS_INPUT_FULL \<noteq> 0 \<and> I (snd (inb io STATUS_CMD_PORT s))"
    and "I s"
  shows "\<exists>s'. enable_aux io s = (Inl AuxEnableTimeout, s') \<and> I s'"
  using wait_write_stuck [of I io s TIMEOUT_POLLS, OF assms] by (auto simp: enable_aux_def write_command_def)

text \<open>
  On a scripted port whose status register stays ready, the sequence writes the eight bytes in their order, the
  configuration byte with the interrupt bit set and the clock-disable bit clear, and succeeds exactly when the
  last command is acknowledged.
\<close>

definition ready_script :: "u8 \<Rightarrow> u8 \<Rightarrow> u8 \<Rightarrow> scripted" where
  "ready_script config ack1 ack2 =
     queue_reads DATA_PORT [ucast config, ucast ack1, ucast ack2]
       (scripted_new\<lparr>sticky := [STATUS_CMD_PORT \<mapsto> 1]\<rparr>)"

lemmas ports = STATUS_CMD_PORT_def

lemma TIMEOUT_Suc: "TIMEOUT_POLLS = Suc (TIMEOUT_POLLS - 1)"
  by (simp add: TIMEOUT_POLLS_def)

lemma scripted_ready:
  assumes "reads s STATUS_CMD_PORT = []" "sticky s STATUS_CMD_PORT = Some 1"
  shows "wait_write TIMEOUT_POLLS ScriptedIo s = (True, s)" "wait_read TIMEOUT_POLLS ScriptedIo s = (True, s)"
  using assms
  by (subst TIMEOUT_Suc, simp add: scripted_ops scripted_read_def STATUS_INPUT_FULL_def STATUS_OUTPUT_FULL_def)+

lemma enable_aux_scripted:
  "\<exists>s'. enable_aux ScriptedIo (ready_script config ack1 ack2) =
     ((if ack2 = 0xFA then Inr () else Inl ReportingNotAcked), s') \<and>
     writes s' = [(0x64, 0xA8), (0x64, 0x20), (0x64, 0x60), (0x60, ucast ((config OR 0x02) AND NOT 0x20)),
                  (0x64, 0xD4), (0x60, 0xF6), (0x64, 0xD4), (0x60, 0xF4)]"
  by (simp add: enable_aux_def write_command_def write_data_def read_data_def mouse_write_def ready_script_def
      queue_reads_eq scripted_ready [unfolded ports] scripted_new_def Let_def scripted_ops scripted_write_def scripted_read_def
      DATA_PORT_def ports)

end
