(* ===== verification/Pit.thy ===== *)
theory Pit
  imports Port_Io Bytes
begin

text \<open>
  The programmable interval timer (\<^verbatim>\<open>src/hal/src/pit.rs\<close>): the divisor of a rate, its encoding in the 16-bit reload
  register, and the three port writes that program channel 0.
\<close>

unbundle bit_operations_syntax

definition PIT_CHANNEL_0_DATA :: u16 where "PIT_CHANNEL_0_DATA = 0x40"
definition PIT_COMMAND :: u16 where "PIT_COMMAND = 0x43"
definition CMD_CHANNEL0_MODE2 :: u8 where "CMD_CHANNEL0_MODE2 = 0x34"
definition PIT_FREQUENCY_HZ :: nat where "PIT_FREQUENCY_HZ = 1193182"

datatype PitError = ZeroFrequency | FrequencyTooLow

definition divisor_for_hz :: "nat \<Rightarrow> PitError + nat" where
  "divisor_for_hz hz =
     (if hz = 0 then Inl ZeroFrequency
      else let divisor = PIT_FREQUENCY_HZ div hz in
        if divisor = 0 then Inl FrequencyTooLow
        else if 65536 < divisor then Inl FrequencyTooLow
        else Inr divisor)"

definition divisor_to_wire :: "nat \<Rightarrow> u16" where
  "divisor_to_wire divisor = (if divisor = 65536 then 0 else of_nat divisor)"

definition set_rate :: "'s port_io \<Rightarrow> nat \<Rightarrow> 's \<Rightarrow> (PitError + unit) \<times> 's" where
  "set_rate io hz s =
     (case divisor_for_hz hz of
        Inl e \<Rightarrow> (Inl e, s)
      | Inr divisor \<Rightarrow>
          let wire = divisor_to_wire divisor; l = ucast (wire AND 0xFF); h = ucast (drop_bit 8 wire) in
          (Inr (), outb io PIT_CHANNEL_0_DATA h (outb io PIT_CHANNEL_0_DATA l (outb io PIT_COMMAND CMD_CHANNEL0_MODE2 s))))"

text \<open>
  The rates that can be programmed are those from 19 Hz to the input clock, the divisor is the largest one that is
  not slower than asked, and a rate above the clock is refused with the error for rates that are too low.
\<close>

lemma divisor_for_hz_cases:
  "divisor_for_hz hz =
     (if hz = 0 then Inl ZeroFrequency else if 19 \<le> hz \<and> hz \<le> PIT_FREQUENCY_HZ then Inr (PIT_FREQUENCY_HZ div hz)
      else Inl FrequencyTooLow)"
proof -
  consider "hz = 0" | "0 < hz" "hz < 19" | "19 \<le> hz" "hz \<le> PIT_FREQUENCY_HZ" | "PIT_FREQUENCY_HZ < hz" "19 \<le> hz"
    by linarith
  then show ?thesis
  proof cases
    case 1
    then show ?thesis by (simp add: divisor_for_hz_def)
  next
    case 2
    then have "65536 * hz + hz \<le> PIT_FREQUENCY_HZ" by (simp add: PIT_FREQUENCY_HZ_def)
    then have "65536 + 1 \<le> PIT_FREQUENCY_HZ div hz" using 2 by (simp add: less_eq_div_iff_mult_less_eq algebra_simps)
    with 2 show ?thesis by (simp add: divisor_for_hz_def Let_def)
  next
    case 3
    then have "PIT_FREQUENCY_HZ < 65536 * hz" by (simp add: PIT_FREQUENCY_HZ_def)
    then have "PIT_FREQUENCY_HZ div hz < 65536" by (simp add: less_mult_imp_div_less)
    moreover have "0 < PIT_FREQUENCY_HZ div hz" using 3 by (simp add: div_greater_zero_iff)
    ultimately show ?thesis using 3 by (simp add: divisor_for_hz_def Let_def)
  next
    case 4
    then show ?thesis by (auto simp: divisor_for_hz_def Let_def)
  qed
qed

lemma divisor_in_range:
  assumes "divisor_for_hz hz = Inr divisor"
  shows "0 < divisor" "divisor < 65536" "divisor * hz \<le> PIT_FREQUENCY_HZ" "PIT_FREQUENCY_HZ < (divisor + 1) * hz"
proof -
  have hz: "19 \<le> hz" "hz \<le> PIT_FREQUENCY_HZ" and d: "divisor = PIT_FREQUENCY_HZ div hz"
    using assms by (auto simp: divisor_for_hz_cases split: if_splits)
  have "PIT_FREQUENCY_HZ < 65536 * hz" using hz(1) by (simp add: PIT_FREQUENCY_HZ_def)
  then show "divisor < 65536" by (simp add: d less_mult_imp_div_less)
  show "0 < divisor" using hz by (simp add: d div_greater_zero_iff)
  show "divisor * hz \<le> PIT_FREQUENCY_HZ" by (simp add: d)
  show "PIT_FREQUENCY_HZ < (divisor + 1) * hz" using hz by (simp add: d dividend_less_div_times)
qed

text \<open>The two data bytes written are the divisor, least significant first.\<close>

lemma wire_bytes:
  assumes "divisor < 65536"
  defines "w \<equiv> divisor_to_wire divisor"
  shows "le_val [ucast (w AND 0xFF), ucast (drop_bit 8 w)] = divisor"
proof -
  have w: "unat w = divisor" using assms(1) by (simp add: w_def divisor_to_wire_def unat_of_nat)
  have "unat (w AND 0xFF) = divisor mod 256"
    unfolding w [symmetric] take_bit_eq_mod [of 8 "unat w", simplified, symmetric]
    by (simp only: take_bit_eq_mask unsigned_and_eq) (simp add: mask_eq_exp_minus_1)
  then have l: "unat (ucast (w AND 0xFF) :: u8) = divisor mod 256" by (simp add: unsigned_ucast_eq take_bit_eq_mod)
  have "unat (drop_bit 8 w) = divisor div 256" unfolding w [symmetric] by (subst unat_drop_bit_eq) (simp add: drop_bit_eq_div)
  moreover have "divisor div 256 < 256" using assms(1) by (simp add: less_mult_imp_div_less)
  ultimately have h: "unat (ucast (drop_bit 8 w) :: u8) = divisor div 256" by (simp add: unsigned_ucast_eq take_bit_eq_mod)
  show ?thesis by (simp add: l h)
qed

text \<open>
  Programming a rate writes nothing and fails for zero, for rates below 19 Hz and for rates above the input
  clock. For every other rate it writes the command byte and then the two bytes of a divisor that the 16-bit
  register holds without wrapping, low byte first: the largest divisor whose rate is at least the one asked for.
\<close>

theorem pit_set_rate_correct:
  "(if 19 \<le> hz \<and> hz \<le> PIT_FREQUENCY_HZ
    then \<exists>l h. set_rate ScriptedIo hz s =
           (Inr (), s\<lparr>writes := writes s @ [(PIT_COMMAND, ucast CMD_CHANNEL0_MODE2), (PIT_CHANNEL_0_DATA, ucast l),
                                            (PIT_CHANNEL_0_DATA, ucast h)]\<rparr>) \<and>
           0 < le_val [l, h] \<and> le_val [l, h] * hz \<le> PIT_FREQUENCY_HZ \<and> PIT_FREQUENCY_HZ < (le_val [l, h] + 1) * hz
    else \<exists>e. set_rate ScriptedIo hz s = (Inl e, s))"
proof (cases "19 \<le> hz \<and> hz \<le> PIT_FREQUENCY_HZ")
  case True
  then have d: "divisor_for_hz hz = Inr (PIT_FREQUENCY_HZ div hz)" by (simp add: divisor_for_hz_cases)
  note r = divisor_in_range [OF d]
  define w where "w = divisor_to_wire (PIT_FREQUENCY_HZ div hz)"
  define l h :: u8 where "l = ucast (w AND 0xFF)" and "h = ucast (drop_bit 8 w)"
  have v: "le_val [l, h] = PIT_FREQUENCY_HZ div hz"
    unfolding l_def h_def w_def by (rule wire_bytes [OF r(2)])
  have "set_rate ScriptedIo hz s = (Inr (), s\<lparr>writes := writes s @ [(PIT_COMMAND, ucast CMD_CHANNEL0_MODE2),
      (PIT_CHANNEL_0_DATA, ucast l), (PIT_CHANNEL_0_DATA, ucast h)]\<rparr>)"
    by (simp add: set_rate_def d w_def l_def h_def Let_def scripted_ops scripted_write_def)
  with r show ?thesis unfolding if_P [OF True] v [symmetric] by blast
next
  case False
  then show ?thesis by (auto simp: set_rate_def divisor_for_hz_cases)
qed

end
