(* ===== verification/Vfs.thy ===== *)
theory Vfs
  imports Fs_Types
begin

text \<open>
  The virtual file system (\<^verbatim>\<open>kernel/src/fs/vfs.rs\<close>): lexical path normalisation, the mount table with its
  longest-prefix match, path resolution with a bounded number of symbolic links, and the operations on paths.
  The trait \<open>Inode\<close> is a record of its operations over the state of the file systems, which the resolution takes
  as an argument; a mounted file system is its function for the root inode.
\<close>

section \<open>Paths\<close>

definition slash :: char where "slash = CHR ''/''"

fun split_on :: "char \<Rightarrow> string \<Rightarrow> string list" where
  "split_on c [] = [[]]"
| "split_on c (x # xs) =
     (if x = c then [] # split_on c xs
      else case split_on c xs of [] \<Rightarrow> [[x]] | p # ps \<Rightarrow> (x # p) # ps)"

definition path_components :: "string \<Rightarrow> string list" where
  "path_components p = filter (\<lambda>s. s \<noteq> []) (split_on slash p)"

definition starts_slash :: "string \<Rightarrow> bool" where
  "starts_slash p = (case p of [] \<Rightarrow> False | c # _ \<Rightarrow> c = slash)"

primrec join_path :: "string list \<Rightarrow> string" where
  "join_path [] = []"
| "join_path (c # cs) = (if cs = [] then c else c @ slash # join_path cs)"

definition norm_step :: "string list \<Rightarrow> string \<Rightarrow> string list" where
  "norm_step stack c = (if c = ''.'' then stack else if c = ''..'' then butlast stack else stack @ [c])"

definition normalize_path :: "string \<Rightarrow> string \<Rightarrow> string" where
  "normalize_path cwd path =
     (let stack = (if starts_slash path then [] else path_components cwd);
          stack = foldl norm_step stack (path_components path)
      in if stack = [] then ''/'' else slash # join_path stack)"

text \<open>The leaf of a path is what follows its last slash.\<close>

definition path_leaf :: "string \<Rightarrow> string" where
  "path_leaf p = rev (takeWhile (\<lambda>c. c \<noteq> slash) (rev p))"

definition split_parent :: "string \<Rightarrow> Errno + string \<times> string" where
  "split_parent p =
     (if slash \<notin> set p then Inl EINVAL
      else let leaf = path_leaf p; idx = length p - length leaf - 1 in
        if leaf = [] then Inl EINVAL
        else Inr (if idx = 0 then ''/'' else take idx p, leaf))"

section \<open>Mounts\<close>

type_synonym ('i, 's) mount_table = "(string \<times> ('s \<Rightarrow> Errno + 'i)) list"

definition mount_fs :: "string \<Rightarrow> ('s \<Rightarrow> Errno + 'i) \<Rightarrow> ('i, 's) mount_table \<Rightarrow> ('i, 's) mount_table" where
  "mount_fs prefix fs table = sort_key (\<lambda>e. - int (length (fst e))) (table @ [(prefix, fs)])"

definition has_prefix :: "string \<Rightarrow> string \<Rightarrow> bool" where
  "has_prefix p s \<longleftrightarrow> take (length p) s = p"

definition strip_prefix :: "string \<Rightarrow> string \<Rightarrow> string option" where
  "strip_prefix p s = (if has_prefix p s then Some (drop (length p) s) else None)"

definition child_of :: "string \<Rightarrow> string \<Rightarrow> string option" where
  "child_of parent prefix =
     (if prefix = parent then None
      else case (if parent = ''/'' then strip_prefix ''/'' prefix
                 else Option.bind (strip_prefix parent prefix) (strip_prefix ''/'')) of
             None \<Rightarrow> None
           | Some rel \<Rightarrow> if rel = [] \<or> slash \<in> set rel then None else Some rel)"

definition direct_children :: "string \<Rightarrow> ('i, 's) mount_table \<Rightarrow> string list" where
  "direct_children parent table = List.map_filter (\<lambda>e. child_of parent (fst e)) table"

definition mount_matches :: "string \<Rightarrow> string \<Rightarrow> bool" where
  "mount_matches path prefix \<longleftrightarrow>
     path = prefix \<or> has_prefix prefix path \<and> (prefix = ''/'' \<or> starts_slash (drop (length prefix) path))"

definition find_mount :: "string \<Rightarrow> ('i, 's) mount_table \<Rightarrow> (string \<times> ('s \<Rightarrow> Errno + 'i)) option" where
  "find_mount path table = List.find (\<lambda>e. mount_matches path (fst e)) table"

definition mount_rel :: "string \<Rightarrow> string \<Rightarrow> string" where
  "mount_rel path prefix =
     (if prefix = ''/'' then drop 1 path else dropWhile (\<lambda>c. c = slash) (drop (length prefix) path))"

section \<open>Inodes and resolution\<close>

record ('i, 'h, 's) vfs_ops =
  op_stat :: "'i \<Rightarrow> 's \<Rightarrow> Stat"
  op_lookup :: "string \<Rightarrow> 'i \<Rightarrow> 's \<Rightarrow> Errno + 'i"
  op_readdir :: "nat \<Rightarrow> 'i \<Rightarrow> 's \<Rightarrow> Errno + VDirEntry option"
  op_readlink :: "'i \<Rightarrow> 's \<Rightarrow> Errno + string"
  op_open :: "u32 \<Rightarrow> 'i \<Rightarrow> 's \<Rightarrow> (Errno + 'h) \<times> 's"
  op_create :: "string \<Rightarrow> 'i \<Rightarrow> 's \<Rightarrow> (Errno + 'i) \<times> 's"
  op_mkdir :: "string \<Rightarrow> 'i \<Rightarrow> 's \<Rightarrow> (Errno + 'i) \<times> 's"
  op_unlink :: "string \<Rightarrow> 'i \<Rightarrow> 's \<Rightarrow> (Errno + unit) \<times> 's"
  op_rmdir :: "string \<Rightarrow> 'i \<Rightarrow> 's \<Rightarrow> (Errno + unit) \<times> 's"
  op_take_child :: "string \<Rightarrow> 'i \<Rightarrow> 's \<Rightarrow> (Errno + 'i) \<times> 's"
  op_insert_child :: "string \<Rightarrow> 'i \<Rightarrow> 'i \<Rightarrow> 's \<Rightarrow> (Errno + unit) \<times> 's"
  op_symlink :: "string \<Rightarrow> string \<Rightarrow> 'i \<Rightarrow> 's \<Rightarrow> (Errno + 'i) \<times> 's"
  op_chmod :: "u32 \<Rightarrow> 'i \<Rightarrow> 's \<Rightarrow> (Errno + unit) \<times> 's"

text \<open>The default methods of the trait, for an inode that has only its metadata and a way to be opened.\<close>

definition inode_defaults ::
  "('i \<Rightarrow> 's \<Rightarrow> Stat) \<Rightarrow> (u32 \<Rightarrow> 'i \<Rightarrow> 's \<Rightarrow> (Errno + 'h) \<times> 's) \<Rightarrow> ('i, 'h, 's) vfs_ops" where
  "inode_defaults st opn =
     \<lparr>op_stat = st, op_lookup = (\<lambda>_ _ _. Inl ENOTDIR), op_readdir = (\<lambda>_ _ _. Inl ENOTDIR),
      op_readlink = (\<lambda>_ _. Inl EINVAL), op_open = opn, op_create = (\<lambda>_ _ s. (Inl EROFS, s)),
      op_mkdir = (\<lambda>_ _ s. (Inl EROFS, s)), op_unlink = (\<lambda>_ _ s. (Inl EROFS, s)),
      op_rmdir = (\<lambda>_ _ s. (Inl EROFS, s)), op_take_child = (\<lambda>_ _ s. (Inl EROFS, s)),
      op_insert_child = (\<lambda>_ _ _ s. (Inl EROFS, s)), op_symlink = (\<lambda>_ _ _ s. (Inl EROFS, s)),
      op_chmod = (\<lambda>_ _ s. (Inr (), s))\<rparr>"

definition MAX_SYMLINK_HOPS :: nat where "MAX_SYMLINK_HOPS = 8"

definition dir_path :: "string \<Rightarrow> string list \<Rightarrow> string" where
  "dir_path prefix cs = foldl (\<lambda>p c. p @ slash # c) prefix cs"

definition link_target :: "string \<Rightarrow> string list \<Rightarrow> string \<Rightarrow> string" where
  "link_target prefix seen target =
     (if starts_slash target then target else normalize_path (dir_path prefix seen) target)"

primrec walk ::
  "('i, 'h, 's) vfs_ops \<Rightarrow> (string \<Rightarrow> Errno + 'i) option \<Rightarrow> bool \<Rightarrow> string \<Rightarrow> 's \<Rightarrow> string list \<Rightarrow> string list \<Rightarrow> 'i \<Rightarrow> Errno + 'i" where
  "walk V next follow prefix s [] seen node = Inr node"
| "walk V next follow prefix s (c # cs) seen node =
     (if c = ''.'' then walk V next follow prefix s cs (seen @ [c]) node
      else if c = ''..'' then Inl EINVAL
      else case op_lookup V c node s of
             Inl e \<Rightarrow> Inl e
           | Inr n \<Rightarrow>
               if file_type (op_stat V n s) = Symlink \<and> (cs \<noteq> [] \<or> follow)
               then case next of
                      None \<Rightarrow> Inl ELOOP
                    | Some res \<Rightarrow>
                        (case op_readlink V n s of
                           Inl e \<Rightarrow> Inl e
                         | Inr target \<Rightarrow>
                             case res (link_target prefix seen target) of
                               Inl e \<Rightarrow> Inl e
                             | Inr n' \<Rightarrow> walk V next follow prefix s cs (seen @ [c]) n')
               else walk V next follow prefix s cs (seen @ [c]) n)"

definition resolve_with ::
  "('i, 'h, 's) vfs_ops \<Rightarrow> ('i, 's) mount_table \<Rightarrow> (string \<Rightarrow> Errno + 'i) option \<Rightarrow> bool \<Rightarrow> 's \<Rightarrow> string \<Rightarrow> Errno + 'i" where
  "resolve_with V T next follow s path =
     (if \<not> starts_slash path then Inl EINVAL
      else case find_mount path T of
             None \<Rightarrow> Inl ENOENT
           | Some (prefix, root) \<Rightarrow>
               (case root s of
                  Inl e \<Rightarrow> Inl e
                | Inr node \<Rightarrow> walk V next follow prefix s (path_components (mount_rel path prefix)) [] node))"

primrec resolve_inner ::
  "nat \<Rightarrow> ('i, 'h, 's) vfs_ops \<Rightarrow> ('i, 's) mount_table \<Rightarrow> bool \<Rightarrow> 's \<Rightarrow> string \<Rightarrow> Errno + 'i" where
  "resolve_inner 0 V T follow s path = resolve_with V T None follow s path"
| "resolve_inner (Suc hops) V T follow s path =
     resolve_with V T (Some (resolve_inner hops V T follow s)) follow s path"

definition resolve :: "('i, 'h, 's) vfs_ops \<Rightarrow> ('i, 's) mount_table \<Rightarrow> string \<Rightarrow> 's \<Rightarrow> Errno + 'i" where
  "resolve V T path s = resolve_inner MAX_SYMLINK_HOPS V T True s path"

definition resolve_no_follow :: "('i, 'h, 's) vfs_ops \<Rightarrow> ('i, 's) mount_table \<Rightarrow> string \<Rightarrow> 's \<Rightarrow> Errno + 'i" where
  "resolve_no_follow V T path s = resolve_inner MAX_SYMLINK_HOPS V T False s path"

section \<open>Operations on paths\<close>

text \<open>The parent directory of a path, resolved, and the leaf.\<close>

definition at_parent ::
  "('i, 'h, 's) vfs_ops \<Rightarrow> ('i, 's) mount_table \<Rightarrow> string \<Rightarrow> (string \<Rightarrow> 'i \<Rightarrow> 's \<Rightarrow> (Errno + 'a) \<times> 's) \<Rightarrow> 's \<Rightarrow> (Errno + 'a) \<times> 's" where
  "at_parent V T path f s =
     (case split_parent path of
        Inl e \<Rightarrow> (Inl e, s)
      | Inr (dir, leaf) \<Rightarrow>
          case resolve V T dir s of Inl e \<Rightarrow> (Inl e, s) | Inr d \<Rightarrow> f leaf d s)"

definition then_unit :: "(Errno + 'a) \<times> 's \<Rightarrow> (Errno + unit) \<times> 's" where
  "then_unit r = (case r of (Inl e, s) \<Rightarrow> (Inl e, s) | (Inr _, s) \<Rightarrow> (Inr (), s))"

definition create_and_open ::
  "('i, 'h, 's) vfs_ops \<Rightarrow> ('i, 's) mount_table \<Rightarrow> string \<Rightarrow> u32 \<Rightarrow> 's \<Rightarrow> (Errno + 'h) \<times> 's" where
  "create_and_open V T path flags s =
     at_parent V T path (\<lambda>leaf d s.
       case op_create V leaf d s of (Inl e, s) \<Rightarrow> (Inl e, s) | (Inr n, s) \<Rightarrow> op_open V flags n s) s"

definition vfs_open :: "('i, 'h, 's) vfs_ops \<Rightarrow> ('i, 's) mount_table \<Rightarrow> string \<Rightarrow> u32 \<Rightarrow> 's \<Rightarrow> (Errno + 'h) \<times> 's" where
  "vfs_open V T path flags s =
     (case resolve V T path s of
        Inr n \<Rightarrow> op_open V flags n s
      | Inl e \<Rightarrow> if e = ENOENT \<and> and flags O_CREAT \<noteq> 0 then create_and_open V T path flags s else (Inl e, s))"

definition vfs_stat :: "('i, 'h, 's) vfs_ops \<Rightarrow> ('i, 's) mount_table \<Rightarrow> string \<Rightarrow> 's \<Rightarrow> Errno + Stat" where
  "vfs_stat V T path s = (case resolve V T path s of Inl e \<Rightarrow> Inl e | Inr n \<Rightarrow> Inr (op_stat V n s))"

definition vfs_mkdir :: "('i, 'h, 's) vfs_ops \<Rightarrow> ('i, 's) mount_table \<Rightarrow> string \<Rightarrow> 's \<Rightarrow> (Errno + unit) \<times> 's" where
  "vfs_mkdir V T path s = then_unit (at_parent V T path (op_mkdir V) s)"

definition vfs_symlink :: "('i, 'h, 's) vfs_ops \<Rightarrow> ('i, 's) mount_table \<Rightarrow> string \<Rightarrow> string \<Rightarrow> 's \<Rightarrow> (Errno + unit) \<times> 's" where
  "vfs_symlink V T target path s = then_unit (at_parent V T path (\<lambda>leaf. op_symlink V leaf target) s)"

definition vfs_unlink :: "('i, 'h, 's) vfs_ops \<Rightarrow> ('i, 's) mount_table \<Rightarrow> string \<Rightarrow> 's \<Rightarrow> (Errno + unit) \<times> 's" where
  "vfs_unlink V T path s = at_parent V T path (op_unlink V) s"

definition vfs_rmdir :: "('i, 'h, 's) vfs_ops \<Rightarrow> ('i, 's) mount_table \<Rightarrow> string \<Rightarrow> 's \<Rightarrow> (Errno + unit) \<times> 's" where
  "vfs_rmdir V T path s = at_parent V T path (op_rmdir V) s"

definition move_child ::
  "('i, 'h, 's) vfs_ops \<Rightarrow> string \<Rightarrow> 'i \<Rightarrow> string \<Rightarrow> 'i \<Rightarrow> 's \<Rightarrow> (Errno + unit) \<times> 's" where
  "move_child V old_leaf old_parent new_leaf new_parent s =
     (case op_take_child V old_leaf old_parent s of
        (Inl e, s) \<Rightarrow> (Inl e, s)
      | (Inr node, s) \<Rightarrow>
          (case op_insert_child V new_leaf node new_parent s of
             (Inl e, s) \<Rightarrow> (Inl e, snd (op_insert_child V old_leaf node old_parent s))
           | (Inr _, s) \<Rightarrow> (Inr (), s)))"

definition vfs_rename :: "('i, 'h, 's) vfs_ops \<Rightarrow> ('i, 's) mount_table \<Rightarrow> string \<Rightarrow> string \<Rightarrow> 's \<Rightarrow> (Errno + unit) \<times> 's" where
  "vfs_rename V T old_path new_path s =
     (case split_parent old_path of Inl e \<Rightarrow> (Inl e, s) | Inr (old_dir, old_leaf) \<Rightarrow>
      case split_parent new_path of Inl e \<Rightarrow> (Inl e, s) | Inr (new_dir, new_leaf) \<Rightarrow>
      case resolve V T old_dir s of Inl e \<Rightarrow> (Inl e, s) | Inr old_parent \<Rightarrow>
      case resolve V T new_dir s of Inl e \<Rightarrow> (Inl e, s) | Inr new_parent \<Rightarrow>
        move_child V old_leaf old_parent new_leaf new_parent s)"

section \<open>Laws of path normalisation\<close>

definition clean :: "string \<Rightarrow> bool" where
  "clean c \<longleftrightarrow> c \<noteq> [] \<and> slash \<notin> set c"

definition canonical :: "string list \<Rightarrow> bool" where
  "canonical cs \<longleftrightarrow> list_all (\<lambda>c. clean c \<and> c \<noteq> ''.'' \<and> c \<noteq> ''..'') cs"

lemma split_on_nonempty [simp]: "split_on c xs \<noteq> []"
  by (induction xs) (auto split: list.split)

lemma split_on_append: "split_on c (a @ c # b) = split_on c a @ split_on c b"
proof (induction a)
  case (Cons x a)
  then show ?case by (cases "split_on c a") (auto split: list.splits)
qed simp

lemma split_on_clean: "c \<notin> set a \<Longrightarrow> split_on c a = [a]"
  by (induction a) auto

lemma split_on_pieces: "p \<in> set (split_on c xs) \<Longrightarrow> c \<notin> set p"
proof (induction xs arbitrary: p)
  case (Cons x xs)
  then show ?case by (cases "split_on c xs") (auto split: if_splits)
qed simp

lemma components_append: "path_components (a @ slash # b) = path_components a @ path_components b"
  by (simp add: path_components_def split_on_append)

lemma components_Nil [simp]: "path_components [] = []"
  by (simp add: path_components_def)

lemma components_slash: "path_components (slash # a) = path_components a"
  using components_append [of "[]" a] by simp

lemma components_clean: "list_all clean (path_components p)"
  by (auto simp: path_components_def list_all_iff clean_def dest: split_on_pieces)

lemma components_join: "list_all clean cs \<Longrightarrow> path_components (join_path cs) = cs"
proof (induction cs)
  case (Cons c cs)
  then have "path_components c = [c]" by (simp add: path_components_def split_on_clean clean_def)
  with Cons show ?case by (auto simp: components_append)
qed simp

lemma norm_fold_canonical:
  "canonical st \<Longrightarrow> list_all clean cs \<Longrightarrow> canonical (foldl norm_step st cs)"
proof (induction cs arbitrary: st)
  case (Cons c cs)
  have "canonical (norm_step st c)"
    using Cons.prems by (auto simp: norm_step_def canonical_def list_all_iff dest: in_set_butlastD)
  with Cons show ?case by simp
qed simp

lemma norm_fold_id: "canonical cs \<Longrightarrow> foldl norm_step st cs = st @ cs"
  by (induction cs arbitrary: st) (simp_all add: canonical_def norm_step_def)

lemma canonical_clean: "canonical cs \<Longrightarrow> list_all clean cs"
  by (auto simp: canonical_def list_all_iff)

definition norm_stack :: "string \<Rightarrow> string \<Rightarrow> string list" where
  "norm_stack cwd path = foldl norm_step (if starts_slash path then [] else path_components cwd) (path_components path)"

lemma normalize_eq: "normalize_path cwd path = slash # join_path (norm_stack cwd path)"
  by (simp add: normalize_path_def norm_stack_def slash_def Let_def)

lemma norm_stack_canonical: "canonical (path_components cwd) \<Longrightarrow> canonical (norm_stack cwd path)"
  unfolding norm_stack_def by (intro norm_fold_canonical components_clean) (simp_all add: canonical_def)

lemma starts_slash_append: "d \<noteq> [] \<Longrightarrow> starts_slash (d @ e) = starts_slash d"
  by (cases d) (simp_all add: starts_slash_def)



section \<open>The mount table\<close>

definition mounts_sorted :: "('i, 's) mount_table \<Rightarrow> bool" where
  "mounts_sorted T \<longleftrightarrow> sorted (map (\<lambda>e. - int (length (fst e))) T)"

lemma mount_fs_sorted: "mounts_sorted (mount_fs prefix fs T)"
  by (simp add: mounts_sorted_def mount_fs_def)

lemma mount_fs_set: "set (mount_fs prefix fs T) = insert (prefix, fs) (set T)"
  by (simp add: mount_fs_def)

lemma find_mount_longest:
  assumes "mounts_sorted T" "find_mount path T = Some (p, r)" "(p', r') \<in> set T" "mount_matches path p'"
  shows "mount_matches path p \<and> length p' \<le> length p"
  using assms unfolding find_mount_def mounts_sorted_def
  by (induction T) (auto split: if_splits)

lemma find_mount_None: "find_mount path T = None \<longleftrightarrow> (\<forall>e \<in> set T. \<not> mount_matches path (fst e))"
  unfolding find_mount_def by (induction T) auto

section \<open>Renaming over the directory interface\<close>

text \<open>
  What \<open>rename\<close> relies on: the entries of a directory are a finite map, which detaching a child and attaching an
  existing inode change at one name, leaving everything else alone; both refuse a node that is not a directory.
\<close>

definition entry_at :: "('i \<Rightarrow> (string \<Rightarrow> 'i option) option) \<Rightarrow> 'i \<Rightarrow> string \<Rightarrow> 'i option" where
  "entry_at E d n = (case E d of None \<Rightarrow> None | Some m \<Rightarrow> m n)"

locale inode_dir =
  fixes V :: "('i, 'h, 's) vfs_ops" and ents :: "'s \<Rightarrow> 'i \<Rightarrow> (string \<Rightarrow> 'i option) option" and rest :: "'s \<Rightarrow> 'r"
  assumes take_miss: "ents s d = Some m \<Longrightarrow> m n = None \<Longrightarrow> op_take_child V n d s = (Inl ENOENT, s)"
    and take_hit: "ents s d = Some m \<Longrightarrow> m n = Some i \<Longrightarrow>
      \<exists>s'. op_take_child V n d s = (Inr i, s') \<and> ents s' = (ents s)(d \<mapsto> m(n := None)) \<and> rest s' = rest s"
    and take_other: "ents s d = None \<Longrightarrow> \<exists>e. op_take_child V n d s = (Inl e, s)"
    and insert_new: "ents s d = Some m \<Longrightarrow> m n = None \<Longrightarrow>
      \<exists>s'. op_insert_child V n i d s = (Inr (), s') \<and> ents s' = (ents s)(d \<mapsto> m(n \<mapsto> i)) \<and> rest s' = rest s"
    and insert_taken: "ents s d = Some m \<Longrightarrow> m n \<noteq> None \<Longrightarrow> op_insert_child V n i d s = (Inl EEXIST, s)"
    and insert_other: "ents s d = None \<Longrightarrow> \<exists>e. op_insert_child V n i d s = (Inl e, s)"
begin

lemma move_child_ok:
  assumes a: "entry_at (ents s) d1 n1 = Some i" and d2: "ents s d2 \<noteq> None" and b: "entry_at (ents s) d2 n2 = None \<or> (d2 = d1 \<and> n2 = n1)"
  shows "\<exists>s'. move_child V n1 d1 n2 d2 s = (Inr (), s') \<and> rest s' = rest s \<and>
    (\<forall>d n. entry_at (ents s') d n = (if d = d2 \<and> n = n2 then Some i else if d = d1 \<and> n = n1 then None else entry_at (ents s) d n)) \<and>
    (\<forall>d. ents s' d = None \<longleftrightarrow> ents s d = None)"
proof -
  obtain m where m: "ents s d1 = Some m" "m n1 = Some i" using a by (auto simp: entry_at_def split: option.splits)
  obtain s1 where t: "op_take_child V n1 d1 s = (Inr i, s1)" and e1: "ents s1 = (ents s)(d1 \<mapsto> m(n1 := None))"
    and r1: "rest s1 = rest s"
    using take_hit [OF m] by blast
  obtain m2 where m2: "ents s1 d2 = Some m2" using d2 e1 by (cases "d2 = d1") auto
  have n2: "m2 n2 = None" using b m m2 e1 d2 by (auto simp: entry_at_def split: if_splits option.splits)
  obtain s2 where i: "op_insert_child V n2 i d2 s1 = (Inr (), s2)" and e2: "ents s2 = (ents s1)(d2 \<mapsto> m2(n2 \<mapsto> i))"
    and r2: "rest s2 = rest s1"
    using insert_new [OF m2 n2] by blast
  have "move_child V n1 d1 n2 d2 s = (Inr (), s2)" by (simp add: move_child_def t i)
  moreover have "rest s2 = rest s" using r1 r2 by simp
  moreover have "entry_at (ents s2) d n = (if d = d2 \<and> n = n2 then Some i else if d = d1 \<and> n = n1 then None else entry_at (ents s) d n)" for d n
    using m m2 by (auto simp: entry_at_def e1 e2 split: if_splits)
  moreover have "ents s2 d = None \<longleftrightarrow> ents s d = None" for d using m m2 by (auto simp: e1 e2 split: if_splits)
  ultimately show ?thesis by blast
qed

lemma move_child_fails:
  assumes "entry_at (ents s) d1 n1 = None \<or> ents s d2 = None \<or> (entry_at (ents s) d2 n2 \<noteq> None \<and> (d2, n2) \<noteq> (d1, n1))"
  shows "\<exists>e s'. move_child V n1 d1 n2 d2 s = (Inl e, s') \<and> rest s' = rest s \<and> ents s' = ents s"
proof (cases "entry_at (ents s) d1 n1")
  case None
  then show ?thesis
    using take_miss [of s d1 _ n1] take_other [of s d1 n1]
    by (auto simp: entry_at_def move_child_def split: option.splits)
next
  case (Some i)
  then obtain m where m: "ents s d1 = Some m" "m n1 = Some i" by (auto simp: entry_at_def split: option.splits)
  obtain s1 where t: "op_take_child V n1 d1 s = (Inr i, s1)" and e1: "ents s1 = (ents s)(d1 \<mapsto> m(n1 := None))"
    and r1: "rest s1 = rest s"
    using take_hit [OF m] by blast
  have "\<exists>e. op_insert_child V n2 i d2 s1 = (Inl e, s1)"
  proof (cases "ents s1 d2")
    case None
    then show ?thesis by (rule insert_other)
  next
    case (Some m2)
    then have "m2 n2 \<noteq> None"
      using assms m e1 \<open>entry_at (ents s) d1 n1 = Some i\<close> by (auto simp: entry_at_def split: if_splits option.splits)
    with Some show ?thesis using insert_taken by blast
  qed
  then obtain e where i: "op_insert_child V n2 i d2 s1 = (Inl e, s1)" by blast
  have "ents s1 d1 = Some (m(n1 := None))" by (simp add: e1)
  then obtain s2 where u: "op_insert_child V n1 i d1 s1 = (Inr (), s2)"
    and e2: "ents s2 = (ents s1)(d1 \<mapsto> (m(n1 := None))(n1 \<mapsto> i))" and r2: "rest s2 = rest s1"
    using insert_new [of s1 d1 "m(n1 := None)" n1 i] by auto
  have "(m(n1 := None))(n1 \<mapsto> i) = m" using m by auto
  then have "ents s2 = ents s" using e1 e2 m by auto
  moreover have "move_child V n1 d1 n2 d2 s = (Inl e, s2)" by (simp add: move_child_def t i u)
  ultimately show ?thesis using r1 r2 by auto
qed

end

end
