(* ===== verification/Ramfs.thy ===== *)
theory Ramfs
  imports Vfs "HOL-Library.RBT" "HOL-Library.List_Lexorder" "HOL-Library.Char_ord"
begin

text \<open>
  The in-memory file system (\<^verbatim>\<open>kernel/src/fs/ramfs.rs\<close>). Inodes live in a store; a shared pointer to an inode is its
  address in the store, for which the inode number serves, as the one counter of the code hands every inode a
  number of its own. A directory holds an ordered map from names to inodes of any file system: a pointer to an
  inode of another one is \<open>Foreign\<close>, and calls on it go to the operations given as an argument. The position of an
  open file is a cell that duplicated handles share.
\<close>

unbundle bit_operations_syntax

section \<open>Nodes\<close>

datatype 'x iref = Ram nat | Foreign 'x

datatype 'x ram_node =
    RamDirNode nat "(string, 'x iref) rbt" u32
  | RamFileNode nat "u8 list" u32
  | RamSymlinkNode nat string

datatype 'h fhandle = RamFileHandle nat nat | RamDirHandle "VDirEntry list" nat | ForeignHandle 'h

record 'x ramfs =
  nodes :: "nat \<Rightarrow> 'x ram_node option"
  next_ino :: nat
  cells :: "nat \<Rightarrow> nat"
  next_cell :: nat

definition ROOT_INO :: nat where "ROOT_INO = 1"

definition ramfs_new :: "'x ramfs" where
  "ramfs_new =
     \<lparr>nodes = [ROOT_INO \<mapsto> RamDirNode ROOT_INO RBT.empty 0x1ED], next_ino = ROOT_INO + 1, cells = (\<lambda>_. 0), next_cell = 0\<rparr>"

definition ramfs_root :: "('x, 'a) ramfs_scheme \<Rightarrow> Errno + 'x iref" where
  "ramfs_root s = Inr (Ram ROOT_INO)"

definition alloc_node :: "(nat \<Rightarrow> 'x ram_node) \<Rightarrow> ('x, 'a) ramfs_scheme \<Rightarrow> 'x iref \<times> ('x, 'a) ramfs_scheme" where
  "alloc_node f s =
     (Ram (next_ino s), s\<lparr>nodes := (nodes s)(next_ino s \<mapsto> f (next_ino s)), next_ino := next_ino s + 1\<rparr>)"

definition name_bytes :: "string \<Rightarrow> u8 list" where
  "name_bytes n = map (\<lambda>c. of_nat (of_char c)) n"

text \<open>
  The type of a child. The code computes it from the whole metadata record of the child; only the type bits are
  used.
\<close>

type_synonym ('x, 'h, 'a) ram_ops = "('x iref, 'h fhandle, ('x, 'a) ramfs_scheme) vfs_ops"

definition child_type :: "('x, 'h, 'a) ram_ops \<Rightarrow> 'x iref \<Rightarrow> ('x, 'a) ramfs_scheme \<Rightarrow> FileType" where
  "child_type F i s =
     (case i of
        Foreign x \<Rightarrow> file_type (op_stat F i s)
      | Ram r \<Rightarrow> (case nodes s r of Some (RamDirNode _ _ _) \<Rightarrow> Directory | Some (RamSymlinkNode _ _) \<Rightarrow> Symlink | _ \<Rightarrow> Regular))"

definition ram_stat :: "('x, 'h, 'a) ram_ops \<Rightarrow> 'x iref \<Rightarrow> ('x, 'a) ramfs_scheme \<Rightarrow> Stat" where
  "ram_stat F i s =
     (case i of
        Foreign x \<Rightarrow> op_stat F i s
      | Ram r \<Rightarrow>
          (case nodes s r of
             Some (RamDirNode ino es mode) \<Rightarrow>
               with_nlink (2 + length (filter (\<lambda>(n, c). child_type F c s = Directory) (RBT.entries es)))
                 (with_perm_bits mode (stat_dir ino))
           | Some (RamFileNode ino bs mode) \<Rightarrow> with_perm_bits mode (stat_regular_writable ino (int (length bs)))
           | Some (RamSymlinkNode ino target) \<Rightarrow> stat_symlink ino (int (length target))
           | None \<Rightarrow> stat_regular 0 0))"

definition child_dirent :: "('x, 'h, 'a) ram_ops \<Rightarrow> ('x, 'a) ramfs_scheme \<Rightarrow> string \<times> 'x iref \<Rightarrow> VDirEntry" where
  "child_dirent F s e = dirent_new (st_ino (ram_stat F (snd e) s)) (child_type F (snd e) s) (name_bytes (fst e))"

definition ram_lookup :: "('x, 'h, 'a) ram_ops \<Rightarrow> string \<Rightarrow> 'x iref \<Rightarrow> ('x, 'a) ramfs_scheme \<Rightarrow> Errno + 'x iref" where
  "ram_lookup F name i s =
     (case i of
        Foreign x \<Rightarrow> op_lookup F name i s
      | Ram r \<Rightarrow>
          (case nodes s r of
             Some (RamDirNode ino es mode) \<Rightarrow> (case RBT.lookup es name of None \<Rightarrow> Inl ENOENT | Some n \<Rightarrow> Inr n)
           | _ \<Rightarrow> Inl ENOTDIR))"

definition ram_readdir :: "('x, 'h, 'a) ram_ops \<Rightarrow> nat \<Rightarrow> 'x iref \<Rightarrow> ('x, 'a) ramfs_scheme \<Rightarrow> Errno + VDirEntry option" where
  "ram_readdir F off i s =
     (case i of
        Foreign x \<Rightarrow> op_readdir F off i s
      | Ram r \<Rightarrow>
          (case nodes s r of
             Some (RamDirNode ino es mode) \<Rightarrow>
               Inr (if off = 0 then Some (dirent_new ino Directory [46])
                    else if off = 1 then Some (dirent_new ino Directory [46, 46])
                    else if off - 2 < length (RBT.entries es) then Some (child_dirent F s (RBT.entries es ! (off - 2)))
                    else None)
           | _ \<Rightarrow> Inl ENOTDIR))"

definition ram_readlink :: "('x, 'h, 'a) ram_ops \<Rightarrow> 'x iref \<Rightarrow> ('x, 'a) ramfs_scheme \<Rightarrow> Errno + string" where
  "ram_readlink F i s =
     (case i of
        Foreign x \<Rightarrow> op_readlink F i s
      | Ram r \<Rightarrow> (case nodes s r of Some (RamSymlinkNode ino target) \<Rightarrow> Inr target | _ \<Rightarrow> Inl EINVAL))"

definition ram_open :: "('x, 'h, 'a) ram_ops \<Rightarrow> u32 \<Rightarrow> 'x iref \<Rightarrow> ('x, 'a) ramfs_scheme \<Rightarrow> (Errno + 'h fhandle) \<times> ('x, 'a) ramfs_scheme" where
  "ram_open F flags i s =
     (case i of
        Foreign x \<Rightarrow> op_open F flags i s
      | Ram r \<Rightarrow>
          (case nodes s r of
             Some (RamDirNode ino es mode) \<Rightarrow>
               (Inr (RamDirHandle (dirent_new ino Directory [46] # dirent_new ino Directory [46, 46] #
                                   map (child_dirent F s) (RBT.entries es)) 0), s)
           | Some (RamFileNode ino bs mode) \<Rightarrow>
               let bs = (if flags AND O_TRUNC \<noteq> 0 then [] else bs);
                   s = s\<lparr>nodes := (nodes s)(r \<mapsto> RamFileNode ino bs mode)\<rparr>;
                   off = (if flags AND O_APPEND \<noteq> 0 then length bs else 0)
               in (Inr (RamFileHandle r (next_cell s)),
                   s\<lparr>cells := (cells s)(next_cell s := off), next_cell := next_cell s + 1\<rparr>)
           | Some (RamSymlinkNode ino target) \<Rightarrow> (Inl EINVAL, s)
           | None \<Rightarrow> (Inl EIO, s)))"

text \<open>An operation on the entries of a directory; the trait default for a node that is none.\<close>

definition on_dir ::
  "Errno \<Rightarrow> nat \<Rightarrow> (nat \<Rightarrow> (string, 'x iref) rbt \<Rightarrow> u32 \<Rightarrow> ('x, 'a) ramfs_scheme \<Rightarrow> (Errno + 'b) \<times> ('x, 'a) ramfs_scheme) \<Rightarrow>
   ('x, 'a) ramfs_scheme \<Rightarrow> (Errno + 'b) \<times> ('x, 'a) ramfs_scheme" where
  "on_dir e r f s = (case nodes s r of Some (RamDirNode ino es mode) \<Rightarrow> f ino es mode s | _ \<Rightarrow> (Inl e, s))"

definition put_dir :: "nat \<Rightarrow> nat \<Rightarrow> (string, 'x iref) rbt \<Rightarrow> u32 \<Rightarrow> ('x, 'a) ramfs_scheme \<Rightarrow> ('x, 'a) ramfs_scheme" where
  "put_dir r ino es mode s = s\<lparr>nodes := (nodes s)(r \<mapsto> RamDirNode ino es mode)\<rparr>"

definition ram_create :: "('x, 'h, 'a) ram_ops \<Rightarrow> string \<Rightarrow> 'x iref \<Rightarrow> ('x, 'a) ramfs_scheme \<Rightarrow> (Errno + 'x iref) \<times> ('x, 'a) ramfs_scheme" where
  "ram_create F name i s =
     (case i of
        Foreign x \<Rightarrow> op_create F name i s
      | Ram r \<Rightarrow> on_dir EROFS r (\<lambda>ino es mode s.
          case RBT.lookup es name of
            Some c \<Rightarrow> if child_type F c s = Directory then (Inl EISDIR, s) else (Inr c, s)
          | None \<Rightarrow>
              (case alloc_node (\<lambda>k. RamFileNode k [] 0x1A4) s of
                 (n, s) \<Rightarrow> (Inr n, put_dir r ino (RBT.insert name n es) mode s))) s)"

definition ram_mkdir :: "('x, 'h, 'a) ram_ops \<Rightarrow> string \<Rightarrow> 'x iref \<Rightarrow> ('x, 'a) ramfs_scheme \<Rightarrow> (Errno + 'x iref) \<times> ('x, 'a) ramfs_scheme" where
  "ram_mkdir F name i s =
     (case i of
        Foreign x \<Rightarrow> op_mkdir F name i s
      | Ram r \<Rightarrow> on_dir EROFS r (\<lambda>ino es mode s.
          if RBT.lookup es name \<noteq> None then (Inl EEXIST, s)
          else case alloc_node (\<lambda>k. RamDirNode k RBT.empty 0x1ED) s of
                 (n, s) \<Rightarrow> (Inr n, put_dir r ino (RBT.insert name n es) mode s)) s)"

definition ram_symlink ::
  "('x, 'h, 'a) ram_ops \<Rightarrow> string \<Rightarrow> string \<Rightarrow> 'x iref \<Rightarrow> ('x, 'a) ramfs_scheme \<Rightarrow> (Errno + 'x iref) \<times> ('x, 'a) ramfs_scheme" where
  "ram_symlink F name target i s =
     (case i of
        Foreign x \<Rightarrow> op_symlink F name target i s
      | Ram r \<Rightarrow> on_dir EROFS r (\<lambda>ino es mode s.
          if RBT.lookup es name \<noteq> None then (Inl EEXIST, s)
          else case alloc_node (\<lambda>k. RamSymlinkNode k target) s of
                 (n, s) \<Rightarrow> (Inr n, put_dir r ino (RBT.insert name n es) mode s)) s)"

definition ram_unlink :: "('x, 'h, 'a) ram_ops \<Rightarrow> string \<Rightarrow> 'x iref \<Rightarrow> ('x, 'a) ramfs_scheme \<Rightarrow> (Errno + unit) \<times> ('x, 'a) ramfs_scheme" where
  "ram_unlink F name i s =
     (case i of
        Foreign x \<Rightarrow> op_unlink F name i s
      | Ram r \<Rightarrow> on_dir EROFS r (\<lambda>ino es mode s.
          case RBT.lookup es name of
            None \<Rightarrow> (Inl ENOENT, s)
          | Some c \<Rightarrow> if child_type F c s = Directory then (Inl EISDIR, s)
                      else (Inr (), put_dir r ino (RBT.delete name es) mode s)) s)"

definition ram_rmdir :: "('x, 'h, 'a) ram_ops \<Rightarrow> string \<Rightarrow> 'x iref \<Rightarrow> ('x, 'a) ramfs_scheme \<Rightarrow> (Errno + unit) \<times> ('x, 'a) ramfs_scheme" where
  "ram_rmdir F name i s =
     (case i of
        Foreign x \<Rightarrow> op_rmdir F name i s
      | Ram r \<Rightarrow> on_dir EROFS r (\<lambda>ino es mode s.
          case RBT.lookup es name of
            None \<Rightarrow> (Inl ENOENT, s)
          | Some c \<Rightarrow>
              if child_type F c s \<noteq> Directory then (Inl ENOTDIR, s)
              else case ram_readdir F 2 c s of
                     Inl e \<Rightarrow> (Inl e, s)
                   | Inr (Some _) \<Rightarrow> (Inl ENOTEMPTY, s)
                   | Inr None \<Rightarrow> (Inr (), put_dir r ino (RBT.delete name es) mode s)) s)"

definition ram_take_child :: "('x, 'h, 'a) ram_ops \<Rightarrow> string \<Rightarrow> 'x iref \<Rightarrow> ('x, 'a) ramfs_scheme \<Rightarrow> (Errno + 'x iref) \<times> ('x, 'a) ramfs_scheme" where
  "ram_take_child F name i s =
     (case i of
        Foreign x \<Rightarrow> op_take_child F name i s
      | Ram r \<Rightarrow> on_dir EROFS r (\<lambda>ino es mode s.
          case RBT.lookup es name of
            None \<Rightarrow> (Inl ENOENT, s)
          | Some c \<Rightarrow> (Inr c, put_dir r ino (RBT.delete name es) mode s)) s)"

definition ram_insert_child ::
  "('x, 'h, 'a) ram_ops \<Rightarrow> string \<Rightarrow> 'x iref \<Rightarrow> 'x iref \<Rightarrow> ('x, 'a) ramfs_scheme \<Rightarrow> (Errno + unit) \<times> ('x, 'a) ramfs_scheme" where
  "ram_insert_child F name node i s =
     (case i of
        Foreign x \<Rightarrow> op_insert_child F name node i s
      | Ram r \<Rightarrow> on_dir EROFS r (\<lambda>ino es mode s.
          if RBT.lookup es name \<noteq> None then (Inl EEXIST, s)
          else (Inr (), put_dir r ino (RBT.insert name node es) mode s)) s)"

definition set_mode :: "nat \<Rightarrow> u32 \<Rightarrow> ('x, 'a) ramfs_scheme \<Rightarrow> ('x, 'a) ramfs_scheme" where
  "set_mode r mode s =
     (case nodes s r of
        Some (RamDirNode ino es _) \<Rightarrow> s\<lparr>nodes := (nodes s)(r \<mapsto> RamDirNode ino es (mode AND 0xFFF))\<rparr>
      | Some (RamFileNode ino bs _) \<Rightarrow> s\<lparr>nodes := (nodes s)(r \<mapsto> RamFileNode ino bs (mode AND 0xFFF))\<rparr>
      | _ \<Rightarrow> s)"

definition ram_chmod :: "('x, 'h, 'a) ram_ops \<Rightarrow> u32 \<Rightarrow> 'x iref \<Rightarrow> ('x, 'a) ramfs_scheme \<Rightarrow> (Errno + unit) \<times> ('x, 'a) ramfs_scheme" where
  "ram_chmod F mode i s =
     (case i of Foreign x \<Rightarrow> op_chmod F mode i s | Ram r \<Rightarrow> (Inr (), set_mode r mode s))"

definition ramfs_ops :: "('x, 'h, 'a) ram_ops \<Rightarrow> ('x, 'h, 'a) ram_ops" where
  "ramfs_ops F =
     \<lparr>op_stat = ram_stat F, op_lookup = ram_lookup F, op_readdir = ram_readdir F, op_readlink = ram_readlink F,
      op_open = ram_open F, op_create = ram_create F, op_mkdir = ram_mkdir F, op_unlink = ram_unlink F,
      op_rmdir = ram_rmdir F, op_take_child = ram_take_child F, op_insert_child = ram_insert_child F,
      op_symlink = ram_symlink F, op_chmod = ram_chmod F\<rparr>"

section \<open>Open files\<close>

definition file_data :: "('x, 'a) ramfs_scheme \<Rightarrow> nat \<Rightarrow> u8 list" where
  "file_data s r = (case nodes s r of Some (RamFileNode _ bs _) \<Rightarrow> bs | _ \<Rightarrow> [])"

definition put_data :: "nat \<Rightarrow> u8 list \<Rightarrow> ('x, 'a) ramfs_scheme \<Rightarrow> ('x, 'a) ramfs_scheme" where
  "put_data r bs s =
     (case nodes s r of
        Some (RamFileNode ino _ mode) \<Rightarrow> s\<lparr>nodes := (nodes s)(r \<mapsto> RamFileNode ino bs mode)\<rparr>
      | _ \<Rightarrow> s)"

definition ram_file_read :: "nat \<Rightarrow> nat \<Rightarrow> nat \<Rightarrow> ('x, 'a) ramfs_scheme \<Rightarrow> u8 list \<times> ('x, 'a) ramfs_scheme" where
  "ram_file_read r c n s =
     (let bs = file_data s r; off = cells s c in
      if length bs \<le> off then ([], s)
      else let k = min n (length bs - off) in
        (take k (drop off bs), s\<lparr>cells := (cells s)(c := off + k)\<rparr>))"

text \<open>
  A write past the end extends the vector with zeroes. A vector of \<^term>\<open>2 ^ 63\<close> bytes or more is a capacity overflow,
  which panics.
\<close>

definition ram_file_write :: "nat \<Rightarrow> nat \<Rightarrow> u8 list \<Rightarrow> ('x, 'a) ramfs_scheme \<Rightarrow> (nat \<times> ('x, 'a) ramfs_scheme) res" where
  "ram_file_write r c buf s =
     (let bs = file_data s r; off = cells s c in
      bindR (add64 off (length buf)) (\<lambda>end.
      if length bs < end \<and> 2 ^ 63 \<le> end then Inl Panic
      else let bs = bs @ replicate (end - length bs) 0;
               bs = take off bs @ buf @ drop end bs
           in Inr (length buf, (put_data r bs s)\<lparr>cells := (cells s)(c := end)\<rparr>)))"

definition ram_file_seek :: "nat \<Rightarrow> nat \<Rightarrow> int \<Rightarrow> int \<Rightarrow> ('x, 'a) ramfs_scheme \<Rightarrow> (file_error + int) \<times> ('x, 'a) ramfs_scheme" where
  "ram_file_seek r c offset whence s =
     (case compute_seek (int (cells s c)) (int (length (file_data s r))) offset whence of
        Inl e \<Rightarrow> (Inl e, s)
      | Inr p \<Rightarrow> (Inr p, s\<lparr>cells := (cells s)(c := nat p)\<rparr>))"

definition ram_handle_dup :: "'h fhandle \<Rightarrow> 'h fhandle option" where
  "ram_handle_dup h = (case h of RamFileHandle r c \<Rightarrow> Some (RamFileHandle r c) | _ \<Rightarrow> None)"

definition ram_handle_stat :: "('x, 'h, 'a) ram_ops \<Rightarrow> 'h fhandle \<Rightarrow> ('x, 'a) ramfs_scheme \<Rightarrow> Stat option" where
  "ram_handle_stat F h s =
     (case h of
        RamFileHandle r c \<Rightarrow> Some (ram_stat F (Ram r) s)
      | RamDirHandle es off \<Rightarrow> Some (stat_dir ROOT_INO)
      | ForeignHandle _ \<Rightarrow> None)"

definition ram_dir_getdents :: "VDirEntry list \<Rightarrow> nat \<Rightarrow> nat \<Rightarrow> u8 list \<times> 'h fhandle" where
  "ram_dir_getdents es off n =
     (case getdents64_from_snapshot es off n of (bs, off') \<Rightarrow> (bs, RamDirHandle es off'))"

end
