(* ===== verification/Ramfs_Props.thy ===== *)
theory Ramfs_Props
  imports Ramfs
begin

text \<open>
  Properties of the in-memory file system and of the path operations over it: the invariant of the inode store, the
  effect of renaming, the contents of open files, and the cases in which links and renames go wrong.
\<close>

unbundle bit_operations_syntax

section \<open>Directories as maps\<close>

definition dir_ents :: "('x, 'a) ramfs_scheme \<Rightarrow> 'x iref \<Rightarrow> (string \<Rightarrow> 'x iref option) option" where
  "dir_ents s i =
     (case i of
        Ram r \<Rightarrow> (case nodes s r of Some (RamDirNode ino es mode) \<Rightarrow> Some (RBT.lookup es) | _ \<Rightarrow> None)
      | Foreign x \<Rightarrow> None)"

text \<open>Everything but the entries of directories.\<close>

definition node_rest :: "'x ram_node \<Rightarrow> nat \<times> u32 + 'x ram_node" where
  "node_rest n = (case n of RamDirNode ino es mode \<Rightarrow> Inl (ino, mode) | _ \<Rightarrow> Inr n)"

definition ram_rest ::
  "('x, 'a) ramfs_scheme \<Rightarrow> (nat \<Rightarrow> (nat \<times> u32 + 'x ram_node) option) \<times> nat \<times> (nat \<Rightarrow> nat) \<times> nat \<times> 'a" where
  "ram_rest s = (\<lambda>r. map_option node_rest (nodes s r), next_ino s, cells s, next_cell s, ramfs.more s)"

lemma put_dir_ents:
  assumes "nodes s r = Some (RamDirNode ino es mode)"
  shows "dir_ents (put_dir r ino es' mode s) = (dir_ents s)(Ram r \<mapsto> RBT.lookup es')"
    and "ram_rest (put_dir r ino es' mode s) = ram_rest s"
  using assms
  by (auto simp: put_dir_def dir_ents_def ram_rest_def node_rest_def fun_eq_iff split: iref.split)

lemma dir_entsD:
  assumes "dir_ents s d = Some m"
  obtains r ino es mode where "d = Ram r" "nodes s r = Some (RamDirNode ino es mode)" "m = RBT.lookup es"
  using assms by (auto simp: dir_ents_def split: iref.splits option.splits ram_node.splits)

lemma ram_other:
  assumes "dir_ents s d = None"
  shows "\<exists>e. ram_take_child (inode_defaults st opn) n d s = (Inl e, s)"
    and "\<exists>e. ram_insert_child (inode_defaults st opn) n i d s = (Inl e, s)"
  using assms
  by (auto simp: dir_ents_def ram_take_child_def ram_insert_child_def inode_defaults_def on_dir_def
      split: iref.splits option.splits ram_node.splits)

interpretation ram: inode_dir "ramfs_ops (inode_defaults st opn)" dir_ents ram_rest for st opn
proof
  fix s :: "('a, 'c) ramfs_scheme" and d i m n
  let ?F = "inode_defaults st opn"
  assume "dir_ents s d = Some m"
  then obtain r ino es mode where d: "d = Ram r" "nodes s r = Some (RamDirNode ino es mode)" "m = RBT.lookup es"
    by (rule dir_entsD)
  show "op_take_child (ramfs_ops ?F) n d s = (Inl ENOENT, s)" if "m n = None"
    using that d by (simp add: ramfs_ops_def ram_take_child_def on_dir_def)
  show "\<exists>s'. op_take_child (ramfs_ops ?F) n d s = (Inr i, s') \<and> dir_ents s' = (dir_ents s)(d \<mapsto> m(n := None)) \<and>
      ram_rest s' = ram_rest s" if "m n = Some i"
    using that d put_dir_ents [OF d(2)] by (simp add: ramfs_ops_def ram_take_child_def on_dir_def)
  show "\<exists>s'. op_insert_child (ramfs_ops ?F) n i d s = (Inr (), s') \<and> dir_ents s' = (dir_ents s)(d \<mapsto> m(n \<mapsto> i)) \<and>
      ram_rest s' = ram_rest s" if "m n = None"
    using that d put_dir_ents [OF d(2)] by (simp add: ramfs_ops_def ram_insert_child_def on_dir_def)
  show "op_insert_child (ramfs_ops ?F) n i d s = (Inl EEXIST, s)" if "m n \<noteq> None"
    using that d by (auto simp: ramfs_ops_def ram_insert_child_def on_dir_def)
next
  fix s :: "('a, 'c) ramfs_scheme" and d i n
  let ?F = "inode_defaults st opn"
  assume n: "dir_ents s d = None"
  show "\<exists>e. op_take_child (ramfs_ops ?F) n d s = (Inl e, s)"
    using ram_other(1) [OF n] by (simp add: ramfs_ops_def)
  show "\<exists>e. op_insert_child (ramfs_ops ?F) n i d s = (Inl e, s)"
    using ram_other(2) [OF n] by (simp add: ramfs_ops_def)
qed

text \<open>
  C34. Renaming between directories of the in-memory file system, with every other file system read-only: it
  succeeds exactly when the source name exists, the target parent is a directory and the target name is free (or
  is the source itself); it then moves that one entry and changes nothing else. When it fails, no directory and
  no file differs from before, also when the entry had already been detached and has to be put back.
\<close>

theorem vfs_rename_atomic:
  fixes st opn
  defines "V \<equiv> ramfs_ops (inode_defaults st opn)"
  assumes sp: "split_parent old = Inr (od, a)" "split_parent new = Inr (nd, b)"
    and rs: "resolve V T od s = Inr d1" "resolve V T nd s = Inr d2"
    and rn: "vfs_rename V T old new s = (r, s')"
  shows "ram_rest s' = ram_rest s \<and>
    (case r of
       Inl e \<Rightarrow> dir_ents s' = dir_ents s \<and>
         (entry_at (dir_ents s) d1 a = None \<or> dir_ents s d2 = None \<or>
          entry_at (dir_ents s) d2 b \<noteq> None \<and> (d2, b) \<noteq> (d1, a))
     | Inr _ \<Rightarrow> \<exists>i. entry_at (dir_ents s) d1 a = Some i \<and>
         (\<forall>d n. entry_at (dir_ents s') d n =
            (if d = d2 \<and> n = b then Some i else if d = d1 \<and> n = a then None else entry_at (dir_ents s) d n)))"
proof -
  have m: "move_child V a d1 b d2 s = (r, s')" using rn by (simp add: vfs_rename_def sp rs)
  show ?thesis
  proof (cases "entry_at (dir_ents s) d1 a = None \<or> dir_ents s d2 = None \<or>
      (entry_at (dir_ents s) d2 b \<noteq> None \<and> (d2, b) \<noteq> (d1, a))")
    case True
    from ram.move_child_fails [OF True, where st = st and opn = opn] show ?thesis
      using m True unfolding V_def by auto
  next
    case False
    then obtain i where "entry_at (dir_ents s) d1 a = Some i" by auto
    moreover have "dir_ents s d2 \<noteq> None" "entry_at (dir_ents s) d2 b = None \<or> (d2 = d1 \<and> b = a)" using False by auto
    ultimately show ?thesis
      using ram.move_child_ok [of s d1 a i d2 b, where st = st and opn = opn] m unfolding V_def by auto
  qed
qed

section \<open>The inode store\<close>

primrec node_ino :: "'x ram_node \<Rightarrow> nat" where
  "node_ino (RamDirNode ino es mode) = ino"
| "node_ino (RamFileNode ino bs mode) = ino"
| "node_ino (RamSymlinkNode ino target) = ino"

definition live :: "('x, 'a) ramfs_scheme \<Rightarrow> 'x iref \<Rightarrow> bool" where
  "live s i = (case i of Ram r \<Rightarrow> nodes s r \<noteq> None | Foreign x \<Rightarrow> True)"

definition node_ok :: "('x, 'a) ramfs_scheme \<Rightarrow> nat \<Rightarrow> 'x ram_node \<Rightarrow> bool" where
  "node_ok s r n \<longleftrightarrow> r < next_ino s \<and> node_ino n = r \<and>
     (case n of RamDirNode _ es _ \<Rightarrow> (\<forall>name c. RBT.lookup es name = Some c \<longrightarrow> live s c) | _ \<Rightarrow> True)"

definition ram_inv :: "('x, 'a) ramfs_scheme \<Rightarrow> bool" where
  "ram_inv s \<longleftrightarrow> (\<exists>es mode. nodes s ROOT_INO = Some (RamDirNode ROOT_INO es mode)) \<and>
     (\<forall>r n. nodes s r = Some n \<longrightarrow> node_ok s r n)"

text \<open>A change that keeps the kind and number of every node, and only makes directories point to live nodes.\<close>

definition same_kind :: "'x ram_node \<Rightarrow> 'x ram_node \<Rightarrow> bool" where
  "same_kind n n' \<longleftrightarrow> node_ino n = node_ino n' \<and>
     (\<forall>ino es mode. n = RamDirNode ino es mode \<longrightarrow> (\<exists>es' mode'. n' = RamDirNode ino es' mode'))"

lemma ram_inv_update:
  assumes inv: "ram_inv s" and r: "nodes s r = Some n" and k: "same_kind n n'"
    and l: "\<And>ino es mode name c. n' = RamDirNode ino es mode \<Longrightarrow> RBT.lookup es name = Some c \<Longrightarrow> live s c"
    and s': "nodes s' = (nodes s)(r \<mapsto> n')" "next_ino s' = next_ino s"
  shows "ram_inv s'"
proof -
  have lv: "live s' c = live s c" for c using s'(1) r by (auto simp: live_def split: iref.split)
  have "node_ok s r n" using inv r by (simp add: ram_inv_def)
  then have "node_ok s' r n'"
    using k l s'(2) by (auto simp: node_ok_def same_kind_def lv split: ram_node.split)
  moreover have "node_ok s' r' m = node_ok s r' m" for r' m by (simp add: node_ok_def lv s'(2) split: ram_node.split)
  moreover have "\<exists>es mode. nodes s' ROOT_INO = Some (RamDirNode ROOT_INO es mode)"
    using inv r k s'(1) by (auto simp: ram_inv_def same_kind_def)
  ultimately show ?thesis using inv s'(1) by (auto simp: ram_inv_def)
qed

lemma ram_inv_alloc:
  assumes inv: "ram_inv s" and f: "node_ino (f (next_ino s)) = next_ino s"
    and e: "\<And>ino es mode. f (next_ino s) = RamDirNode ino es mode \<Longrightarrow> es = RBT.empty"
    and a: "alloc_node f s = (i, s')"
  shows "ram_inv s'" "i = Ram (next_ino s)" "live s' i" "live s c \<Longrightarrow> live s' c"
    "r < next_ino s \<Longrightarrow> nodes s' r = nodes s r" "nodes s r = Some n \<Longrightarrow> r < next_ino s"
proof -
  have s': "i = Ram (next_ino s)" "s' = s\<lparr>nodes := (nodes s)(next_ino s \<mapsto> f (next_ino s)), next_ino := next_ino s + 1\<rparr>"
    using a by (simp_all add: alloc_node_def)
  have lt: "nodes s r = Some n \<Longrightarrow> r < next_ino s" for r n using inv by (auto simp: ram_inv_def node_ok_def)
  have lv: "live s c \<Longrightarrow> live s' c" for c by (auto simp: live_def s'(2) split: iref.splits)
  have ok: "node_ok s' r n" if "node_ok s r n" for r n
    using that lv by (auto simp: node_ok_def s'(2) split: ram_node.splits)
  have "node_ok s' (next_ino s) (f (next_ino s))"
    using f e by (auto simp: node_ok_def s'(2) split: ram_node.split)
  moreover have "\<exists>es mode. nodes s' ROOT_INO = Some (RamDirNode ROOT_INO es mode)"
    using inv lt [of ROOT_INO] by (auto simp: ram_inv_def s'(2))
  ultimately show "ram_inv s'" using inv ok unfolding ram_inv_def by (auto simp: s'(2))
  show "live s' i" by (simp add: s' live_def)
  show "r < next_ino s \<Longrightarrow> nodes s' r = nodes s r" by (simp add: s'(2))
qed (use assms in \<open>auto simp: alloc_node_def ram_inv_def node_ok_def live_def split: iref.splits\<close>)

lemma put_dir_inv:
  assumes inv: "ram_inv s" and r: "nodes s r = Some (RamDirNode ino es mode)"
    and l: "\<And>name c. RBT.lookup es' name = Some c \<Longrightarrow> live s c"
  shows "ram_inv (put_dir r ino es' mode' s)"
proof (rule ram_inv_update [OF inv r])
  show "same_kind (RamDirNode ino es mode) (RamDirNode ino es' mode')" by (simp add: same_kind_def)
qed (use l in \<open>auto simp: put_dir_def\<close>)

lemma entries_live:
  "ram_inv s \<Longrightarrow> nodes s r = Some (RamDirNode ino es mode) \<Longrightarrow> RBT.lookup es name = Some c \<Longrightarrow> live s c"
  by (fastforce simp: ram_inv_def node_ok_def)

lemma new_child_inv:
  assumes inv: "ram_inv s" and r: "nodes s r = Some (RamDirNode ino es mode)"
    and f: "node_ino (f (next_ino s)) = next_ino s" "\<And>ino es mode. f (next_ino s) = RamDirNode ino es mode \<Longrightarrow> es = RBT.empty"
    and a: "alloc_node f s = (i, s1)"
  shows "ram_inv (put_dir r ino (RBT.insert name i es) mode s1)"
proof (rule put_dir_inv)
  note al = ram_inv_alloc [OF inv f a]
  show "ram_inv s1" by (rule al)
  show "nodes s1 r = Some (RamDirNode ino es mode)" using al(5,6) r by simp
  show "live s1 c" if "RBT.lookup (RBT.insert name i es) n = Some c" for n c
    using that al(3,4) entries_live [OF inv r] by (auto split: if_splits)
qed

lemma ram_inv_cells [simp]: "ram_inv (s\<lparr>cells := cs\<rparr>) = ram_inv s"
  by (simp add: ram_inv_def node_ok_def live_def cong: ram_node.case_cong iref.case_cong)

lemma ram_inv_next_cell [simp]: "ram_inv (s\<lparr>next_cell := k\<rparr>) = ram_inv s"
  by (simp add: ram_inv_def node_ok_def live_def cong: ram_node.case_cong iref.case_cong)

lemma put_file_inv:
  assumes "ram_inv s" "nodes s r = Some (RamFileNode ino bs mode)"
  shows "ram_inv (s\<lparr>nodes := (nodes s)(r \<mapsto> RamFileNode ino bs' mode')\<rparr>)"
  by (rule ram_inv_update [OF assms, of "RamFileNode ino bs' mode'"]) (simp_all add: same_kind_def)

lemma put_data_inv: "ram_inv s \<Longrightarrow> ram_inv (put_data r bs s)"
  by (simp add: put_data_def put_file_inv split: option.split ram_node.split)

lemma set_mode_inv: "ram_inv s \<Longrightarrow> ram_inv (set_mode r mode s)"
  using put_dir_inv [of s r] entries_live [of s r]
  by (auto simp: set_mode_def put_file_inv put_dir_def split: option.split ram_node.split)

text \<open>The steps of the file system: every operation of a live inode and of an open file.\<close>

inductive ram_step :: "('x, 'h, 'a) ram_ops \<Rightarrow> ('x, 'a) ramfs_scheme \<Rightarrow> ('x, 'a) ramfs_scheme \<Rightarrow> bool" for F where
  create: "ram_step F s (snd (ram_create F name (Ram r) s))"
| mkdir: "ram_step F s (snd (ram_mkdir F name (Ram r) s))"
| symlink: "ram_step F s (snd (ram_symlink F name target (Ram r) s))"
| unlink: "ram_step F s (snd (ram_unlink F name (Ram r) s))"
| rmdir: "ram_step F s (snd (ram_rmdir F name (Ram r) s))"
| take: "ram_step F s (snd (ram_take_child F name (Ram r) s))"
| insert: "live s i \<Longrightarrow> ram_step F s (snd (ram_insert_child F name i (Ram r) s))"
| chmod: "ram_step F s (snd (ram_chmod F mode (Ram r) s))"
| open_node: "ram_step F s (snd (ram_open F flags (Ram r) s))"
| read_file: "ram_step F s (snd (ram_file_read r c n s))"
| write_file: "ram_file_write r c buf s = Inr (k, s') \<Longrightarrow> ram_step F s s'"
| seek: "ram_step F s (snd (ram_file_seek r c off whence s))"

lemma ram_step_inv:
  assumes "ram_step F s s'" "ram_inv s"
  shows "ram_inv s'"
  using assms
proof cases
  case (create name r)
  then show ?thesis
    using assms(2) new_child_inv [OF assms(2), of r _ _ _ "\<lambda>k. RamFileNode k [] 0x1A4"]
    by (auto simp: ram_create_def on_dir_def split: option.splits ram_node.splits prod.splits)
next
  case (mkdir name r)
  then show ?thesis
    using assms(2) new_child_inv [OF assms(2), of r _ _ _ "\<lambda>k. RamDirNode k RBT.empty 0x1ED"]
    by (auto simp: ram_mkdir_def on_dir_def split: option.splits ram_node.splits prod.splits)
next
  case (symlink name target r)
  then show ?thesis
    using assms(2) new_child_inv [OF assms(2), of r _ _ _ "\<lambda>k. RamSymlinkNode k target"]
    by (auto simp: ram_symlink_def on_dir_def split: option.splits ram_node.splits prod.splits)
next
  case (unlink name r)
  then show ?thesis
    using assms(2) entries_live [OF assms(2)]
    by (auto simp: ram_unlink_def on_dir_def intro!: put_dir_inv split: option.splits ram_node.splits if_splits)
next
  case (rmdir name r)
  then show ?thesis
    using assms(2) entries_live [OF assms(2)]
    by (auto simp: ram_rmdir_def on_dir_def intro!: put_dir_inv split: option.splits ram_node.splits sum.splits if_splits)
next
  case (take name r)
  then show ?thesis
    using assms(2) entries_live [OF assms(2)]
    by (auto simp: ram_take_child_def on_dir_def intro!: put_dir_inv split: option.splits ram_node.splits if_splits)
next
  case (insert i name r)
  then show ?thesis
    using assms(2) entries_live [OF assms(2)]
    by (auto simp: ram_insert_child_def on_dir_def intro!: put_dir_inv split: option.splits ram_node.splits if_splits)
next
  case (chmod mode r)
  then show ?thesis using assms(2) by (simp add: ram_chmod_def set_mode_inv)
next
  case (open_node flags r)
  then show ?thesis
    using assms(2) put_file_inv [OF assms(2), of r]
    by (auto simp: ram_open_def Let_def split: option.splits ram_node.splits)
next
  case (read_file r c n)
  then show ?thesis using assms(2) by (auto simp: ram_file_read_def Let_def intro: ram_inv_cells)
next
  case (write_file r c buf k)
  then show ?thesis
    using put_data_inv [OF assms(2)] by (auto simp: ram_file_write_def Let_def bindR_eq_Inr split: if_splits)
next
  case (seek r c off whence)
  then show ?thesis
    using assms(2) by (auto simp: ram_file_seek_def intro: ram_inv_cells split: sum.splits)
qed


definition plain_ops :: "(unit, unit, unit) ram_ops" where
  "plain_ops = inode_defaults (\<lambda>_ _. stat_chardev 0) (\<lambda>_ _ s. (Inl EINVAL, s))"

definition sample_tree :: "unit ramfs" where
  "sample_tree = snd (ram_create plain_ops ''f'' (Ram 2) (snd (ram_mkdir plain_ops ''d'' (Ram 1) ramfs_new)))"

lemma sample_tree_reachable: "(ram_step plain_ops)\<^sup>*\<^sup>* ramfs_new sample_tree"
  unfolding sample_tree_def
  by (rule converse_rtranclp_into_rtranclp [OF ram_step.mkdir r_into_rtranclp [of "ram_step plain_ops", OF ram_step.create]])


section \<open>File contents\<close>

definition overwrite :: "u8 list \<Rightarrow> nat \<Rightarrow> u8 list \<Rightarrow> nat \<Rightarrow> u8" where
  "overwrite bs off buf i =
     (if off \<le> i \<and> i < off + length buf then buf ! (i - off) else if i < length bs then bs ! i else 0)"

lemma write_splice:
  assumes "e = off + length buf"
  shows "take off (bs @ replicate (e - length bs) 0) @ buf @ drop e (bs @ replicate (e - length bs) 0) =
    map (overwrite bs off buf) [0 ..< max (length bs) e]" (is "?l = ?r")
proof (rule nth_equalityI)
  have len: "off \<le> length (bs @ replicate (e - length bs) (0 :: u8))" using assms by simp
  show "length ?l = length ?r" using assms by simp
  fix i assume i: "i < length ?l"
  then have i': "i < max (length bs) e" using assms by simp
  show "?l ! i = ?r ! i"
    using assms i' len by (auto simp: overwrite_def nth_append min_def)
qed

text \<open>
  C36. Writing to an open file of the in-memory file system overwrites exactly the bytes from its position on, fills
  a gap behind the old end with zeroes, advances the position and touches no other inode. Any handle of that file,
  its own position set back to where the write began, then reads exactly the bytes written; a duplicated handle
  has the same position.
\<close>

theorem ramfs_write_then_read:
  assumes f: "nodes s r = Some (RamFileNode ino bs mode)" and off: "cells s c = off" "off + length buf < 2 ^ 63"
  shows "\<exists>s1. ram_file_write r c buf s = Inr (length buf, s1) \<and> cells s1 c = off + length buf \<and>
    file_data s1 r = map (overwrite bs off buf) [0 ..< max (length bs) (off + length buf)] \<and>
    (\<forall>r'. r' \<noteq> r \<longrightarrow> nodes s1 r' = nodes s r') \<and>
    (\<exists>s2 s3. ram_file_seek r c' (int off) 0 s1 = (Inr (int off), s2) \<and> ram_file_read r c' (length buf) s2 = (buf, s3)) \<and>
    ram_handle_dup (RamFileHandle r c) = Some (RamFileHandle r c)"
proof -
  define d where "d = map (overwrite bs off buf) [0 ..< max (length bs) (off + length buf)]"
  define s1 where "s1 = (put_data r d s)\<lparr>cells := (cells s)(c := off + length buf)\<rparr>"
  have fd: "file_data s r = bs" using f by (simp add: file_data_def)
  have a: "add64 off (length buf) = Inr (off + length buf)" using off(2) by (intro add64_ok) simp
  have "ram_file_write r c buf s = Inr (length buf, s1)"
    unfolding ram_file_write_def Let_def fd off(1) a bindR_Inr write_splice [OF refl] d_def [symmetric] s1_def
    using off(2) by simp
  moreover have fd1: "file_data s1 r = d" using f by (simp add: s1_def put_data_def file_data_def)
  moreover have "nodes s1 r' = nodes s r'" if "r' \<noteq> r" for r' using f that by (simp add: s1_def put_data_def)
  moreover have "\<exists>s2 s3. ram_file_seek r c' (int off) 0 s1 = (Inr (int off), s2) \<and>
      ram_file_read r c' (length buf) s2 = (buf, s3)"
  proof -
    have "compute_seek (int (cells s1 c')) (int (length (file_data s1 r))) (int off) 0 = Inr (int off)"
      using off(2) by (simp add: compute_seek_def)
    then have sk: "ram_file_seek r c' (int off) 0 s1 = (Inr (int off), s1\<lparr>cells := (cells s1)(c' := off)\<rparr>)"
      by (simp add: ram_file_seek_def)
    have fd2: "file_data (s1\<lparr>cells := (cells s1)(c' := off)\<rparr>) r = d" using fd1 by (simp add: file_data_def)
    have "take (length buf) (drop off d) = buf"
    proof (rule nth_equalityI)
      show "length (take (length buf) (drop off d)) = length buf" by (simp add: d_def)
    qed (auto simp: d_def overwrite_def)
    moreover have "length d = max (length bs) (off + length buf)" by (simp add: d_def)
    ultimately have "fst (ram_file_read r c' (length buf) (s1\<lparr>cells := (cells s1)(c' := off)\<rparr>)) = buf"
      by (auto simp: ram_file_read_def Let_def fd2)
    with sk show ?thesis by (metis prod.collapse)
  qed
  ultimately show ?thesis by (auto simp: d_def s1_def ram_handle_dup_def)
qed

definition sample_file :: "unit ramfs" where
  "sample_file =
     \<lparr>nodes = [5 \<mapsto> RamFileNode 5 [1, 2, 3] 0x1A4], next_ino = 6, cells = (\<lambda>_. 0)(0 := 5), next_cell = 2\<rparr>"

theorem ramfs_write_then_read_witness:
  "\<exists>s1. ram_file_write 5 0 [9, 8] sample_file = Inr (2, s1) \<and> file_data s1 5 = [1, 2, 3, 0, 0, 9, 8] \<and>
     (\<exists>s2 s3. ram_file_seek 5 1 5 0 s1 = (Inr 5, s2) \<and> ram_file_read 5 1 2 s2 = ([9, 8], s3))"
proof -
  have f: "nodes sample_file 5 = Some (RamFileNode 5 [1, 2, 3] 0x1A4)" "cells sample_file 0 = 5"
    by (simp_all add: sample_file_def)
  have m: "map (overwrite [1, 2, 3] 5 [9, 8]) [0 ..< max (length [1, 2, 3 :: u8]) (5 + length [9, 8 :: u8])] =
      [1, 2, 3, 0, 0, 9, 8]" by code_simp
  have l: "length [9, 8 :: u8] = 2" by simp
  have "5 + length [9, 8 :: u8] < 2 ^ 63" by simp
  from ramfs_write_then_read [OF f this, of 1] show ?thesis unfolding m unfolding l of_nat_numeral by blast
qed

section \<open>Where links and renames go wrong\<close>

definition tmp_mounts :: "(unit iref, unit ramfs) mount_table" where
  "tmp_mounts = mount_fs ''/tmp'' ramfs_root []"

definition tmp_ops :: "(unit, unit, unit) ram_ops" where
  "tmp_ops = ramfs_ops plain_ops"

text \<open>
  A directory with a file, a link to the directory and a link to that link: \<^verbatim>\<open>/tmp/l\<close> to \<^verbatim>\<open>/tmp/m\<close> to \<^verbatim>\<open>/tmp/d\<close>, where \<^verbatim>\<open>/tmp/d/f\<close>
  exists.
\<close>

definition link_chain :: "unit ramfs" where
  "link_chain =
     snd (vfs_symlink tmp_ops tmp_mounts ''/tmp/d'' ''/tmp/m'' (snd (vfs_symlink tmp_ops tmp_mounts ''/tmp/m'' ''/tmp/l''
       (snd (vfs_mkdir tmp_ops tmp_mounts ''/tmp/d/f'' (snd (vfs_mkdir tmp_ops tmp_mounts ''/tmp/d'' ramfs_new)))))))"


text \<open>
  A directory can be renamed into its own subtree. The call succeeds and detaches the whole subtree from the root.
\<close>

definition nested_dirs :: "unit ramfs" where
  "nested_dirs = snd (vfs_mkdir tmp_ops tmp_mounts ''/tmp/a/b'' (snd (vfs_mkdir tmp_ops tmp_mounts ''/tmp/a'' ramfs_new)))"

lemma rename_into_own_subtree:
  "fst (vfs_rename tmp_ops tmp_mounts ''/tmp/a'' ''/tmp/a/b/c'' nested_dirs) = Inr () \<and>
   resolve tmp_ops tmp_mounts ''/tmp/a'' (snd (vfs_rename tmp_ops tmp_mounts ''/tmp/a'' ''/tmp/a/b/c'' nested_dirs)) = Inl ENOENT"
  by code_simp

text \<open>
  A directory of the in-memory file system accepts an inode of any other file system, so a rename from another one
  succeeds as soon as that one gives up the entry.
\<close>

lemma insert_foreign_node:
  assumes "nodes s r = Some (RamDirNode ino es mode)" "RBT.lookup es name = None"
  shows "op_insert_child (ramfs_ops F) name (Foreign x) (Ram r) s =
    (Inr (), put_dir r ino (RBT.insert name (Foreign x) es) mode s)"
  using assms by (simp add: ramfs_ops_def ram_insert_child_def on_dir_def)

theorem vfs_rename_atomic_witness:
  "\<exists>s'. vfs_rename tmp_ops tmp_mounts ''/tmp/a/b'' ''/tmp/c'' nested_dirs = (Inr (), s') \<and>
     entry_at (dir_ents s') (Ram 1) ''c'' = Some (Ram 3) \<and> entry_at (dir_ents s') (Ram 2) ''b'' = None"
proof -
  obtain r s' where rn: "vfs_rename tmp_ops tmp_mounts ''/tmp/a/b'' ''/tmp/c'' nested_dirs = (r, s')"
    by (cases "vfs_rename tmp_ops tmp_mounts ''/tmp/a/b'' ''/tmp/c'' nested_dirs")
  have ops: "tmp_ops = ramfs_ops (inode_defaults (\<lambda>_ _. stat_chardev 0) (\<lambda>_ _ s. (Inl EINVAL, s)))"
    by (simp add: tmp_ops_def plain_ops_def)
  have sp: "split_parent ''/tmp/a/b'' = Inr (''/tmp/a'', ''b'')" "split_parent ''/tmp/c'' = Inr (''/tmp'', ''c'')"
    by code_simp+
  have rs: "resolve tmp_ops tmp_mounts ''/tmp/a'' nested_dirs = Inr (Ram 2)"
    "resolve tmp_ops tmp_mounts ''/tmp'' nested_dirs = Inr (Ram 1)" by code_simp+
  have "fst (vfs_rename tmp_ops tmp_mounts ''/tmp/a/b'' ''/tmp/c'' nested_dirs) = Inr ()" by code_simp
  then have r: "r = Inr ()" using rn by simp
  have e: "entry_at (dir_ents nested_dirs) (Ram 2) ''b'' = Some (Ram 3)" by code_simp
  from vfs_rename_atomic [OF sp rs [unfolded ops] rn [unfolded ops]] e
  have "entry_at (dir_ents s') (Ram 1) ''c'' = Some (Ram 3)" "entry_at (dir_ents s') (Ram 2) ''b'' = None"
    unfolding r by auto
  with rn r show ?thesis by blast
qed

end
