(* ===== verification/Spec2Isabelle.thy ===== *)
theory Spec2Isabelle
  imports Heap Vma Pipe Channel Cow_Fork Ext2_Adapter_Props Rtc Keyboard Mouse Pit Ramfs_Props
begin

text \<open>
  A verification development for ConstanOS, the x86-64 kernel under \<^verbatim>\<open>src/kernel\<close>, with its hardware
  abstraction crate \<^verbatim>\<open>src/hal\<close> and its file-system crate \<^verbatim>\<open>src/ext2\<close>. Paths below are relative to
  \<^verbatim>\<open>src/\<close>, and to \<^verbatim>\<open>src/kernel/src/\<close> where they name no crate.

  \<^bold>\<open>The program.\<close> Physical memory is managed by a buddy allocator, the kernel heap by slab caches over it. A process has
  an address space (a table of areas, page tables, copy-on-write frames), a register image, pending signals and open
  files; the scheduler keeps processes in run queues by priority and in a wait queue, switches between them on timer
  interrupts and system calls, and wakes those blocked on children, futexes, timers, pipes and channels. Paths are
  resolved by a virtual file system over mounted file systems, of which one lives in memory and one on an ext2 disk.
  Device protocols (clock, keyboard, mouse, timer) are separated from the ports they use.

  \<^bold>\<open>How it is modelled.\<close> Functions are HOL functions; state is a record passed along and returned; Rust structs are
  records and enums are datatypes with the names of the source. The profile is the one the build uses, with overflow
  checks and debug assertions: a panic is the value \<open>Inl Panic\<close> of \<open>'a res\<close> (\<open>Prelude\<close>), on every branch where
  the code can panic. Bytes and registers are words; wider integers are naturals or integers with the bound and the
  wrap-around written out. A pointer is an address of a byte memory (allocators), a frame number (paging) or a key of
  a store (inodes, channels). A call that may fail returns a sum. What lies outside the sources appears as an
  argument: the page-mapper of the \<^verbatim>\<open>x86_64\<close> crate with its documented behaviour as named hypotheses, the ports of
  a device as a record of operations, the other mounted file systems as a record of inode operations.

  \<^bold>\<open>Memory\<close>
  \<^item> \<open>Prelude\<close>, \<open>Bytes\<close>: results, checked arithmetic, intrusive lists, byte memories, little-endian integers.
  \<^item> \<open>Phys_Iface\<close>: the contract of a physical allocator, the locale the heap is proved against.
  \<^item> \<open>Buddy\<close> (\<^verbatim>\<open>allocator/buddy_allocator.rs\<close>): free lists threaded through free blocks and the bitmap, as bytes of
    memory. Allocation and release keep the invariant, hand out aligned blocks, free exactly what was held, stay
    maximally coalesced, and over any interleaving keep the blocks of all holders disjoint. The interpretation
    \<open>buddy_phys\<close> gives the contract.
  \<^item> \<open>Slab\<close>, \<open>Heap\<close> (\<^verbatim>\<open>allocator/slab.rs\<close>): the caches, proved in the locale \<open>slab_backend\<close> and interpreted on
    the buddy allocator: memory safety of the heap, what allocation and release do.
  \<^item> \<open>Vma\<close> (\<^verbatim>\<open>memory/vma.rs\<close> and the area operations of \<^verbatim>\<open>memory/address_space.rs\<close>): lookup, insertion and
    removal against the set of covered addresses, stack growth, anonymous mappings.
  \<^item> \<open>Cow\<close>, \<open>Cow_Inv\<close>, \<open>Cow_Props\<close>, \<open>Cow_Fork\<close> (\<^verbatim>\<open>memory/cow.rs\<close>, \<^verbatim>\<open>demand_paging.rs\<close>,
    \<^verbatim>\<open>page_table_manager.rs\<close>, \<^verbatim>\<open>address_space.rs\<close>): reference counts, faults and \<^verbatim>\<open>fork\<close>; a
    write fault isolates the writer, and a child reads the memory of its parent.

  \<^bold>\<open>Processes\<close>
  \<^item> \<open>Process\<close>, \<open>Machine\<close>, \<open>Signal\<close>, \<open>HrTimer\<close>, \<open>Waiters\<close> (\<^verbatim>\<open>process/mod.rs\<close>, \<^verbatim>\<open>trapframe.rs\<close>,
    \<^verbatim>\<open>fpu.rs\<close>, \<^verbatim>\<open>tss.rs\<close>, \<^verbatim>\<open>signal.rs\<close>, \<^verbatim>\<open>time/hrtimer.rs\<close>): processes, the processor state a
    switch moves, delivery of signals and the frame on the user stack (delivery and return are inverse), the timer
    queue, the tables of waiters.
  \<^item> \<open>Scheduler\<close>, \<open>Sched_Inv\<close>, \<open>Sched_Aging\<close>, \<open>Sched_Props\<close> (\<^verbatim>\<open>process/scheduler.rs\<close>): every operation;
    the invariant over any sequence of them; what a switch does; aging against a direct definition.
  \<^item> \<open>Syscalls\<close>, \<open>Sys_Inv\<close>, \<open>Sys_Props\<close> (\<^verbatim>\<open>process/syscall/process_ctl.rs\<close>, \<^verbatim>\<open>signal.rs\<close>,
    \<^verbatim>\<open>sync.rs\<close>, \<^verbatim>\<open>timer_preempt.rs\<close>): the calls on processes, signals and futexes; no sequence of calls, faults
    and interrupts breaks the scheduler; futex wake-ups; what goes wrong with dead children and signal return.
  \<^item> \<open>Ring\<close>, \<open>Pipe\<close>, \<open>Channel\<close> (\<^verbatim>\<open>process/pipe.rs\<close>, \<^verbatim>\<open>ipc/channel.rs\<close>, \<^verbatim>\<open>syscall/ipc.rs\<close>): the
    locales \<open>stream_buffer\<close> and \<open>bounded_queue\<close> (a queue is a stream), interpreted on the pipe buffer and on
    channels; pipes as byte streams, channels as message queues, and how a blocked peer loses bytes.

  \<^bold>\<open>Files\<close>
  \<^item> \<open>File_Types\<close>, \<open>Fs_Types\<close> (\<^verbatim>\<open>process/file.rs\<close>, \<^verbatim>\<open>fs/types.rs\<close>): seek arithmetic, error numbers, the
    metadata record, directory records; a listing is delivered as the longest prefix that fits.
  \<^item> \<open>Vfs\<close> (\<^verbatim>\<open>fs/vfs.rs\<close>): paths, mounts, resolution with symbolic links, operations on paths over the record
    \<open>vfs_ops\<close>; the laws of normalisation; the locale \<open>inode_dir\<close> of directories, in which renaming is proved atomic.
  \<^item> \<open>Ramfs\<close>, \<open>Ramfs_Props\<close> (\<^verbatim>\<open>fs/ramfs.rs\<close>): the in-memory file system, an interpretation of that locale: its
    store stays well formed, renames are atomic, writes are read back.
  \<^item> \<open>Ext2_Format\<close>, \<open>Ext2_Volume\<close>, \<open>Ext2_Dir\<close>, \<open>Ext2_Repair\<close> (the \<^verbatim>\<open>ext2\<close> crate and \<^verbatim>\<open>hal/src/block.rs\<close>):
    formats, volume, directories and links, mount-time repair, byte for byte over a disk. \<open>Ext2_Blocks\<close>,
    \<open>Ext2_Alloc\<close>, \<open>Ext2_Tree\<close>, \<open>Ext2_Index\<close>, \<open>Ext2_Grow\<close>, \<open>Ext2_File\<close>, \<open>Ext2_Props\<close>: block allocation refines a
    set of used blocks, and a file, through its direct and indirect blocks, refines a sparse array of bytes.
  \<^item> \<open>Ext2_Adapter\<close>, \<open>Ext2_Adapter_Props\<close> (\<^verbatim>\<open>fs/ext2.rs\<close>): the inode operations and open files of the kernel over
    the crate; its own allocators equal the crate's, a write through a descriptor is read back, and two writers of
    one file lose data.

  \<^bold>\<open>Devices\<close>
  \<^item> \<open>Port_Io\<close> (\<^verbatim>\<open>hal/src/lib.rs\<close>): the ports as a record of operations, with the mock and scripted instances.
  \<^item> \<open>Rtc\<close> (\<^verbatim>\<open>hal/src/rtc.rs\<close>): the seconds returned are those of the date shown, in every encoding.
  \<^item> \<open>Keyboard\<close>, \<open>Mouse\<close>, \<open>Pit\<close> (\<^verbatim>\<open>hal/src/keyboard.rs\<close>, \<^verbatim>\<open>mouse.rs\<close>, \<^verbatim>\<open>pit.rs\<close>): the decoders against
    the log of events and the packets, start-up sequences, the divisor of the timer.

  \<^bold>\<open>Loops and bounds.\<close> Loops are structural recursion or functions with a measure. \<open>count_blocks\<close> of \<open>Buddy\<close>
  walks a list in memory that might be a cycle and is a partial function; it is proved to return from every state of
  the invariant. Loops that the code bounds keep that bound: 4096 nodes in the unlinking of a free block, eight
  symbolic links, 1000 attempts of the clock, 100000 polls of the mouse, the depth limit of the repair walk. No other
  fuel is used. Where a property needs room to compute (a volume below 4 KiB blocks, ranges below $2^{32}$ blocks,
  addresses below $2^{52}$) the bound is a hypothesis and the reason is with the property.

  \<^bold>\<open>Not modelled.\<close> Locks and interrupts inside an operation: an operation is one step, which is what the locks and the
  interrupt guards of the code provide for the parts modelled (the places where lock orders differ are recorded as
  findings). Assembly stubs, descriptor tables, the ATA, audio, PCI and ACPI drivers, the framebuffer and serial
  consoles: hardware access with no logic that the kernel's correctness rests on beyond the seams modelled. The
  device, process and initial file systems and the file system calls: text formatting and copying between user memory
  and the operations modelled. The descriptor table and the trait defaults of \<^verbatim>\<open>process/file.rs\<close>, the ELF loader,
  and the readiness tests of poll: only the parts other components use are modelled. Start-up, diagnostics, tests, user
  programs, ports of foreign software and build scripts are outside the development.
\<close>

end
